(* ===== verification/Fips_Prelude.thy ===== *)
theory Fips_Prelude
  imports Main "HOL-Library.Word"
begin

text \<open>
  Shared vocabulary of the development: the machine integers of the Rust sources as fixed-width
  words, the standard library's saturating and checked arithmetic, byte buffers with the
  bounds-checked accesses of Rust slices (an access out of range is a \<open>Panic\<close>), little-endian
  and big-endian integer encodings, and the interfaces several components share: a machine that
  keeps an invariant under all its operations, and a codec with a round-trip law.
  Integer \<open>+\<close> on words wraps, as it does in the release profile the repository ships.
\<close>

unbundle bit_operations_syntax

named_theorems codec_simps \<open>evaluation of slice reads over concatenated encodings\<close>
named_theorems word_nat_simps \<open>unsigned values of word operations\<close>

section \<open>Machine integers\<close>

type_synonym u8 = "8 word"
type_synonym u16 = "16 word"
type_synonym u32 = "32 word"
type_synonym u64 = "64 word"
type_synonym bytes = "8 word list"

text \<open>\<^verbatim>\<open>Instant\<close> and \<^verbatim>\<open>Duration\<close> are counted in nanoseconds since an arbitrary origin. The
  standard library's \<open>duration_since\<close> and \<open>saturating_duration_since\<close> give zero when the argument
  is later, which is subtraction on \<open>nat\<close>.\<close>

type_synonym instant = nat
type_synonym duration = nat

definition from_secs :: "nat \<Rightarrow> duration" where
  "from_secs s = s * 1000000000"

definition from_millis :: "nat \<Rightarrow> duration" where
  "from_millis ms = ms * 1000000"

definition duration_since :: "instant \<Rightarrow> instant \<Rightarrow> duration" where
  "duration_since later earlier = later - earlier"

definition saturating_add :: "'a::len word \<Rightarrow> 'a word \<Rightarrow> 'a word" where
  "saturating_add a b = (if unat a + unat b < 2 ^ LENGTH('a) then a + b else - 1)"

definition saturating_sub :: "'a::len word \<Rightarrow> 'a word \<Rightarrow> 'a word" where
  "saturating_sub a b = (if b \<le> a then a - b else 0)"

definition saturating_mul :: "'a::len word \<Rightarrow> 'a word \<Rightarrow> 'a word" where
  "saturating_mul a b = (if unat a * unat b < 2 ^ LENGTH('a) then a * b else - 1)"

definition checked_add :: "'a::len word \<Rightarrow> 'a word \<Rightarrow> 'a word option" where
  "checked_add a b = (if unat a + unat b < 2 ^ LENGTH('a) then Some (a + b) else None)"

lemma unat_less_exp: "unat (a :: 'a::len word) < 2 ^ LENGTH('a)"
  by (rule unsigned_less)

lemma unat_minus_one_word_eq: "unat (- 1 :: 'a::len word) = 2 ^ LENGTH('a) - 1"
  by (simp add: unsigned_minus_1_eq_mask mask_eq_exp_minus_1)

lemma unat_add_exact:
  "unat a + unat b < 2 ^ LENGTH('a) \<Longrightarrow> unat (a + b) = unat a + unat (b :: 'a::len word)"
  by (simp add: unat_word_ariths)

lemma unat_plus_one: "a \<noteq> - 1 \<Longrightarrow> unat (a + 1) = Suc (unat (a :: 'a::len word))"
proof -
  assume "a \<noteq> - 1"
  then have "unat a \<noteq> 2 ^ LENGTH('a) - 1"
    by (simp add: word_unat_eq_iff unat_minus_one_word_eq)
  then have "Suc (unat a) < 2 ^ LENGTH('a)" using unat_less_exp [of a] by linarith
  then show ?thesis by (subst unat_add_exact) simp_all
qed

lemma unat_mult_exact:
  "unat a * unat b < 2 ^ LENGTH('a) \<Longrightarrow> unat (a * b) = unat a * unat (b :: 'a::len word)"
  by (simp add: unat_word_ariths)

lemma unat_saturating_add [word_nat_simps]:
  "unat (saturating_add a b) = min (unat a + unat b) (2 ^ LENGTH('a) - 1)"
  for a b :: "'a::len word"
  by (auto simp: saturating_add_def unat_add_exact unat_minus_one_word_eq min_def)

lemma unat_saturating_sub [word_nat_simps]:
  "unat (saturating_sub a b) = unat a - unat b" for a b :: "'a::len word"
  by (auto simp: saturating_sub_def unat_sub word_le_nat_alt)

lemma unat_saturating_mul [word_nat_simps]:
  "unat (saturating_mul a b) = min (unat a * unat b) (2 ^ LENGTH('a) - 1)"
  for a b :: "'a::len word"
proof (cases "unat a * unat b < 2 ^ LENGTH('a)")
  case True
  then show ?thesis by (simp add: saturating_mul_def unat_mult_exact min_absorb1)
next
  case False
  then show ?thesis by (simp add: saturating_mul_def unat_minus_one_word_eq min_absorb2)
qed

lemma checked_add_Some [word_nat_simps]:
  "checked_add a b = Some c \<longleftrightarrow> unat a + unat b < 2 ^ LENGTH('a) \<and> c = a + b"
  for a b :: "'a::len word"
  by (auto simp: checked_add_def)

lemma saturating_add_mono: "a \<le> saturating_add a b" for a b :: "'a::len word"
proof -
  have "unat a \<le> 2 ^ LENGTH('a) - 1" using unat_less_exp [of a] by linarith
  then show ?thesis by (simp add: word_le_nat_alt unat_saturating_add)
qed

lemma unat_div_numeral [word_nat_simps]:
  "unat (a div numeral n) = unat a div unat (numeral n :: 'a::len word)" for a :: "'a::len word"
  by (simp add: unat_div_distrib)

lemma unat_mod_numeral [word_nat_simps]:
  "unat (a mod numeral n) = unat a mod unat (numeral n :: 'a::len word)" for a :: "'a::len word"
  by (simp add: unat_mod_distrib)

lemma unat_sub_le [word_nat_simps]: "b \<le> a \<Longrightarrow> unat (a - b) = unat a - unat (b :: 'a::len word)"
  by (simp add: unat_sub)

lemma and_exp_eq_0: "a AND 2 ^ n = 0 \<longleftrightarrow> \<not> bit (a :: 'a::len word) n"
proof -
  have eq: "bit (a AND 2 ^ n) m \<longleftrightarrow> bit a m \<and> m = n" for m
    by (auto simp: bit_and_iff bit_exp_iff dest: bit_imp_le_length)
  show ?thesis
  proof
    assume "a AND 2 ^ n = 0"
    then show "\<not> bit a n" using eq [of n] by simp
  next
    assume "\<not> bit a n"
    then show "a AND 2 ^ n = 0" by (intro bit_word_eqI) (auto simp: eq)
  qed
qed

section \<open>Fallible code\<close>

text \<open>A Rust function of type \<^verbatim>\<open>Result<T, E>\<close> returns \<open>Ok\<close> or \<open>Err\<close>; an out-of-range index, a
  failed \<open>expect\<close> or \<open>unwrap\<close> is \<open>Panic\<close>, which no caller can handle.\<close>

datatype ('e, 'a) outcome = Ok 'a | Err 'e | Panic

fun obind :: "('e, 'a) outcome \<Rightarrow> ('a \<Rightarrow> ('e, 'b) outcome) \<Rightarrow> ('e, 'b) outcome" where
  "obind (Ok x) f = f x"
| "obind (Err e) f = Err e"
| "obind Panic f = Panic"

fun omap_err :: "('e \<Rightarrow> 'f) \<Rightarrow> ('e, 'a) outcome \<Rightarrow> ('f, 'a) outcome" where
  "omap_err g (Ok x) = Ok x"
| "omap_err g (Err e) = Err (g e)"
| "omap_err g Panic = Panic"

lemma obind_Ok: "obind m f = Ok y \<longleftrightarrow> (\<exists>x. m = Ok x \<and> f x = Ok y)"
  by (cases m) auto

lemma obind_no_panic: "m \<noteq> Panic \<Longrightarrow> (\<And>x. m = Ok x \<Longrightarrow> f x \<noteq> Panic) \<Longrightarrow> obind m f \<noteq> Panic"
  by (cases m) auto

lemma omap_err_Ok [simp]: "omap_err g m = Ok x \<longleftrightarrow> m = Ok x"
  by (cases m) auto

lemma omap_err_Panic [simp]: "omap_err g m = Panic \<longleftrightarrow> m = Panic"
  by (cases m) auto

section \<open>Byte buffers\<close>

definition index_at :: "'b list \<Rightarrow> nat \<Rightarrow> ('e, 'b) outcome" where
  "index_at bs i = (if i < length bs then Ok (bs ! i) else Panic)"

definition slice :: "'b list \<Rightarrow> nat \<Rightarrow> nat \<Rightarrow> ('e, 'b list) outcome" where
  "slice bs i j = (if i \<le> j \<and> j \<le> length bs then Ok (take (j - i) (drop i bs)) else Panic)"

definition slice_from :: "'b list \<Rightarrow> nat \<Rightarrow> ('e, 'b list) outcome" where
  "slice_from bs i = (if i \<le> length bs then Ok (drop i bs) else Panic)"

definition store_at :: "'b list \<Rightarrow> nat \<Rightarrow> 'b \<Rightarrow> ('e, 'b list) outcome" where
  "store_at bs i v = (if i < length bs then Ok (bs[i := v]) else Panic)"

definition copy_into :: "'b list \<Rightarrow> nat \<Rightarrow> 'b list \<Rightarrow> ('e, 'b list) outcome" where
  "copy_into bs i vs =
     (if i + length vs \<le> length bs then Ok (take i bs @ vs @ drop (i + length vs) bs) else Panic)"

lemma obind_cong [fundef_cong]:
  "m = m' \<Longrightarrow> (\<And>x. m' = Ok x \<Longrightarrow> f x = f' x) \<Longrightarrow> obind m f = obind m' f'"
  by (cases m') auto

lemma copy_into_two: "i + 1 < length bs \<Longrightarrow> copy_into bs i [a, b] = Ok (bs[i := a, i + 1 := b])"
  by (auto simp: copy_into_def list_eq_iff_nth_eq nth_append nth_list_update
      intro!: arg_cong [where f = "(!) bs"])

lemma store_at_copy: "store_at bs i v = copy_into bs i [v]"
  by (auto simp: store_at_def copy_into_def upd_conv_take_nth_drop)

lemma copy_into_skip:
  "length xs \<le> i \<Longrightarrow> copy_into (xs @ ys) i vs = obind (copy_into ys (i - length xs) vs) (\<lambda>r. Ok (xs @ r))"
  by (auto simp: copy_into_def)

lemma copy_into_here: "length xs = length vs \<Longrightarrow> copy_into (xs @ ys) 0 vs = Ok (vs @ ys)"
  by (simp add: copy_into_def)

lemma copy_into_all: "length xs = length vs \<Longrightarrow> copy_into xs 0 vs = Ok vs"
  by (simp add: copy_into_def)

lemma slice_Ok: "i \<le> j \<Longrightarrow> j \<le> length bs \<Longrightarrow> slice bs i j = Ok (take (j - i) (drop i bs))"
  by (simp add: slice_def)

lemma slice_from_Ok: "i \<le> length bs \<Longrightarrow> slice_from bs i = Ok (drop i bs)"
  by (simp add: slice_from_def)

lemma slice_append_skip [codec_simps]:
  "length xs \<le> i \<Longrightarrow> i \<le> j \<Longrightarrow> slice (xs @ ys) i j = slice ys (i - length xs) (j - length xs)"
  by (auto simp: slice_def)

lemma slice_append_here [codec_simps]: "j = length xs \<Longrightarrow> slice (xs @ ys) 0 j = Ok xs"
  by (simp add: slice_def)

lemma slice_all [codec_simps]: "j = length xs \<Longrightarrow> slice xs 0 j = Ok xs"
  by (simp add: slice_def)

lemma slice_Cons_skip [codec_simps]:
  "0 < i \<Longrightarrow> i \<le> j \<Longrightarrow> slice (x # ys) i j = slice ys (i - 1) (j - 1)"
  by (cases i; cases j) (auto simp: slice_def)

lemma slice_from_append_skip [codec_simps]:
  "length xs \<le> i \<Longrightarrow> slice_from (xs @ ys) i = slice_from ys (i - length xs)"
  by (auto simp: slice_from_def)

lemma slice_from_0 [codec_simps]: "slice_from xs 0 = Ok xs"
  by (simp add: slice_from_def)

lemma slice_from_Cons_skip [codec_simps]:
  "0 < i \<Longrightarrow> slice_from (x # ys) i = slice_from ys (i - 1)"
  by (cases i) (auto simp: slice_from_def)

lemma index_at_Cons_0 [codec_simps]: "index_at (x # xs) 0 = Ok x"
  by (simp add: index_at_def)

lemma index_at_Cons_skip [codec_simps]: "0 < i \<Longrightarrow> index_at (x # xs) i = index_at xs (i - 1)"
  by (cases i) (auto simp: index_at_def)

lemma index_at_append_skip [codec_simps]:
  "length xs \<le> i \<Longrightarrow> index_at (xs @ ys) i = index_at ys (i - length xs)"
  by (auto simp: index_at_def nth_append)

lemma index_at_append_here [codec_simps]:
  "i < length xs \<Longrightarrow> index_at (xs @ ys) i = index_at xs i"
  by (auto simp: index_at_def nth_append)

section \<open>Integer encodings\<close>

primrec to_le :: "nat \<Rightarrow> 'a::len word \<Rightarrow> bytes" where
  "to_le 0 w = []"
| "to_le (Suc n) w = ucast w # to_le n (drop_bit 8 w)"

primrec of_le :: "bytes \<Rightarrow> 'a::len word" where
  "of_le [] = 0"
| "of_le (b # bs) = ucast b OR push_bit 8 (of_le bs)"

definition to_be :: "nat \<Rightarrow> 'a::len word \<Rightarrow> bytes" where
  "to_be n w = rev (to_le n w)"

definition of_be :: "bytes \<Rightarrow> 'a::len word" where
  "of_be bs = of_le (rev bs)"

lemma length_to_le [simp]: "length (to_le n w) = n"
  by (induction n arbitrary: w) auto

lemma length_to_be [simp]: "length (to_be n w) = n"
  by (simp add: to_be_def)

lemma bit_of_le_to_le:
  "bit (of_le (to_le n w) :: 'a::len word) i \<longleftrightarrow> bit (w :: 'a word) i \<and> i < 8 * n"
proof (induction n arbitrary: w i)
  case 0
  then show ?case by simp
next
  case (Suc n)
  show ?case
  proof (cases "i < 8")
    case True
    then show ?thesis
      by (auto simp: bit_or_iff bit_push_bit_iff bit_ucast_iff bit_imp_le_length)
  next
    case False
    then show ?thesis
      by (auto simp: bit_or_iff bit_push_bit_iff bit_ucast_iff Suc.IH bit_drop_bit_eq
          dest: bit_imp_le_length)
  qed
qed

lemma of_le_to_le: "LENGTH('a) \<le> 8 * n \<Longrightarrow> of_le (to_le n w) = (w :: 'a::len word)"
  by (rule bit_word_eqI) (auto simp: bit_of_le_to_le)

lemma of_le_to_le_u16 [codec_simps]: "of_le (to_le 2 w) = (w :: u16)"
  by (rule of_le_to_le) simp

lemma of_le_to_le_u32 [codec_simps]: "of_le (to_le 4 w) = (w :: u32)"
  by (rule of_le_to_le) simp

lemma of_le_to_le_u64 [codec_simps]: "of_le (to_le 8 w) = (w :: u64)"
  by (rule of_le_to_le) simp

lemma of_be_to_be: "LENGTH('a) \<le> 8 * n \<Longrightarrow> of_be (to_be n w) = (w :: 'a::len word)"
  by (simp add: of_be_def to_be_def of_le_to_le)

lemma to_le_of_le: "8 * length bs \<le> LENGTH('a) \<Longrightarrow> to_le (length bs) (of_le bs :: 'a::len word) = bs"
proof (induction bs)
  case (Cons b bs)
  have shift: "drop_bit 8 (of_le (b # bs) :: 'a word) = of_le bs"
  proof (rule bit_word_eqI)
    fix n assume "n < LENGTH('a)"
    have "\<not> bit (of_le bs :: 'a word) n" if "LENGTH('a) \<le> 8 + n"
    proof -
      have "bit (of_le (to_le (length bs) (of_le bs :: 'a word)) :: 'a word) n \<longleftrightarrow>
          bit (of_le bs :: 'a word) n \<and> n < 8 * length bs" by (rule bit_of_le_to_le)
      then show ?thesis using Cons that by auto
    qed
    then show "bit (drop_bit 8 (of_le (b # bs) :: 'a word)) n \<longleftrightarrow> bit (of_le bs :: 'a word) n"
      by (auto simp: bit_drop_bit_eq bit_or_iff bit_push_bit_iff bit_ucast_iff add.commute
          dest: bit_imp_le_length)
  qed
  have "(ucast (of_le (b # bs) :: 'a word) :: u8) = b"
    using Cons.prems
    by (intro bit_word_eqI) (auto simp: bit_ucast_iff bit_or_iff bit_push_bit_iff)
  then show ?case using Cons shift by simp
qed simp

lemma to_be_of_be: "8 * length bs \<le> LENGTH('a) \<Longrightarrow> to_be (length bs) (of_be bs :: 'a::len word) = bs"
  using to_le_of_le [of "rev bs", where ?'a = 'a] by (simp add: to_be_def of_be_def)

lemma to_le_inject:
  "LENGTH('a) \<le> 8 * n \<Longrightarrow> to_le n v = to_le n w \<longleftrightarrow> v = (w :: 'a::len word)"
  by (metis of_le_to_le)

section \<open>Shared interfaces\<close>

text \<open>A component as a state machine: \<open>run\<close> applies a list of calls in order. A component whose
  every operation keeps an invariant keeps it on every run.\<close>

definition run :: "('s \<Rightarrow> 'op \<Rightarrow> 's) \<Rightarrow> 's \<Rightarrow> 'op list \<Rightarrow> 's" where
  "run step s ops = fold (\<lambda>op s. step s op) ops s"

lemma run_Nil [simp]: "run step s [] = s"
  by (simp add: run_def)

lemma run_Cons [simp]: "run step s (op # ops) = run step (step s op) ops"
  by (simp add: run_def)

lemma run_append [simp]: "run step s (ops @ ops') = run step (run step s ops) ops'"
  by (simp add: run_def)

locale invariant_machine =
  fixes inv :: "'s \<Rightarrow> bool" and step :: "'s \<Rightarrow> 'op \<Rightarrow> 's"
  assumes step_inv: "inv s \<Longrightarrow> inv (step s op)"
begin

lemma run_inv: "inv s \<Longrightarrow> inv (run step s ops)"
  by (induction ops arbitrary: s) (auto simp: step_inv)

lemma run_stable:
  assumes "inv s" "P s" and stable: "\<And>s op. inv s \<Longrightarrow> P s \<Longrightarrow> P (step s op)"
  shows "P (run step s ops)"
  using assms(1,2) by (induction ops arbitrary: s) (auto simp: step_inv stable)

end

text \<open>A table with a hard capacity: the invariant bounds its size.\<close>

locale bounded_machine = invariant_machine +
  fixes size_of :: "'s \<Rightarrow> nat" and cap :: nat
  assumes inv_bound: "inv s \<Longrightarrow> size_of s \<le> cap"
begin

lemma run_bound: "inv s \<Longrightarrow> size_of (run step s ops) \<le> cap"
  by (intro inv_bound run_inv)

end

text \<open>A wire format: decoding inverts encoding on the messages the sender may build, and no input
  whatsoever makes the decoder index out of range.\<close>

locale wire_codec =
  fixes ok :: "'a \<Rightarrow> bool" and enc :: "'a \<Rightarrow> bytes" and dec :: "bytes \<Rightarrow> ('e, 'a) outcome"
  assumes dec_enc: "ok m \<Longrightarrow> dec (enc m) = Ok m"
    and dec_total: "dec bs \<noteq> Panic"
begin

lemma enc_inj: "ok m \<Longrightarrow> ok m' \<Longrightarrow> enc m = enc m' \<Longrightarrow> m = m'"
  by (metis dec_enc outcome.inject(1))

lemma dec_cases: "(\<exists>m. dec bs = Ok m) \<or> (\<exists>e. dec bs = Err e)"
  using dec_total by (cases "dec bs") auto

end

text \<open>Choosing the best element of a collection by a scan, as the loops over hash maps do: with a
  strict order that is total on the scanned elements the result does not depend on the order of
  the scan.\<close>

definition pick :: "('a \<Rightarrow> 'a \<Rightarrow> bool) \<Rightarrow> 'a option \<Rightarrow> 'a \<Rightarrow> 'a option" where
  "pick better best x = (case best of None \<Rightarrow> Some x | Some b \<Rightarrow> if better x b then Some x else Some b)"

definition scan_best :: "('a \<Rightarrow> 'a \<Rightarrow> bool) \<Rightarrow> 'a list \<Rightarrow> 'a option" where
  "scan_best better xs = fold (\<lambda>x best. pick better best x) xs None"

lemma scan_best_Nil [simp]: "scan_best better [] = None"
  by (simp add: scan_best_def)

lemma scan_best_snoc [simp]: "scan_best better (xs @ [x]) = pick better (scan_best better xs) x"
  by (simp add: scan_best_def)

lemma scan_best_None [simp]: "scan_best better xs = None \<longleftrightarrow> xs = []"
  by (induction xs rule: rev_induct) (auto simp: pick_def split: option.splits)

lemma scan_best_mem: "scan_best better xs = Some m \<Longrightarrow> m \<in> set xs"
  by (induction xs arbitrary: m rule: rev_induct) (auto simp: pick_def split: option.splits if_splits)

locale choice =
  fixes better :: "'a \<Rightarrow> 'a \<Rightarrow> bool" and ok :: "'a \<Rightarrow> bool"
  assumes better_irrefl: "\<not> better x x"
    and better_trans: "better x y \<Longrightarrow> better y z \<Longrightarrow> better x z"
    and better_total: "ok x \<Longrightarrow> ok y \<Longrightarrow> x \<noteq> y \<Longrightarrow> better x y \<or> better y x"
begin

lemma scan_best_least:
  "\<forall>x\<in>set xs. ok x \<Longrightarrow> scan_best better xs = Some m \<Longrightarrow> x \<in> set xs \<Longrightarrow> x = m \<or> better m x"
proof (induction xs arbitrary: m x rule: rev_induct)
  case (snoc y ys)
  show ?case
  proof (cases "scan_best better ys")
    case None
    then have "ys = []" by simp
    then show ?thesis using snoc.prems scan_best_snoc [of better "[]" y] by (auto simp: pick_def)
  next
    case (Some b)
    have b: "b \<in> set ys" using scan_best_mem [OF Some] .
    have IH: "z = b \<or> better b z" if "z \<in> set ys" for z
      using snoc.IH [OF _ Some that] snoc.prems(1) by simp
    show ?thesis
    proof (cases "better y b")
      case True
      then have "m = y" using snoc.prems(2) Some by (simp add: pick_def)
      then show ?thesis using snoc.prems(3) True IH better_trans by auto
    next
      case False
      then have m: "m = b" using snoc.prems(2) Some by (simp add: pick_def)
      have "y = b \<or> better b y" using False better_total [of y b] snoc.prems(1) b by auto
      then show ?thesis using m IH snoc.prems(3) by auto
    qed
  qed
qed simp

lemma scan_best_order:
  assumes "\<forall>x\<in>set xs. ok x" "set xs = set ys"
  shows "scan_best better xs = scan_best better ys"
proof (cases "scan_best better xs")
  case None
  then have "ys = []" using assms(2) by simp
  then show ?thesis using None by simp
next
  case (Some m)
  then have "ys \<noteq> []" using scan_best_mem assms(2) by fastforce
  then obtain n where n: "scan_best better ys = Some n" by fastforce
  have "m = n \<or> better n m" using scan_best_least [OF _ n] scan_best_mem [OF Some] assms by simp
  moreover have "n = m \<or> better m n" using scan_best_least [OF _ Some] scan_best_mem [OF n] assms by simp
  ultimately have "m = n" using better_trans better_irrefl by blast
  then show ?thesis using Some n by simp
qed

end

end
