(* ===== verification/Replay_Window.thy ===== *)
theory Replay_Window
  imports Fips_Prelude
begin

text \<open>
  The anti-replay window of \<^verbatim>\<open>noise/replay.rs\<close>: a ring of 129 words of 64 bits indexed by the
  counter, and the highest counter seen. The abstract specification keeps the highest counter and
  the unbounded set of counters ever accepted; the ring is shown to implement it on every counter.
  The interface of a replay guard (check before decryption, accept after it) is a locale whose
  client lemma, that a guarded receiver never delivers a counter twice, is proved once.
\<close>

definition REPLAY_WINDOW_SIZE :: nat where
  "REPLAY_WINDOW_SIZE = 8192"

definition RING_WORDS :: nat where
  "RING_WORDS = REPLAY_WINDOW_SIZE div 64 + 1"

datatype replay_rejection = Duplicate | TooOld

record replay_window =
  highest :: u64
  bitmap :: "u64 list"

definition new :: replay_window where
  "new = \<lparr> highest = 0, bitmap = replicate RING_WORDS 0 \<rparr>"

definition word_index :: "u64 \<Rightarrow> nat" where
  "word_index counter = unat ((counter div 64) mod of_nat RING_WORDS)"

definition rejection_reason :: "replay_window \<Rightarrow> u64 \<Rightarrow> replay_rejection option" where
  "rejection_reason w counter =
    (if counter = - 1 then Some TooOld
     else if counter > highest w then None
     else if highest w - counter \<ge> of_nat REPLAY_WINDOW_SIZE then Some TooOld
     else if bitmap w ! word_index counter AND push_bit (unat (counter mod 64)) 1 = 0 then None
     else Some Duplicate)"

definition check :: "replay_window \<Rightarrow> u64 \<Rightarrow> bool" where
  "check w counter = (rejection_reason w counter = None)"

text \<open>The loop \<^verbatim>\<open>for word in current_word + 1..=next_word\<close>.\<close>

definition clear_words :: "nat \<Rightarrow> nat \<Rightarrow> u64 list \<Rightarrow> u64 list" where
  "clear_words current_word next_word bm =
     fold (\<lambda>word bm. bm[word mod RING_WORDS := 0]) [current_word + 1 ..< next_word + 1] bm"

definition set_seen :: "replay_window \<Rightarrow> u64 \<Rightarrow> replay_window" where
  "set_seen w counter =
     (let i = word_index counter
      in w\<lparr> bitmap := (bitmap w)[i := bitmap w ! i OR push_bit (unat (counter mod 64)) 1] \<rparr>)"

definition accept :: "replay_window \<Rightarrow> u64 \<Rightarrow> replay_window" where
  "accept w counter =
    (if counter = - 1 then w
     else if counter > highest w then
       (let current_word = highest w div 64; next_word = counter div 64;
            bm = (if next_word - current_word \<ge> of_nat RING_WORDS
                  then replicate (length (bitmap w)) 0
                  else clear_words (unat current_word) (unat next_word) (bitmap w))
        in set_seen (w\<lparr> highest := counter, bitmap := bm \<rparr>) counter)
     else if highest w - counter \<ge> of_nat REPLAY_WINDOW_SIZE then w
     else set_seen w counter)"

definition reset :: "replay_window \<Rightarrow> replay_window" where
  "reset w = new"

section \<open>Abstract specification\<close>

text \<open>The window as its documentation describes it: the highest counter and every counter
  accepted so far. Only the last 8192 counters below the highest are distinguished.\<close>

type_synonym spec_window = "nat \<times> nat set"

definition spec_reject :: "spec_window \<Rightarrow> nat \<Rightarrow> replay_rejection option" where
  "spec_reject s c =
    (if c = 2 ^ 64 - 1 then Some TooOld
     else if c > fst s then None
     else if fst s - c \<ge> REPLAY_WINDOW_SIZE then Some TooOld
     else if c \<in> snd s then Some Duplicate else None)"

definition spec_accept :: "spec_window \<Rightarrow> nat \<Rightarrow> spec_window" where
  "spec_accept s c =
    (if c = 2 ^ 64 - 1 \<or> (c \<le> fst s \<and> fst s - c \<ge> REPLAY_WINDOW_SIZE) then s
     else (max c (fst s), insert c (snd s)))"

definition spec_new :: spec_window where
  "spec_new = (0, {})"

text \<open>A ring slot agrees with the set for every block of the live range.\<close>

definition ring_ok :: "u64 list \<Rightarrow> nat \<Rightarrow> nat set \<Rightarrow> bool" where
  "ring_ok bm h S \<longleftrightarrow> length bm = RING_WORDS \<and> (\<forall>c\<in>S. c \<le> h) \<and>
     (\<forall>k b. k \<le> h div 64 \<longrightarrow> h div 64 < k + RING_WORDS \<longrightarrow> b < 64 \<longrightarrow>
        (bit (bm ! (k mod RING_WORDS)) b \<longleftrightarrow> 64 * k + b \<in> S))"

definition window_abs :: "replay_window \<Rightarrow> spec_window \<Rightarrow> bool" where
  "window_abs w s \<longleftrightarrow> fst s = unat (highest w) \<and> ring_ok (bitmap w) (fst s) (snd s)"

section \<open>Ring arithmetic\<close>

lemma RING_WORDS_eq: "RING_WORDS = 129"
  by (simp add: RING_WORDS_def REPLAY_WINDOW_SIZE_def)

lemma ring_slot_inj:
  assumes "k mod RING_WORDS = w mod RING_WORDS" "k \<le> w" "w < k + RING_WORDS"
  shows "k = w"
proof (rule ccontr)
  assume "k \<noteq> w"
  with assms have "RING_WORDS dvd w - k" "0 < w - k" "w - k < RING_WORDS"
    using mod_eq_dvd_iff_nat [of k w RING_WORDS] by auto
  then show False by (simp add: nat_dvd_not_less)
qed

lemma word_index_nat: "word_index c = (unat c div 64) mod RING_WORDS"
  by (simp add: word_index_def RING_WORDS_eq word_nat_simps)

lemma word_index_bound: "word_index c < RING_WORDS"
  by (simp add: word_index_nat RING_WORDS_eq)

lemma length_clear_words [simp]: "length (clear_words a b bm) = length bm"
proof -
  have "length (fold (\<lambda>word bm. bm[word mod RING_WORDS := 0]) ws bm) = length bm" for ws
    by (induction ws arbitrary: bm) auto
  then show ?thesis by (simp add: clear_words_def)
qed

lemma nth_clear_words:
  assumes "i < length bm"
  shows "clear_words a b bm ! i = (if \<exists>w. a < w \<and> w \<le> b \<and> w mod RING_WORDS = i then 0 else bm ! i)"
proof -
  have "fold (\<lambda>word bm. bm[word mod RING_WORDS := 0]) ws bm ! i =
      (if \<exists>w\<in>set ws. w mod RING_WORDS = i then 0 else bm ! i)" for ws
    using assms by (induction ws arbitrary: bm) (auto simp: nth_list_update)
  moreover have "(\<exists>w\<in>set [a + 1 ..< b + 1]. w mod RING_WORDS = i) \<longleftrightarrow>
      (\<exists>w. a < w \<and> w \<le> b \<and> w mod RING_WORDS = i)"
    by (auto simp: Suc_le_eq less_Suc_eq_le)
  ultimately show ?thesis by (simp only: clear_words_def)
qed

lemma ring_ok_new: "ring_ok (replicate RING_WORDS 0) 0 {}"
  by (auto simp: ring_ok_def RING_WORDS_eq)

text \<open>Advancing: every slot of the new range is either a retained block or was cleared.\<close>

lemma ring_ok_clear:
  assumes ok: "ring_ok bm h S" and adv: "h \<le> c"
  shows "ring_ok (clear_words (h div 64) (c div 64) bm) c S"
proof -
  have old: "64 * k + b \<notin> S" if "h div 64 < k" for k b
  proof -
    from that have "h < 64 * k + b" by (simp add: div_less_iff_less_mult algebra_simps)
    then show ?thesis using ok by (auto simp: ring_ok_def)
  qed
  have "bit (clear_words (h div 64) (c div 64) bm ! (k mod RING_WORDS)) b \<longleftrightarrow> 64 * k + b \<in> S"
    if k: "k \<le> c div 64" "c div 64 < k + RING_WORDS" and b: "b < 64" for k b
  proof (cases "h div 64 < k")
    case True
    then have "\<exists>w. h div 64 < w \<and> w \<le> c div 64 \<and> w mod RING_WORDS = k mod RING_WORDS"
      using k by auto
    then show ?thesis using ok old [OF True]
      by (auto simp: nth_clear_words ring_ok_def RING_WORDS_eq)
  next
    case False
    have "\<not> (\<exists>w. h div 64 < w \<and> w \<le> c div 64 \<and> w mod RING_WORDS = k mod RING_WORDS)"
    proof
      assume "\<exists>w. h div 64 < w \<and> w \<le> c div 64 \<and> w mod RING_WORDS = k mod RING_WORDS"
      then obtain w where "h div 64 < w" "w \<le> c div 64" "w mod RING_WORDS = k mod RING_WORDS"
        by blast
      then show False using False k ring_slot_inj [of k w] by simp
    qed
    moreover have "h div 64 < k + RING_WORDS"
      using k div_le_mono [OF adv, of 64] by linarith
    ultimately show ?thesis using ok False b
      by (auto simp: nth_clear_words ring_ok_def RING_WORDS_eq)
  qed
  then show ?thesis using ok adv by (fastforce simp: ring_ok_def)
qed

lemma ring_ok_fill:
  assumes ok: "ring_ok bm h S" and far: "RING_WORDS \<le> c div 64 - h div 64"
  shows "ring_ok (replicate (length bm) 0) c S"
proof -
  have notin: "64 * k + b \<notin> S" if "c div 64 < k + RING_WORDS" for k b
  proof -
    have "h div 64 < k" using that far by (simp add: RING_WORDS_eq)
    then have "h < 64 * k + b" by (simp add: div_less_iff_less_mult algebra_simps)
    then show ?thesis using ok by (auto simp: ring_ok_def)
  qed
  have "h \<le> c" using far by (simp add: RING_WORDS_eq)
  then show ?thesis using ok notin by (fastforce simp: ring_ok_def RING_WORDS_eq)
qed

lemma ring_ok_mark:
  assumes ok: "ring_ok bm h S" and live: "c \<le> h" "h - c < REPLAY_WINDOW_SIZE"
  shows "ring_ok (bm[(c div 64) mod RING_WORDS :=
           bm ! ((c div 64) mod RING_WORDS) OR push_bit (c mod 64) 1]) h (insert c S)"
proof -
  define j where "j = c div 64"
  have j: "j \<le> h div 64" "h div 64 < j + RING_WORDS"
    using live by (auto simp: j_def RING_WORDS_eq REPLAY_WINDOW_SIZE_def div_le_mono)
  have "bit (bm[j mod RING_WORDS := bm ! (j mod RING_WORDS) OR push_bit (c mod 64) 1] ! (k mod RING_WORDS)) b
      \<longleftrightarrow> 64 * k + b \<in> insert c S"
    if k: "k \<le> h div 64" "h div 64 < k + RING_WORDS" and b: "b < 64" for k b
  proof (cases "k = j")
    case True
    then have "c = 64 * k + b \<longleftrightarrow> c mod 64 = b"
      using mult_div_mod_eq [of 64 c] unfolding j_def by linarith
    then show ?thesis using ok k b True
      by (auto simp: ring_ok_def bit_or_iff bit_exp_iff RING_WORDS_eq)
  next
    case False
    then have "k mod RING_WORDS \<noteq> j mod RING_WORDS"
      using j k ring_slot_inj [of k j] ring_slot_inj [of j k]
      by (cases "k \<le> j") auto
    moreover have "64 * k + b \<noteq> c" using False b by (auto simp: j_def)
    ultimately show ?thesis using ok k b by (auto simp: ring_ok_def)
  qed
  then show ?thesis using ok live unfolding j_def [symmetric] by (auto simp: ring_ok_def)
qed

section \<open>Refinement\<close>

lemma window_abs_new: "window_abs new spec_new"
  by (simp add: window_abs_def new_def spec_new_def ring_ok_new)

lemma max_counter_iff: "counter = - 1 \<longleftrightarrow> unat (counter :: u64) = 2 ^ 64 - 1"
  by (simp add: word_unat_eq_iff unat_minus_one_word_eq)

lemma window_abs_rejection:
  assumes "window_abs w s"
  shows "rejection_reason w counter = spec_reject s (unat counter)"
proof (cases "counter = - 1 \<or> counter > highest w")
  case True
  then show ?thesis using assms
    by (auto simp: rejection_reason_def spec_reject_def max_counter_iff window_abs_def word_less_nat_alt)
next
  case False
  then have le: "counter \<le> highest w" and nm: "counter \<noteq> - 1" by auto
  then have sub: "unat (highest w - counter) = fst s - unat counter"
    using assms by (simp add: window_abs_def word_nat_simps)
  have "bit (bitmap w ! word_index counter) (unat (counter mod 64)) \<longleftrightarrow> unat counter \<in> snd s"
    if "fst s - unat counter < REPLAY_WINDOW_SIZE"
  proof -
    have "unat counter \<le> fst s" using assms le by (simp add: window_abs_def word_le_nat_alt)
    then have "unat counter div 64 \<le> fst s div 64" "fst s div 64 < unat counter div 64 + RING_WORDS"
      using that by (auto simp: RING_WORDS_eq REPLAY_WINDOW_SIZE_def div_le_mono)
    then show ?thesis
      using assms by (simp add: window_abs_def ring_ok_def word_index_nat word_nat_simps)
  qed
  then show ?thesis using le nm sub assms
    by (auto simp: rejection_reason_def spec_reject_def and_exp_eq_0 max_counter_iff
        word_le_nat_alt word_less_nat_alt REPLAY_WINDOW_SIZE_def window_abs_def)
qed

lemma window_abs_set_seen:
  assumes "window_abs w s" "unat counter \<le> fst s" "fst s - unat counter < REPLAY_WINDOW_SIZE"
  shows "window_abs (set_seen w counter) (fst s, insert (unat counter) (snd s))"
  using assms ring_ok_mark [of "bitmap w" "fst s" "snd s" "unat counter"]
  by (auto simp: window_abs_def set_seen_def Let_def word_index_nat word_nat_simps)

lemma window_abs_accept:
  assumes "window_abs w s"
  shows "window_abs (accept w counter) (spec_accept s (unat counter))"
proof (cases "counter = - 1 \<or> counter \<le> highest w")
  case True
  have old: ?thesis if le: "counter \<le> highest w" and nm: "counter \<noteq> - 1"
  proof -
    have "accept w counter = (if fst s - unat counter \<ge> REPLAY_WINDOW_SIZE then w else set_seen w counter)"
      using assms that by (auto simp: accept_def window_abs_def word_le_nat_alt word_less_nat_alt unat_sub_le REPLAY_WINDOW_SIZE_def)
    moreover have "unat counter \<le> fst s" "unat counter \<noteq> 2 ^ 64 - 1"
      using assms that by (auto simp: window_abs_def word_le_nat_alt max_counter_iff)
    ultimately show ?thesis using assms window_abs_set_seen [OF assms, of counter]
      by (auto simp: spec_accept_def max_def)
  qed
  show ?thesis
  proof (cases "counter = - 1")
    case True
    then show ?thesis using assms by (simp add: accept_def spec_accept_def unat_minus_one_word_eq)
  qed (use True old in blast)
next
  case False
  define bm where "bm = (if counter div 64 - highest w div 64 \<ge> of_nat RING_WORDS
    then replicate (length (bitmap w)) 0
    else clear_words (unat (highest w div 64)) (unat (counter div 64)) (bitmap w))"
  from False have lt: "unat (highest w) < unat counter" and nm: "unat counter \<noteq> 2 ^ 64 - 1"
    by (auto simp: word_le_nat_alt max_counter_iff)
  then have div: "highest w div 64 \<le> counter div 64"
    by (simp add: word_le_nat_alt word_nat_simps div_le_mono)
  have "ring_ok bm (unat counter) (snd s)"
    using assms lt div ring_ok_fill [of "bitmap w" "fst s" "snd s" "unat counter"]
      ring_ok_clear [of "bitmap w" "fst s" "snd s" "unat counter"]
    by (auto simp: bm_def window_abs_def word_nat_simps word_le_nat_alt RING_WORDS_eq)
  then have "window_abs (w\<lparr> highest := counter, bitmap := bm \<rparr>) (unat counter, snd s)"
    by (simp add: window_abs_def)
  moreover have "accept w counter = set_seen (w\<lparr> highest := counter, bitmap := bm \<rparr>) counter"
    using False by (auto simp: accept_def Let_def bm_def)
  moreover have "spec_accept s (unat counter) = (unat counter, insert (unat counter) (snd s))"
    using lt nm assms by (simp add: spec_accept_def window_abs_def)
  ultimately show ?thesis
    using window_abs_set_seen [of _ "(unat counter, snd s)" counter]
    by (simp add: REPLAY_WINDOW_SIZE_def)
qed

lemma window_abs_run: "window_abs w s \<Longrightarrow> window_abs (fold (\<lambda>c w. accept w c) cs w)
    (fold (\<lambda>c s. spec_accept s (unat c)) cs s)"
  by (induction cs arbitrary: w s) (simp_all add: window_abs_accept)

section \<open>The replay guard interface\<close>

text \<open>A receiver consults the guard, authenticates, and records the counter only on success.
  Each input is a counter with the verdict of the authentication.\<close>

fun guarded_receive :: "('s \<Rightarrow> 'c \<Rightarrow> bool) \<Rightarrow> ('s \<Rightarrow> 'c \<Rightarrow> 's) \<Rightarrow> 's \<Rightarrow> ('c \<times> bool) list \<Rightarrow> 'c list" where
  "guarded_receive chk acc s [] = []"
| "guarded_receive chk acc s ((c, authentic) # ins) =
     (if chk s c \<and> authentic then c # guarded_receive chk acc (acc s c) ins
      else guarded_receive chk acc s ins)"

locale replay_guard =
  fixes inv :: "'s \<Rightarrow> bool" and chk :: "'s \<Rightarrow> 'c \<Rightarrow> bool" and acc :: "'s \<Rightarrow> 'c \<Rightarrow> 's"
  assumes inv_acc: "inv s \<Longrightarrow> inv (acc s c)"
    and acc_blocks: "inv s \<Longrightarrow> \<not> chk (acc s c) c"
    and acc_stays: "inv s \<Longrightarrow> \<not> chk s c \<Longrightarrow> \<not> chk (acc s d) c"
begin

lemma receive_blocked:
  "inv s \<Longrightarrow> \<not> chk s c \<Longrightarrow> c \<notin> set (guarded_receive chk acc s ins)"
proof (induction ins arbitrary: s)
  case (Cons i ins)
  then show ?case by (cases i) (auto simp: inv_acc acc_stays)
qed simp

lemma receive_distinct: "inv s \<Longrightarrow> distinct (guarded_receive chk acc s ins)"
proof (induction ins arbitrary: s)
  case (Cons i ins)
  then show ?case by (cases i) (auto simp: inv_acc receive_blocked [OF inv_acc acc_blocks])
qed simp

end

definition window_inv :: "replay_window \<Rightarrow> bool" where
  "window_inv w \<longleftrightarrow> (\<exists>s. window_abs w s)"

lemma spec_accept_bound: "\<forall>c\<in>snd s. c \<le> fst s \<Longrightarrow> \<forall>c\<in>snd (spec_accept s d). c \<le> fst (spec_accept s d)"
  by (auto simp: spec_accept_def max_def)

lemma spec_accept_blocks: "spec_reject (spec_accept s c) c \<noteq> None"
  by (auto simp: spec_accept_def spec_reject_def max_def)

lemma spec_accept_stays: "spec_reject s c \<noteq> None \<Longrightarrow> spec_reject (spec_accept s d) c \<noteq> None"
  by (auto simp: spec_accept_def spec_reject_def max_def split: if_splits)

interpretation window_guard: replay_guard window_inv check accept
proof unfold_locales
  fix w c d
  assume "window_inv w"
  then obtain s where s: "window_abs w s" by (auto simp: window_inv_def)
  show "window_inv (accept w c)"
    using window_abs_accept [OF s] unfolding window_inv_def by blast
  show "\<not> check (accept w c) c"
    using window_abs_rejection [OF window_abs_accept [OF s]] spec_accept_blocks
    by (simp add: check_def)
  show "\<not> check w c \<Longrightarrow> \<not> check (accept w d) c"
    using window_abs_rejection [OF window_abs_accept [OF s]] window_abs_rejection [OF s]
      spec_accept_stays
    by (simp add: check_def)
qed

lemma window_inv_new [simp]: "window_inv new"
  using window_abs_new unfolding window_inv_def by blast

lemma highest_set_seen [simp]: "highest (set_seen w c) = highest w"
  by (simp add: set_seen_def Let_def)

lemma highest_accept:
  "highest (accept w c) = (if c = - 1 then highest w else if c > highest w then c else highest w)"
  by (simp add: accept_def Let_def)

section \<open>Properties\<close>

text \<open>C4: after any sequence of accepted counters, in any order and with any gaps, the ring of 129
  words answers exactly as the unbounded set of all accepted counters restricted to the last
  8192: no counter inside the window is ever mistaken for another one that shares its slot, and
  the reserved counter \<^verbatim>\<open>u64::MAX\<close> is always refused.\<close>

theorem replay_window_refines_set:
  "rejection_reason (fold (\<lambda>c w. accept w c) cs new) counter =
     spec_reject (fold (\<lambda>c s. spec_accept s (unat c)) cs spec_new) (unat counter)"
  by (rule window_abs_rejection) (rule window_abs_run [OF window_abs_new])

text \<open>A receiver that checks the window before decrypting and accepts after authenticating
  delivers every counter at most once, whatever packets arrive in whatever order.\<close>

theorem replay_never_delivers_twice:
  "distinct (guarded_receive check accept new packets)"
  by (simp add: window_guard.receive_distinct)

text \<open>The window never refuses a fresh packet that is still inside it: a counter never accepted
  before and less than 8192 behind the highest (and not the reserved one) passes the check.\<close>

theorem replay_fresh_passes:
  assumes "counter \<notin> set cs" "counter \<noteq> - 1"
    and "unat (highest (fold (\<lambda>c w. accept w c) cs new)) < unat counter + REPLAY_WINDOW_SIZE"
  shows "check (fold (\<lambda>c w. accept w c) cs new) counter"
proof -
  let ?w = "fold (\<lambda>c w. accept w c) cs new" and ?s = "fold (\<lambda>c s. spec_accept s (unat c)) cs spec_new"
  have abs: "window_abs ?w ?s" by (rule window_abs_run [OF window_abs_new])
  have "snd (fold (\<lambda>c s. spec_accept s (unat c)) cs s) \<subseteq> snd s \<union> unat ` set cs" for s
    by (induction cs arbitrary: s) (fastforce simp: spec_accept_def split: if_splits)+
  from this [of spec_new] have sub: "snd ?s \<subseteq> unat ` set cs" by (simp add: spec_new_def)
  have "unat counter \<notin> unat ` set cs"
    using assms(1) by (auto simp: image_iff word_unat_eq_iff [symmetric])
  with sub have "unat counter \<notin> snd ?s" by blast
  moreover have "fst ?s < unat counter + REPLAY_WINDOW_SIZE"
    using assms(3) abs by (simp add: window_abs_def)
  ultimately show ?thesis
    using assms(2) window_abs_rejection [OF abs, of counter]
    by (auto simp: check_def spec_reject_def max_counter_iff)
qed

theorem replay_fresh_passes_witness:
  "check (fold (\<lambda>c w. accept w c) [5, 9000] new) 810"
  by (rule replay_fresh_passes)
    (simp_all add: highest_accept new_def REPLAY_WINDOW_SIZE_def)

end
