(* ===== verification/Noise_Session.thy ===== *)
theory Noise_Session
  imports Replay_Window
begin

text \<open>
  The transport half of the Noise layer: \<open>CipherState\<close> of \<^verbatim>\<open>noise/mod.rs\<close>, the send-counter
  authority and \<open>NoiseSession\<close> of \<^verbatim>\<open>noise/session.rs\<close>. The AEAD is ring's ChaCha20-Poly1305, a
  third-party package: it is the record \<open>aead\<close> of functions every operation takes as an argument.
  Operations that mutate their receiver return the new state with the result.
\<close>

section \<open>Errors, roles and constants\<close>

datatype noise_error =
    HandshakeNotComplete
  | HandshakeAlreadyComplete
  | WrongState string string
  | InvalidPublicKey
  | DecryptionFailed
  | EncryptionFailed
  | MessageTooLarge nat nat
  | MessageTooShort nat nat
  | NonceOverflow
  | ReplayDetected u64
  | Secp256k1

datatype handshake_role = Initiator | Responder

definition MAX_MESSAGE_SIZE :: nat where "MAX_MESSAGE_SIZE = 65535"
definition TAG_SIZE :: nat where "TAG_SIZE = 16"

record 'k aead =
  less_safe_key :: "bytes \<Rightarrow> 'k option"
  seal_in_place :: "'k \<Rightarrow> bytes \<Rightarrow> bytes \<Rightarrow> bytes \<Rightarrow> bytes option"
  open_in_place_fn :: "'k \<Rightarrow> bytes \<Rightarrow> bytes \<Rightarrow> bytes \<Rightarrow> bytes option"

section \<open>Cipher state\<close>

record 'k cipher_state =
  key :: bytes
  cipher :: "'k option"
  nonce :: u64
  has_key :: bool

definition build_cipher :: "'k aead \<Rightarrow> bytes \<Rightarrow> 'k option" where
  "build_cipher A k = less_safe_key A k"

definition cipher_new :: "'k aead \<Rightarrow> bytes \<Rightarrow> 'k cipher_state" where
  "cipher_new A k = \<lparr> key = k, cipher = build_cipher A k, nonce = 0, has_key = True \<rparr>"

definition cipher_empty :: "'k cipher_state" where
  "cipher_empty = \<lparr> key = replicate 32 0, cipher = None, nonce = 0, has_key = False \<rparr>"

definition initialize_key :: "'k aead \<Rightarrow> 'k cipher_state \<Rightarrow> bytes \<Rightarrow> 'k cipher_state" where
  "initialize_key A cs k =
     cs\<lparr> key := k, cipher := build_cipher A k, nonce := 0, has_key := True \<rparr>"

definition zeroize :: "'k cipher_state \<Rightarrow> 'k cipher_state" where
  "zeroize cs = cs\<lparr> cipher := None, key := replicate (length (key cs)) 0, nonce := 0, has_key := False \<rparr>"

definition clone :: "'k aead \<Rightarrow> 'k cipher_state \<Rightarrow> 'k cipher_state" where
  "clone A cs = \<lparr> key = key cs, cipher = (if has_key cs then build_cipher A (key cs) else None),
     nonce = nonce cs, has_key = has_key cs \<rparr>"

definition cipher_clone :: "'k aead \<Rightarrow> 'k cipher_state \<Rightarrow> 'k option" where
  "cipher_clone A cs = (if has_key cs then build_cipher A (key cs) else None)"

definition counter_to_nonce :: "u64 \<Rightarrow> bytes" where
  "counter_to_nonce counter = replicate 4 0 @ to_le 8 counter"

definition seal :: "'k aead \<Rightarrow> 'k option \<Rightarrow> u64 \<Rightarrow> bytes \<Rightarrow> bytes \<Rightarrow> (noise_error, bytes) outcome" where
  "seal A c counter aad plaintext =
    (case c of None \<Rightarrow> Err EncryptionFailed
     | Some k \<Rightarrow> (case seal_in_place A k (counter_to_nonce counter) aad plaintext of
         None \<Rightarrow> Err EncryptionFailed | Some buf \<Rightarrow> Ok buf))"

definition open_aead :: "'k aead \<Rightarrow> 'k option \<Rightarrow> u64 \<Rightarrow> bytes \<Rightarrow> bytes \<Rightarrow> (noise_error, bytes) outcome" where
  "open_aead A c counter aad ciphertext =
    (case c of None \<Rightarrow> Err DecryptionFailed
     | Some k \<Rightarrow> (case open_in_place_fn A k (counter_to_nonce counter) aad ciphertext of
         None \<Rightarrow> Err DecryptionFailed | Some buf \<Rightarrow> Ok buf))"

text \<open>The in-place variant leaves the plaintext in the front of the buffer and returns its length;
  the model returns that front part.\<close>

definition open_in_place :: "'k aead \<Rightarrow> 'k option \<Rightarrow> u64 \<Rightarrow> bytes \<Rightarrow> bytes \<Rightarrow> (noise_error, bytes) outcome" where
  "open_in_place A c counter aad buf =
    (case c of None \<Rightarrow> Err DecryptionFailed
     | Some k \<Rightarrow>
        if length buf < TAG_SIZE then Err (MessageTooShort TAG_SIZE (length buf))
        else (case open_in_place_fn A k (counter_to_nonce counter) aad buf of
         None \<Rightarrow> Err DecryptionFailed | Some plaintext \<Rightarrow> Ok plaintext))"

definition advance_nonce :: "'k cipher_state \<Rightarrow> 'k cipher_state \<times> (noise_error, u64) outcome" where
  "advance_nonce cs =
    (if nonce cs = - 1 then (cs, Err NonceOverflow)
     else (cs\<lparr> nonce := nonce cs + 1 \<rparr>, Ok (nonce cs)))"

definition cipher_encrypt_with_aad ::
  "'k aead \<Rightarrow> 'k cipher_state \<Rightarrow> bytes \<Rightarrow> bytes \<Rightarrow> 'k cipher_state \<times> (noise_error, bytes) outcome" where
  "cipher_encrypt_with_aad A cs plaintext aad =
    (if \<not> has_key cs then (cs, Ok plaintext)
     else if length plaintext > MAX_MESSAGE_SIZE - TAG_SIZE
       then (cs, Err (MessageTooLarge (length plaintext) (MAX_MESSAGE_SIZE - TAG_SIZE)))
     else (case advance_nonce cs of (cs', r) \<Rightarrow>
       (cs', obind r (\<lambda>counter. seal A (cipher cs') counter aad plaintext))))"

definition cipher_encrypt ::
  "'k aead \<Rightarrow> 'k cipher_state \<Rightarrow> bytes \<Rightarrow> 'k cipher_state \<times> (noise_error, bytes) outcome" where
  "cipher_encrypt A cs plaintext =
    (if \<not> has_key cs then (cs, Ok plaintext)
     else if length plaintext > MAX_MESSAGE_SIZE - TAG_SIZE
       then (cs, Err (MessageTooLarge (length plaintext) (MAX_MESSAGE_SIZE - TAG_SIZE)))
     else (case advance_nonce cs of (cs', r) \<Rightarrow>
       (cs', obind r (\<lambda>counter. seal A (cipher cs') counter [] plaintext))))"

definition cipher_decrypt ::
  "'k aead \<Rightarrow> 'k cipher_state \<Rightarrow> bytes \<Rightarrow> 'k cipher_state \<times> (noise_error, bytes) outcome" where
  "cipher_decrypt A cs ciphertext =
    (if \<not> has_key cs then (cs, Ok ciphertext)
     else if length ciphertext < TAG_SIZE
       then (cs, Err (MessageTooShort TAG_SIZE (length ciphertext)))
     else (case advance_nonce cs of (cs', r) \<Rightarrow>
       (cs', obind r (\<lambda>counter. open_aead A (cipher cs') counter [] ciphertext))))"

definition encrypt_with_counter_and_aad ::
  "'k aead \<Rightarrow> 'k cipher_state \<Rightarrow> bytes \<Rightarrow> u64 \<Rightarrow> bytes \<Rightarrow> (noise_error, bytes) outcome" where
  "encrypt_with_counter_and_aad A cs plaintext counter aad =
    (if \<not> has_key cs then Ok plaintext
     else if length plaintext > MAX_MESSAGE_SIZE - TAG_SIZE
       then Err (MessageTooLarge (length plaintext) (MAX_MESSAGE_SIZE - TAG_SIZE))
     else seal A (cipher cs) counter aad plaintext)"

definition encrypt_with_counter ::
  "'k aead \<Rightarrow> 'k cipher_state \<Rightarrow> bytes \<Rightarrow> u64 \<Rightarrow> (noise_error, bytes) outcome" where
  "encrypt_with_counter A cs plaintext counter =
    (if \<not> has_key cs then Ok plaintext
     else if length plaintext > MAX_MESSAGE_SIZE - TAG_SIZE
       then Err (MessageTooLarge (length plaintext) (MAX_MESSAGE_SIZE - TAG_SIZE))
     else seal A (cipher cs) counter [] plaintext)"

definition decrypt_with_counter_and_aad ::
  "'k aead \<Rightarrow> 'k cipher_state \<Rightarrow> bytes \<Rightarrow> u64 \<Rightarrow> bytes \<Rightarrow> (noise_error, bytes) outcome" where
  "decrypt_with_counter_and_aad A cs ciphertext counter aad =
    (if \<not> has_key cs then Ok ciphertext
     else if length ciphertext < TAG_SIZE then Err (MessageTooShort TAG_SIZE (length ciphertext))
     else open_aead A (cipher cs) counter aad ciphertext)"

definition decrypt_with_counter ::
  "'k aead \<Rightarrow> 'k cipher_state \<Rightarrow> bytes \<Rightarrow> u64 \<Rightarrow> (noise_error, bytes) outcome" where
  "decrypt_with_counter A cs ciphertext counter =
    (if \<not> has_key cs then Ok ciphertext
     else if length ciphertext < TAG_SIZE then Err (MessageTooShort TAG_SIZE (length ciphertext))
     else open_aead A (cipher cs) counter [] ciphertext)"

definition decrypt_with_counter_and_aad_in_place ::
  "'k aead \<Rightarrow> 'k cipher_state \<Rightarrow> bytes \<Rightarrow> u64 \<Rightarrow> bytes \<Rightarrow> (noise_error, bytes) outcome" where
  "decrypt_with_counter_and_aad_in_place A cs buf counter aad =
    (if \<not> has_key cs then Ok buf else open_in_place A (cipher cs) counter aad buf)"

section \<open>Send counter authority\<close>

text \<open>The atomic \<open>fetch_update\<close> of \<open>reserve\<close>: every clone of the authority shares the counter, so
  concurrent reservations are some sequence of these steps.\<close>

definition reserve :: "u64 \<Rightarrow> u64 \<times> (noise_error, u64) outcome" where
  "reserve next_counter =
    (if next_counter = - 1 then (next_counter, Err NonceOverflow)
     else (next_counter + 1, Ok next_counter))"

section \<open>Session\<close>

record 'k noise_session =
  role :: handshake_role
  send_cipher :: "'k cipher_state"
  send_counter :: u64
  recv_cipher :: "'k cipher_state"
  handshake_hash :: bytes
  remote_static :: bytes
  remote_epoch :: bytes
  replay_window :: replay_window

definition from_handshake ::
  "handshake_role \<Rightarrow> 'k cipher_state \<Rightarrow> 'k cipher_state \<Rightarrow> bytes \<Rightarrow> bytes \<Rightarrow> bytes \<Rightarrow> 'k noise_session" where
  "from_handshake r send_c recv_c hash static epoch =
     \<lparr> role = r, send_cipher = send_c, send_counter = nonce send_c, recv_cipher = recv_c,
       handshake_hash = hash, remote_static = static, remote_epoch = epoch,
       replay_window = Replay_Window.new \<rparr>"

definition take_send_counter :: "'k noise_session \<Rightarrow> 'k noise_session \<times> (noise_error, u64) outcome" where
  "take_send_counter s = (case reserve (send_counter s) of (n, r) \<Rightarrow> (s\<lparr> send_counter := n \<rparr>, r))"

definition encrypt :: "'k aead \<Rightarrow> 'k noise_session \<Rightarrow> bytes \<Rightarrow> 'k noise_session \<times> (noise_error, bytes) outcome" where
  "encrypt A s plaintext = (case take_send_counter s of (s', r) \<Rightarrow>
     (s', obind r (\<lambda>counter. encrypt_with_counter A (send_cipher s') plaintext counter)))"

definition encrypt_with_aad ::
  "'k aead \<Rightarrow> 'k noise_session \<Rightarrow> bytes \<Rightarrow> bytes \<Rightarrow> 'k noise_session \<times> (noise_error, bytes) outcome" where
  "encrypt_with_aad A s plaintext aad = (case take_send_counter s of (s', r) \<Rightarrow>
     (s', obind r (\<lambda>counter. encrypt_with_counter_and_aad A (send_cipher s') plaintext counter aad)))"

definition decrypt :: "'k aead \<Rightarrow> 'k noise_session \<Rightarrow> bytes \<Rightarrow> 'k noise_session \<times> (noise_error, bytes) outcome" where
  "decrypt A s ciphertext = (case cipher_decrypt A (recv_cipher s) ciphertext of (c, r) \<Rightarrow>
     (s\<lparr> recv_cipher := c \<rparr>, r))"

definition check_replay :: "'k noise_session \<Rightarrow> u64 \<Rightarrow> (noise_error, unit) outcome" where
  "check_replay s counter =
     (if check (replay_window s) counter then Ok () else Err (ReplayDetected counter))"

definition accept_replay :: "'k noise_session \<Rightarrow> u64 \<Rightarrow> 'k noise_session" where
  "accept_replay s counter = s\<lparr> replay_window := accept (replay_window s) counter \<rparr>"

definition reset_replay_window :: "'k noise_session \<Rightarrow> 'k noise_session" where
  "reset_replay_window s = s\<lparr> replay_window := reset (replay_window s) \<rparr>"

definition authenticate_with_counter_and_aad ::
  "'k aead \<Rightarrow> 'k noise_session \<Rightarrow> bytes \<Rightarrow> u64 \<Rightarrow> bytes \<Rightarrow> (noise_error, unit) outcome" where
  "authenticate_with_counter_and_aad A s ciphertext counter aad =
     obind (check_replay s counter) (\<lambda>_.
       obind (decrypt_with_counter_and_aad A (recv_cipher s) ciphertext counter aad) (\<lambda>_. Ok ()))"

definition decrypt_with_replay_check ::
  "'k aead \<Rightarrow> 'k noise_session \<Rightarrow> bytes \<Rightarrow> u64 \<Rightarrow> 'k noise_session \<times> (noise_error, bytes) outcome" where
  "decrypt_with_replay_check A s ciphertext counter =
    (if \<not> check (replay_window s) counter then (s, Err (ReplayDetected counter))
     else (case decrypt_with_counter A (recv_cipher s) ciphertext counter of
         Ok plaintext \<Rightarrow> (s\<lparr> replay_window := accept (replay_window s) counter \<rparr>, Ok plaintext)
       | e \<Rightarrow> (s, e)))"

definition decrypt_with_replay_check_and_aad ::
  "'k aead \<Rightarrow> 'k noise_session \<Rightarrow> bytes \<Rightarrow> u64 \<Rightarrow> bytes \<Rightarrow> 'k noise_session \<times> (noise_error, bytes) outcome" where
  "decrypt_with_replay_check_and_aad A s ciphertext counter aad =
    (if \<not> check (replay_window s) counter then (s, Err (ReplayDetected counter))
     else (case decrypt_with_counter_and_aad A (recv_cipher s) ciphertext counter aad of
         Ok plaintext \<Rightarrow> (s\<lparr> replay_window := accept (replay_window s) counter \<rparr>, Ok plaintext)
       | e \<Rightarrow> (s, e)))"

definition decrypt_with_replay_check_and_aad_in_place ::
  "'k aead \<Rightarrow> 'k noise_session \<Rightarrow> bytes \<Rightarrow> u64 \<Rightarrow> bytes \<Rightarrow> 'k noise_session \<times> (noise_error, bytes) outcome" where
  "decrypt_with_replay_check_and_aad_in_place A s buf counter aad =
    (if \<not> check (replay_window s) counter then (s, Err (ReplayDetected counter))
     else (case decrypt_with_counter_and_aad_in_place A (recv_cipher s) buf counter aad of
         Ok plaintext \<Rightarrow> (s\<lparr> replay_window := accept (replay_window s) counter \<rparr>, Ok plaintext)
       | e \<Rightarrow> (s, e)))"

text \<open>A receiver is a sequence of calls on one session. A delivery is a plaintext some decryption call
  returned: numbered with its counter by the transport-phase entry points, unnumbered by the
  handshake-phase \<open>decrypt\<close>, which takes the counter of the cipher and does not consult the window.\<close>

datatype recv_op =
    Decrypt bytes u64
  | DecryptAad bytes u64 bytes
  | DecryptAadInPlace bytes u64 bytes
  | AcceptReplay u64
  | HandshakeDecrypt bytes
  | ResetReplayWindow

datatype delivery = Numbered u64 bytes | Unnumbered bytes

fun recv_step :: "'k aead \<Rightarrow> 'k noise_session \<Rightarrow> recv_op \<Rightarrow> 'k noise_session \<times> delivery option" where
  "recv_step A s (Decrypt ct c) =
     (case decrypt_with_replay_check A s ct c of
       (s', Ok p) \<Rightarrow> (s', Some (Numbered c p)) | (s', _) \<Rightarrow> (s', None))"
| "recv_step A s (DecryptAad ct c aad) =
     (case decrypt_with_replay_check_and_aad A s ct c aad of
       (s', Ok p) \<Rightarrow> (s', Some (Numbered c p)) | (s', _) \<Rightarrow> (s', None))"
| "recv_step A s (DecryptAadInPlace buf c aad) =
     (case decrypt_with_replay_check_and_aad_in_place A s buf c aad of
       (s', Ok p) \<Rightarrow> (s', Some (Numbered c p)) | (s', _) \<Rightarrow> (s', None))"
| "recv_step A s (AcceptReplay c) = (accept_replay s c, None)"
| "recv_step A s (HandshakeDecrypt ct) =
     (case decrypt A s ct of (s', Ok p) \<Rightarrow> (s', Some (Unnumbered p)) | (s', _) \<Rightarrow> (s', None))"
| "recv_step A s ResetReplayWindow = (reset_replay_window s, None)"

fun delivered :: "'k aead \<Rightarrow> 'k noise_session \<Rightarrow> recv_op list \<Rightarrow> delivery list" where
  "delivered A s [] = []"
| "delivered A s (op # ops) = (case recv_step A s op of
     (s', None) \<Rightarrow> delivered A s' ops | (s', Some d) \<Rightarrow> d # delivered A s' ops)"

definition received :: "'k aead \<Rightarrow> 'k noise_session \<Rightarrow> recv_op list \<Rightarrow> 'k noise_session" where
  "received A s ops = foldl (\<lambda>s op. fst (recv_step A s op)) s ops"

fun counter_of :: "delivery \<Rightarrow> u64 option" where
  "counter_of (Numbered c _) = Some c"
| "counter_of (Unnumbered _) = None"

definition counters :: "delivery list \<Rightarrow> u64 list" where
  "counters ds = List.map_filter counter_of ds"

text \<open>A sender is a sequence of calls; a worker that reserved a counter builds the nonce itself.
  \<open>sent\<close> are the successful results. \<open>nonce_probe\<close> is an AEAD whose result is the nonce it was
  handed, so that \<open>sent nonce_probe\<close> lists the nonces that reach the cipher.\<close>

datatype send_op = Encrypt bytes | EncryptAad bytes bytes | TakeSendCounter

fun send_step :: "'k aead \<Rightarrow> 'k noise_session \<Rightarrow> send_op \<Rightarrow> 'k noise_session \<times> (noise_error, bytes) outcome" where
  "send_step A s (Encrypt p) = encrypt A s p"
| "send_step A s (EncryptAad p aad) = encrypt_with_aad A s p aad"
| "send_step A s TakeSendCounter = (case take_send_counter s of (s', r) \<Rightarrow>
     (s', obind r (\<lambda>c. Ok (counter_to_nonce c))))"

fun sent :: "'k aead \<Rightarrow> 'k noise_session \<Rightarrow> send_op list \<Rightarrow> bytes list" where
  "sent A s [] = []"
| "sent A s (op # ops) = (case send_step A s op of
     (s', Ok out) \<Rightarrow> out # sent A s' ops | (s', _) \<Rightarrow> sent A s' ops)"

definition nonce_probe :: "unit aead" where
  "nonce_probe = \<lparr> less_safe_key = (\<lambda>_. Some ()), seal_in_place = (\<lambda>_ n _ _. Some n),
     open_in_place_fn = (\<lambda>_ n _ _. Some n) \<rparr>"

text \<open>What ring documents of an AEAD: opening a sealed message under the same key, nonce and
  associated data gives the plaintext back, and sealing appends a 16-byte tag.\<close>

definition aead_contract :: "'k aead \<Rightarrow> bool" where
  "aead_contract A \<longleftrightarrow> (\<forall>k n aad p c. seal_in_place A k n aad p = Some c \<longrightarrow>
     open_in_place_fn A k n aad c = Some p \<and> length c = length p + TAG_SIZE)"

definition tag_aead :: "unit aead" where
  "tag_aead = \<lparr> less_safe_key = (\<lambda>_. Some ()), seal_in_place = (\<lambda>_ _ _ p. Some (p @ replicate 16 0)),
     open_in_place_fn = (\<lambda>_ _ _ c. if length c < 16 then None else Some (take (length c - 16) c)) \<rparr>"

section \<open>Receive side\<close>

text \<open>Every receive step but a reset either leaves the window alone or accepts one counter, and what it
  delivers under a counter passed the check and was accepted.\<close>

lemma recv_step_window:
  "recv_step A s op = (s', d) \<Longrightarrow> op \<noteq> ResetReplayWindow \<Longrightarrow>
     (Option.bind d counter_of = None \<and> replay_window s' = replay_window s) \<or>
     (\<exists>c. replay_window s' = accept (replay_window s) c \<and>
          (Option.bind d counter_of = None \<or> Option.bind d counter_of = Some c \<and> check (replay_window s) c))"
  by (cases op)
    (auto simp: accept_replay_def decrypt_def decrypt_with_replay_check_def
      decrypt_with_replay_check_and_aad_def decrypt_with_replay_check_and_aad_in_place_def
      split: prod.splits outcome.splits if_splits)

lemma recv_step_inv: "window_inv (replay_window s) \<Longrightarrow> window_inv (replay_window (fst (recv_step A s op)))"
proof (cases "op = ResetReplayWindow")
  case False
  obtain s' d where step: "recv_step A s op = (s', d)" by force
  assume "window_inv (replay_window s)"
  then show ?thesis using recv_step_window [OF step False] by (auto simp: step window_guard.inv_acc)
qed (simp add: reset_replay_window_def reset_def)

lemma received_inv: "window_inv (replay_window s) \<Longrightarrow> window_inv (replay_window (received A s ops))"
  unfolding received_def by (induction ops arbitrary: s) (simp_all add: recv_step_inv)

lemma counters_simps [simp]:
  "counters [] = []"
  "counters (d # ds) = (case counter_of d of None \<Rightarrow> counters ds | Some c \<Rightarrow> c # counters ds)"
  by (simp_all add: counters_def List.map_filter_simps split: option.split)

lemma delivered_blocked:
  "window_inv (replay_window s) \<Longrightarrow> \<not> check (replay_window s) c \<Longrightarrow> ResetReplayWindow \<notin> set ops \<Longrightarrow>
     c \<notin> set (counters (delivered A s ops))"
proof (induction ops arbitrary: s)
  case (Cons op ops)
  obtain s' d where step: "recv_step A s op = (s', d)" by force
  have "op \<noteq> ResetReplayWindow" using Cons.prems(3) by auto
  from recv_step_window [OF step this] Cons.prems
  have "window_inv (replay_window s')" "\<not> check (replay_window s') c" "Option.bind d counter_of \<noteq> Some c"
    by (auto simp: window_guard.inv_acc window_guard.acc_stays)
  then show ?case using Cons.IH [of s'] Cons.prems(3) by (auto simp: step split: option.splits)
qed simp

lemma delivered_distinct:
  "window_inv (replay_window s) \<Longrightarrow> ResetReplayWindow \<notin> set ops \<Longrightarrow> distinct (counters (delivered A s ops))"
proof (induction ops arbitrary: s)
  case (Cons op ops)
  obtain s' d where step: "recv_step A s op = (s', d)" by force
  have ops: "op \<noteq> ResetReplayWindow" "ResetReplayWindow \<notin> set ops" using Cons.prems(2) by auto
  have inv: "window_inv (replay_window s')" using recv_step_inv [OF Cons.prems(1), of A op] by (simp add: step)
  have "c \<notin> set (counters (delivered A s' ops))" if "Option.bind d counter_of = Some c" for c
    using recv_step_window [OF step ops(1)] that Cons.prems(1) inv ops(2)
      delivered_blocked [of s' c ops A]
    by (auto simp: window_guard.acc_blocks)
  then show ?case using Cons.IH [OF inv ops(2)] by (auto simp: step split: option.splits)
qed simp

section \<open>Send side\<close>

lemma counter_to_nonce_inj: "counter_to_nonce a = counter_to_nonce b \<longleftrightarrow> a = b"
proof
  assume "counter_to_nonce a = counter_to_nonce b"
  then have "of_le (to_le 8 a) = (of_le (to_le 8 b) :: u64)" by (simp add: counter_to_nonce_def)
  then show "a = b" by (simp add: codec_simps)
qed simp

lemma take_send_counter_cases:
  "take_send_counter s = (s', r) \<Longrightarrow>
     (r = Ok (send_counter s) \<and> unat (send_counter s') = Suc (unat (send_counter s)) \<and>
        send_cipher s' = send_cipher s) \<or>
     (r = Err NonceOverflow \<and> s' = s)"
  by (auto simp: take_send_counter_def reserve_def unat_plus_one split: if_splits)

lemma send_step_probe:
  assumes "send_step nonce_probe s op = (s', r)" "has_key (send_cipher s)"
  shows "has_key (send_cipher s') \<and> unat (send_counter s) \<le> unat (send_counter s') \<and>
    (\<forall>out. r = Ok out \<longrightarrow> out = counter_to_nonce (send_counter s) \<and>
       unat (send_counter s) < unat (send_counter s'))"
proof -
  obtain s1 r1 where t: "take_send_counter s = (s1, r1)" by force
  from take_send_counter_cases [OF t] show ?thesis using assms t
    by (cases op) (auto simp: encrypt_def encrypt_with_aad_def encrypt_with_counter_def
        encrypt_with_counter_and_aad_def seal_def nonce_probe_def split: if_splits option.splits)
qed

lemma sent_probe_range:
  "has_key (send_cipher s) \<Longrightarrow> out \<in> set (sent nonce_probe s ops) \<Longrightarrow>
     \<exists>c. out = counter_to_nonce c \<and> unat (send_counter s) \<le> unat c"
proof (induction ops arbitrary: s)
  case (Cons op ops)
  obtain s' r where step: "send_step nonce_probe s op = (s', r)" by force
  from send_step_probe [OF step Cons.prems(1)] Cons.prems(2) Cons.IH [of s'] show ?case
    by (cases r) (fastforce simp: step intro: le_trans)+
qed simp

lemma sent_probe_distinct: "has_key (send_cipher s) \<Longrightarrow> distinct (sent nonce_probe s ops)"
proof (induction ops arbitrary: s)
  case (Cons op ops)
  obtain s' r where step: "send_step nonce_probe s op = (s', r)" by force
  from send_step_probe [OF step Cons.prems] Cons.IH [of s'] show ?case
    by (cases r) (auto simp: step counter_to_nonce_inj dest!: sent_probe_range)
qed simp

section \<open>Properties\<close>

text \<open>C5: After any history of a session and until its replay window is reset again, whatever packets
  arrive, in whatever order and through whichever of the three decryption entry points that take an explicit
  counter, the session returns a plaintext for a given counter at most once. Handshake-phase decryptions and
  acceptances by a worker may come in between; a handshake-phase decryption takes no counter from the
  packet and does not consult the window, so that what it returns is not covered.\<close>

theorem session_never_delivers_twice:
  assumes "ResetReplayWindow \<notin> set ops"
  shows "distinct (counters (delivered A (received A (from_handshake r send_c recv_c h static epoch) history) ops))"
  using assms by (intro delivered_distinct received_inv) (simp_all add: from_handshake_def)

definition keyed_receiver :: "unit noise_session" where
  "keyed_receiver = from_handshake Responder cipher_empty (cipher_new tag_aead (replicate 32 7)) [] [] []"

definition one_packet :: bytes where
  "one_packet = [1, 2] @ replicate 16 0"

theorem session_never_delivers_twice_witness:
  "let ops = [DecryptAad one_packet 0 [9], Decrypt one_packet 0, HandshakeDecrypt one_packet]
   in distinct (counters (delivered tag_aead (received tag_aead keyed_receiver [ResetReplayWindow]) ops))
      \<and> delivered tag_aead (received tag_aead keyed_receiver [ResetReplayWindow]) ops = [Numbered 0 [1, 2], Unnumbered [1, 2]]"
proof -
  let ?ops = "[DecryptAad one_packet 0 [9], Decrypt one_packet 0, HandshakeDecrypt one_packet]"
  have once: "distinct (counters (delivered tag_aead (received tag_aead keyed_receiver [ResetReplayWindow]) ?ops))"
    unfolding keyed_receiver_def by (rule session_never_delivers_twice) simp
  have "check Replay_Window.new 0"
    by (simp add: check_def rejection_reason_def Replay_Window.new_def word_index_nat RING_WORDS_eq REPLAY_WINDOW_SIZE_def)
  moreover have "\<not> check (accept Replay_Window.new 0) 0"
    by (rule window_guard.acc_blocks [OF window_inv_new])
  ultimately have "delivered tag_aead (received tag_aead keyed_receiver [ResetReplayWindow]) ?ops =
      [Numbered 0 [1, 2], Unnumbered [1, 2]]"
    by (simp add: received_def reset_replay_window_def reset_def keyed_receiver_def one_packet_def from_handshake_def
        cipher_new_def build_cipher_def tag_aead_def decrypt_with_replay_check_and_aad_def decrypt_with_replay_check_def
        decrypt_def cipher_decrypt_def decrypt_with_counter_and_aad_def decrypt_with_counter_def open_aead_def TAG_SIZE_def
        advance_nonce_def)
  then show ?thesis using once by (simp add: Let_def)
qed

text \<open>C6: in every sequence of encryptions and worker reservations on a keyed session, the nonces
  handed to the AEAD are pairwise different; when the counter space is exhausted the calls fail
  instead of reusing a nonce.\<close>

theorem session_nonces_never_reused:
  assumes "has_key (send_cipher s)"
  shows "distinct (sent nonce_probe s ops)"
  using assms by (rule sent_probe_distinct)

theorem session_nonces_never_reused_witness:
  "distinct (sent nonce_probe (from_handshake Initiator (cipher_new nonce_probe (replicate 32 7))
      cipher_empty [] [] []) [Encrypt [1, 2], TakeSendCounter, EncryptAad [1, 2] [3]])"
  by (rule session_nonces_never_reused) (simp add: from_handshake_def cipher_new_def)

text \<open>C7: what a session encrypts, the peer session holding the same key decrypts to the same
  plaintext, for every counter its replay window still admits; offering the packet again is
  refused as a replay.\<close>

theorem session_roundtrip:
  assumes "aead_contract A"
    and "has_key (send_cipher s)" "has_key (recv_cipher r)" "cipher (recv_cipher r) = cipher (send_cipher s)"
    and "encrypt_with_aad A s p aad = (s', Ok ct)"
    and "window_inv (replay_window r)" "check (replay_window r) (send_counter s)"
  shows "\<exists>r'. decrypt_with_replay_check_and_aad A r ct (send_counter s) aad = (r', Ok p) \<and>
    decrypt_with_replay_check_and_aad A r' ct (send_counter s) aad =
      (r', Err (ReplayDetected (send_counter s)))"
proof -
  have "seal A (cipher (send_cipher s)) (send_counter s) aad p = Ok ct"
    using assms(2,5)
    by (auto simp: encrypt_with_aad_def take_send_counter_def reserve_def encrypt_with_counter_and_aad_def
        split: if_splits prod.splits)
  then obtain k where k: "cipher (send_cipher s) = Some k"
    and "seal_in_place A k (counter_to_nonce (send_counter s)) aad p = Some ct"
    by (auto simp: seal_def split: option.splits)
  then have "open_in_place_fn A k (counter_to_nonce (send_counter s)) aad ct = Some p"
    and "TAG_SIZE \<le> length ct" using assms(1) by (auto simp: aead_contract_def)
  then show ?thesis using assms(3,4,6,7) k
    by (auto simp: decrypt_with_replay_check_and_aad_def decrypt_with_counter_and_aad_def
        open_aead_def window_guard.acc_blocks)
qed

theorem session_roundtrip_witness:
  "\<exists>r'. decrypt_with_replay_check_and_aad tag_aead
        (from_handshake Responder (cipher_new tag_aead (replicate 32 8)) (cipher_new tag_aead (replicate 32 7)) [] [] [])
        ([1, 2] @ replicate 16 0) 0 [9] = (r', Ok [1, 2]) \<and>
      decrypt_with_replay_check_and_aad tag_aead r' ([1, 2] @ replicate 16 0) 0 [9] =
        (r', Err (ReplayDetected 0))"
  using session_roundtrip [of tag_aead
      "from_handshake Initiator (cipher_new tag_aead (replicate 32 7)) (cipher_new tag_aead (replicate 32 8)) [] [] []"
      "from_handshake Responder (cipher_new tag_aead (replicate 32 8)) (cipher_new tag_aead (replicate 32 7)) [] [] []"
      "[1, 2]" "[9]" "fst (encrypt_with_aad tag_aead
        (from_handshake Initiator (cipher_new tag_aead (replicate 32 7)) (cipher_new tag_aead (replicate 32 8)) [] [] [])
        [1, 2] [9])" "[1, 2] @ replicate 16 0"]
  by (simp add: from_handshake_def cipher_new_def build_cipher_def tag_aead_def aead_contract_def TAG_SIZE_def
      encrypt_with_aad_def take_send_counter_def reserve_def encrypt_with_counter_and_aad_def
      MAX_MESSAGE_SIZE_def seal_def check_def rejection_reason_def Replay_Window.new_def
      word_index_nat RING_WORDS_eq REPLAY_WINDOW_SIZE_def window_inv_new [unfolded Replay_Window.new_def RING_WORDS_eq])

end
