(* ===== verification/Identity.thy ===== *)
theory Identity
  imports Fips_Prelude
begin

text \<open>
  Node addresses and FIPS addresses of \<^verbatim>\<open>crates/fips-identity\<close>, and the challenge-response
  authentication. A \<open>NodeAddr\<close> is an array of 16 bytes compared lexicographically; it is held as
  the 128-bit word those bytes spell in big-endian order, and the derived order is shown to be the
  order of the words. SHA-256 and Schnorr verification are third-party code and are arguments.
\<close>

datatype node_addr = NodeAddr (addr_word: "128 word")

text \<open>The errors of third-party crates that some variants wrap carry no payload here.\<close>

datatype identity_error =
    InvalidSecretKey
  | SignatureVerificationFailed
  | InvalidNodeAddrLength nat
  | InvalidAddressLength nat
  | InvalidAddressPrefix u8
  | Bech32Encode
  | Bech32Decode
  | InvalidNpubPrefix string
  | InvalidNpubLength nat
  | InvalidNsecPrefix string
  | InvalidNsecLength nat
  | InvalidHex

definition as_bytes :: "node_addr \<Rightarrow> bytes" where
  "as_bytes a = to_be 16 (addr_word a)"

definition from_bytes :: "bytes \<Rightarrow> node_addr" where
  "from_bytes bs = NodeAddr (of_be bs)"

definition from_slice :: "bytes \<Rightarrow> (identity_error, node_addr) outcome" where
  "from_slice bs = (if length bs \<noteq> 16 then Err (InvalidNodeAddrLength (length bs)) else Ok (from_bytes bs))"

definition from_pubkey :: "(bytes \<Rightarrow> bytes) \<Rightarrow> bytes \<Rightarrow> node_addr" where
  "from_pubkey sha256 pubkey = from_bytes (take 16 (sha256 pubkey))"

instantiation node_addr :: linorder
begin

definition less_eq_node_addr :: "node_addr \<Rightarrow> node_addr \<Rightarrow> bool" where
  "less_eq_node_addr a b \<longleftrightarrow> addr_word a \<le> addr_word b"

definition less_node_addr :: "node_addr \<Rightarrow> node_addr \<Rightarrow> bool" where
  "less_node_addr a b \<longleftrightarrow> addr_word a < addr_word b"

instance
  by standard (auto simp: less_eq_node_addr_def less_node_addr_def node_addr.expand)

end

section \<open>FIPS addresses\<close>

definition FIPS_ADDRESS_PREFIX :: u8 where "FIPS_ADDRESS_PREFIX = 0xfd"

datatype fips_address = FipsAddress (fips_bytes: bytes)

definition fips_from_bytes :: "bytes \<Rightarrow> (identity_error, fips_address) outcome" where
  "fips_from_bytes bs = obind (index_at bs 0) (\<lambda>b.
     if b \<noteq> FIPS_ADDRESS_PREFIX then Err (InvalidAddressPrefix b) else Ok (FipsAddress bs))"

definition fips_from_slice :: "bytes \<Rightarrow> (identity_error, fips_address) outcome" where
  "fips_from_slice bs =
     (if length bs \<noteq> 16 then Err (InvalidAddressLength (length bs)) else fips_from_bytes bs)"

definition from_node_addr :: "node_addr \<Rightarrow> fips_address" where
  "from_node_addr a = FipsAddress (FIPS_ADDRESS_PREFIX # take 15 (as_bytes a))"

section \<open>Challenge and response\<close>

definition AUTH_DOMAIN :: bytes where
  "AUTH_DOMAIN = [102, 105, 112, 115, 45, 97, 117, 116, 104, 45, 118, 49]"

record auth_response =
  resp_pubkey :: bytes
  resp_timestamp :: u64
  resp_signature :: bytes

definition auth_challenge_digest :: "(bytes \<Rightarrow> bytes) \<Rightarrow> bytes \<Rightarrow> u64 \<Rightarrow> bytes" where
  "auth_challenge_digest sha256 challenge timestamp =
     sha256 (AUTH_DOMAIN @ challenge @ to_be 8 timestamp)"

definition challenge_verify ::
  "(bytes \<Rightarrow> bytes) \<Rightarrow> (bytes \<Rightarrow> bytes \<Rightarrow> bytes \<Rightarrow> bool) \<Rightarrow> bytes \<Rightarrow> auth_response \<Rightarrow>
     (identity_error, node_addr) outcome" where
  "challenge_verify sha256 verify_schnorr challenge r =
    (if verify_schnorr (resp_signature r) (auth_challenge_digest sha256 challenge (resp_timestamp r)) (resp_pubkey r)
     then Ok (from_pubkey sha256 (resp_pubkey r))
     else Err SignatureVerificationFailed)"

section \<open>Bytes and order\<close>

lemma length_as_bytes [simp]: "length (as_bytes a) = 16"
  by (simp add: as_bytes_def)

lemma from_bytes_as_bytes [simp, codec_simps]: "from_bytes (as_bytes a) = a"
  by (simp add: from_bytes_def as_bytes_def of_be_to_be)

lemma as_bytes_from_bytes: "length bs = 16 \<Longrightarrow> as_bytes (from_bytes bs) = bs"
  using to_be_of_be [of bs, where ?'a = 128] by (simp add: from_bytes_def as_bytes_def)

lemma as_bytes_inject [simp]: "as_bytes a = as_bytes b \<longleftrightarrow> a = b"
  by (metis from_bytes_as_bytes)

text \<open>The value a byte string spells in big-endian order, and its lexicographic comparison.\<close>

primrec be_val :: "bytes \<Rightarrow> nat" where
  "be_val [] = 0"
| "be_val (b # bs) = unat b * 256 ^ length bs + be_val bs"

lemma be_val_bound: "be_val bs < 256 ^ length bs"
proof (induction bs)
  case (Cons b bs)
  have "unat b * 256 ^ length bs + be_val bs < Suc (unat b) * 256 ^ length bs"
    using Cons by simp
  also have "\<dots> \<le> 256 * 256 ^ length bs"
    using unat_less_exp [of b] by (intro mult_right_mono) auto
  finally show ?case by simp
qed simp

lemma lexordp_be_val:
  "length xs = length ys \<Longrightarrow> ord_class.lexordp xs ys \<longleftrightarrow> be_val xs < be_val ys"
proof (induction xs ys rule: list_induct2)
  case (Cons x xs y ys)
  have step: "be_val (a # as) < be_val (b # bs)"
    if "unat a < unat b" "length as = length bs" for a b as bs
  proof -
    have "unat a * 256 ^ length bs + be_val as < Suc (unat a) * 256 ^ length bs"
      using be_val_bound [of as] that by simp
    also have "\<dots> \<le> unat b * 256 ^ length bs" using that by (intro mult_right_mono) auto
    finally show ?thesis using that by simp
  qed
  consider "x < y" | "y < x" | "x = y" by fastforce
  then show ?case
    using Cons step [of x y xs ys] step [of y x ys xs]
    by cases (auto simp: word_less_nat_alt)
qed simp

lemma be_val_append: "be_val (xs @ ys) = be_val xs * 256 ^ length ys + be_val ys"
  by (induction xs) (auto simp: algebra_simps power_add)

lemma be_val_to_be: "be_val (to_be n w) = unat w mod 256 ^ n"
proof (induction n arbitrary: w)
  case (Suc n)
  have "to_be (Suc n) w = to_be n (drop_bit 8 w) @ [ucast w]"
    by (simp add: to_be_def)
  moreover have d: "unat (drop_bit 8 w) = unat w div 256"
    by (subst unat_drop_bit_eq) (simp add: drop_bit_eq_div)
  ultimately have "be_val (to_be (Suc n) w) = (unat w div 256 mod 256 ^ n) * 256 + unat w mod 256"
    by (simp add: be_val_append Suc d unsigned_ucast_eq take_bit_eq_mod)
  also have "\<dots> = unat w mod 256 ^ Suc n"
    by (simp add: mod_mult2_eq mult.commute)
  finally show ?case .
qed (simp add: to_be_def)

section \<open>Properties\<close>

text \<open>Comparing node addresses as words is comparing their 16 bytes lexicographically, the order
  Rust derives for the array: root election and every tie-break by address rest on it.\<close>

theorem node_addr_order_lexicographic:
  "(a < b) = ord_class.lexordp (as_bytes a) (as_bytes b)"
proof -
  have "be_val (as_bytes c) = unat (addr_word c)" for c
    using unat_less_exp [of "addr_word c"] by (simp add: as_bytes_def be_val_to_be)
  then show ?thesis
    by (simp add: lexordp_be_val less_node_addr_def word_less_nat_alt)
qed

text \<open>Every FIPS address derived from a node address carries the prefix and parses back, and two
  nodes share a FIPS address exactly when the first 15 bytes of their node addresses agree.\<close>

theorem fips_address_of_node:
  "fips_from_slice (fips_bytes (from_node_addr a)) = Ok (from_node_addr a) \<and>
   (from_node_addr a = from_node_addr b) = (take 15 (as_bytes a) = take 15 (as_bytes b))"
  by (simp_all add: fips_from_slice_def from_node_addr_def fips_from_bytes_def codec_simps)

end
