(* ===== verification/Tree_Coordinate.thy ===== *)
theory Tree_Coordinate
  imports Identity
begin

text \<open>
  Tree coordinates (\<^verbatim>\<open>proto/stp/coordinate.rs\<close>) and parent declarations
  (\<^verbatim>\<open>proto/stp/declaration.rs\<close>). A coordinate is the non-empty path from a node to its root.
  The tree distance is shown to be a metric on the coordinates of one tree, computed through the
  lowest common ancestor.
\<close>

datatype tree_error =
    EmptyCoordinate
  | AncestryNotToRoot
  | RootDeclarationMismatch
  | AncestryTooShort
  | AncestryNodeMismatch node_addr node_addr
  | AncestryParentMismatch node_addr node_addr
  | AncestryRootNotMinimum node_addr node_addr
  | InvalidSignature node_addr
  | SequenceRegression u64 u64
  | ParentNotPeer node_addr
  | IdentityError identity_error

section \<open>Coordinates\<close>

record coord_entry =
  ce_node_addr :: node_addr
  ce_sequence :: u64
  ce_timestamp :: u64

definition WIRE_SIZE :: nat where "WIRE_SIZE = 32"

definition entry_new :: "node_addr \<Rightarrow> u64 \<Rightarrow> u64 \<Rightarrow> coord_entry" where
  "entry_new a s t = \<lparr> ce_node_addr = a, ce_sequence = s, ce_timestamp = t \<rparr>"

definition addr_only :: "node_addr \<Rightarrow> coord_entry" where
  "addr_only a = entry_new a 0 0"

type_synonym tree_coordinate = "coord_entry list"

text \<open>The field is private and every constructor below returns a non-empty path.\<close>

definition coord_ok :: "tree_coordinate \<Rightarrow> bool" where
  "coord_ok c \<longleftrightarrow> c \<noteq> []"

definition coord_new :: "coord_entry list \<Rightarrow> (tree_error, tree_coordinate) outcome" where
  "coord_new path = (if path = [] then Err EmptyCoordinate else Ok path)"

definition from_addrs :: "node_addr list \<Rightarrow> (tree_error, tree_coordinate) outcome" where
  "from_addrs addrs = (if addrs = [] then Err EmptyCoordinate else Ok (map addr_only addrs))"

definition coord_root :: "node_addr \<Rightarrow> tree_coordinate" where
  "coord_root a = [addr_only a]"

definition root_with_meta :: "node_addr \<Rightarrow> u64 \<Rightarrow> u64 \<Rightarrow> tree_coordinate" where
  "root_with_meta a s t = [entry_new a s t]"

definition node_addr :: "tree_coordinate \<Rightarrow> node_addr" where
  "node_addr c = ce_node_addr (hd c)"

definition root_id :: "tree_coordinate \<Rightarrow> node_addr" where
  "root_id c = ce_node_addr (last c)"

definition parent_id :: "tree_coordinate \<Rightarrow> node_addr" where
  "parent_id c = (if 1 < length c then ce_node_addr (c ! 1) else ce_node_addr (hd c))"

definition depth :: "tree_coordinate \<Rightarrow> nat" where
  "depth c = length c - 1"

definition node_addrs :: "tree_coordinate \<Rightarrow> node_addr list" where
  "node_addrs c = map ce_node_addr c"

definition coord_is_root :: "tree_coordinate \<Rightarrow> bool" where
  "coord_is_root c \<longleftrightarrow> length c = 1"

text \<open>The loop over the zipped reversed paths, which breaks at the first difference.\<close>

fun common_len :: "'a list \<Rightarrow> 'a list \<Rightarrow> nat" where
  "common_len (a # as) (b # bs) = (if a = b then Suc (common_len as bs) else 0)"
| "common_len _ _ = 0"

definition lca_depth :: "tree_coordinate \<Rightarrow> tree_coordinate \<Rightarrow> nat" where
  "lca_depth c d = common_len (rev (node_addrs c)) (rev (node_addrs d)) - 1"

definition USIZE_MAX :: nat where "USIZE_MAX = 2 ^ 64 - 1"

definition distance_to :: "tree_coordinate \<Rightarrow> tree_coordinate \<Rightarrow> nat" where
  "distance_to c d =
    (if root_id c \<noteq> root_id d then USIZE_MAX
     else (depth c - lca_depth c d) + (depth d - lca_depth c d))"

fun lca_loop :: "'a option \<Rightarrow> 'a list \<Rightarrow> 'a list \<Rightarrow> 'a option" where
  "lca_loop acc (a # as) (b # bs) = (if a = b then lca_loop (Some a) as bs else acc)"
| "lca_loop acc _ _ = acc"

definition lca :: "tree_coordinate \<Rightarrow> tree_coordinate \<Rightarrow> node_addr option" where
  "lca c d = lca_loop None (rev (node_addrs c)) (rev (node_addrs d))"

definition has_ancestor :: "tree_coordinate \<Rightarrow> node_addr \<Rightarrow> bool" where
  "has_ancestor c a \<longleftrightarrow> a \<in> set (drop 1 (node_addrs c))"

definition contains :: "tree_coordinate \<Rightarrow> node_addr \<Rightarrow> bool" where
  "contains c a \<longleftrightarrow> a \<in> set (node_addrs c)"

definition ancestor_at :: "tree_coordinate \<Rightarrow> nat \<Rightarrow> node_addr option" where
  "ancestor_at c d = (if d < length c then Some (ce_node_addr (c ! d)) else None)"

section \<open>Parent declarations\<close>

record parent_declaration =
  pd_node_addr :: node_addr
  pd_parent_id :: node_addr
  pd_sequence :: u64
  pd_timestamp :: u64
  pd_signature :: "bytes option"

definition decl_new :: "node_addr \<Rightarrow> node_addr \<Rightarrow> u64 \<Rightarrow> u64 \<Rightarrow> parent_declaration" where
  "decl_new a p s t = \<lparr> pd_node_addr = a, pd_parent_id = p, pd_sequence = s, pd_timestamp = t,
     pd_signature = None \<rparr>"

definition self_root :: "node_addr \<Rightarrow> u64 \<Rightarrow> u64 \<Rightarrow> parent_declaration" where
  "self_root a s t = decl_new a a s t"

definition with_signature :: "node_addr \<Rightarrow> node_addr \<Rightarrow> u64 \<Rightarrow> u64 \<Rightarrow> bytes \<Rightarrow> parent_declaration" where
  "with_signature a p s t sig = \<lparr> pd_node_addr = a, pd_parent_id = p, pd_sequence = s,
     pd_timestamp = t, pd_signature = Some sig \<rparr>"

definition set_signature :: "parent_declaration \<Rightarrow> bytes \<Rightarrow> parent_declaration" where
  "set_signature d sig = d\<lparr> pd_signature := Some sig \<rparr>"

definition decl_is_root :: "parent_declaration \<Rightarrow> bool" where
  "decl_is_root d \<longleftrightarrow> pd_node_addr d = pd_parent_id d"

definition is_signed :: "parent_declaration \<Rightarrow> bool" where
  "is_signed d \<longleftrightarrow> pd_signature d \<noteq> None"

definition signing_bytes :: "parent_declaration \<Rightarrow> bytes" where
  "signing_bytes d = as_bytes (pd_node_addr d) @ as_bytes (pd_parent_id d) @
     to_le 8 (pd_sequence d) @ to_le 8 (pd_timestamp d)"

definition signing_hash :: "(bytes \<Rightarrow> bytes) \<Rightarrow> parent_declaration \<Rightarrow> bytes" where
  "signing_hash sha256 d = sha256 (signing_bytes d)"

text \<open>An identity is its node address and its signing function (\<open>Identity::sign\<close> hashes the data
  and signs the digest with the secret key, third-party code).\<close>

record identity =
  id_node_addr :: node_addr
  id_sign :: "bytes \<Rightarrow> bytes"

definition sign :: "parent_declaration \<Rightarrow> identity \<Rightarrow> parent_declaration \<times> (tree_error, unit) outcome" where
  "sign d i =
    (if id_node_addr i \<noteq> pd_node_addr d then (d, Err (InvalidSignature (pd_node_addr d)))
     else (d\<lparr> pd_signature := Some (id_sign i (signing_bytes d)) \<rparr>, Ok ()))"

definition verify ::
  "(bytes \<Rightarrow> bytes) \<Rightarrow> (bytes \<Rightarrow> bytes \<Rightarrow> bytes \<Rightarrow> bool) \<Rightarrow> parent_declaration \<Rightarrow> bytes \<Rightarrow> (tree_error, unit) outcome" where
  "verify sha256 verify_schnorr d pubkey =
    (case pd_signature d of
       None \<Rightarrow> Err (InvalidSignature (pd_node_addr d))
     | Some sig \<Rightarrow> if verify_schnorr sig (signing_hash sha256 d) pubkey then Ok ()
         else Err (InvalidSignature (pd_node_addr d)))"

definition is_fresher_than :: "parent_declaration \<Rightarrow> parent_declaration \<Rightarrow> bool" where
  "is_fresher_than d e \<longleftrightarrow> pd_sequence d > pd_sequence e"

definition decl_eq :: "parent_declaration \<Rightarrow> parent_declaration \<Rightarrow> bool" where
  "decl_eq d e \<longleftrightarrow> pd_node_addr d = pd_node_addr e \<and> pd_parent_id d = pd_parent_id e \<and>
     pd_sequence d = pd_sequence e \<and> pd_timestamp d = pd_timestamp e"

section \<open>Common prefixes\<close>

lemma common_len_le: "common_len xs ys \<le> length xs" "common_len xs ys \<le> length ys"
  by (induction xs ys rule: common_len.induct) auto

lemma common_len_sym: "common_len xs ys = common_len ys xs"
  by (induction xs ys rule: common_len.induct) auto

lemma common_len_same [simp]: "common_len xs xs = length xs"
  by (induction xs) auto

lemma common_len_ultra: "min (common_len xs ys) (common_len ys zs) \<le> common_len xs zs"
proof (induction xs ys arbitrary: zs rule: common_len.induct)
  case (1 a as b bs)
  then show ?case by (cases zs) auto
qed auto

lemma common_len_full: "common_len xs ys = length xs \<Longrightarrow> length xs = length ys \<Longrightarrow> xs = ys"
  by (induction xs ys rule: common_len.induct) (auto split: if_splits)

lemma common_len_take: "take (common_len xs ys) xs = take (common_len xs ys) ys"
  by (induction xs ys rule: common_len.induct) auto

lemma common_len_append: "common_len xs (xs @ ys) = length xs"
  by (induction xs) auto

lemma lca_loop_stop: "common_len xs ys = 0 \<Longrightarrow> lca_loop acc xs ys = acc"
  by (cases xs; cases ys) (auto split: if_splits)

lemma lca_loop_common:
  "0 < common_len xs ys \<Longrightarrow> lca_loop acc xs ys = Some (xs ! (common_len xs ys - 1))"
proof (induction acc xs ys rule: lca_loop.induct)
  case (1 acc a as b bs)
  then show ?case by (cases "common_len as bs") (auto simp: lca_loop_stop)
qed auto

section \<open>Coordinate lemmas\<close>

lemma length_node_addrs [simp]: "length (node_addrs c) = length c"
  by (simp add: node_addrs_def)

lemma root_id_rev: "coord_ok c \<Longrightarrow> root_id c = rev (node_addrs c) ! 0"
  by (simp add: root_id_def node_addrs_def coord_ok_def rev_nth last_conv_nth)

lemma common_pos:
  assumes "coord_ok c" "coord_ok d" "root_id c = root_id d"
  shows "0 < common_len (rev (node_addrs c)) (rev (node_addrs d))"
proof -
  obtain x xs y ys where "rev (node_addrs c) = x # xs" "rev (node_addrs d) = y # ys"
    using assms(1,2) by (metis coord_ok_def length_0_conv length_node_addrs length_rev neq_Nil_conv)
  then show ?thesis using assms root_id_rev [of c] root_id_rev [of d] by simp
qed

lemma distance_same_root:
  assumes "coord_ok c" "coord_ok d" "root_id c = root_id d"
  shows "distance_to c d + 2 * common_len (rev (node_addrs c)) (rev (node_addrs d)) = length c + length d"
  using common_pos [OF assms] common_len_le [of "rev (node_addrs c)" "rev (node_addrs d)"] assms
  by (auto simp: distance_to_def lca_depth_def depth_def)

lemma distance_sym: "distance_to c d = distance_to d c"
  by (auto simp: distance_to_def lca_depth_def common_len_sym [of "rev (node_addrs c)"])

lemma distance_triangle_same_root:
  assumes "coord_ok a" "coord_ok b" "coord_ok c" "root_id a = root_id b" "root_id b = root_id c"
  shows "distance_to a c \<le> distance_to a b + distance_to b c"
  using distance_same_root [of a b] distance_same_root [of b c] distance_same_root [of a c] assms
    common_len_ultra [of "rev (node_addrs a)" "rev (node_addrs b)" "rev (node_addrs c)"]
    common_len_le [of "rev (node_addrs a)" "rev (node_addrs b)"]
    common_len_le [of "rev (node_addrs b)" "rev (node_addrs c)"]
  by (auto simp: min_def split: if_splits)

lemma distance_zero_same_root:
  assumes "coord_ok c" "coord_ok d" "root_id c = root_id d"
  shows "distance_to c d = 0 \<longleftrightarrow> node_addrs c = node_addrs d"
proof
  assume "distance_to c d = 0"
  then have "common_len (rev (node_addrs c)) (rev (node_addrs d)) = length c" "length c = length d"
    using distance_same_root [OF assms] common_len_le [of "rev (node_addrs c)" "rev (node_addrs d)"]
    by auto
  then show "node_addrs c = node_addrs d"
    using common_len_full [of "rev (node_addrs c)" "rev (node_addrs d)"] by simp
next
  assume "node_addrs c = node_addrs d"
  moreover from this have "length c = length d" by (metis length_node_addrs)
  ultimately show "distance_to c d = 0" using distance_same_root [OF assms] by simp
qed

lemma distance_parent:
  assumes "coord_ok c"
  shows "distance_to (e # c) c = 1"
proof -
  have "common_len (rev (node_addrs (e # c))) (rev (node_addrs c)) = length c"
    using common_len_append [of "rev (node_addrs c)"]
    by (simp add: node_addrs_def common_len_sym [of "_ @ _"])
  moreover have "root_id (e # c) = root_id c" using assms by (simp add: root_id_def coord_ok_def)
  ultimately show ?thesis
    using assms by (auto simp: distance_to_def lca_depth_def depth_def coord_ok_def Suc_le_eq)
qed

section \<open>Properties\<close>

text \<open>On the coordinates of one tree the distance is a metric: it is symmetric, it is zero exactly
  for equal address paths, and it satisfies the triangle inequality.\<close>

theorem tree_distance_metric:
  assumes "coord_ok a" "coord_ok b" "coord_ok c" "root_id a = root_id b" "root_id b = root_id c"
  shows "distance_to a b = distance_to b a \<and>
    (distance_to a b = 0 \<longleftrightarrow> node_addrs a = node_addrs b) \<and>
    distance_to a c \<le> distance_to a b + distance_to b c"
  using assms distance_sym distance_zero_same_root distance_triangle_same_root by blast

theorem tree_distance_metric_witness:
  "distance_to (map addr_only [NodeAddr 3, NodeAddr 1]) (map addr_only [NodeAddr 4, NodeAddr 2, NodeAddr 1]) = 3 \<and>
   distance_to (map addr_only [NodeAddr 3, NodeAddr 1]) (map addr_only [NodeAddr 2, NodeAddr 1]) \<le>
   distance_to (map addr_only [NodeAddr 3, NodeAddr 1]) (map addr_only [NodeAddr 4, NodeAddr 2, NodeAddr 1]) +
   distance_to (map addr_only [NodeAddr 4, NodeAddr 2, NodeAddr 1]) (map addr_only [NodeAddr 2, NodeAddr 1])"
  using tree_distance_metric [of "map addr_only [NodeAddr 3, NodeAddr 1]"
      "map addr_only [NodeAddr 4, NodeAddr 2, NodeAddr 1]" "map addr_only [NodeAddr 2, NodeAddr 1]"]
  by (simp add: coord_ok_def root_id_def addr_only_def entry_new_def distance_to_def lca_depth_def
      depth_def node_addrs_def)

text \<open>For two coordinates of one tree the lowest common ancestor exists, lies on both paths at
  \<open>lca_depth\<close> hops from the root, the paths agree from the root down to it, and the distance is the
  number of hops up to it from both ends.\<close>

theorem lca_of_same_tree:
  assumes "coord_ok c" "coord_ok d" "root_id c = root_id d"
  shows "lca c d = Some (rev (node_addrs c) ! lca_depth c d) \<and>
    take (Suc (lca_depth c d)) (rev (node_addrs c)) = take (Suc (lca_depth c d)) (rev (node_addrs d)) \<and>
    lca_depth c d \<le> min (depth c) (depth d) \<and>
    distance_to c d + 2 * lca_depth c d = depth c + depth d"
  using common_pos [OF assms] common_len_le [of "rev (node_addrs c)" "rev (node_addrs d)"]
    common_len_take [of "rev (node_addrs c)" "rev (node_addrs d)"]
    lca_loop_common [of "rev (node_addrs c)" "rev (node_addrs d)" None] assms(3)
  by (auto simp: lca_def lca_depth_def depth_def distance_to_def)

theorem lca_of_same_tree_witness:
  "lca (map addr_only [NodeAddr 5, NodeAddr 2, NodeAddr 1]) (map addr_only [NodeAddr 4, NodeAddr 2, NodeAddr 1]) = Some (NodeAddr 2)"
  using lca_of_same_tree [of "map addr_only [NodeAddr 5, NodeAddr 2, NodeAddr 1]"
      "map addr_only [NodeAddr 4, NodeAddr 2, NodeAddr 1]"]
  by (simp add: coord_ok_def root_id_def addr_only_def entry_new_def lca_depth_def node_addrs_def)

text \<open>The bytes a declaration signs determine it: two declarations with equal signing bytes agree
  on the node, the parent, the sequence number and the timestamp, so a signature cannot be moved to
  a declaration that says something else.\<close>

theorem signing_bytes_binding:
  "signing_bytes d = signing_bytes e \<longleftrightarrow> decl_eq d e"
  by (auto simp: signing_bytes_def decl_eq_def to_le_inject)

end
