(* ===== verification/Hash_Map.thy ===== *)
theory Hash_Map
  imports Fips_Prelude "HOL-Library.AList" "HOL-Library.Multiset"
begin

text \<open>
  The standard library's \<^verbatim>\<open>HashMap\<close>: an association list with distinct keys. The order of the
  list stands for the iteration order, which Rust leaves unspecified: a property that holds for
  every list holds for every order, and \<open>same_map\<close> relates two orders of one map. The interface
  the components rely on is the locale \<open>hash_map\<close>, interpreted on the association list.
\<close>

named_theorems hm_simps \<open>lookup and key facts of hash map operations\<close>

type_synonym ('k, 'v) hmap = "('k \<times> 'v) list"

definition hm_inv :: "('k, 'v) hmap \<Rightarrow> bool" where
  "hm_inv m \<longleftrightarrow> distinct (map fst m)"

definition hm_keys :: "('k, 'v) hmap \<Rightarrow> 'k list" where
  "hm_keys m = map fst m"

definition hm_insert :: "'k \<Rightarrow> 'v \<Rightarrow> ('k, 'v) hmap \<Rightarrow> ('k, 'v) hmap" where
  "hm_insert k v m = AList.update k v m"

definition hm_remove :: "'k \<Rightarrow> ('k, 'v) hmap \<Rightarrow> ('k, 'v) hmap" where
  "hm_remove k m = AList.delete k m"

definition hm_retain :: "('k \<Rightarrow> 'v \<Rightarrow> bool) \<Rightarrow> ('k, 'v) hmap \<Rightarrow> ('k, 'v) hmap" where
  "hm_retain P m = filter (\<lambda>kv. P (fst kv) (snd kv)) m"

definition hm_contains :: "('k, 'v) hmap \<Rightarrow> 'k \<Rightarrow> bool" where
  "hm_contains m k \<longleftrightarrow> map_of m k \<noteq> None"

definition same_map :: "('k, 'v) hmap \<Rightarrow> ('k, 'v) hmap \<Rightarrow> bool" where
  "same_map m m' \<longleftrightarrow> hm_inv m \<and> hm_inv m' \<and> map_of m = map_of m'"

section \<open>Operations and the invariant\<close>

lemma hm_inv_Nil [simp]: "hm_inv []"
  by (simp add: hm_inv_def)

lemma hm_inv_insert [simp]: "hm_inv m \<Longrightarrow> hm_inv (hm_insert k v m)"
  by (simp add: hm_inv_def hm_insert_def distinct_update)

lemma hm_inv_remove [simp]: "hm_inv m \<Longrightarrow> hm_inv (hm_remove k m)"
  by (simp add: hm_inv_def hm_remove_def distinct_delete)

lemma hm_inv_filter [simp]: "hm_inv m \<Longrightarrow> hm_inv (filter P m)"
  by (simp add: hm_inv_def distinct_map_filter)

lemma hm_inv_retain [simp]: "hm_inv m \<Longrightarrow> hm_inv (hm_retain P m)"
  by (simp add: hm_retain_def)

lemma map_of_hm_insert [hm_simps]: "map_of (hm_insert k v m) = (map_of m)(k \<mapsto> v)"
  by (simp add: hm_insert_def update_conv')

lemma map_of_hm_remove [hm_simps]: "map_of (hm_remove k m) = (map_of m)(k := None)"
  by (simp add: hm_remove_def delete_conv')

lemma map_of_filter_key:
  "distinct (map fst m) \<Longrightarrow> map_of (filter (\<lambda>kv. P (fst kv) (snd kv)) m) k =
     (case map_of m k of Some v \<Rightarrow> if P k v then Some v else None | None \<Rightarrow> None)"
  by (induction m) (auto split: option.splits simp: map_of_eq_None_iff dest: map_of_SomeD)

lemma map_of_hm_retain [hm_simps]:
  "hm_inv m \<Longrightarrow> map_of (hm_retain P m) k =
     (case map_of m k of Some v \<Rightarrow> if P k v then Some v else None | None \<Rightarrow> None)"
  by (simp add: hm_retain_def hm_inv_def map_of_filter_key)

lemma hm_mem_iff: "hm_inv m \<Longrightarrow> (k, v) \<in> set m \<longleftrightarrow> map_of m k = Some v"
  by (simp add: hm_inv_def)

lemma set_hm_remove [hm_simps]: "hm_inv m \<Longrightarrow> set (hm_remove k m) = {kv \<in> set m. fst kv \<noteq> k}"
  by (auto simp: hm_remove_def AList.delete_eq)

lemma set_hm_retain [hm_simps]: "set (hm_retain P m) = {kv \<in> set m. P (fst kv) (snd kv)}"
  by (simp add: hm_retain_def)

lemma set_hm_insert: "hm_inv m \<Longrightarrow> set (hm_insert k v m) = insert (k, v) {kv \<in> set m. fst kv \<noteq> k}"
proof -
  assume inv: "hm_inv m"
  then have "(a, b) \<in> set (hm_insert k v m) \<longleftrightarrow> (a, b) \<in> insert (k, v) {kv \<in> set m. fst kv \<noteq> k}" for a b
    using hm_mem_iff [OF hm_inv_insert [OF inv], of a b k v] hm_mem_iff [OF inv, of a b]
    by (auto simp: map_of_hm_insert)
  then show ?thesis by auto
qed

lemma length_hm_insert [hm_simps]:
  "length (hm_insert k v m) = (if map_of m k = None then Suc (length m) else length m)"
  unfolding hm_insert_def by (induction m) auto

lemma length_hm_insert_le: "length (hm_insert k v m) \<le> Suc (length m)"
  by (simp add: hm_simps)

lemma length_hm_remove_le: "length (hm_remove k m) \<le> length m"
  by (simp add: hm_remove_def length_delete_le)

lemma length_hm_retain_le: "length (hm_retain P m) \<le> length m"
  by (simp add: hm_retain_def)

lemma length_hm_remove: "hm_inv m \<Longrightarrow> map_of m k \<noteq> None \<Longrightarrow> Suc (length (hm_remove k m)) = length m"
proof (induction m)
  case (Cons a m)
  show ?case
  proof (cases "fst a = k")
    case True
    then have "k \<notin> fst ` set m" using Cons.prems by (auto simp: hm_inv_def)
    then show ?thesis using True by (simp add: hm_remove_def delete_id)
  next
    case False
    then have "Suc (length (hm_remove k m)) = length m" using Cons by (auto simp: hm_inv_def)
    then show ?thesis using False by (simp add: hm_remove_def)
  qed
qed simp

lemma mset_hm_remove:
  "hm_inv m \<Longrightarrow> map_of m k = Some v \<Longrightarrow> mset m = add_mset (k, v) (mset (hm_remove k m))"
proof (induction m)
  case (Cons a m)
  show ?case
  proof (cases "fst a = k")
    case True
    then have "k \<notin> fst ` set m" using Cons.prems by (auto simp: hm_inv_def)
    then show ?thesis using True Cons.prems by (cases a) (simp add: hm_remove_def delete_id)
  next
    case False
    then show ?thesis using Cons by (cases a) (auto simp: hm_inv_def hm_remove_def)
  qed
qed simp

lemma mset_hm_insert_new: "map_of m k = None \<Longrightarrow> mset (hm_insert k v m) = add_mset (k, v) (mset m)"
  unfolding hm_insert_def by (induction m) (auto split: if_splits)

lemma map_hm_insert_same:
  "hm_inv m \<Longrightarrow> map_of m k = Some v \<Longrightarrow> f v' = f v \<Longrightarrow> map (f \<circ> snd) (hm_insert k v' m) = map (f \<circ> snd) m"
  unfolding hm_insert_def by (induction m) (auto simp: hm_inv_def split: if_splits)

lemma map_of_map_values: "map_of (map (\<lambda>(k, v). (k, f v)) m) k = map_option f (map_of m k)"
  by (induction m) auto

lemma mset_hm_insert:
  assumes "hm_inv m"
  shows "mset (hm_insert k v m) = add_mset (k, v) (mset (hm_remove k m))"
proof -
  have "mset (hm_insert k v m) = add_mset (k, v) (mset (hm_remove k (hm_insert k v m)))"
    using assms by (intro mset_hm_remove) (simp_all add: hm_simps)
  also have "hm_remove k (hm_insert k v m) = hm_remove k m"
    by (induction m) (auto simp: hm_insert_def hm_remove_def)
  finally show ?thesis .
qed

lemma same_map_set: "hm_inv m \<Longrightarrow> hm_inv m' \<Longrightarrow> same_map m m' \<longleftrightarrow> set m = set m'"
  by (auto simp: same_map_def hm_inv_def map_of_inject_set)

lemma same_map_mset: "same_map m m' \<Longrightarrow> mset m = mset m'"
  by (auto simp: same_map_def hm_inv_def map_of_inject_set set_eq_iff_mset_eq_distinct distinct_map)

lemma same_map_perm: "hm_inv m \<Longrightarrow> mset m = mset m' \<Longrightarrow> same_map m m'"
  by (metis hm_inv_def mset_eq_setD mset_map same_map_set distinct_count_atmost_1 mset_eq_imp_distinct_iff)

text \<open>\<^verbatim>\<open>Iterator::max_by_key\<close> returns the last of several maximal elements.\<close>

definition max_by_key :: "('a \<Rightarrow> 'b::linorder) \<Rightarrow> 'a list \<Rightarrow> 'a option" where
  "max_by_key key xs = fold (\<lambda>x acc. case acc of None \<Rightarrow> Some x | Some y \<Rightarrow> if key y \<le> key x then Some x else Some y) xs None"

lemma max_by_key_snoc:
  "max_by_key key (xs @ [x]) = (case max_by_key key xs of None \<Rightarrow> Some x | Some y \<Rightarrow> if key y \<le> key x then Some x else Some y)"
  by (simp add: max_by_key_def)

lemma max_by_key_None [simp]: "max_by_key key xs = None \<longleftrightarrow> xs = []"
  by (induction xs rule: rev_induct) (simp add: max_by_key_def, simp add: max_by_key_snoc split: option.splits)

lemma max_by_key_Some: "max_by_key key xs = Some x \<Longrightarrow> x \<in> set xs \<and> (\<forall>y \<in> set xs. key y \<le> key x)"
proof (induction xs arbitrary: x rule: rev_induct)
  case (snoc z xs)
  then show ?case by (fastforce simp: max_by_key_snoc split: option.splits if_splits)
qed (simp add: max_by_key_def)

section \<open>The interface\<close>

locale hash_map =
  fixes inv :: "'m \<Rightarrow> bool" and get :: "'m \<Rightarrow> 'k \<Rightarrow> 'v option"
    and ins :: "'k \<Rightarrow> 'v \<Rightarrow> 'm \<Rightarrow> 'm" and rem :: "'k \<Rightarrow> 'm \<Rightarrow> 'm"
    and retain :: "('k \<Rightarrow> 'v \<Rightarrow> bool) \<Rightarrow> 'm \<Rightarrow> 'm" and len :: "'m \<Rightarrow> nat"
  assumes inv_ins: "inv m \<Longrightarrow> inv (ins k v m)"
    and inv_rem: "inv m \<Longrightarrow> inv (rem k m)"
    and inv_retain: "inv m \<Longrightarrow> inv (retain P m)"
    and get_ins: "inv m \<Longrightarrow> get (ins k v m) j = (if j = k then Some v else get m j)"
    and get_rem: "inv m \<Longrightarrow> get (rem k m) j = (if j = k then None else get m j)"
    and get_retain: "inv m \<Longrightarrow> get (retain P m) j =
        (case get m j of Some v \<Rightarrow> if P j v then Some v else None | None \<Rightarrow> None)"
    and len_ins: "inv m \<Longrightarrow> len (ins k v m) = (if get m k = None then Suc (len m) else len m)"
    and len_rem: "inv m \<Longrightarrow> get m k \<noteq> None \<Longrightarrow> Suc (len (rem k m)) = len m"
    and len_retain: "inv m \<Longrightarrow> len (retain P m) \<le> len m"
begin

text \<open>The eviction pattern the bounded tables share: make room, then insert.\<close>

lemma evict_insert_bound:
  assumes "inv m" "len m \<le> cap" "0 < cap"
    and "get m k = None \<and> cap \<le> len m \<Longrightarrow> get m victim \<noteq> None \<and> m' = rem victim m"
    and "\<not> (get m k = None \<and> cap \<le> len m) \<Longrightarrow> m' = m"
  shows "len (ins k v m') \<le> cap \<and> inv (ins k v m')"
proof (cases "get m k = None \<and> cap \<le> len m")
  case True
  then have m': "m' = rem victim m" and "Suc (len (rem victim m)) = len m"
    using assms len_rem by auto
  then show ?thesis using assms True by (auto simp: len_ins inv_rem inv_ins)
next
  case False
  then show ?thesis using assms by (auto simp: len_ins inv_ins)
qed

lemma get_ins_same: "inv m \<Longrightarrow> get (ins k v m) k = Some v"
  by (simp add: get_ins)

lemma retain_subset: "inv m \<Longrightarrow> get (retain P m) j = Some v \<Longrightarrow> get m j = Some v \<and> P j v"
  by (auto simp: get_retain split: option.splits if_splits)

end

interpretation hm: hash_map hm_inv map_of hm_insert hm_remove hm_retain length
  by unfold_locales (auto simp: hm_simps length_hm_remove length_hm_retain_le split: option.splits)

end
