(* ===== verification/F64.thy ===== *)
theory F64
  imports Fips_Prelude Complex_Main "HOL-Library.Log_Nat"
begin

text \<open>
  The \<^verbatim>\<open>f64\<close> arithmetic the sources use. A finite value is the rational it denotes; every operation
  is the exact rational operation followed by rounding to nearest, ties to even, with 53 bits of
  precision, subnormals and overflow to infinity. The sign of zero is not kept: no modelled code
  divides by a negative zero. Comparisons with NaN are false.
\<close>

datatype f64 = Fin rat | PInf | NInf | NaN

definition round_half_even :: "rat \<Rightarrow> int" where
  "round_half_even r = (let f = \<lfloor>r\<rfloor>; d = r - of_int f in
     if d < 1 / 2 then f else if d > 1 / 2 then f + 1 else if even f then f else f + 1)"

text \<open>The binary exponent: \<open>2 ^ e \<le> \<bar>x\<bar> < 2 ^ (e + 1)\<close>.\<close>

definition log2_floor :: "rat \<Rightarrow> int" where
  "log2_floor x = (if \<bar>x\<bar> \<ge> 1 then int (floorlog 2 (nat \<lfloor>\<bar>x\<bar>\<rfloor>)) - 1
     else - int (floorlog 2 (nat (\<lceil>1 / \<bar>x\<bar>\<rceil> - 1))))"

definition pow2 :: "int \<Rightarrow> rat" where
  "pow2 e = (if 0 \<le> e then 2 ^ nat e else 1 / 2 ^ nat (- e))"

definition rnd64 :: "rat \<Rightarrow> f64" where
  "rnd64 x = (if x = 0 then Fin 0 else
     (let e = max (log2_floor x - 52) (- 1074);
          r = of_int (round_half_even (x / pow2 e)) * pow2 e
      in if r \<ge> pow2 1024 then PInf else if r \<le> - pow2 1024 then NInf else Fin r))"

fun f_neg :: "f64 \<Rightarrow> f64" where
  "f_neg (Fin x) = Fin (- x)"
| "f_neg PInf = NInf"
| "f_neg NInf = PInf"
| "f_neg NaN = NaN"

fun f_add :: "f64 \<Rightarrow> f64 \<Rightarrow> f64" where
  "f_add (Fin x) (Fin y) = rnd64 (x + y)"
| "f_add NaN _ = NaN"
| "f_add _ NaN = NaN"
| "f_add PInf NInf = NaN"
| "f_add NInf PInf = NaN"
| "f_add PInf _ = PInf"
| "f_add _ PInf = PInf"
| "f_add NInf _ = NInf"
| "f_add _ NInf = NInf"

definition f_sub :: "f64 \<Rightarrow> f64 \<Rightarrow> f64" where
  "f_sub a b = f_add a (f_neg b)"

definition inf_of_sign :: "rat \<Rightarrow> f64" where
  "inf_of_sign s = (if s > 0 then PInf else if s < 0 then NInf else NaN)"

fun f_sign :: "f64 \<Rightarrow> rat" where
  "f_sign (Fin x) = sgn x"
| "f_sign PInf = 1"
| "f_sign NInf = - 1"
| "f_sign NaN = 0"

fun f_mul :: "f64 \<Rightarrow> f64 \<Rightarrow> f64" where
  "f_mul (Fin x) (Fin y) = rnd64 (x * y)"
| "f_mul a b = (if a = NaN \<or> b = NaN then NaN else inf_of_sign (f_sign a * f_sign b))"

fun f_div :: "f64 \<Rightarrow> f64 \<Rightarrow> f64" where
  "f_div (Fin x) (Fin y) = (if y = 0 then inf_of_sign (sgn x) else rnd64 (x / y))"
| "f_div (Fin x) b = (if b = NaN then NaN else Fin 0)"
| "f_div a (Fin y) = (if a = NaN then NaN else if y < 0 then f_neg a else a)"
| "f_div _ _ = NaN"

fun f_lt :: "f64 \<Rightarrow> f64 \<Rightarrow> bool" where
  "f_lt (Fin x) (Fin y) = (x < y)"
| "f_lt NaN _ = False"
| "f_lt _ NaN = False"
| "f_lt PInf _ = False"
| "f_lt _ NInf = False"
| "f_lt _ _ = True"

definition f_eq :: "f64 \<Rightarrow> f64 \<Rightarrow> bool" where
  "f_eq a b \<longleftrightarrow> a \<noteq> NaN \<and> a = b"

definition f_le :: "f64 \<Rightarrow> f64 \<Rightarrow> bool" where
  "f_le a b \<longleftrightarrow> f_lt a b \<or> f_eq a b"

definition f_clamp :: "f64 \<Rightarrow> f64 \<Rightarrow> f64 \<Rightarrow> f64" where
  "f_clamp x lo hi = (let y = (if f_lt x lo then lo else x) in if f_lt hi y then hi else y)"

definition f_min :: "f64 \<Rightarrow> f64 \<Rightarrow> f64" where
  "f_min a b = (if a = NaN then b else if b = NaN then a else if f_lt b a then b else a)"

definition f_max :: "f64 \<Rightarrow> f64 \<Rightarrow> f64" where
  "f_max a b = (if a = NaN then b else if b = NaN then a else if f_lt a b then b else a)"

definition f_of_nat :: "nat \<Rightarrow> f64" where
  "f_of_nat n = rnd64 (of_nat n)"

section \<open>Comparison\<close>

lemma f_lt_irrefl [simp]: "\<not> f_lt a a"
  by (cases a) auto

lemma f_lt_trans: "f_lt a b \<Longrightarrow> f_lt b c \<Longrightarrow> f_lt a c"
  by (cases a; cases b; cases c) auto

lemma f_lt_not_NaN: "f_lt a b \<Longrightarrow> a \<noteq> NaN \<and> b \<noteq> NaN"
  by (cases a; cases b) auto

lemma f_lt_total: "a \<noteq> NaN \<Longrightarrow> b \<noteq> NaN \<Longrightarrow> f_lt a b \<or> a = b \<or> f_lt b a"
  by (cases a; cases b) auto

lemma f_lt_asym: "f_lt a b \<Longrightarrow> \<not> f_lt b a"
  by (cases a; cases b) auto

lemma f_le_refl: "a \<noteq> NaN \<Longrightarrow> f_le a a"
  by (simp add: f_le_def f_eq_def)

lemma f_le_trans: "f_le a b \<Longrightarrow> f_le b c \<Longrightarrow> f_le a c"
  by (auto simp: f_le_def f_eq_def intro: f_lt_trans)

lemma f_le_total: "a \<noteq> NaN \<Longrightarrow> b \<noteq> NaN \<Longrightarrow> f_le a b \<or> f_le b a"
  using f_lt_total [of a b] by (auto simp: f_le_def f_eq_def)

lemma f_not_lt: "a \<noteq> NaN \<Longrightarrow> b \<noteq> NaN \<Longrightarrow> \<not> f_lt a b \<longleftrightarrow> f_le b a"
  using f_lt_total [of a b] f_lt_asym [of a b] by (auto simp: f_le_def f_eq_def)

lemma f_clamp_range:
  "f_lt hi lo = False \<Longrightarrow> x \<noteq> NaN \<Longrightarrow> lo \<noteq> NaN \<Longrightarrow> hi \<noteq> NaN \<Longrightarrow>
     f_le lo (f_clamp x lo hi) \<and> f_le (f_clamp x lo hi) hi"
  by (auto simp: f_clamp_def Let_def f_not_lt f_le_refl intro: f_le_trans
      dest: f_lt_trans simp: f_le_def f_eq_def)

section \<open>Rounding\<close>

lemma round_half_even_int [simp]: "round_half_even (of_int k) = k"
  by (simp add: round_half_even_def)

lemma pow2_pos: "0 < pow2 e"
  by (simp add: pow2_def)

lemma pow2_nat: "pow2 (int n) = 2 ^ n" "pow2 (- int n) = 1 / 2 ^ n"
  by (auto simp: pow2_def)

lemma pow2_add: "pow2 (a + b) = pow2 a * pow2 b"
proof -
  have powi: "pow2 e = 2 powi e" for e
    by (simp add: pow2_def power_int_def inverse_eq_divide power_one_over)
  show ?thesis unfolding powi by (rule power_int_add) simp
qed

lemma pow2_mono: "a \<le> b \<Longrightarrow> pow2 a \<le> pow2 b"
proof -
  assume "a \<le> b"
  then obtain n where "b = a + int n" by (metis zle_iff_zadd)
  then show ?thesis using pow2_pos [of a] by (simp add: pow2_add pow2_nat mult_le_cancel_left1)
qed

lemma pow2_less_iff: "pow2 a < pow2 b \<longleftrightarrow> a < b"
proof
  show "pow2 a < pow2 b \<Longrightarrow> a < b" using pow2_mono [of b a] by force
next
  assume "a < b"
  then have "pow2 (a + 1) \<le> pow2 b" by (intro pow2_mono) simp
  moreover have "pow2 (a + 1) = 2 * pow2 a" by (simp add: pow2_add) (simp add: pow2_def)
  ultimately show "pow2 a < pow2 b" using pow2_pos [of a] by linarith
qed

lemma floorlog2_bounds:
  assumes "1 \<le> n"
  shows "0 < floorlog 2 n" "2 ^ (floorlog 2 n - 1) \<le> n" "n < 2 ^ floorlog 2 n"
proof -
  show le: "2 ^ (floorlog 2 n - 1) \<le> n" and lt: "n < 2 ^ floorlog 2 n"
    using floorlog_bounds [of n 2] assms by auto
  show "0 < floorlog 2 n" using lt assms by (cases "floorlog 2 n") auto
qed

lemma log2_floor_bounds:
  assumes "x \<noteq> 0"
  shows "pow2 (log2_floor x) \<le> \<bar>x\<bar> \<and> \<bar>x\<bar> < pow2 (log2_floor x + 1)"
proof (cases "1 \<le> \<bar>x\<bar>")
  case True
  define n where "n = nat \<lfloor>\<bar>x\<bar>\<rfloor>"
  define w where "w = floorlog 2 n"
  have n: "1 \<le> n" "of_nat n \<le> \<bar>x\<bar>" "\<bar>x\<bar> < of_nat n + 1"
    using True floor_correct [of "\<bar>x\<bar>"] by (auto simp: n_def le_nat_iff le_floor_iff of_nat_nat)
  then have w: "2 ^ (w - 1) \<le> n" "n < 2 ^ w" "0 < w"
    using floorlog2_bounds [of n] by (auto simp: w_def)
  then have "(2 ^ (w - 1) :: rat) \<le> of_nat n" "(of_nat n + 1 :: rat) \<le> 2 ^ w"
    by (metis of_nat_le_iff of_nat_power of_nat_numeral)
       (metis w(2) Suc_leI of_nat_Suc of_nat_le_iff of_nat_power of_nat_numeral add.commute)
  moreover have "log2_floor x = int (w - 1)" "log2_floor x + 1 = int w"
    using True w(3) by (auto simp: log2_floor_def w_def n_def)
  ultimately show ?thesis using n by (simp only: pow2_nat) linarith
next
  case False
  define y where "y = 1 / \<bar>x\<bar>"
  define n where "n = nat (\<lceil>y\<rceil> - 1)"
  define w where "w = floorlog 2 n"
  have y: "1 < y" "\<bar>x\<bar> = 1 / y" using False assms by (auto simp: y_def field_simps)
  then have ceil: "2 \<le> \<lceil>y\<rceil>" by (simp add: le_ceiling_iff)
  then have n: "1 \<le> n" "of_nat n < y" "y \<le> of_nat n + 1"
    unfolding n_def by (auto simp: of_nat_nat) linarith+
  then have w: "2 ^ (w - 1) \<le> n" "n < 2 ^ w" "0 < w"
    using floorlog2_bounds [of n] by (auto simp: w_def)
  then have "(2 ^ (w - 1) :: rat) \<le> of_nat n" "(of_nat n + 1 :: rat) \<le> 2 ^ w"
    by (metis of_nat_le_iff of_nat_power of_nat_numeral)
       (metis w(2) Suc_leI of_nat_Suc of_nat_le_iff of_nat_power of_nat_numeral add.commute)
  then have "2 ^ (w - 1) < y" "y \<le> 2 ^ w" using n by linarith+
  then have "1 / 2 ^ w \<le> 1 / y" "1 / y < 1 / 2 ^ (w - 1)"
    using y by (auto intro!: frac_le divide_strict_left_mono)
  moreover have "log2_floor x = - int w" "log2_floor x + 1 = - int (w - 1)"
    using False w(3) by (auto simp: log2_floor_def w_def n_def y_def)
  ultimately show ?thesis using y by (simp only: pow2_nat)
qed

text \<open>Rounding is exact on every value with at most 53 significant bits.\<close>

lemma rnd64_exact:
  assumes x: "x = of_int m * pow2 q" and m: "\<bar>m\<bar> < 2 ^ 53" and q: "- 1074 \<le> q" "q \<le> 971"
  shows "rnd64 x = Fin x"
proof (cases "x = 0")
  case False
  define e where "e = max (log2_floor x - 52) (- 1074)"
  have mm: "\<bar>of_int m :: rat\<bar> < 2 ^ 53"
    using m by (metis of_int_abs of_int_less_iff of_int_numeral of_int_power)
  then have lt: "\<bar>x\<bar> < pow2 (53 + q)"
    using pow2_pos [of q] by (simp add: x abs_mult pow2_add) (simp add: pow2_def)
  then have "log2_floor x < 53 + q"
    using log2_floor_bounds [OF False] pow2_less_iff [of "log2_floor x" "53 + q"] by linarith
  then have "e \<le> q" using q by (simp add: e_def)
  then obtain n where n: "q = e + int n" by (metis zle_iff_zadd)
  have "x / pow2 e = of_int (m * 2 ^ n)"
    using pow2_pos [of e] by (simp add: x n pow2_add pow2_nat)
  then have r: "of_int (round_half_even (x / pow2 e)) * pow2 e = x"
    by (simp only: round_half_even_int) (simp add: x n pow2_add pow2_nat)
  have "\<bar>x\<bar> < pow2 1024" using lt pow2_mono [of "53 + q" 1024] q by linarith
  then show ?thesis using False r
    by (simp add: rnd64_def Let_def e_def [symmetric]) linarith
qed (simp add: rnd64_def)

lemma rnd64_of_int: "\<bar>m\<bar> < 2 ^ 53 \<Longrightarrow> rnd64 (of_int m) = Fin (of_int m)"
  by (rule rnd64_exact [of _ m 0]) (simp_all add: pow2_def)

lemma f_of_nat_exact: "n < 2 ^ 53 \<Longrightarrow> f_of_nat n = Fin (of_nat n)"
  using rnd64_of_int [of "int n"] by (simp add: f_of_nat_def)

lemma rnd64_not_NaN: "rnd64 x \<noteq> NaN"
  by (simp add: rnd64_def Let_def)

lemma f_of_nat_not_NaN [simp]: "f_of_nat n \<noteq> NaN"
  by (simp add: f_of_nat_def rnd64_not_NaN)

lemma rnd64_0 [simp]: "rnd64 0 = Fin 0"
  by (simp add: rnd64_def)

lemma rnd64_1 [simp]: "rnd64 1 = Fin 1"
  using rnd64_of_int [of 1] by simp

lemma rnd64_numeral: "(numeral n :: int) < 2 ^ 53 \<Longrightarrow> rnd64 (numeral n) = Fin (numeral n)"
  using rnd64_of_int [of "numeral n"] by simp

section \<open>Rounding is monotone\<close>

lemma round_half_even_range: "\<lfloor>x\<rfloor> \<le> round_half_even x" "round_half_even x \<le> \<lfloor>x\<rfloor> + 1"
  by (auto simp: round_half_even_def Let_def)

lemma round_half_even_mono: "x \<le> y \<Longrightarrow> round_half_even x \<le> round_half_even y"
proof (cases "\<lfloor>x\<rfloor> = \<lfloor>y\<rfloor>")
  case True
  then show "x \<le> y \<Longrightarrow> round_half_even x \<le> round_half_even y" by (auto simp: round_half_even_def Let_def)
next
  case False
  then show "x \<le> y \<Longrightarrow> round_half_even x \<le> round_half_even y"
    using floor_mono [of x y] round_half_even_range [of x] round_half_even_range [of y] by linarith
qed

definition rexp :: "rat \<Rightarrow> int" where
  "rexp x = max (log2_floor x - 52) (- 1074)"

definition rval :: "rat \<Rightarrow> rat" where
  "rval x = of_int (round_half_even (x / pow2 (rexp x))) * pow2 (rexp x)"

lemma rval_ge: "of_int k * pow2 (rexp x) \<le> x \<Longrightarrow> of_int k * pow2 (rexp x) \<le> rval x"
  using round_half_even_mono [of "of_int k" "x / pow2 (rexp x)"] pow2_pos [of "rexp x"]
  by (simp add: rval_def pos_le_divide_eq mult_right_mono)

lemma rval_le: "x \<le> of_int k * pow2 (rexp x) \<Longrightarrow> rval x \<le> of_int k * pow2 (rexp x)"
  using round_half_even_mono [of "x / pow2 (rexp x)" "of_int k"] pow2_pos [of "rexp x"]
  by (simp add: rval_def pos_divide_le_eq mult_right_mono)

lemma rval_mono:
  assumes "0 < x" "x \<le> y"
  shows "rval x \<le> rval y"
proof -
  have x: "pow2 (log2_floor x) \<le> x" "x < pow2 (log2_floor x + 1)" and y: "pow2 (log2_floor y) \<le> y" "y < pow2 (log2_floor y + 1)"
    using log2_floor_bounds [of x] log2_floor_bounds [of y] assms by auto
  then have "pow2 (log2_floor x) < pow2 (log2_floor y + 1)" using assms(2) by linarith
  then have le: "log2_floor x \<le> log2_floor y" by (simp add: pow2_less_iff)
  show ?thesis
  proof (cases "rexp x = rexp y")
    case True
    then show ?thesis
      using assms(2) pow2_pos [of "rexp y"]
      by (auto simp: rval_def intro!: mult_right_mono round_half_even_mono divide_right_mono)
  next
    case False
    then have e: "rexp y = log2_floor y - 52" "rexp x + 1 \<le> rexp y" "log2_floor x + 1 \<le> 53 + rexp x"
      using le by (auto simp: rexp_def)
    have "pow2 (53 + rexp x) = of_int (2 ^ 53) * pow2 (rexp x)" "pow2 (52 + rexp y) = of_int (2 ^ 52) * pow2 (rexp y)"
      by (simp_all add: pow2_add) (simp_all add: pow2_def)
    moreover have "x \<le> pow2 (53 + rexp x)" using x(2) pow2_mono [OF e(3)] by linarith
    moreover have "pow2 (52 + rexp y) \<le> y" using y(1) e(1) by simp
    ultimately have "rval x \<le> pow2 (53 + rexp x)" "pow2 (52 + rexp y) \<le> rval y"
      using rval_le [of x "2 ^ 53"] rval_ge [of "2 ^ 52" y] by simp_all
    moreover have "pow2 (53 + rexp x) \<le> pow2 (52 + rexp y)" using e(2) by (intro pow2_mono) simp
    ultimately show ?thesis by linarith
  qed
qed

lemma rval_nonneg: "0 \<le> x \<Longrightarrow> 0 \<le> rval x"
  using rval_ge [of 0 x] by simp

lemma rnd64_rval: "0 \<le> x \<Longrightarrow> rnd64 x = (if x = 0 then Fin 0 else if pow2 1024 \<le> rval x then PInf else Fin (rval x))"
  using rval_nonneg [of x] pow2_pos [of 1024]
  by (auto simp: rnd64_def rval_def rexp_def Let_def)

lemma rnd64_mono: "0 \<le> x \<Longrightarrow> x \<le> y \<Longrightarrow> f_le (rnd64 x) (rnd64 y)"
  using rval_mono [of x y] rval_nonneg [of y] by (auto simp: rnd64_rval f_le_def f_eq_def)

lemma rnd64_le_int:
  assumes "0 \<le> x" "x \<le> of_int m" "m < 2 ^ 53"
  shows "\<exists>r. rnd64 x = Fin r \<and> 0 \<le> r \<and> r \<le> of_int m"
proof -
  have "0 \<le> m" using assms by linarith
  then have "rnd64 (of_int m) = Fin (of_int m)" using assms(3) by (intro rnd64_of_int) simp
  moreover have "f_le (rnd64 0) (rnd64 x)" "f_le (rnd64 x) (rnd64 (of_int m))"
    using rnd64_mono [of 0 x] rnd64_mono [of x "of_int m"] assms by simp_all
  ultimately show ?thesis by (cases "rnd64 x") (auto simp: f_le_def f_eq_def)
qed

end
