(* ===== verification/Tree_State.thy ===== *)
theory Tree_State
  imports Tree_Coordinate Hash_Map F64
begin

text \<open>
  The spanning-tree state of a node (\<^verbatim>\<open>proto/stp/state.rs\<close>): peer bookkeeping, parent selection,
  root election, flap dampening and greedy next-hop choice. The clocks the code reads
  (\<open>instant_now\<close>, \<open>now_secs\<close>) are arguments \<open>now\<close> and \<open>now_s\<close>.
\<close>

record tree_state =
  my_node_addr :: node_addr
  leaf_only :: bool
  my_declaration :: parent_declaration
  my_coords :: tree_coordinate
  ts_root :: node_addr
  peer_declarations :: "(node_addr, parent_declaration) hmap"
  peer_ancestry :: "(node_addr, tree_coordinate) hmap"
  parent_hysteresis :: f64
  hold_down :: duration
  last_parent_switch :: "instant option"
  flap_count :: u32
  flap_window_start :: "instant option"
  flap_dampening_until :: "instant option"
  flap_threshold :: u32
  flap_window :: duration
  flap_dampening_duration :: duration

definition tree_new :: "node_addr \<Rightarrow> u64 \<Rightarrow> tree_state" where
  "tree_new a now_s =
    \<lparr> my_node_addr = a, leaf_only = False, my_declaration = self_root a 1 now_s,
      my_coords = root_with_meta a 1 now_s, ts_root = a, peer_declarations = [], peer_ancestry = [],
      parent_hysteresis = Fin 0, hold_down = 0, last_parent_switch = None, flap_count = 0,
      flap_window_start = None, flap_dampening_until = None, flap_threshold = 4,
      flap_window = from_secs 60, flap_dampening_duration = from_secs 120 \<rparr>"

definition set_leaf_only :: "tree_state \<Rightarrow> bool \<Rightarrow> tree_state" where
  "set_leaf_only s b = s\<lparr> leaf_only := b \<rparr>"

definition is_root :: "tree_state \<Rightarrow> bool" where
  "is_root s \<longleftrightarrow> ts_root s = my_node_addr s"

definition update_peer :: "tree_state \<Rightarrow> parent_declaration \<Rightarrow> tree_coordinate \<Rightarrow> tree_state \<times> bool" where
  "update_peer s declaration ancestry =
    (let peer = pd_node_addr declaration in
     case map_of (peer_declarations s) peer of
       Some existing \<Rightarrow>
         if \<not> is_fresher_than declaration existing then (s, False)
         else (s\<lparr> peer_declarations := hm_insert peer declaration (peer_declarations s),
                  peer_ancestry := hm_insert peer ancestry (peer_ancestry s) \<rparr>, True)
     | None \<Rightarrow>
         (s\<lparr> peer_declarations := hm_insert peer declaration (peer_declarations s),
             peer_ancestry := hm_insert peer ancestry (peer_ancestry s) \<rparr>, True))"

definition remove_peer :: "tree_state \<Rightarrow> node_addr \<Rightarrow> tree_state" where
  "remove_peer s peer = s\<lparr> peer_declarations := hm_remove peer (peer_declarations s),
     peer_ancestry := hm_remove peer (peer_ancestry s) \<rparr>"

definition record_parent_switch :: "tree_state \<Rightarrow> instant \<Rightarrow> tree_state \<times> bool" where
  "record_parent_switch s now =
    (let s1 = (case flap_window_start s of
          Some start \<Rightarrow>
            if duration_since now start < flap_window s then s\<lparr> flap_count := flap_count s + 1 \<rparr>
            else s\<lparr> flap_window_start := Some now, flap_count := 1 \<rparr>
        | None \<Rightarrow> s\<lparr> flap_window_start := Some now, flap_count := 1 \<rparr>)
     in if flap_count s1 \<ge> flap_threshold s1 \<and> flap_dampening_until s1 = None
        then (s1\<lparr> flap_dampening_until := Some (now + flap_dampening_duration s1) \<rparr>, True)
        else (s1, False))"

definition is_flap_dampened :: "tree_state \<Rightarrow> instant \<Rightarrow> bool" where
  "is_flap_dampened s now = (case flap_dampening_until s of Some until \<Rightarrow> now < until | None \<Rightarrow> False)"

definition set_parent :: "tree_state \<Rightarrow> instant \<Rightarrow> node_addr \<Rightarrow> u64 \<Rightarrow> u64 \<Rightarrow> tree_state \<times> bool" where
  "set_parent s now parent sequence timestamp =
    (let parent_changed = (is_root s \<or> pd_parent_id (my_declaration s) \<noteq> parent);
         s1 = s\<lparr> my_declaration := decl_new (my_node_addr s) parent sequence timestamp,
                 last_parent_switch := Some now \<rparr>
     in if parent_changed then record_parent_switch s1 now else (s1, False))"

definition recompute_coords :: "tree_state \<Rightarrow> tree_state" where
  "recompute_coords s =
    (let d = my_declaration s; me = my_node_addr s in
     if decl_is_root d then
       s\<lparr> my_coords := root_with_meta me (pd_sequence d) (pd_timestamp d), ts_root := me \<rparr>
     else case map_of (peer_ancestry s) (pd_parent_id d) of
       None \<Rightarrow> s
     | Some parent_coords \<Rightarrow>
         if \<not> leaf_only s \<and> me \<le> root_id parent_coords then
           s\<lparr> my_declaration := self_root me (pd_sequence d) (pd_timestamp d),
              my_coords := root_with_meta me (pd_sequence d) (pd_timestamp d), ts_root := me \<rparr>
         else
           (let coords = entry_new me (pd_sequence d) (pd_timestamp d) # parent_coords
            in s\<lparr> my_coords := coords, ts_root := root_id coords \<rparr>))"

definition advance_role_declaration :: "tree_state \<Rightarrow> u64 \<Rightarrow> tree_state" where
  "advance_role_declaration s now_s =
     recompute_coords (s\<lparr> my_declaration := decl_new (my_node_addr s) (pd_parent_id (my_declaration s))
       (pd_sequence (my_declaration s) + 1) now_s \<rparr>)"

definition smallest_visible_root :: "tree_state \<Rightarrow> node_addr option" where
  "smallest_visible_root s =
    (case map (\<lambda>pc. root_id (snd pc)) (peer_ancestry s) of [] \<Rightarrow> None | r # rs \<Rightarrow> Some (fold min rs r))"

definition should_be_root :: "tree_state \<Rightarrow> bool" where
  "should_be_root s = (case smallest_visible_root s of
     Some sr \<Rightarrow> \<not> leaf_only s \<and> my_node_addr s \<le> sr | None \<Rightarrow> True)"

definition become_root :: "tree_state \<Rightarrow> u64 \<Rightarrow> tree_state" where
  "become_root s now_s = recompute_coords
     (s\<lparr> my_declaration := self_root (my_node_addr s) (pd_sequence (my_declaration s) + 1) now_s \<rparr>)"

definition distance_to_peer :: "tree_state \<Rightarrow> node_addr \<Rightarrow> nat option" where
  "distance_to_peer s peer = map_option (distance_to (my_coords s)) (map_of (peer_ancestry s) peer)"

section \<open>Greedy next hop\<close>

definition hop_step :: "tree_coordinate \<Rightarrow> node_addr \<times> tree_coordinate \<Rightarrow>
    (node_addr \<times> nat) option \<Rightarrow> (node_addr \<times> nat) option" where
  "hop_step dest pc best =
    (let distance = distance_to (snd pc) dest;
         dominated = (case best of None \<Rightarrow> True
           | Some (best_id, best_dist) \<Rightarrow> distance < best_dist \<or> (distance = best_dist \<and> fst pc < best_id))
     in if dominated then Some (fst pc, distance) else best)"

definition find_next_hop :: "tree_state \<Rightarrow> tree_coordinate \<Rightarrow> node_addr option" where
  "find_next_hop s dest =
    (if root_id (my_coords s) \<noteq> root_id dest then None
     else case fold (hop_step dest) (peer_ancestry s) None of
       Some (peer, distance) \<Rightarrow> if distance < distance_to (my_coords s) dest then Some peer else None
     | None \<Rightarrow> None)"

section \<open>Parent evaluation\<close>

definition set_parent_hysteresis :: "tree_state \<Rightarrow> f64 \<Rightarrow> tree_state" where
  "set_parent_hysteresis s h = s\<lparr> parent_hysteresis := f_clamp h (Fin 0) (Fin 1) \<rparr>"

definition set_hold_down :: "tree_state \<Rightarrow> u64 \<Rightarrow> tree_state" where
  "set_hold_down s secs = s\<lparr> hold_down := from_secs (unat secs) \<rparr>"

definition set_flap_dampening :: "tree_state \<Rightarrow> u32 \<Rightarrow> u64 \<Rightarrow> u64 \<Rightarrow> tree_state" where
  "set_flap_dampening s threshold window_secs dampening_secs =
     s\<lparr> flap_threshold := threshold, flap_window := from_secs (unat window_secs),
        flap_dampening_duration := from_secs (unat dampening_secs) \<rparr>"

definition smallest_root_step :: "node_addr \<times> tree_coordinate \<Rightarrow> node_addr option \<Rightarrow> node_addr option" where
  "smallest_root_step pc acc =
    Some (case acc of None \<Rightarrow> root_id (snd pc)
      | Some current \<Rightarrow> if root_id (snd pc) < current then root_id (snd pc) else current)"

definition link_cost :: "(node_addr, f64) hmap \<Rightarrow> node_addr \<Rightarrow> f64 option" where
  "link_cost peer_costs peer = (case map_of peer_costs peer of
     Some c \<Rightarrow> Some c | None \<Rightarrow> if peer_costs = [] then Some (Fin 1) else None)"

definition parent_step :: "tree_state \<Rightarrow> (node_addr, f64) hmap \<Rightarrow> node_addr \<Rightarrow>
    node_addr \<times> tree_coordinate \<Rightarrow> (node_addr \<times> f64) option \<Rightarrow> (node_addr \<times> f64) option" where
  "parent_step s peer_costs smallest_root pc best =
    (if root_id (snd pc) \<noteq> smallest_root then best
     else if contains (snd pc) (my_node_addr s) then best
     else case link_cost peer_costs (fst pc) of
       None \<Rightarrow> best
     | Some cost \<Rightarrow>
        (let eff_depth = f_add (f_of_nat (depth (snd pc))) cost in
         case best of
           None \<Rightarrow> Some (fst pc, eff_depth)
         | Some (best_id, best_eff) \<Rightarrow>
             if f_lt eff_depth best_eff \<or> (f_eq eff_depth best_eff \<and> fst pc < best_id)
             then Some (fst pc, eff_depth) else best))"

definition evaluate_parent :: "tree_state \<Rightarrow> instant \<Rightarrow> (node_addr, f64) hmap \<Rightarrow> node_addr option" where
  "evaluate_parent s now peer_costs =
    (if peer_ancestry s = [] then None
     else case fold smallest_root_step (peer_ancestry s) None of
       None \<Rightarrow> None
     | Some smallest_root \<Rightarrow>
       if \<not> leaf_only s \<and> my_node_addr s \<le> smallest_root then None
       else case fold (parent_step s peer_costs smallest_root) (peer_ancestry s) None of
         None \<Rightarrow> None
       | Some (best_peer, best_eff) \<Rightarrow>
         let parent = pd_parent_id (my_declaration s) in
         if parent = best_peer \<and> \<not> is_root s then None
         else if \<not> is_root s \<and> \<not> hm_contains (peer_ancestry s) parent then Some best_peer
         else if smallest_root < ts_root s \<or> (is_root s \<and> smallest_root < my_node_addr s) then Some best_peer
         else if is_root s then Some best_peer
         else if hold_down s \<noteq> 0 \<and>
             (case last_parent_switch s of Some switched \<Rightarrow> duration_since now switched < hold_down s | None \<Rightarrow> False)
           then None
         else if is_flap_dampened s now then None
         else
           (let current_cost = (case map_of peer_costs parent of Some c \<Rightarrow> c
                | None \<Rightarrow> if peer_costs = [] then Fin 1 else PInf)
            in case map_of (peer_ancestry s) parent of
                 None \<Rightarrow> Some best_peer
               | Some coords \<Rightarrow>
                   (let current_eff = f_add (f_of_nat (depth coords)) current_cost
                    in if f_lt best_eff (f_mul current_eff (f_sub (Fin 1) (parent_hysteresis s)))
                       then Some best_peer else None)))"

definition handle_parent_lost :: "tree_state \<Rightarrow> instant \<Rightarrow> u64 \<Rightarrow> (node_addr, f64) hmap \<Rightarrow> tree_state \<times> bool" where
  "handle_parent_lost s now now_s peer_costs =
    (let new_seq = pd_sequence (my_declaration s) + 1 in
     case evaluate_parent s now peer_costs of
       Some new_parent \<Rightarrow> (recompute_coords (fst (set_parent s now new_parent new_seq now_s)), True)
     | None \<Rightarrow>
        (recompute_coords (s\<lparr> my_declaration := self_root (my_node_addr s) new_seq now_s \<rparr>), True))"

definition sign_declaration :: "tree_state \<Rightarrow> identity \<Rightarrow> tree_state \<times> (tree_error, unit) outcome" where
  "sign_declaration s i = (case sign (my_declaration s) i of (d, r) \<Rightarrow> (s\<lparr> my_declaration := d \<rparr>, r))"

section \<open>The state machine\<close>

text \<open>Every operation that changes the state, as one call. A coordinate argument is a head entry and
  the rest of the path: the type of the source cannot be empty.\<close>

datatype tree_op =
    SetLeafOnly bool
  | AdvanceRole u64
  | UpdatePeer parent_declaration coord_entry "coord_entry list"
  | RemovePeer node_addr
  | SetParent instant node_addr u64 u64
  | RecomputeCoords
  | BecomeRoot u64
  | SetParentHysteresis f64
  | SetHoldDown u64
  | SetFlapDampening u32 u64 u64
  | RecordParentSwitch instant
  | HandleParentLost instant u64 "(node_addr, f64) hmap"
  | SignDeclaration identity

fun tree_step :: "tree_state \<Rightarrow> tree_op \<Rightarrow> tree_state" where
  "tree_step s (SetLeafOnly b) = set_leaf_only s b"
| "tree_step s (AdvanceRole t) = advance_role_declaration s t"
| "tree_step s (UpdatePeer d e es) = fst (update_peer s d (e # es))"
| "tree_step s (RemovePeer p) = remove_peer s p"
| "tree_step s (SetParent now p q t) = fst (set_parent s now p q t)"
| "tree_step s RecomputeCoords = recompute_coords s"
| "tree_step s (BecomeRoot t) = become_root s t"
| "tree_step s (SetParentHysteresis h) = set_parent_hysteresis s h"
| "tree_step s (SetHoldDown secs) = set_hold_down s secs"
| "tree_step s (SetFlapDampening n w d) = set_flap_dampening s n w d"
| "tree_step s (RecordParentSwitch now) = fst (record_parent_switch s now)"
| "tree_step s (HandleParentLost now t costs) = fst (handle_parent_lost s now t costs)"
| "tree_step s (SignDeclaration i) = fst (sign_declaration s i)"

definition tree_inv :: "tree_state \<Rightarrow> bool" where
  "tree_inv s \<longleftrightarrow>
     coord_ok (my_coords s) \<and> node_addr (my_coords s) = my_node_addr s \<and>
     ts_root s = root_id (my_coords s) \<and> pd_node_addr (my_declaration s) = my_node_addr s \<and>
     hm_inv (peer_declarations s) \<and> hm_inv (peer_ancestry s) \<and>
     (\<forall>p. map_of (peer_declarations s) p = None \<longleftrightarrow> map_of (peer_ancestry s) p = None) \<and>
     (\<forall>p c. map_of (peer_ancestry s) p = Some c \<longrightarrow> coord_ok c)"

section \<open>Helper lemmas\<close>

lemmas tree_defs = set_leaf_only_def remove_peer_def set_parent_hysteresis_def set_hold_down_def
  set_flap_dampening_def update_peer_def Let_def

lemma tree_inv_new: "tree_inv (tree_new a t)"
  by (simp add: tree_inv_def tree_new_def root_with_meta_def coord_ok_def node_addr_def root_id_def
      entry_new_def self_root_def decl_new_def)

text \<open>Recording a switch and setting a parent only touch the flap counters, the switch time and the
  declaration.\<close>

lemma record_parent_switch_frame [simp]:
  "my_node_addr (fst (record_parent_switch s now)) = my_node_addr s"
  "leaf_only (fst (record_parent_switch s now)) = leaf_only s"
  "my_declaration (fst (record_parent_switch s now)) = my_declaration s"
  "my_coords (fst (record_parent_switch s now)) = my_coords s"
  "ts_root (fst (record_parent_switch s now)) = ts_root s"
  "peer_declarations (fst (record_parent_switch s now)) = peer_declarations s"
  "peer_ancestry (fst (record_parent_switch s now)) = peer_ancestry s"
  by (simp_all add: record_parent_switch_def Let_def split: option.splits)

lemma set_parent_frame [simp]:
  "my_node_addr (fst (set_parent s now p q t)) = my_node_addr s"
  "leaf_only (fst (set_parent s now p q t)) = leaf_only s"
  "my_declaration (fst (set_parent s now p q t)) = decl_new (my_node_addr s) p q t"
  "my_coords (fst (set_parent s now p q t)) = my_coords s"
  "ts_root (fst (set_parent s now p q t)) = ts_root s"
  "peer_declarations (fst (set_parent s now p q t)) = peer_declarations s"
  "peer_ancestry (fst (set_parent s now p q t)) = peer_ancestry s"
  by (simp_all add: set_parent_def Let_def)

lemma recompute_frame [simp]:
  "my_node_addr (recompute_coords s) = my_node_addr s"
  "peer_declarations (recompute_coords s) = peer_declarations s"
  "peer_ancestry (recompute_coords s) = peer_ancestry s"
  "leaf_only (recompute_coords s) = leaf_only s"
  "flap_dampening_until (recompute_coords s) = flap_dampening_until s"
  by (auto simp: recompute_coords_def Let_def split: option.splits)

lemma tree_inv_decl:
  "tree_inv s \<Longrightarrow> pd_node_addr d = my_node_addr s \<Longrightarrow> tree_inv (s\<lparr> my_declaration := d \<rparr>)"
  by (simp add: tree_inv_def)

lemma tree_inv_recompute: "tree_inv s \<Longrightarrow> tree_inv (recompute_coords s)"
  by (auto simp: tree_inv_def recompute_coords_def Let_def root_with_meta_def coord_ok_def
      node_addr_def root_id_def entry_new_def self_root_def decl_new_def split: option.splits)

lemma tree_inv_record: "tree_inv s \<Longrightarrow> tree_inv (fst (record_parent_switch s now))"
  by (simp add: tree_inv_def)

lemma tree_inv_set_parent: "tree_inv s \<Longrightarrow> tree_inv (fst (set_parent s now p q t))"
  by (simp add: tree_inv_def decl_new_def)

lemma tree_inv_update:
  "tree_inv s \<Longrightarrow> coord_ok c \<Longrightarrow> tree_inv (fst (update_peer s d c))"
  by (auto simp: tree_inv_def tree_defs hm_simps split: option.splits)

lemma tree_inv_step: "tree_inv s \<Longrightarrow> tree_inv (tree_step s op)"
proof (cases op)
  case (HandleParentLost now t costs)
  then show "tree_inv s \<Longrightarrow> ?thesis"
    by (auto simp: handle_parent_lost_def Let_def self_root_def decl_new_def
        intro!: tree_inv_recompute tree_inv_set_parent tree_inv_decl split: option.splits)
next
  case (SignDeclaration i)
  then show "tree_inv s \<Longrightarrow> ?thesis"
    by (auto simp: sign_declaration_def sign_def tree_inv_def)
qed (auto simp: advance_role_declaration_def become_root_def decl_new_def self_root_def coord_ok_def
    intro!: tree_inv_recompute tree_inv_set_parent tree_inv_decl tree_inv_record tree_inv_update,
    auto simp: tree_inv_def tree_defs hm_simps)

interpretation tree_machine: invariant_machine tree_inv tree_step
  by unfold_locales (rule tree_inv_step)

section \<open>Scans over the peers\<close>

definition hop_better :: "node_addr \<times> nat \<Rightarrow> node_addr \<times> nat \<Rightarrow> bool" where
  "hop_better x y \<longleftrightarrow> snd x < snd y \<or> (snd x = snd y \<and> fst x < fst y)"

definition hop_candidates :: "tree_coordinate \<Rightarrow> (node_addr, tree_coordinate) hmap \<Rightarrow> (node_addr \<times> nat) list" where
  "hop_candidates dest m = map (\<lambda>pc. (fst pc, distance_to (snd pc) dest)) m"

interpretation hop_choice: choice hop_better "\<lambda>_. True"
  by unfold_locales (auto simp: hop_better_def prod_eq_iff)

lemma hop_scan: "fold (hop_step dest) m None = scan_best hop_better (hop_candidates dest m)"
proof -
  have "hop_step dest pc best = pick hop_better best (fst pc, distance_to (snd pc) dest)" for pc best
    by (auto simp: hop_step_def pick_def hop_better_def Let_def split: option.splits)
  then have "fold (hop_step dest) m b =
      fold (\<lambda>x best. pick hop_better best x) (hop_candidates dest m) b" for b
    by (induction m arbitrary: b) (auto simp: hop_candidates_def)
  then show ?thesis by (simp add: scan_best_def)
qed

definition parent_better :: "node_addr \<times> f64 \<Rightarrow> node_addr \<times> f64 \<Rightarrow> bool" where
  "parent_better x y \<longleftrightarrow> f_lt (snd x) (snd y) \<or> (f_eq (snd x) (snd y) \<and> fst x < fst y)"

definition eff_depth :: "(node_addr, f64) hmap \<Rightarrow> node_addr \<Rightarrow> tree_coordinate \<Rightarrow> f64 option" where
  "eff_depth costs p c = map_option (f_add (f_of_nat (depth c))) (link_cost costs p)"

definition parent_candidates :: "node_addr \<Rightarrow> (node_addr, f64) hmap \<Rightarrow> node_addr \<Rightarrow>
    (node_addr, tree_coordinate) hmap \<Rightarrow> (node_addr \<times> f64) list" where
  "parent_candidates me costs r m = List.map_filter (\<lambda>pc.
     if root_id (snd pc) \<noteq> r \<or> contains (snd pc) me then None
     else map_option (\<lambda>d. (fst pc, d)) (eff_depth costs (fst pc) (snd pc))) m"

interpretation parent_choice: choice parent_better "\<lambda>x. snd x \<noteq> NaN"
  by unfold_locales
    (auto simp: parent_better_def f_eq_def prod_eq_iff intro: f_lt_trans dest: f_lt_total)

lemma parent_scan:
  "fold (parent_step s costs r) m None = scan_best parent_better (parent_candidates (my_node_addr s) costs r m)"
proof -
  have "fold (parent_step s costs r) m b =
      fold (\<lambda>x best. pick parent_better best x) (parent_candidates (my_node_addr s) costs r m) b" for b
    by (induction m arbitrary: b)
      (auto simp: parent_candidates_def map_filter_simps parent_step_def pick_def parent_better_def
        eff_depth_def Let_def split: option.splits)
  then show ?thesis by (simp add: scan_best_def)
qed

lemma set_parent_candidates:
  "(p, d) \<in> set (parent_candidates me costs r m) \<longleftrightarrow>
     (\<exists>c. (p, c) \<in> set m \<and> root_id c = r \<and> \<not> contains c me \<and> eff_depth costs p c = Some d)"
  by (auto simp: parent_candidates_def List.map_filter_def image_iff split: if_splits) force+

lemma smallest_root_scan: "fold smallest_root_step m None = scan_best (<) (map (\<lambda>pc. root_id (snd pc)) m)"
proof -
  have "fold smallest_root_step m b =
      fold (\<lambda>x best. pick (<) best x) (map (\<lambda>pc. root_id (snd pc)) m) b" for b
    by (induction m arbitrary: b) (auto simp: smallest_root_step_def pick_def split: option.splits)
  then show ?thesis by (simp add: scan_best_def)
qed

interpretation root_choice: choice "(<) :: node_addr \<Rightarrow> node_addr \<Rightarrow> bool" "\<lambda>_. True"
  by unfold_locales auto

text \<open>The outcome of the two scans, as the rest of the evaluation uses it.\<close>

lemma smallest_root_SomeD:
  assumes "fold smallest_root_step m None = Some r"
  shows "r \<in> (\<lambda>pc. root_id (snd pc)) ` set m" "\<And>p c. (p, c) \<in> set m \<Longrightarrow> r \<le> root_id c"
proof -
  from assms have scan: "scan_best (<) (map (\<lambda>pc. root_id (snd pc)) m) = Some r"
    by (simp add: smallest_root_scan)
  then show "r \<in> (\<lambda>pc. root_id (snd pc)) ` set m" using scan_best_mem [OF scan] by simp
  show "r \<le> root_id c" if "(p, c) \<in> set m" for p c
    using root_choice.scan_best_least [OF _ scan, of "root_id c"] that by force
qed

lemma evaluate_parent_SomeD:
  assumes "evaluate_parent s now costs = Some p"
  obtains r d where "fold smallest_root_step (peer_ancestry s) None = Some r"
    "leaf_only s \<or> r < my_node_addr s"
    "scan_best parent_better (parent_candidates (my_node_addr s) costs r (peer_ancestry s)) = Some (p, d)"
proof -
  obtain r where r: "fold smallest_root_step (peer_ancestry s) None = Some r"
    using assms by (cases "fold smallest_root_step (peer_ancestry s) None")
      (auto simp: evaluate_parent_def split: if_splits)
  have guard: "leaf_only s \<or> r < my_node_addr s"
    using assms r by (cases "leaf_only s \<or> r < my_node_addr s")
      (auto simp: evaluate_parent_def not_less split: if_splits)
  obtain q d where best:
      "scan_best parent_better (parent_candidates (my_node_addr s) costs r (peer_ancestry s)) = Some (q, d)"
    using assms r guard
    by (cases "scan_best parent_better (parent_candidates (my_node_addr s) costs r (peer_ancestry s))")
      (auto simp: evaluate_parent_def parent_scan split: if_splits)
  have "q = p"
    using assms r best guard unfolding evaluate_parent_def parent_scan Let_def
    by (simp split: if_splits option.splits)
  then show thesis using that r guard best by blast
qed

lemma rnd64_nonneg: "0 \<le> x \<Longrightarrow> rnd64 x \<noteq> NInf"
proof
  assume x: "0 \<le> x" and inf: "rnd64 x = NInf"
  define e where "e = max (log2_floor x - 52) (- 1074)"
  have "0 \<le> round_half_even (x / pow2 e)"
    using x pow2_pos [of e] by (simp add: round_half_even_def Let_def)
  then have "0 \<le> of_int (round_half_even (x / pow2 e)) * pow2 e" using pow2_pos [of e] by simp
  then show False using inf pow2_pos [of 1024]
    by (auto simp: rnd64_def Let_def e_def [symmetric] split: if_splits)
qed

lemma eff_depth_not_NaN:
  assumes "\<forall>q x. map_of costs q = Some x \<longrightarrow> x \<noteq> NaN \<and> x \<noteq> NInf" "eff_depth costs p c = Some d"
  shows "d \<noteq> NaN"
proof -
  from assms obtain x where d: "d = f_add (f_of_nat (depth c)) x" and "x \<noteq> NaN \<and> x \<noteq> NInf"
    by (auto simp: eff_depth_def link_cost_def split: option.splits if_splits)
  moreover have "f_of_nat (depth c) \<noteq> NInf" by (simp add: f_of_nat_def rnd64_nonneg)
  ultimately show ?thesis
    using f_of_nat_not_NaN [of "depth c"] by (cases "f_of_nat (depth c)"; cases x) (auto simp: rnd64_not_NaN)
qed

lemma find_next_hop_SomeD:
  assumes "hm_inv (peer_ancestry s)" "find_next_hop s dest = Some p"
  obtains c where "map_of (peer_ancestry s) p = Some c" "root_id (my_coords s) = root_id dest"
    "distance_to c dest < distance_to (my_coords s) dest"
    "\<And>q c'. map_of (peer_ancestry s) q = Some c' \<Longrightarrow> distance_to c dest \<le> distance_to c' dest"
proof -
  from assms(2) obtain d where
      scan: "scan_best hop_better (hop_candidates dest (peer_ancestry s)) = Some (p, d)"
    and lt: "d < distance_to (my_coords s) dest" and root: "root_id (my_coords s) = root_id dest"
    by (auto simp: find_next_hop_def hop_scan split: if_splits option.splits)
  from scan_best_mem [OF scan] obtain c where c: "(p, c) \<in> set (peer_ancestry s)" "d = distance_to c dest"
    by (auto simp: hop_candidates_def)
  have "distance_to c dest \<le> distance_to c' dest" if "map_of (peer_ancestry s) q = Some c'" for q c'
  proof -
    have "(q, distance_to c' dest) \<in> set (hop_candidates dest (peer_ancestry s))"
      using map_of_SomeD [OF that] by (force simp: hop_candidates_def)
    then show ?thesis
      using hop_choice.scan_best_least [OF _ scan] c(2) by (force simp: hop_better_def)
  qed
  then show thesis using that c lt root assms(1) by (auto simp: hm_mem_iff)
qed

lemma find_next_hop_exists:
  assumes "root_id (my_coords s) = root_id dest" "map_of (peer_ancestry s) q = Some c"
    and "distance_to c dest < distance_to (my_coords s) dest"
  shows "\<exists>p. find_next_hop s dest = Some p"
proof -
  have mem: "(q, distance_to c dest) \<in> set (hop_candidates dest (peer_ancestry s))"
    using map_of_SomeD [OF assms(2)] by (force simp: hop_candidates_def)
  then obtain p d where scan: "scan_best hop_better (hop_candidates dest (peer_ancestry s)) = Some (p, d)"
    by (cases "scan_best hop_better (hop_candidates dest (peer_ancestry s))") auto
  have "d \<le> distance_to c dest"
    using hop_choice.scan_best_least [OF _ scan mem] by (auto simp: hop_better_def)
  then show ?thesis using assms scan by (simp add: find_next_hop_def hop_scan)
qed

text \<open>The dampening deadline, once set, is kept by every operation.\<close>

lemma flap_until_record:
  "flap_dampening_until s = Some u \<Longrightarrow> flap_dampening_until (fst (record_parent_switch s now)) = Some u"
  by (simp add: record_parent_switch_def Let_def split: option.splits)

lemma flap_until_set_parent:
  "flap_dampening_until s = Some u \<Longrightarrow> flap_dampening_until (fst (set_parent s now p q t)) = Some u"
  by (simp add: set_parent_def Let_def flap_until_record)

lemma flap_until_step:
  "flap_dampening_until s = Some u \<Longrightarrow> flap_dampening_until (tree_step s op) = Some u"
  by (cases op)
    (auto simp: advance_role_declaration_def become_root_def flap_until_record flap_until_set_parent
      handle_parent_lost_def sign_declaration_def tree_defs split: option.splits prod.splits)

lemma flap_until_run:
  "flap_dampening_until s = Some u \<Longrightarrow> flap_dampening_until (run tree_step s ops) = Some u"
  by (induction ops arbitrary: s) (auto simp: flap_until_step)

text \<open>A peer's stored sequence number only grows while the peer is not removed.\<close>

lemma peer_fresh_step:
  assumes "map_of (peer_declarations s) p = Some d" "op \<noteq> RemovePeer p"
  shows "\<exists>d'. map_of (peer_declarations (tree_step s op)) p = Some d' \<and> pd_sequence d \<le> pd_sequence d'"
proof (cases op)
  case (UpdatePeer e x xs)
  then show ?thesis using assms(1)
    by (auto simp: tree_defs hm_simps is_fresher_than_def split: option.splits)
next
  case (RemovePeer q)
  then show ?thesis using assms by (auto simp: remove_peer_def hm_simps)
qed (use assms in \<open>auto simp: advance_role_declaration_def become_root_def handle_parent_lost_def
    sign_declaration_def tree_defs split: option.splits prod.splits\<close>)

lemma peer_fresh_run:
  "map_of (peer_declarations s) p = Some d \<Longrightarrow> RemovePeer p \<notin> set ops \<Longrightarrow>
     \<exists>d'. map_of (peer_declarations (run tree_step s ops)) p = Some d' \<and> pd_sequence d \<le> pd_sequence d'"
proof (induction ops arbitrary: s d)
  case (Cons op ops)
  then obtain d1 where "map_of (peer_declarations (tree_step s op)) p = Some d1" "pd_sequence d \<le> pd_sequence d1"
    using peer_fresh_step [of s p d op] by auto
  then show ?case using Cons.IH [of "tree_step s op" d1] Cons.prems by fastforce
qed simp

section \<open>A worked state\<close>

text \<open>Node 5 with peers 1 (the root) and 3 (a child of 1), which has adopted 3 as its parent.\<close>

definition demo_tree :: tree_state where
  "demo_tree = run tree_step (tree_new (NodeAddr 5) 100)
    [UpdatePeer (decl_new (NodeAddr 1) (NodeAddr 1) 1 90) (entry_new (NodeAddr 1) 1 90) [],
     UpdatePeer (decl_new (NodeAddr 3) (NodeAddr 1) 1 95) (entry_new (NodeAddr 3) 1 95) [entry_new (NodeAddr 1) 1 90],
     SetParent 0 (NodeAddr 3) 2 100, RecomputeCoords]"

lemma demo_tree_peers:
  "peer_ancestry demo_tree = [(NodeAddr 1, [entry_new (NodeAddr 1) 1 90]),
     (NodeAddr 3, [entry_new (NodeAddr 3) 1 95, entry_new (NodeAddr 1) 1 90])]"
  "map_of (peer_declarations demo_tree) (NodeAddr 3) = Some (decl_new (NodeAddr 3) (NodeAddr 1) 1 95)"
  by (simp_all add: demo_tree_def tree_new_def update_peer_def decl_new_def hm_insert_def Let_def)

lemma demo_tree_decls:
  "map_of (peer_declarations demo_tree) (NodeAddr 1) = Some (decl_new (NodeAddr 1) (NodeAddr 1) 1 90)"
  by (simp add: demo_tree_def tree_new_def update_peer_def decl_new_def hm_insert_def Let_def)

lemma demo_tree_self:
  "my_node_addr demo_tree = NodeAddr 5" "leaf_only demo_tree = False" "ts_root demo_tree = NodeAddr 1"
  "my_coords demo_tree = [entry_new (NodeAddr 5) 2 100, entry_new (NodeAddr 3) 1 95, entry_new (NodeAddr 1) 1 90]"
  "my_declaration demo_tree = decl_new (NodeAddr 5) (NodeAddr 3) 2 100"
  "parent_hysteresis demo_tree = Fin 0" "hold_down demo_tree = 0" "flap_dampening_until demo_tree = None"
  by (simp_all add: demo_tree_def tree_new_def update_peer_def hm_insert_def recompute_coords_def Let_def
      set_parent_def record_parent_switch_def is_root_def decl_is_root_def decl_new_def entry_new_def root_id_def
      less_eq_node_addr_def word_le_nat_alt word_less_nat_alt)

lemmas demo_eval = demo_tree_peers demo_tree_self entry_new_def decl_new_def root_id_def hm_inv_def
  distance_to_def lca_depth_def node_addrs_def depth_def addr_only_def

section \<open>Properties\<close>

text \<open>C8: every operation, in any order and with any arguments, keeps the state well-formed: the
  coordinates are a non-empty path that starts at this node, the recorded root is the end of that
  path, the declaration is about this node, and a peer has an ancestry exactly when it has a
  declaration.\<close>

theorem tree_state_invariant:
  "tree_inv (run tree_step (tree_new a now_s) ops)"
  by (rule tree_machine.run_inv) (rule tree_inv_new)

text \<open>The chosen next hop is a known peer that is strictly closer to the destination than this
  node, and no other peer is closer than it.\<close>

theorem find_next_hop_strictly_closer:
  assumes "hm_inv (peer_ancestry s)" "find_next_hop s dest = Some p"
  shows "\<exists>c. map_of (peer_ancestry s) p = Some c \<and>
    distance_to c dest < distance_to (my_coords s) dest \<and>
    (\<forall>q c'. map_of (peer_ancestry s) q = Some c' \<longrightarrow> distance_to c dest \<le> distance_to c' dest)"
  using find_next_hop_SomeD [OF assms] by metis

text \<open>A next hop is found exactly when the destination is in the same tree and some peer is
  strictly closer to it; the choice does not depend on the iteration order of the peer map.\<close>

theorem find_next_hop_complete:
  assumes "same_map (peer_ancestry s) m"
  shows "find_next_hop (s\<lparr> peer_ancestry := m \<rparr>) dest = find_next_hop s dest \<and>
    ((\<exists>p. find_next_hop s dest = Some p) \<longleftrightarrow>
      root_id (my_coords s) = root_id dest \<and>
      (\<exists>q c. map_of (peer_ancestry s) q = Some c \<and> distance_to c dest < distance_to (my_coords s) dest))"
proof -
  from assms have inv: "hm_inv (peer_ancestry s)" "set (peer_ancestry s) = set m"
    using same_map_set [of "peer_ancestry s" m] by (auto simp: same_map_def)
  then have "scan_best hop_better (hop_candidates dest m) =
      scan_best hop_better (hop_candidates dest (peer_ancestry s))"
    by (intro hop_choice.scan_best_order) (auto simp: hop_candidates_def)
  then have "find_next_hop (s\<lparr> peer_ancestry := m \<rparr>) dest = find_next_hop s dest"
    by (auto simp: find_next_hop_def hop_scan split: option.splits)
  moreover have "root_id (my_coords s) = root_id dest \<and>
      (\<exists>q c. map_of (peer_ancestry s) q = Some c \<and> distance_to c dest < distance_to (my_coords s) dest)"
    if "find_next_hop s dest = Some p" for p
    using find_next_hop_SomeD [OF inv(1) that] by metis
  ultimately show ?thesis using find_next_hop_exists by metis
qed

text \<open>C13: a recommended parent is a known peer whose path does not pass through this node, whose root
  is the smallest root any peer advertises, and, unless this node is a leaf, is smaller than this
  node: adopting it cannot close a loop or elect a larger root.\<close>

theorem evaluate_parent_sound:
  assumes "hm_inv (peer_ancestry s)" "evaluate_parent s now costs = Some p"
  shows "\<exists>c. map_of (peer_ancestry s) p = Some c \<and> \<not> contains c (my_node_addr s) \<and>
    (\<forall>q c'. map_of (peer_ancestry s) q = Some c' \<longrightarrow> root_id c \<le> root_id c') \<and>
    (leaf_only s \<or> root_id c < my_node_addr s)"
proof -
  obtain r d where r: "fold smallest_root_step (peer_ancestry s) None = Some r"
    and guard: "leaf_only s \<or> r < my_node_addr s"
    and scan: "scan_best parent_better (parent_candidates (my_node_addr s) costs r (peer_ancestry s)) = Some (p, d)"
    using evaluate_parent_SomeD [OF assms(2)] by metis
  from scan_best_mem [OF scan] obtain c where c: "(p, c) \<in> set (peer_ancestry s)" "root_id c = r"
      "\<not> contains c (my_node_addr s)"
    by (auto simp: set_parent_candidates)
  then show ?thesis using assms(1) guard smallest_root_SomeD(2) [OF r]
    by (metis hm_mem_iff)
qed

text \<open>With link costs that are numbers (or positive infinity), parent evaluation gives the same
  answer for every iteration order of the peer map and the cost map.\<close>

theorem evaluate_parent_order_independent:
  assumes "same_map (peer_ancestry s) m" "same_map costs costs'"
    and "\<forall>q x. map_of costs q = Some x \<longrightarrow> x \<noteq> NaN \<and> x \<noteq> NInf"
  shows "evaluate_parent (s\<lparr> peer_ancestry := m \<rparr>) now costs' = evaluate_parent s now costs"
proof -
  from assms have inv: "hm_inv (peer_ancestry s)" "set (peer_ancestry s) = set m"
    and maps: "map_of m = map_of (peer_ancestry s)" "map_of costs' = map_of costs"
    using same_map_set [of "peer_ancestry s" m] by (auto simp: same_map_def)
  have empty: "m = [] \<longleftrightarrow> peer_ancestry s = []" "costs' = [] \<longleftrightarrow> costs = []"
    using inv same_map_set [of costs costs'] assms(2) by (auto simp: same_map_def)
  have link: "eff_depth costs' = eff_depth costs"
    by (intro ext) (auto simp: eff_depth_def link_cost_def maps empty split: option.splits)
  have roots: "fold smallest_root_step m None = fold smallest_root_step (peer_ancestry s) None"
    unfolding smallest_root_scan by (rule root_choice.scan_best_order) (use inv in auto)
  have "scan_best parent_better (parent_candidates (my_node_addr s) costs' r m) =
      scan_best parent_better (parent_candidates (my_node_addr s) costs r (peer_ancestry s))" for r
    by (rule parent_choice.scan_best_order)
      (use inv assms(3) in \<open>auto simp: set_parent_candidates link dest: eff_depth_not_NaN\<close>)
  then have scans: "fold (parent_step (s\<lparr> peer_ancestry := m \<rparr>) costs' r) m None =
      fold (parent_step s costs r) (peer_ancestry s) None" for r
    by (simp add: parent_scan)
  have contains: "hm_contains m = hm_contains (peer_ancestry s)" by (simp add: hm_contains_def fun_eq_iff maps)
  note same = roots scans maps empty contains is_root_def is_flap_dampened_def Let_def
  show ?thesis
  proof (cases "fold smallest_root_step (peer_ancestry s) None")
    case None
    then show ?thesis by (simp add: evaluate_parent_def same)
  next
    case (Some r)
    then show ?thesis
      by (cases "fold (parent_step s costs r) (peer_ancestry s) None";
          cases "map_of (peer_ancestry s) (pd_parent_id (my_declaration s))";
          cases "last_parent_switch s")
        (simp_all add: evaluate_parent_def same split: prod.split)
  qed
qed

text \<open>C15: flap dampening engages at most once in the life of a node: after its first deadline no
  operation ever changes or clears it, so from that instant on the node is never dampened again,
  however often it switches parents.\<close>

theorem flap_dampening_engages_once:
  assumes "flap_dampening_until s = Some u"
  shows "flap_dampening_until (run tree_step s ops) = Some u \<and>
    (u \<le> now \<longrightarrow> \<not> is_flap_dampened (run tree_step s ops) now)"
  using flap_until_run [OF assms, of ops] by (simp add: is_flap_dampened_def)

text \<open>The sequence number held for a peer never goes down: until the peer is removed, every later
  state holds a declaration at least as fresh, whatever stale or replayed announcements arrive.\<close>

theorem peer_declarations_monotone:
  assumes "map_of (peer_declarations s) p = Some d" "RemovePeer p \<notin> set ops"
  shows "\<exists>d'. map_of (peer_declarations (run tree_step s ops)) p = Some d' \<and> pd_sequence d \<le> pd_sequence d'"
  using assms by (rule peer_fresh_run)

section \<open>Witnesses\<close>

theorem find_next_hop_strictly_closer_witness:
  "\<exists>c. map_of (peer_ancestry demo_tree) (NodeAddr 1) = Some c \<and>
    distance_to c (map addr_only [NodeAddr 9, NodeAddr 1]) <
      distance_to (my_coords demo_tree) (map addr_only [NodeAddr 9, NodeAddr 1])"
  using find_next_hop_strictly_closer [of demo_tree "map addr_only [NodeAddr 9, NodeAddr 1]" "NodeAddr 1"]
  by (simp add: demo_eval find_next_hop_def hop_step_def less_node_addr_def)

theorem find_next_hop_complete_witness:
  "find_next_hop (demo_tree\<lparr> peer_ancestry := rev (peer_ancestry demo_tree) \<rparr>) (map addr_only [NodeAddr 9, NodeAddr 1]) =
     find_next_hop demo_tree (map addr_only [NodeAddr 9, NodeAddr 1])"
  using find_next_hop_complete [of demo_tree "rev (peer_ancestry demo_tree)"]
  by (auto simp: demo_eval same_map_def fun_upd_twist)

theorem evaluate_parent_sound_witness:
  "\<exists>c. map_of (peer_ancestry demo_tree) (NodeAddr 1) = Some c \<and> \<not> contains c (NodeAddr 5)"
  using evaluate_parent_sound [of demo_tree 7 "[]" "NodeAddr 1"]
  by (simp add: demo_eval evaluate_parent_def smallest_root_step_def parent_step_def link_cost_def contains_def
      less_eq_node_addr_def less_node_addr_def word_le_nat_alt word_less_nat_alt f_of_nat_exact rnd64_numeral
      f_sub_def is_root_def hm_contains_def is_flap_dampened_def)

theorem evaluate_parent_order_independent_witness:
  "evaluate_parent (demo_tree\<lparr> peer_ancestry := rev (peer_ancestry demo_tree) \<rparr>) 7 [(NodeAddr 3, Fin 2), (NodeAddr 1, Fin 1)] =
     evaluate_parent demo_tree 7 [(NodeAddr 1, Fin 1), (NodeAddr 3, Fin 2)]"
  by (rule evaluate_parent_order_independent)
    (auto simp: demo_eval same_map_def fun_upd_twist split: if_splits)

theorem flap_dampening_engages_once_witness:
  "\<not> is_flap_dampened (run tree_step (demo_tree\<lparr> flap_dampening_until := Some 120 \<rparr>)
     [RecordParentSwitch 130, RecordParentSwitch 131, RecordParentSwitch 132, RecordParentSwitch 133]) 134"
  using flap_dampening_engages_once [of "demo_tree\<lparr> flap_dampening_until := Some 120 \<rparr>" 120
      "[RecordParentSwitch 130, RecordParentSwitch 131, RecordParentSwitch 132, RecordParentSwitch 133]" 134]
  by simp

theorem peer_declarations_monotone_witness:
  "\<exists>d'. map_of (peer_declarations (run tree_step demo_tree
      [UpdatePeer (decl_new (NodeAddr 3) (NodeAddr 3) 0 7) (entry_new (NodeAddr 3) 0 7) []])) (NodeAddr 3) = Some d' \<and>
    1 \<le> pd_sequence d'"
  using peer_declarations_monotone [OF demo_tree_peers(2), of "[UpdatePeer (decl_new (NodeAddr 3) (NodeAddr 3) 0 7)
    (entry_new (NodeAddr 3) 0 7) []]"]
  by (simp add: decl_new_def)

end
