(* ===== verification/Greedy_Routing.thy ===== *)
theory Greedy_Routing
  imports Tree_State
begin

text \<open>
  A network of nodes that all forward with \<open>find_next_hop\<close> of \<^verbatim>\<open>proto/stp/state.rs\<close>. \<open>net n\<close> is
  the tree state of node \<open>n\<close>. Two conditions on a quiescent network are stated as executable
  predicates over the node list: every node's view of a peer's coordinates is that peer's own
  (\<open>views_consistent\<close>), and tree edges are links in both directions (\<open>tree_links\<close>). Under the first,
  greedy forwarding never visits a node twice; under both, it reaches the destination.
\<close>

definition tree_path :: "(node_addr \<Rightarrow> tree_state) \<Rightarrow> node_addr \<Rightarrow> node_addr list" where
  "tree_path net n = node_addrs (my_coords (net n))"

definition views_consistent :: "node_addr list \<Rightarrow> (node_addr \<Rightarrow> tree_state) \<Rightarrow> bool" where
  "views_consistent nodes net \<longleftrightarrow> (\<forall>n\<in>set nodes. hm_inv (peer_ancestry (net n)) \<and> coord_ok (my_coords (net n)) \<and>
     (\<forall>pc\<in>set (peer_ancestry (net n)).
        fst pc \<in> set nodes \<and> node_addrs (snd pc) = tree_path net (fst pc)))"

definition tree_links :: "node_addr list \<Rightarrow> (node_addr \<Rightarrow> tree_state) \<Rightarrow> node_addr \<Rightarrow> bool" where
  "tree_links nodes net r \<longleftrightarrow> (\<forall>n\<in>set nodes. hd (tree_path net n) = n \<and> last (tree_path net n) = r \<and>
     (tl (tree_path net n) \<noteq> [] \<longrightarrow> (\<exists>p\<in>set nodes. tl (tree_path net n) = tree_path net p \<and>
        p \<in> fst ` set (peer_ancestry (net n)) \<and> n \<in> fst ` set (peer_ancestry (net p)))))"

text \<open>The nodes a packet visits, from \<open>n\<close> on, for at most \<open>fuel\<close> hops.\<close>

fun greedy_path :: "(node_addr \<Rightarrow> tree_state) \<Rightarrow> tree_coordinate \<Rightarrow> nat \<Rightarrow> node_addr \<Rightarrow> node_addr list" where
  "greedy_path net dest 0 n = [n]"
| "greedy_path net dest (Suc fuel) n =
     (case find_next_hop (net n) dest of None \<Rightarrow> [n] | Some p \<Rightarrow> n # greedy_path net dest fuel p)"

section \<open>Distance depends on the address path only\<close>

lemma distance_cong:
  assumes "node_addrs c = node_addrs d" "coord_ok c"
  shows "distance_to c dest = distance_to d dest" "root_id c = root_id d" "coord_ok d"
proof -
  have len: "length c = length d" using assms(1) by (metis length_node_addrs)
  then show ok: "coord_ok d" using assms(2) by (auto simp: coord_ok_def)
  show root: "root_id c = root_id d" using root_id_rev [OF assms(2)] root_id_rev [OF ok] assms(1) by simp
  show "distance_to c dest = distance_to d dest"
    using root len by (simp add: distance_to_def lca_depth_def depth_def assms(1))
qed

lemma view_distance:
  assumes "views_consistent nodes net" "n \<in> set nodes" "map_of (peer_ancestry (net n)) p = Some c"
  shows "p \<in> set nodes" "distance_to c dest = distance_to (my_coords (net p)) dest"
    "root_id c = root_id (my_coords (net p))"
proof -
  have mem: "(p, c) \<in> set (peer_ancestry (net n))" using assms(3) by (rule map_of_SomeD)
  then show p: "p \<in> set nodes" using assms(1,2) by (fastforce simp: views_consistent_def)
  have eq: "node_addrs (my_coords (net p)) = node_addrs c"
    using assms(1,2) mem by (fastforce simp: views_consistent_def tree_path_def)
  then show "distance_to c dest = distance_to (my_coords (net p)) dest"
    "root_id c = root_id (my_coords (net p))"
    using distance_cong [OF eq] assms(1) p by (auto simp: views_consistent_def)
qed

text \<open>Every hop strictly decreases the distance of the node holding the packet.\<close>

lemma greedy_hop_decreases:
  assumes "views_consistent nodes net" "n \<in> set nodes" "find_next_hop (net n) dest = Some p"
  shows "p \<in> set nodes" "distance_to (my_coords (net p)) dest < distance_to (my_coords (net n)) dest"
proof -
  have "hm_inv (peer_ancestry (net n))" using assms(1,2) by (simp add: views_consistent_def)
  then obtain c where c: "map_of (peer_ancestry (net n)) p = Some c"
    and "distance_to c dest < distance_to (my_coords (net n)) dest"
    using assms(3) by (rule find_next_hop_SomeD)
  then show "p \<in> set nodes" "distance_to (my_coords (net p)) dest < distance_to (my_coords (net n)) dest"
    using view_distance [OF assms(1,2) c] by simp_all
qed

lemma greedy_path_bound:
  assumes "views_consistent nodes net" "n \<in> set nodes" "m \<in> set (greedy_path net dest fuel n)"
  shows "m = n \<or> distance_to (my_coords (net m)) dest < distance_to (my_coords (net n)) dest"
  using assms(2,3)
proof (induction fuel arbitrary: n)
  case (Suc fuel)
  show ?case
  proof (cases "find_next_hop (net n) dest")
    case None
    then show ?thesis using Suc.prems by simp
  next
    case (Some p)
    note hop = greedy_hop_decreases [OF assms(1) Suc.prems(1) Some]
    show ?thesis using Suc.IH [OF hop(1)] Suc.prems(2) Some hop(2) by fastforce
  qed
qed simp

lemma greedy_path_distinct:
  assumes "views_consistent nodes net" "n \<in> set nodes"
  shows "distinct (greedy_path net dest fuel n)"
  using assms(2)
proof (induction fuel arbitrary: n)
  case (Suc fuel)
  show ?case
  proof (cases "find_next_hop (net n) dest")
    case (Some p)
    note hop = greedy_hop_decreases [OF assms(1) Suc.prems Some]
    have "n \<notin> set (greedy_path net dest fuel p)"
      using greedy_path_bound [OF assms(1) hop(1)] hop(2) by (metis less_irrefl less_trans)
    then show ?thesis using Suc.IH [OF hop(1)] Some by simp
  qed simp
qed simp

lemma greedy_path_length:
  assumes "views_consistent nodes net" "n \<in> set nodes"
  shows "length (greedy_path net dest fuel n) \<le> Suc (distance_to (my_coords (net n)) dest)"
  using assms(2)
proof (induction fuel arbitrary: n)
  case (Suc fuel)
  show ?case
  proof (cases "find_next_hop (net n) dest")
    case (Some p)
    note hop = greedy_hop_decreases [OF assms(1) Suc.prems Some]
    show ?thesis using Suc.IH [OF hop(1)] Some hop(2) by simp
  qed simp
qed simp

section \<open>A closer neighbour on the tree\<close>

lemma common_len_butlast:
  "common_len xs ys < length xs \<Longrightarrow> common_len (butlast xs) ys = common_len xs ys"
  by (induction xs ys rule: common_len.induct) auto

lemma common_len_take_Suc:
  "common_len xs ys = length xs \<Longrightarrow> length xs < length ys \<Longrightarrow>
     common_len (take (Suc (length xs)) ys) ys = Suc (length xs)"
proof (induction xs arbitrary: ys)
  case Nil
  then show ?case by (cases ys) auto
next
  case (Cons x xs)
  then show ?case by (cases ys) (auto split: if_splits)
qed

lemma tree_path_nonempty: "views_consistent nodes net \<Longrightarrow> n \<in> set nodes \<Longrightarrow> tree_path net n \<noteq> []"
  by (auto simp: views_consistent_def coord_ok_def tree_path_def node_addrs_def)

text \<open>Every node of a destination's path is a node of the network with the matching path.\<close>

lemma path_suffix_node:
  assumes "views_consistent nodes net" "tree_links nodes net r" "d \<in> set nodes"
  shows "k < length (tree_path net d) \<Longrightarrow> \<exists>x\<in>set nodes. tree_path net x = drop k (tree_path net d)"
proof (induction k)
  case 0
  then show ?case using assms(3) by auto
next
  case (Suc k)
  then obtain x where x: "x \<in> set nodes" "tree_path net x = drop k (tree_path net d)" by auto
  then have "tl (tree_path net x) = drop (Suc k) (tree_path net d)" by (simp add: drop_Suc tl_drop)
  moreover have "drop (Suc k) (tree_path net d) \<noteq> []" using Suc.prems by simp
  ultimately show ?case using assms(2) x(1) unfolding tree_links_def by metis
qed

lemma tree_path_hd: "tree_links nodes net r \<Longrightarrow> n \<in> set nodes \<Longrightarrow> hd (tree_path net n) = n"
  by (simp add: tree_links_def)

lemma tree_path_distance:
  assumes "views_consistent nodes net" "tree_links nodes net r" "n \<in> set nodes" "d \<in> set nodes"
  shows "root_id (my_coords (net n)) = root_id (my_coords (net d))"
    "distance_to (my_coords (net n)) (my_coords (net d)) +
       2 * common_len (rev (tree_path net n)) (rev (tree_path net d)) =
     length (tree_path net n) + length (tree_path net d)"
proof -
  have ok: "coord_ok (my_coords (net n))" "coord_ok (my_coords (net d))"
    using assms(1,3,4) by (auto simp: views_consistent_def)
  have "root_id (my_coords (net m)) = r" if "m \<in> set nodes" for m
    using assms(2) that tree_path_nonempty [OF assms(1) that]
    by (auto simp: tree_links_def tree_path_def root_id_def node_addrs_def last_map)
  then show root: "root_id (my_coords (net n)) = root_id (my_coords (net d))" using assms(3,4) by simp
  show "distance_to (my_coords (net n)) (my_coords (net d)) +
       2 * common_len (rev (tree_path net n)) (rev (tree_path net d)) =
     length (tree_path net n) + length (tree_path net d)"
    using distance_same_root [OF ok root] by (simp add: tree_path_def)
qed

lemma climb_to_parent:
  assumes net: "views_consistent nodes net" "tree_links nodes net r" "n \<in> set nodes" "d \<in> set nodes"
    and part: "common_len (rev (tree_path net n)) (rev (tree_path net d)) < length (tree_path net n)"
  shows "\<exists>q. q \<in> fst ` set (peer_ancestry (net n)) \<and> q \<in> set nodes \<and>
    distance_to (my_coords (net q)) (my_coords (net d)) < distance_to (my_coords (net n)) (my_coords (net d))"
proof -
  let ?cp = "common_len (rev (tree_path net n)) (rev (tree_path net d))"
  have "0 < ?cp" using common_pos [of "my_coords (net n)" "my_coords (net d)"] net
      tree_path_distance(1) [OF net] by (auto simp: views_consistent_def tree_path_def)
  then have "tl (tree_path net n) \<noteq> []" using part by (cases "tree_path net n") auto
  then obtain p where p: "p \<in> set nodes" "tl (tree_path net n) = tree_path net p"
      "p \<in> fst ` set (peer_ancestry (net n))"
    using net(2,3) unfolding tree_links_def by metis
  have "common_len (rev (tree_path net p)) (rev (tree_path net d)) = ?cp"
    using common_len_butlast [of "rev (tree_path net n)"] part by (simp add: p(2) [symmetric] butlast_rev)
  moreover have "Suc (length (tree_path net p)) = length (tree_path net n)"
    using arg_cong [OF p(2), of length] part by simp
  ultimately show ?thesis
    using tree_path_distance(2) [OF net] tree_path_distance(2) [OF net(1,2) p(1) net(4)] p
    by (intro exI [of _ p]) auto
qed

lemma descend_to_child:
  assumes net: "views_consistent nodes net" "tree_links nodes net r" "n \<in> set nodes" "d \<in> set nodes"
    and full: "common_len (rev (tree_path net n)) (rev (tree_path net d)) = length (tree_path net n)" and "n \<noteq> d"
  shows "\<exists>q. q \<in> fst ` set (peer_ancestry (net n)) \<and> q \<in> set nodes \<and>
    distance_to (my_coords (net q)) (my_coords (net d)) < distance_to (my_coords (net n)) (my_coords (net d))"
proof -
  let ?P = "rev (tree_path net n)" and ?D = "rev (tree_path net d)"
  have ne: "tree_path net n \<noteq> []" by (rule tree_path_nonempty [OF net(1,3)])
  have le: "length ?P \<le> length ?D" using full common_len_le(2) [of ?P ?D] by simp
  have lt: "length ?P < length ?D"
    using le full common_len_full [of ?P ?D] tree_path_hd [OF net(2)] net(3,4) \<open>n \<noteq> d\<close>
    by (metis le_neq_implies_less length_rev rev_rev_ident)
  define k where "k = length ?D - Suc (length ?P)"
  obtain x where x: "x \<in> set nodes" "tree_path net x = drop k (tree_path net d)"
    using path_suffix_node [OF net(1,2,4), of k] lt unfolding k_def by (metis diff_less length_rev less_zeroE not_gr_zero zero_less_Suc)
  have revx: "rev (tree_path net x) = take (Suc (length ?P)) ?D"
    using lt by (simp add: x(2) rev_drop k_def)
  have "take (length ?P) ?D = ?P" using common_len_take [of ?P ?D] unfolding full by (metis length_rev take_all_iff order_refl)
  then have "butlast (rev (tree_path net x)) = ?P" using lt by (simp add: revx butlast_take)
  then have tlx: "tl (tree_path net x) = tree_path net n"
    by (metis butlast_rev rev_rev_ident rev_is_rev_conv)
  then obtain p where "p \<in> set nodes" "tree_path net p = tree_path net n" "x \<in> fst ` set (peer_ancestry (net p))"
    using net(2) x(1) ne unfolding tree_links_def by metis
  then have peer: "x \<in> fst ` set (peer_ancestry (net n))"
    using tree_path_hd [OF net(2)] net(3) by metis
  have "common_len (rev (tree_path net x)) ?D = Suc (length ?P)"
    using common_len_take_Suc [of ?P ?D] full lt by (simp add: revx)
  moreover have "length (tree_path net x) = Suc (length ?P)" using revx lt
    by (metis length_rev length_take min_absorb2 Suc_leI)
  ultimately show ?thesis
    using tree_path_distance(2) [OF net] tree_path_distance(2) [OF net(1,2) x(1) net(4)] x(1) peer full
    by (intro exI [of _ x]) auto
qed

lemma next_hop_progress:
  assumes net: "views_consistent nodes net" "tree_links nodes net r" "n \<in> set nodes" "d \<in> set nodes" and "n \<noteq> d"
  shows "\<exists>p. find_next_hop (net n) (my_coords (net d)) = Some p"
proof -
  have "common_len (rev (tree_path net n)) (rev (tree_path net d)) \<le> length (tree_path net n)"
    using common_len_le(1) [of "rev (tree_path net n)"] by simp
  then obtain q where q: "q \<in> fst ` set (peer_ancestry (net n))"
    and lt: "distance_to (my_coords (net q)) (my_coords (net d)) < distance_to (my_coords (net n)) (my_coords (net d))"
    using climb_to_parent [OF net] descend_to_child [OF net _ \<open>n \<noteq> d\<close>] le_neq_implies_less by metis
  then obtain c where c: "map_of (peer_ancestry (net n)) q = Some c"
    using net(1,3) by (auto simp: views_consistent_def hm_mem_iff)
  show ?thesis
    using find_next_hop_exists [OF tree_path_distance(1) [OF net] c] lt view_distance(2) [OF net(1,3) c]
    by metis
qed

section \<open>A worked network\<close>

text \<open>Three nodes in a line, 1 - 3 - 5, each state reached by the operations of the protocol.\<close>

definition demo_net :: "node_addr \<Rightarrow> tree_state" where
  "demo_net n =
    (let e1 = entry_new (NodeAddr 1) 1 90; e3 = entry_new (NodeAddr 3) 2 90; e5 = entry_new (NodeAddr 5) 2 90;
         d1 = decl_new (NodeAddr 1) (NodeAddr 1) 1 90; d3 = decl_new (NodeAddr 3) (NodeAddr 1) 2 90;
         d5 = decl_new (NodeAddr 5) (NodeAddr 3) 2 90
     in if n = NodeAddr 1 then run tree_step (tree_new (NodeAddr 1) 90) [UpdatePeer d3 e3 [e1]]
        else if n = NodeAddr 3 then run tree_step (tree_new (NodeAddr 3) 90)
          [UpdatePeer d1 e1 [], UpdatePeer d5 e5 [e3, e1], SetParent 0 (NodeAddr 1) 2 90, RecomputeCoords]
        else run tree_step (tree_new (NodeAddr 5) 90)
          [UpdatePeer d3 e3 [e1], SetParent 0 (NodeAddr 3) 2 90, RecomputeCoords])"

lemmas demo_net_defs = demo_net_def tree_new_def update_peer_def hm_insert_def recompute_coords_def Let_def
  decl_new_def entry_new_def decl_is_root_def root_id_def root_with_meta_def less_eq_node_addr_def word_le_nat_alt

lemma demo_net_1:
  "peer_ancestry (demo_net (NodeAddr 1)) =
     [(NodeAddr 3, [entry_new (NodeAddr 3) 2 90, entry_new (NodeAddr 1) 1 90])]"
  "my_coords (demo_net (NodeAddr 1)) = [entry_new (NodeAddr 1) 1 90]"
  by (simp_all add: demo_net_defs)

lemma demo_net_3:
  "peer_ancestry (demo_net (NodeAddr 3)) = [(NodeAddr 1, [entry_new (NodeAddr 1) 1 90]),
     (NodeAddr 5, [entry_new (NodeAddr 5) 2 90, entry_new (NodeAddr 3) 2 90, entry_new (NodeAddr 1) 1 90])]"
  "my_coords (demo_net (NodeAddr 3)) = [entry_new (NodeAddr 3) 2 90, entry_new (NodeAddr 1) 1 90]"
  by (simp_all add: demo_net_defs)

lemma demo_net_5:
  "peer_ancestry (demo_net (NodeAddr 5)) =
     [(NodeAddr 3, [entry_new (NodeAddr 3) 2 90, entry_new (NodeAddr 1) 1 90])]"
  "my_coords (demo_net (NodeAddr 5)) =
     [entry_new (NodeAddr 5) 2 90, entry_new (NodeAddr 3) 2 90, entry_new (NodeAddr 1) 1 90]"
  by (simp_all add: demo_net_defs)

lemmas demo_net_eval = demo_net_1 demo_net_3 demo_net_5 views_consistent_def tree_links_def tree_path_def
  hm_inv_def coord_ok_def node_addrs_def entry_new_def

section \<open>Properties\<close>

text \<open>C10: while every node knows its peers' current coordinates, a greedily forwarded packet never
  visits a node twice and takes at most as many hops as the tree distance, whatever coordinates it
  carries as destination.\<close>

theorem greedy_routing_loop_free:
  assumes "views_consistent nodes net" "n \<in> set nodes"
  shows "distinct (greedy_path net dest fuel n) \<and>
    length (greedy_path net dest fuel n) \<le> Suc (distance_to (my_coords (net n)) dest)"
  using greedy_path_distinct [OF assms] greedy_path_length [OF assms] by simp

text \<open>C9: when moreover tree edges are links known at both ends, a packet for any node of the network
  arrives there from any other node, within as many hops as their tree distance.\<close>

theorem greedy_routing_delivers:
  assumes "views_consistent nodes net" "tree_links nodes net r" "n \<in> set nodes" "d \<in> set nodes"
    and "distance_to (my_coords (net n)) (my_coords (net d)) \<le> fuel"
  shows "last (greedy_path net (my_coords (net d)) fuel n) = d"
  using assms(3,5)
proof (induction fuel arbitrary: n)
  case 0
  have "coord_ok (my_coords (net n))" "coord_ok (my_coords (net d))"
    using assms(1,4) 0(1) by (auto simp: views_consistent_def)
  then have "tree_path net n = tree_path net d"
    using 0(2) distance_zero_same_root tree_path_distance(1) [OF assms(1,2) 0(1) assms(4)]
    by (simp add: tree_path_def)
  then show ?case using tree_path_hd [OF assms(2)] 0(1) assms(4) by (metis greedy_path.simps(1) last.simps)
next
  case (Suc fuel)
  show ?case
  proof (cases "n = d")
    case True
    have "find_next_hop (net n) (my_coords (net d)) = None"
      using greedy_hop_decreases(2) [OF assms(1) Suc.prems(1)] True distance_same_root
        assms(1,4) by (cases "find_next_hop (net n) (my_coords (net d))") (fastforce simp: views_consistent_def distance_zero_same_root)+
    then show ?thesis using True by simp
  next
    case False
    then obtain p where p: "find_next_hop (net n) (my_coords (net d)) = Some p"
      using next_hop_progress [OF assms(1,2) Suc.prems(1) assms(4)] by auto
    note hop = greedy_hop_decreases [OF assms(1) Suc.prems(1) p]
    have "greedy_path net (my_coords (net d)) fuel p \<noteq> []" by (cases fuel) (auto split: option.splits)
    then show ?thesis using Suc.IH [OF hop(1)] hop(2) Suc.prems(2) p by simp
  qed
qed

section \<open>Witnesses\<close>

theorem greedy_routing_loop_free_witness:
  "distinct (greedy_path demo_net (my_coords (demo_net (NodeAddr 5))) 10 (NodeAddr 1))"
  using greedy_routing_loop_free [of "[NodeAddr 1, NodeAddr 3, NodeAddr 5]" demo_net "NodeAddr 1"
      "my_coords (demo_net (NodeAddr 5))" 10]
  by (simp add: demo_net_eval)

theorem greedy_routing_delivers_witness:
  "last (greedy_path demo_net (my_coords (demo_net (NodeAddr 5))) 2 (NodeAddr 1)) = NodeAddr 5"
  by (rule greedy_routing_delivers [of "[NodeAddr 1, NodeAddr 3, NodeAddr 5]" _ "NodeAddr 1"])
    (simp_all add: demo_net_eval distance_to_def lca_depth_def depth_def root_id_def)

end
