(* ===== verification/Wire_Link.thy ===== *)
theory Wire_Link
  imports Identity
begin

text \<open>
  Link-layer messages (\<^verbatim>\<open>proto/protocol/error.rs\<close>, \<^verbatim>\<open>proto/protocol/link.rs\<close>): message-type bytes,
  disconnect notifications and the session datagram envelope that transit nodes forward. Decoders
  read through bounds-checked slices, so that decoding without \<open>Panic\<close> on every input is a theorem.
\<close>

datatype protocol_error =
    InvalidMessageType u8
  | MessageTooShort nat nat
  | MessageTooLong nat nat
  | InvalidSignature
  | UnsupportedVersion u8
  | Malformed string
  | HopLimitExceeded
  | TtlExpired

section \<open>Fixed-size reads\<close>

definition get_u16 :: "bytes \<Rightarrow> nat \<Rightarrow> ('e, u16) outcome" where
  "get_u16 p pos = obind (slice p pos (pos + 2)) (\<lambda>b. Ok (of_le b))"

definition get_u32 :: "bytes \<Rightarrow> nat \<Rightarrow> ('e, u32) outcome" where
  "get_u32 p pos = obind (slice p pos (pos + 4)) (\<lambda>b. Ok (of_le b))"

definition get_u64 :: "bytes \<Rightarrow> nat \<Rightarrow> ('e, u64) outcome" where
  "get_u64 p pos = obind (slice p pos (pos + 8)) (\<lambda>b. Ok (of_le b))"

definition get_addr :: "bytes \<Rightarrow> nat \<Rightarrow> ('e, node_addr) outcome" where
  "get_addr p pos = obind (slice p pos (pos + 16)) (\<lambda>b. Ok (from_bytes b))"

lemmas get_defs [codec_simps] = get_u16_def get_u32_def get_u64_def get_addr_def

lemma get_in_range:
  "pos + 2 \<le> length p \<Longrightarrow> get_u16 p pos = Ok (of_le (take 2 (drop pos p)))"
  "pos + 4 \<le> length p \<Longrightarrow> get_u32 p pos = Ok (of_le (take 4 (drop pos p)))"
  "pos + 8 \<le> length p \<Longrightarrow> get_u64 p pos = Ok (of_le (take 8 (drop pos p)))"
  "pos + 16 \<le> length p \<Longrightarrow> get_addr p pos = Ok (from_bytes (take 16 (drop pos p)))"
  by (simp_all add: get_defs slice_def)

section \<open>Message types\<close>

datatype handshake_message_type = NoiseIKMsg1 | NoiseIKMsg2

definition handshake_from_byte :: "u8 \<Rightarrow> handshake_message_type option" where
  "handshake_from_byte b = (if b = 0x01 then Some NoiseIKMsg1 else if b = 0x02 then Some NoiseIKMsg2 else None)"

fun handshake_to_byte :: "handshake_message_type \<Rightarrow> u8" where
  "handshake_to_byte NoiseIKMsg1 = 0x01"
| "handshake_to_byte NoiseIKMsg2 = 0x02"

definition is_handshake :: "u8 \<Rightarrow> bool" where
  "is_handshake b \<longleftrightarrow> b = 0x01 \<or> b = 0x02"

datatype link_message_type =
    SessionDatagramT | SenderReportT | ReceiverReportT | TreeAnnounceT | FilterAnnounceT
  | LookupRequestT | LookupResponseT | DisconnectT | HeartbeatT | ClientOnlyT | ClientSupportT

fun link_to_byte :: "link_message_type \<Rightarrow> u8" where
  "link_to_byte SessionDatagramT = 0x00"
| "link_to_byte SenderReportT = 0x01"
| "link_to_byte ReceiverReportT = 0x02"
| "link_to_byte TreeAnnounceT = 0x10"
| "link_to_byte FilterAnnounceT = 0x20"
| "link_to_byte LookupRequestT = 0x30"
| "link_to_byte LookupResponseT = 0x31"
| "link_to_byte DisconnectT = 0x50"
| "link_to_byte HeartbeatT = 0x51"
| "link_to_byte ClientOnlyT = 0x52"
| "link_to_byte ClientSupportT = 0x53"

definition link_from_byte :: "u8 \<Rightarrow> link_message_type option" where
  "link_from_byte b =
    (if b = 0x00 then Some SessionDatagramT
     else if b = 0x01 then Some SenderReportT
     else if b = 0x02 then Some ReceiverReportT
     else if b = 0x10 then Some TreeAnnounceT
     else if b = 0x20 then Some FilterAnnounceT
     else if b = 0x30 then Some LookupRequestT
     else if b = 0x31 then Some LookupResponseT
     else if b = 0x50 then Some DisconnectT
     else if b = 0x51 then Some HeartbeatT
     else if b = 0x52 then Some ClientOnlyT
     else if b = 0x53 then Some ClientSupportT
     else None)"

datatype disconnect_reason =
    Shutdown | Restart | ProtocolErrorR | TransportFailure | ResourceExhaustion | SecurityViolation
  | ConfigurationChange | Timeout | Other

fun reason_to_byte :: "disconnect_reason \<Rightarrow> u8" where
  "reason_to_byte Shutdown = 0x00"
| "reason_to_byte Restart = 0x01"
| "reason_to_byte ProtocolErrorR = 0x02"
| "reason_to_byte TransportFailure = 0x03"
| "reason_to_byte ResourceExhaustion = 0x04"
| "reason_to_byte SecurityViolation = 0x05"
| "reason_to_byte ConfigurationChange = 0x06"
| "reason_to_byte Timeout = 0x07"
| "reason_to_byte Other = 0xFF"

definition reason_from_byte :: "u8 \<Rightarrow> disconnect_reason option" where
  "reason_from_byte b =
    (if b = 0x00 then Some Shutdown
     else if b = 0x01 then Some Restart
     else if b = 0x02 then Some ProtocolErrorR
     else if b = 0x03 then Some TransportFailure
     else if b = 0x04 then Some ResourceExhaustion
     else if b = 0x05 then Some SecurityViolation
     else if b = 0x06 then Some ConfigurationChange
     else if b = 0x07 then Some Timeout
     else if b = 0xFF then Some Other
     else None)"

section \<open>Disconnect\<close>

record disconnect =
  reason :: disconnect_reason

definition disconnect_encode :: "disconnect \<Rightarrow> bytes" where
  "disconnect_encode d = [link_to_byte DisconnectT, reason_to_byte (reason d)]"

definition disconnect_decode :: "bytes \<Rightarrow> (protocol_error, disconnect) outcome" where
  "disconnect_decode payload =
    (if payload = [] then Err (MessageTooShort 1 0)
     else obind (index_at payload 0) (\<lambda>b.
       Ok \<lparr> reason = (case reason_from_byte b of Some r \<Rightarrow> r | None \<Rightarrow> Other) \<rparr>))"

section \<open>Session datagrams\<close>

record session_datagram =
  sd_src_addr :: node_addr
  sd_dest_addr :: node_addr
  sd_ttl :: u8
  sd_path_mtu :: u16
  sd_payload :: bytes

definition SESSION_DATAGRAM_HEADER_SIZE :: nat where "SESSION_DATAGRAM_HEADER_SIZE = 36"

definition datagram_new :: "node_addr \<Rightarrow> node_addr \<Rightarrow> bytes \<Rightarrow> session_datagram" where
  "datagram_new src dest payload =
     \<lparr> sd_src_addr = src, sd_dest_addr = dest, sd_ttl = 64, sd_path_mtu = - 1, sd_payload = payload \<rparr>"

definition with_ttl :: "session_datagram \<Rightarrow> u8 \<Rightarrow> session_datagram" where
  "with_ttl d ttl = d\<lparr> sd_ttl := ttl \<rparr>"

definition with_path_mtu :: "session_datagram \<Rightarrow> u16 \<Rightarrow> session_datagram" where
  "with_path_mtu d m = d\<lparr> sd_path_mtu := m \<rparr>"

definition decrement_ttl :: "session_datagram \<Rightarrow> session_datagram \<times> bool" where
  "decrement_ttl d = (if sd_ttl d > 0 then (d\<lparr> sd_ttl := sd_ttl d - 1 \<rparr>, True) else (d, False))"

definition can_forward :: "session_datagram \<Rightarrow> bool" where
  "can_forward d \<longleftrightarrow> sd_ttl d > 0"

definition datagram_encode :: "session_datagram \<Rightarrow> bytes" where
  "datagram_encode d = [link_to_byte SessionDatagramT, sd_ttl d] @ to_le 2 (sd_path_mtu d) @
     as_bytes (sd_src_addr d) @ as_bytes (sd_dest_addr d) @ sd_payload d"

definition datagram_ref_decode :: "bytes \<Rightarrow> (protocol_error, session_datagram) outcome" where
  "datagram_ref_decode buf =
    (if length buf < 35 then Err (MessageTooShort 35 (length buf))
     else obind (index_at buf 0) (\<lambda>ttl. obind (get_u16 buf 1) (\<lambda>mtu.
       obind (get_addr buf 3) (\<lambda>src. obind (get_addr buf 19) (\<lambda>dest.
       obind (slice_from buf 35) (\<lambda>payload.
         Ok \<lparr> sd_src_addr = src, sd_dest_addr = dest, sd_ttl = ttl, sd_path_mtu = mtu,
              sd_payload = payload \<rparr>))))))"

definition datagram_decode :: "bytes \<Rightarrow> (protocol_error, session_datagram) outcome" where
  "datagram_decode payload = obind (datagram_ref_decode payload) (\<lambda>r.
     Ok \<lparr> sd_src_addr = sd_src_addr r, sd_dest_addr = sd_dest_addr r, sd_ttl = sd_ttl r,
          sd_path_mtu = sd_path_mtu r, sd_payload = sd_payload r \<rparr>)"

section \<open>Codec lemmas\<close>

lemma datagram_encode_split:
  "datagram_encode d = link_to_byte SessionDatagramT # tl (datagram_encode d)"
  by (simp add: datagram_encode_def)

lemma datagram_decode_encode: "datagram_decode (tl (datagram_encode d)) = Ok d"
  by (simp add: datagram_decode_def datagram_ref_decode_def datagram_encode_def codec_simps)

lemma datagram_decode_total: "datagram_decode bs \<noteq> Panic"
  by (simp add: datagram_decode_def datagram_ref_decode_def codec_simps slice_def slice_from_def index_at_def)

interpretation datagram_codec: wire_codec "\<lambda>_. True" "\<lambda>d. tl (datagram_encode d)" datagram_decode
  by unfold_locales (simp_all add: datagram_decode_encode datagram_decode_total)

lemma reason_from_byte_iff: "(reason_from_byte c = Some r) = (c = reason_to_byte r)"
  by (cases r) (auto simp: reason_from_byte_def)

lemma link_from_byte_iff: "(link_from_byte b = Some t) = (b = link_to_byte t)"
  by (cases t) (auto simp: link_from_byte_def)

lemma reason_from_to [simp]: "reason_from_byte (reason_to_byte r) = Some r"
  by (simp add: reason_from_byte_iff)

interpretation disconnect_codec: wire_codec "\<lambda>_. True" "\<lambda>d. tl (disconnect_encode d)" disconnect_decode
  by unfold_locales
    (auto simp: disconnect_decode_def disconnect_encode_def codec_simps index_at_def)

section \<open>Properties\<close>

text \<open>The link message types and the disconnect reasons are in bijection with their wire bytes:
  a byte decodes to a type exactly when it is that type's byte.\<close>

theorem link_type_bytes:
  "(link_from_byte b = Some t) = (b = link_to_byte t) \<and> (reason_from_byte c = Some r) = (c = reason_to_byte r)"
  by (simp add: link_from_byte_iff reason_from_byte_iff)

text \<open>A session datagram decodes from its own encoding to itself, so no two datagrams share an
  encoding, and no byte string makes the decoder read out of range.\<close>

theorem session_datagram_roundtrip:
  "datagram_decode (tl (datagram_encode d)) = Ok d \<and>
   (datagram_encode d = datagram_encode d' \<longleftrightarrow> d = d') \<and> datagram_decode bs \<noteq> Panic"
  using datagram_decode_encode datagram_codec.enc_inj [of d d'] datagram_decode_total by auto

end
