(* ===== verification/Wire_Session.thy ===== *)
theory Wire_Session
  imports Wire_Link Tree_Coordinate
begin

text \<open>
  Session-layer messages (\<^verbatim>\<open>proto/protocol/session.rs\<close>, \<^verbatim>\<open>session/control_messages.rs\<close>,
  \<^verbatim>\<open>proto/fsp_wire.rs\<close>) and the strict handshake classifier (\<^verbatim>\<open>proto/protocol/handshake.rs\<close>).
  Coordinates travel as plain address lists: decoding an encoded coordinate gives it back without
  its sequence numbers and timestamps (\<open>strip\<close>).
\<close>

section \<open>Message types\<close>

datatype session_message_type =
    DataPacket | SSenderReport | SReceiverReport | PathMtuNotificationT | CoordsWarmup | EndpointData
  | TraversalOffer | TraversalAnswer | CoordsRequiredT | PathBrokenT | MtuExceededT

fun session_to_byte :: "session_message_type \<Rightarrow> u8" where
  "session_to_byte DataPacket = 0x10"
| "session_to_byte SSenderReport = 0x11"
| "session_to_byte SReceiverReport = 0x12"
| "session_to_byte PathMtuNotificationT = 0x13"
| "session_to_byte CoordsWarmup = 0x14"
| "session_to_byte EndpointData = 0x15"
| "session_to_byte TraversalOffer = 0x16"
| "session_to_byte TraversalAnswer = 0x17"
| "session_to_byte CoordsRequiredT = 0x20"
| "session_to_byte PathBrokenT = 0x21"
| "session_to_byte MtuExceededT = 0x22"

definition session_from_byte :: "u8 \<Rightarrow> session_message_type option" where
  "session_from_byte b =
    (if b = 0x10 then Some DataPacket
     else if b = 0x11 then Some SSenderReport
     else if b = 0x12 then Some SReceiverReport
     else if b = 0x13 then Some PathMtuNotificationT
     else if b = 0x14 then Some CoordsWarmup
     else if b = 0x15 then Some EndpointData
     else if b = 0x16 then Some TraversalOffer
     else if b = 0x17 then Some TraversalAnswer
     else if b = 0x20 then Some CoordsRequiredT
     else if b = 0x21 then Some PathBrokenT
     else if b = 0x22 then Some MtuExceededT
     else None)"

section \<open>Coordinates\<close>

definition coords_wire_size :: "tree_coordinate \<Rightarrow> nat" where
  "coords_wire_size c = 2 + length c * 16"

definition encode_coords :: "tree_coordinate \<Rightarrow> bytes" where
  "encode_coords c = to_le 2 (of_nat (length (node_addrs c)) :: u16) @ concat (map as_bytes (node_addrs c))"

text \<open>The loop \<^verbatim>\<open>for i in 0..count\<close> of both coordinate decoders, from index \<open>i\<close> with \<open>n\<close> reads left.\<close>

primrec read_addrs :: "bytes \<Rightarrow> nat \<Rightarrow> nat \<Rightarrow> (protocol_error, node_addr list) outcome" where
  "read_addrs data i 0 = Ok []"
| "read_addrs data i (Suc n) = obind (get_addr data (2 + i * 16)) (\<lambda>a.
     obind (read_addrs data (Suc i) n) (\<lambda>as. Ok (a # as)))"

text \<open>\<open>from_addrs\<close> fails only with \<open>EmptyCoordinate\<close>, whose message is the string below.\<close>

definition decode_coords :: "bytes \<Rightarrow> (protocol_error, tree_coordinate \<times> nat) outcome" where
  "decode_coords data =
    (if length data < 2 then Err (MessageTooShort 2 (length data))
     else obind (get_u16 data 0) (\<lambda>cnt.
       let count = unat cnt; needed = 2 + count * 16 in
       if length data < needed then Err (MessageTooShort needed (length data))
       else if count = 0 then Err (Malformed ''coordinate with zero entries'')
       else obind (read_addrs data 0 count) (\<lambda>addrs.
         obind (omap_err (\<lambda>_. Malformed ''invalid tree coordinate: empty path'') (from_addrs addrs)) (\<lambda>coord.
           Ok (coord, needed)))))"

definition decode_optional_coords :: "bytes \<Rightarrow> (protocol_error, tree_coordinate option \<times> nat) outcome" where
  "decode_optional_coords data =
    (if length data < 2 then Err (MessageTooShort 2 (length data))
     else obind (get_u16 data 0) (\<lambda>cnt.
       let count = unat cnt; needed = 2 + count * 16 in
       if length data < needed then Err (MessageTooShort needed (length data))
       else if count = 0 then Ok (None, 2)
       else obind (read_addrs data 0 count) (\<lambda>addrs.
         obind (omap_err (\<lambda>_. Malformed ''invalid tree coordinate: empty path'') (from_addrs addrs)) (\<lambda>coord.
           Ok (Some coord, needed)))))"

definition encode_empty_coords :: bytes where
  "encode_empty_coords = to_le 2 (0 :: u16)"

section \<open>Flags\<close>

record session_flags =
  request_ack :: bool
  bidirectional :: bool
  direct_fsp_transport :: bool

definition session_flags_to_byte :: "session_flags \<Rightarrow> u8" where
  "session_flags_to_byte f = (if request_ack f then 0x01 else 0) OR
     (if bidirectional f then 0x02 else 0) OR (if direct_fsp_transport f then 0x04 else 0)"

definition session_flags_from_byte :: "u8 \<Rightarrow> session_flags" where
  "session_flags_from_byte b = \<lparr> request_ack = (b AND 0x01 \<noteq> 0), bidirectional = (b AND 0x02 \<noteq> 0),
     direct_fsp_transport = (b AND 0x04 \<noteq> 0) \<rparr>"

record fsp_flags =
  coords_present :: bool
  key_epoch :: bool
  unencrypted :: bool

definition fsp_flags_to_byte :: "fsp_flags \<Rightarrow> u8" where
  "fsp_flags_to_byte f = (if coords_present f then 0x01 else 0) OR
     (if key_epoch f then 0x02 else 0) OR (if unencrypted f then 0x04 else 0)"

definition fsp_flags_from_byte :: "u8 \<Rightarrow> fsp_flags" where
  "fsp_flags_from_byte b = \<lparr> coords_present = (b AND 0x01 \<noteq> 0), key_epoch = (b AND 0x02 \<noteq> 0),
     unencrypted = (b AND 0x04 \<noteq> 0) \<rparr>"

record fsp_inner_flags =
  spin_bit :: bool

definition inner_flags_to_byte :: "fsp_inner_flags \<Rightarrow> u8" where
  "inner_flags_to_byte f = (if spin_bit f then 0x01 else 0x00)"

definition inner_flags_from_byte :: "u8 \<Rightarrow> fsp_inner_flags" where
  "inner_flags_from_byte b = \<lparr> spin_bit = (b AND 0x01 \<noteq> 0) \<rparr>"

section \<open>Handshake messages\<close>

record session_setup =
  ss_src_coords :: tree_coordinate
  ss_dest_coords :: tree_coordinate
  ss_flags :: session_flags
  ss_handshake_payload :: bytes

definition setup_encode :: "session_setup \<Rightarrow> bytes" where
  "setup_encode m =
    (let body = [session_flags_to_byte (ss_flags m)] @ encode_coords (ss_src_coords m) @
           encode_coords (ss_dest_coords m) @
           to_le 2 (of_nat (length (ss_handshake_payload m)) :: u16) @ ss_handshake_payload m
     in [0x01, 0x00] @ to_le 2 (of_nat (length body) :: u16) @ body)"

text \<open>The tail both handshake decoders share: two coordinates, then a length-prefixed payload.\<close>

definition decode_handshake_tail ::
  "bytes \<Rightarrow> (protocol_error, tree_coordinate \<times> tree_coordinate \<times> bytes) outcome" where
  "decode_handshake_tail payload =
    obind (slice_from payload 1) (\<lambda>d1. obind (decode_coords d1) (\<lambda>(src, c1).
    obind (slice_from payload (1 + c1)) (\<lambda>d2. obind (decode_coords d2) (\<lambda>(dest, c2).
      let offset = 1 + c1 + c2 in
      if length payload < offset + 2 then Err (MessageTooShort (offset + 2) (length payload))
      else obind (get_u16 payload offset) (\<lambda>n.
        let hs_len = unat n; offset = offset + 2 in
        if length payload < offset + hs_len then Err (MessageTooShort (offset + hs_len) (length payload))
        else obind (slice payload offset (offset + hs_len)) (\<lambda>hs. Ok (src, dest, hs)))))))"

definition setup_decode :: "bytes \<Rightarrow> (protocol_error, session_setup) outcome" where
  "setup_decode payload =
    (if payload = [] then Err (MessageTooShort 1 0)
     else obind (index_at payload 0) (\<lambda>b. obind (decode_handshake_tail payload) (\<lambda>(src, dest, hs).
       Ok \<lparr> ss_src_coords = src, ss_dest_coords = dest, ss_flags = session_flags_from_byte b,
            ss_handshake_payload = hs \<rparr>)))"

record session_ack =
  sa_src_coords :: tree_coordinate
  sa_dest_coords :: tree_coordinate
  sa_flags :: u8
  sa_handshake_payload :: bytes

definition ack_with_direct_fsp_transport :: "session_ack \<Rightarrow> session_ack" where
  "ack_with_direct_fsp_transport m = m\<lparr> sa_flags := sa_flags m OR 0x04 \<rparr>"

definition supports_direct_fsp_transport :: "session_ack \<Rightarrow> bool" where
  "supports_direct_fsp_transport m \<longleftrightarrow> sa_flags m AND 0x04 \<noteq> 0"

definition ack_encode :: "session_ack \<Rightarrow> bytes" where
  "ack_encode m =
    (let body = [sa_flags m] @ encode_coords (sa_src_coords m) @ encode_coords (sa_dest_coords m) @
           to_le 2 (of_nat (length (sa_handshake_payload m)) :: u16) @ sa_handshake_payload m
     in [0x02, 0x00] @ to_le 2 (of_nat (length body) :: u16) @ body)"

definition ack_decode :: "bytes \<Rightarrow> (protocol_error, session_ack) outcome" where
  "ack_decode payload =
    (if payload = [] then Err (MessageTooShort 1 0)
     else obind (index_at payload 0) (\<lambda>b. obind (decode_handshake_tail payload) (\<lambda>(src, dest, hs).
       Ok \<lparr> sa_src_coords = src, sa_dest_coords = dest, sa_flags = b, sa_handshake_payload = hs \<rparr>)))"

record session_msg3 =
  sm_flags :: u8
  sm_handshake_payload :: bytes

definition msg3_encode :: "session_msg3 \<Rightarrow> bytes" where
  "msg3_encode m =
    (let body = [sm_flags m] @ to_le 2 (of_nat (length (sm_handshake_payload m)) :: u16) @ sm_handshake_payload m
     in [0x03, 0x00] @ to_le 2 (of_nat (length body) :: u16) @ body)"

definition msg3_decode :: "bytes \<Rightarrow> (protocol_error, session_msg3) outcome" where
  "msg3_decode payload =
    (if payload = [] then Err (MessageTooShort 1 0)
     else obind (index_at payload 0) (\<lambda>b.
       if length payload < 1 + 2 then Err (MessageTooShort (1 + 2) (length payload))
       else obind (get_u16 payload 1) (\<lambda>n.
         let hs_len = unat n in
         if length payload < 3 + hs_len then Err (MessageTooShort (3 + hs_len) (length payload))
         else obind (slice payload 3 (3 + hs_len)) (\<lambda>hs.
           Ok \<lparr> sm_flags = b, sm_handshake_payload = hs \<rparr>))))"

section \<open>Coordinate lemmas\<close>

text \<open>What a coordinate looks like after a trip over the wire, and which coordinates survive it: the
  count field has 16 bits.\<close>

definition strip :: "tree_coordinate \<Rightarrow> tree_coordinate" where
  "strip c = map addr_only (node_addrs c)"

definition wire_coord :: "tree_coordinate \<Rightarrow> bool" where
  "wire_coord c \<longleftrightarrow> c \<noteq> [] \<and> length c < 65536"

lemma strip_addr_only: "strip (map addr_only as) = map addr_only as"
  by (simp add: strip_def node_addrs_def addr_only_def entry_new_def comp_def)

lemma length_concat_as_bytes [simp]: "length (concat (map as_bytes as)) = length as * 16"
  by (induction as) auto

lemma length_encode_coords [simp]: "length (encode_coords c) = coords_wire_size c"
  by (simp add: encode_coords_def coords_wire_size_def)

lemma unat_u16_of_nat [simp]: "n < 65536 \<Longrightarrow> unat (of_nat n :: u16) = n"
  by (simp add: unat_of_nat)

lemma unat_u16_less: "unat (n :: u16) < 65536"
  using unat_less_exp [of n] by simp

lemma get_addr_at:
  "length pre = pos \<Longrightarrow> get_addr (pre @ as_bytes a @ rest) pos = Ok a"
  by (simp add: codec_simps)

lemma read_addrs_encoded:
  "length pre = 2 + i * 16 \<Longrightarrow> read_addrs (pre @ concat (map as_bytes as) @ rest) i (length as) = Ok as"
proof (induction as arbitrary: i pre)
  case (Cons a as)
  have "read_addrs ((pre @ as_bytes a) @ concat (map as_bytes as) @ rest) (Suc i) (length as) = Ok as"
    using Cons by (intro Cons.IH) simp
  then show ?case using Cons.prems by (simp add: get_addr_at)
qed simp

lemma read_addrs_total:
  "2 + (i + n) * 16 \<le> length data \<Longrightarrow> \<exists>as. read_addrs data i n = Ok as \<and> length as = n"
proof (induction n arbitrary: i)
  case (Suc n)
  have "2 + (Suc i + n) * 16 \<le> length data" using Suc.prems by simp
  then obtain as where "read_addrs data (Suc i) n = Ok as" "length as = n" using Suc.IH by blast
  then show ?case using Suc.prems by (simp add: get_in_range)
qed simp

lemma decode_coords_encoded:
  assumes "wire_coord c"
  shows "decode_coords (encode_coords c @ rest) = Ok (strip c, coords_wire_size c)"
proof -
  have "get_u16 (encode_coords c @ rest) 0 = (Ok (of_nat (length c)) :: (protocol_error, u16) outcome)"
    by (simp add: encode_coords_def codec_simps)
  moreover have "read_addrs (encode_coords c @ rest) 0 (length c) = Ok (node_addrs c)"
    using read_addrs_encoded [of "to_le 2 (of_nat (length c) :: u16)" 0 "node_addrs c" rest]
    by (simp add: encode_coords_def)
  moreover have "node_addrs c \<noteq> []" "unat (of_nat (length c) :: u16) = length c" "length c \<noteq> 0"
    using assms by (auto simp: wire_coord_def node_addrs_def)
  ultimately show ?thesis
    by (simp add: decode_coords_def coords_wire_size_def from_addrs_def strip_def Let_def)
qed

lemma decode_optional_coords_encoded:
  assumes "wire_coord c"
  shows "decode_optional_coords (encode_coords c @ rest) = Ok (Some (strip c), coords_wire_size c)"
proof -
  have "get_u16 (encode_coords c @ rest) 0 = (Ok (of_nat (length c)) :: (protocol_error, u16) outcome)"
    by (simp add: encode_coords_def codec_simps)
  moreover have "read_addrs (encode_coords c @ rest) 0 (length c) = Ok (node_addrs c)"
    using read_addrs_encoded [of "to_le 2 (of_nat (length c) :: u16)" 0 "node_addrs c" rest]
    by (simp add: encode_coords_def)
  moreover have "node_addrs c \<noteq> []" "unat (of_nat (length c) :: u16) = length c" "length c \<noteq> 0"
    using assms by (auto simp: wire_coord_def node_addrs_def)
  ultimately show ?thesis
    by (simp add: decode_optional_coords_def coords_wire_size_def from_addrs_def strip_def Let_def)
qed

lemma decode_optional_coords_empty: "decode_optional_coords (encode_empty_coords @ rest) = Ok (None, 2)"
  by (simp add: decode_optional_coords_def encode_empty_coords_def codec_simps)

text \<open>Any input either fails with an error or yields a non-empty coordinate inside the input.\<close>

lemma decode_coords_cases:
  "(\<exists>e. decode_coords data = Err e) \<or>
   (\<exists>c n. decode_coords data = Ok (c, n) \<and> wire_coord c \<and> strip c = c \<and>
      n = coords_wire_size c \<and> n \<le> length data)"
proof (cases "length data < 2")
  case False
  then obtain cnt where cnt: "get_u16 data 0 = (Ok cnt :: (protocol_error, u16) outcome)"
    by (simp add: get_in_range)
  show ?thesis
  proof (cases "length data < 2 + unat cnt * 16 \<or> unat cnt = 0")
    case True
    then show ?thesis using False cnt by (auto simp: decode_coords_def Let_def)
  next
    case ok: False
    then obtain as where "read_addrs data 0 (unat cnt) = Ok as" "length as = unat cnt"
      using read_addrs_total [of 0 "unat cnt" data] by auto
    then show ?thesis using False cnt ok
        unat_less_exp [of cnt]
      by (auto simp: decode_coords_def Let_def from_addrs_def wire_coord_def coords_wire_size_def
          strip_addr_only)
  qed
qed (simp add: decode_coords_def)

lemma decode_optional_coords_cases:
  "(\<exists>e. decode_optional_coords data = Err e) \<or>
   (\<exists>c n. decode_optional_coords data = Ok (c, n) \<and> n \<le> length data)"
proof (cases "length data < 2")
  case False
  then obtain cnt where cnt: "get_u16 data 0 = (Ok cnt :: (protocol_error, u16) outcome)"
    by (simp add: get_in_range)
  show ?thesis
  proof (cases "length data < 2 + unat cnt * 16 \<or> unat cnt = 0")
    case True
    then show ?thesis using False cnt by (auto simp: decode_optional_coords_def Let_def)
  next
    case ok: False
    then obtain as where "read_addrs data 0 (unat cnt) = Ok as" "length as = unat cnt"
      using read_addrs_total [of 0 "unat cnt" data] by auto
    then show ?thesis using False cnt ok
      by (auto simp: decode_optional_coords_def Let_def from_addrs_def)
  qed
qed (simp add: decode_optional_coords_def)

section \<open>Handshake message lemmas\<close>

lemma decode_handshake_tail_encoded:
  assumes "wire_coord src" "wire_coord dest" "length hs < 65536"
  shows "decode_handshake_tail (b # encode_coords src @ encode_coords dest @
      to_le 2 (of_nat (length hs) :: u16) @ hs) = Ok (strip src, strip dest, hs)"
proof -
  let ?tail = "encode_coords dest @ to_le 2 (of_nat (length hs) :: u16) @ hs"
  have c1: "decode_coords (encode_coords src @ ?tail) = Ok (strip src, coords_wire_size src)"
    and c2: "decode_coords ?tail = Ok (strip dest, coords_wire_size dest)"
    using decode_coords_encoded assms by blast+
  have d2: "slice_from (b # encode_coords src @ ?tail) (1 + coords_wire_size src) =
      (Ok ?tail :: (protocol_error, bytes) outcome)"
    by (simp add: slice_from_def)
  show ?thesis
    unfolding decode_handshake_tail_def
    by (simp add: c1 c2 d2 [simplified] codec_simps Let_def assms(3))
qed

lemma decode_handshake_tail_total: "payload \<noteq> [] \<Longrightarrow> decode_handshake_tail payload \<noteq> Panic"
proof -
  assume ne: "payload \<noteq> []"
  have d1: "slice_from payload 1 = (Ok (drop 1 payload) :: (protocol_error, bytes) outcome)"
    using ne by (cases payload) (auto simp: slice_from_def)
  show ?thesis
  proof (cases "decode_coords (drop 1 payload)")
    case (Ok cn)
    then obtain src c1 where c1: "decode_coords (drop 1 payload) = Ok (src, c1)" "1 + c1 \<le> length payload"
      using decode_coords_cases [of "drop 1 payload"] ne by (cases payload) auto
    then have d2: "slice_from payload (1 + c1) = (Ok (drop (1 + c1) payload) :: (protocol_error, bytes) outcome)"
      by (simp add: slice_from_def)
    show ?thesis using decode_coords_cases [of "drop (1 + c1) payload"] d1 c1 d2
      by (auto simp: decode_handshake_tail_def Let_def get_in_range slice_def split: if_splits)
  qed (use d1 decode_coords_cases [of "drop 1 payload"] in \<open>auto simp: decode_handshake_tail_def\<close>)
qed

lemma decode_handshake_tail_wire:
  assumes "decode_handshake_tail payload = Ok (src, dest, hs)"
  shows "wire_coord src \<and> strip src = src \<and> wire_coord dest \<and> strip dest = dest \<and> length hs < 65536"
proof -
  from assms obtain d1 c1 d2 c2 where "decode_coords d1 = Ok (src, c1)" "decode_coords d2 = Ok (dest, c2)"
    by (auto simp: decode_handshake_tail_def Let_def obind_Ok split: if_splits)
  then have "wire_coord src \<and> strip src = src \<and> wire_coord dest \<and> strip dest = dest"
    using decode_coords_cases [of d1] decode_coords_cases [of d2] by auto
  moreover have "length hs < 65536"
    using assms by (auto simp: decode_handshake_tail_def Let_def obind_Ok slice_def unat_u16_less
        split: if_splits)
  ultimately show ?thesis by simp
qed

lemma session_flags_roundtrip [simp]: "session_flags_from_byte (session_flags_to_byte f) = f"
  by (cases f) (auto simp: session_flags_from_byte_def session_flags_to_byte_def)

lemma fsp_flags_roundtrip [simp]: "fsp_flags_from_byte (fsp_flags_to_byte f) = f"
  by (cases f) (auto simp: fsp_flags_from_byte_def fsp_flags_to_byte_def)

lemma inner_flags_roundtrip [simp]: "inner_flags_from_byte (inner_flags_to_byte f) = f"
  by (cases f) (auto simp: inner_flags_from_byte_def inner_flags_to_byte_def)

lemma strip_strip [simp]: "strip (strip c) = strip c"
  by (simp add: strip_def node_addrs_def addr_only_def entry_new_def comp_def)

definition setup_wire :: "session_setup \<Rightarrow> bool" where
  "setup_wire m \<longleftrightarrow> wire_coord (ss_src_coords m) \<and> wire_coord (ss_dest_coords m) \<and>
     length (ss_handshake_payload m) < 65536"

definition ack_wire :: "session_ack \<Rightarrow> bool" where
  "ack_wire m \<longleftrightarrow> wire_coord (sa_src_coords m) \<and> wire_coord (sa_dest_coords m) \<and>
     length (sa_handshake_payload m) < 65536"

definition msg3_wire :: "session_msg3 \<Rightarrow> bool" where
  "msg3_wire m \<longleftrightarrow> length (sm_handshake_payload m) < 65536"

lemma setup_decode_encode:
  "setup_wire m \<Longrightarrow> setup_decode (drop 4 (setup_encode m)) =
     Ok (m\<lparr> ss_src_coords := strip (ss_src_coords m), ss_dest_coords := strip (ss_dest_coords m) \<rparr>)"
  by (simp add: setup_wire_def setup_encode_def setup_decode_def Let_def codec_simps
      decode_handshake_tail_encoded)

lemma ack_decode_encode:
  "ack_wire m \<Longrightarrow> ack_decode (drop 4 (ack_encode m)) =
     Ok (m\<lparr> sa_src_coords := strip (sa_src_coords m), sa_dest_coords := strip (sa_dest_coords m) \<rparr>)"
  by (simp add: ack_wire_def ack_encode_def ack_decode_def Let_def codec_simps
      decode_handshake_tail_encoded)

lemma msg3_decode_encode: "msg3_wire m \<Longrightarrow> msg3_decode (drop 4 (msg3_encode m)) = Ok m"
  by (simp add: msg3_wire_def msg3_encode_def msg3_decode_def Let_def codec_simps)

lemma setup_decode_wire:
  "setup_decode bs = Ok m \<Longrightarrow> setup_wire m \<and> strip (ss_src_coords m) = ss_src_coords m \<and>
     strip (ss_dest_coords m) = ss_dest_coords m"
  by (auto simp: setup_decode_def obind_Ok setup_wire_def split: if_splits dest!: decode_handshake_tail_wire)

lemma ack_decode_wire:
  "ack_decode bs = Ok m \<Longrightarrow> ack_wire m \<and> strip (sa_src_coords m) = sa_src_coords m \<and>
     strip (sa_dest_coords m) = sa_dest_coords m"
  by (auto simp: ack_decode_def obind_Ok ack_wire_def split: if_splits dest!: decode_handshake_tail_wire)

lemma msg3_decode_wire: "msg3_decode bs = Ok m \<Longrightarrow> msg3_wire m"
  by (auto simp: msg3_decode_def obind_Ok Let_def slice_def msg3_wire_def unat_u16_less split: if_splits)

lemma setup_decode_total: "setup_decode bs \<noteq> Panic"
  using decode_handshake_tail_total [of bs]
  by (cases bs; cases "decode_handshake_tail bs") (auto simp: setup_decode_def codec_simps)

lemma ack_decode_total: "ack_decode bs \<noteq> Panic"
  using decode_handshake_tail_total [of bs]
  by (cases bs; cases "decode_handshake_tail bs") (auto simp: ack_decode_def codec_simps)

lemma msg3_decode_total: "msg3_decode bs \<noteq> Panic"
  by (cases bs) (auto simp: msg3_decode_def get_in_range slice_def Let_def codec_simps)

interpretation setup_codec: wire_codec
  "\<lambda>m. setup_wire m \<and> strip (ss_src_coords m) = ss_src_coords m \<and> strip (ss_dest_coords m) = ss_dest_coords m"
  "\<lambda>m. drop 4 (setup_encode m)" setup_decode
  by unfold_locales (simp_all add: setup_decode_encode setup_decode_total)

interpretation ack_codec: wire_codec
  "\<lambda>m. ack_wire m \<and> strip (sa_src_coords m) = sa_src_coords m \<and> strip (sa_dest_coords m) = sa_dest_coords m"
  "\<lambda>m. drop 4 (ack_encode m)" ack_decode
  by unfold_locales (simp_all add: ack_decode_encode ack_decode_total)

interpretation msg3_codec: wire_codec msg3_wire "\<lambda>m. drop 4 (msg3_encode m)" msg3_decode
  by unfold_locales (simp_all add: msg3_decode_encode msg3_decode_total)

section \<open>Properties\<close>

text \<open>A session setup, acknowledgement or third handshake message whose coordinates and payload
  fit the 16-bit length fields decodes to itself, up to the sequence numbers and timestamps that
  coordinates drop on the wire.\<close>

theorem session_handshake_roundtrip:
  "(setup_wire m \<longrightarrow> setup_decode (drop 4 (setup_encode m)) =
      Ok (m\<lparr> ss_src_coords := strip (ss_src_coords m), ss_dest_coords := strip (ss_dest_coords m) \<rparr>)) \<and>
   (ack_wire a \<longrightarrow> ack_decode (drop 4 (ack_encode a)) =
      Ok (a\<lparr> sa_src_coords := strip (sa_src_coords a), sa_dest_coords := strip (sa_dest_coords a) \<rparr>)) \<and>
   (msg3_wire g \<longrightarrow> msg3_decode (drop 4 (msg3_encode g)) = Ok g)"
  by (simp add: setup_decode_encode ack_decode_encode msg3_decode_encode)

theorem session_handshake_roundtrip_witness:
  "ack_decode (drop 4 (ack_encode \<lparr> sa_src_coords = [entry_new (NodeAddr 7) 3 4, addr_only (NodeAddr 1)],
      sa_dest_coords = [addr_only (NodeAddr 9)], sa_flags = 4, sa_handshake_payload = [1, 2, 3] \<rparr>)) =
   Ok \<lparr> sa_src_coords = [addr_only (NodeAddr 7), addr_only (NodeAddr 1)],
      sa_dest_coords = [addr_only (NodeAddr 9)], sa_flags = 4, sa_handshake_payload = [1, 2, 3] \<rparr>"
  using session_handshake_roundtrip [of undefined "\<lparr> sa_src_coords = [entry_new (NodeAddr 7) 3 4, addr_only (NodeAddr 1)],
      sa_dest_coords = [addr_only (NodeAddr 9)], sa_flags = 4, sa_handshake_payload = [1, 2, 3] \<rparr>" undefined]
  by (simp add: ack_wire_def wire_coord_def strip_def node_addrs_def entry_new_def addr_only_def)

end
