(* ===== verification/Wire_Control.thy ===== *)
theory Wire_Control
  imports Wire_Session
begin

text \<open>
  Error signals of transit routers and path-MTU notices (\<^verbatim>\<open>session/control_messages.rs\<close>), the FSP
  framing helpers (\<^verbatim>\<open>proto/fsp_wire.rs\<close>) and the structural classifier that decides which packets
  get the session-bootstrap allowance (\<^verbatim>\<open>proto/protocol/handshake.rs\<close>).
\<close>

section \<open>Control messages\<close>

record path_mtu_notification =
  pm_path_mtu :: u16

definition PATH_MTU_NOTIFICATION_SIZE :: nat where "PATH_MTU_NOTIFICATION_SIZE = 2"

definition path_mtu_encode :: "path_mtu_notification \<Rightarrow> bytes" where
  "path_mtu_encode m = to_le 2 (pm_path_mtu m)"

definition path_mtu_decode :: "bytes \<Rightarrow> (protocol_error, path_mtu_notification) outcome" where
  "path_mtu_decode body =
    (if length body < PATH_MTU_NOTIFICATION_SIZE
     then Err (MessageTooShort PATH_MTU_NOTIFICATION_SIZE (length body))
     else obind (get_u16 body 0) (\<lambda>m. Ok \<lparr> pm_path_mtu = m \<rparr>))"

record coords_required =
  cr_dest_addr :: node_addr
  cr_reporter :: node_addr

definition coords_required_encode :: "coords_required \<Rightarrow> bytes" where
  "coords_required_encode m = [0x00, 0x04] @ to_le 2 (of_nat (1 + 1 + 16 + 16) :: u16) @
     [session_to_byte CoordsRequiredT, 0x00] @ as_bytes (cr_dest_addr m) @ as_bytes (cr_reporter m)"

definition coords_required_decode :: "bytes \<Rightarrow> (protocol_error, coords_required) outcome" where
  "coords_required_decode payload =
    (if length payload < 33 then Err (MessageTooShort 33 (length payload))
     else obind (get_addr payload 1) (\<lambda>dest. obind (get_addr payload 17) (\<lambda>reporter.
       Ok \<lparr> cr_dest_addr = dest, cr_reporter = reporter \<rparr>)))"

record path_broken =
  pb_dest_addr :: node_addr
  pb_reporter :: node_addr
  pb_last_known_coords :: "tree_coordinate option"

definition path_broken_encode :: "path_broken \<Rightarrow> bytes" where
  "path_broken_encode m =
    (let body = [session_to_byte PathBrokenT, 0x00] @ as_bytes (pb_dest_addr m) @ as_bytes (pb_reporter m) @
           (case pb_last_known_coords m of Some coords \<Rightarrow> encode_coords coords | None \<Rightarrow> encode_empty_coords)
     in [0x00, 0x04] @ to_le 2 (of_nat (length body) :: u16) @ body)"

definition path_broken_decode :: "bytes \<Rightarrow> (protocol_error, path_broken) outcome" where
  "path_broken_decode payload =
    (if length payload < 35 then Err (MessageTooShort 35 (length payload))
     else obind (get_addr payload 1) (\<lambda>dest. obind (get_addr payload 17) (\<lambda>reporter.
       obind (slice_from payload 33) (\<lambda>rest. obind (decode_optional_coords rest) (\<lambda>(coords, _).
         Ok \<lparr> pb_dest_addr = dest, pb_reporter = reporter, pb_last_known_coords = coords \<rparr>)))))"

record mtu_exceeded =
  me_dest_addr :: node_addr
  me_reporter :: node_addr
  me_mtu :: u16

definition MTU_EXCEEDED_SIZE :: nat where "MTU_EXCEEDED_SIZE = 36"

definition mtu_exceeded_encode :: "mtu_exceeded \<Rightarrow> bytes" where
  "mtu_exceeded_encode m = [0x00, 0x04] @ to_le 2 (of_nat MTU_EXCEEDED_SIZE :: u16) @
     [session_to_byte MtuExceededT, 0x00] @ as_bytes (me_dest_addr m) @ as_bytes (me_reporter m) @
     to_le 2 (me_mtu m)"

definition mtu_exceeded_decode :: "bytes \<Rightarrow> (protocol_error, mtu_exceeded) outcome" where
  "mtu_exceeded_decode payload =
    (if length payload < 35 then Err (MessageTooShort 35 (length payload))
     else obind (get_addr payload 1) (\<lambda>dest. obind (get_addr payload 17) (\<lambda>reporter.
       obind (get_u16 payload 33) (\<lambda>mtu.
         Ok \<lparr> me_dest_addr = dest, me_reporter = reporter, me_mtu = mtu \<rparr>))))"

section \<open>FSP framing\<close>

definition FSP_COMMON_PREFIX_SIZE :: nat where "FSP_COMMON_PREFIX_SIZE = 4"
definition FSP_INNER_HEADER_SIZE :: nat where "FSP_INNER_HEADER_SIZE = 6"
definition FSP_PORT_HEADER_SIZE :: nat where "FSP_PORT_HEADER_SIZE = 4"
definition FSP_FLAG_CP :: u8 where "FSP_FLAG_CP = 0x01"
definition FSP_FLAG_U :: u8 where "FSP_FLAG_U = 0x04"

definition fsp_endpoint_data_max_body_len :: nat where
  "fsp_endpoint_data_max_body_len = 65535 - FSP_INNER_HEADER_SIZE"

definition fsp_service_datagram_max_body_len :: nat where
  "fsp_service_datagram_max_body_len = fsp_endpoint_data_max_body_len - FSP_PORT_HEADER_SIZE"

record fsp_common_prefix =
  fp_phase :: u8
  fp_flags :: u8

definition fsp_parse :: "bytes \<Rightarrow> ('e, fsp_common_prefix option) outcome" where
  "fsp_parse data =
    (if length data < FSP_COMMON_PREFIX_SIZE then Ok None
     else obind (index_at data 0) (\<lambda>b0. obind (index_at data 1) (\<lambda>b1.
       Ok (Some \<lparr> fp_phase = b0 AND 0x0F, fp_flags = b1 \<rparr>))))"

definition is_unencrypted :: "fsp_common_prefix \<Rightarrow> bool" where
  "is_unencrypted p \<longleftrightarrow> fp_flags p AND FSP_FLAG_U \<noteq> 0"

definition has_coords :: "fsp_common_prefix \<Rightarrow> bool" where
  "has_coords p \<longleftrightarrow> fp_flags p AND FSP_FLAG_CP \<noteq> 0"

definition fsp_strip_inner_header :: "bytes \<Rightarrow> ('e, (u32 \<times> u8 \<times> u8 \<times> bytes) option) outcome" where
  "fsp_strip_inner_header plaintext =
    (if length plaintext < FSP_INNER_HEADER_SIZE then Ok None
     else obind (get_u32 plaintext 0) (\<lambda>timestamp. obind (index_at plaintext 4) (\<lambda>msg_type.
       obind (index_at plaintext 5) (\<lambda>inner_flags. obind (slice_from plaintext FSP_INNER_HEADER_SIZE) (\<lambda>rest.
         Ok (Some (timestamp, msg_type, inner_flags, rest)))))))"

definition parse_encrypted_coords ::
  "bytes \<Rightarrow> (protocol_error, tree_coordinate option \<times> tree_coordinate option \<times> nat) outcome" where
  "parse_encrypted_coords data =
    obind (decode_optional_coords data) (\<lambda>(src, c1). obind (slice_from data c1) (\<lambda>rest.
      obind (decode_optional_coords rest) (\<lambda>(dest, c2). Ok (src, dest, c1 + c2))))"

section \<open>Handshake classification\<close>

definition MAX_BOOTSTRAP_HANDSHAKE_BYTES :: nat where "MAX_BOOTSTRAP_HANDSHAKE_BYTES = 2048"
definition XK_HANDSHAKE_MSG1_SIZE :: nat where "XK_HANDSHAKE_MSG1_SIZE = 33"
definition XK_HANDSHAKE_MSG2_SIZE :: nat where "XK_HANDSHAKE_MSG2_SIZE = 33 + (8 + 16)"
definition XK_HANDSHAKE_MSG3_SIZE :: nat where "XK_HANDSHAKE_MSG3_SIZE = 33 + 16 + (8 + 16)"

datatype session_handshake = Setup | Ack | Finish

text \<open>\<^verbatim>\<open>.ok()?\<close>: an error ends the function with \<open>None\<close>.\<close>

fun ok_or_none :: "('e, 'a) outcome \<Rightarrow> ('a \<Rightarrow> ('e, 'b option) outcome) \<Rightarrow> ('e, 'b option) outcome" where
  "ok_or_none (Ok x) f = f x"
| "ok_or_none (Err e) f = Ok None"
| "ok_or_none Panic f = Panic"

definition classify :: "bytes \<Rightarrow> node_addr \<Rightarrow> node_addr \<Rightarrow> (protocol_error, session_handshake option) outcome" where
  "classify payload source destination =
    (if \<not> (FSP_COMMON_PREFIX_SIZE \<le> length payload \<and> length payload \<le> MAX_BOOTSTRAP_HANDSHAKE_BYTES)
     then Ok None
     else obind (slice_from payload FSP_COMMON_PREFIX_SIZE) (\<lambda>body. obind (index_at payload 0) (\<lambda>phase.
       if phase = 0x1 then ok_or_none (setup_decode body) (\<lambda>m.
         Ok (if length (ss_handshake_payload m) = XK_HANDSHAKE_MSG1_SIZE \<and> node_addr (ss_src_coords m) = source \<and>
               node_addr (ss_dest_coords m) = destination \<and> setup_encode m = payload then Some Setup else None))
       else if phase = 0x2 then ok_or_none (ack_decode body) (\<lambda>m.
         Ok (if length (sa_handshake_payload m) = XK_HANDSHAKE_MSG2_SIZE \<and> sa_flags m AND NOT 0x04 = 0 \<and>
               node_addr (sa_src_coords m) = source \<and> node_addr (sa_dest_coords m) = destination \<and>
               ack_encode m = payload then Some Ack else None))
       else if phase = 0x3 then ok_or_none (msg3_decode body) (\<lambda>m.
         Ok (if length (sm_handshake_payload m) = XK_HANDSHAKE_MSG3_SIZE \<and> sm_flags m = 0 \<and>
               msg3_encode m = payload then Some Finish else None))
       else Ok None)))"

section \<open>Codec lemmas\<close>

interpretation path_mtu_codec: wire_codec "\<lambda>_. True" path_mtu_encode path_mtu_decode
  by unfold_locales
    (simp_all add: path_mtu_encode_def path_mtu_decode_def PATH_MTU_NOTIFICATION_SIZE_def codec_simps,
     simp add: slice_def)

interpretation coords_required_codec: wire_codec "\<lambda>_. True" "\<lambda>m. drop 5 (coords_required_encode m)" coords_required_decode
  by unfold_locales
    (simp_all add: coords_required_encode_def coords_required_decode_def codec_simps numeral_eq_Suc,
     simp add: slice_def)

interpretation mtu_exceeded_codec: wire_codec "\<lambda>_. True" "\<lambda>m. drop 5 (mtu_exceeded_encode m)" mtu_exceeded_decode
  by unfold_locales
    (simp_all add: mtu_exceeded_encode_def mtu_exceeded_decode_def codec_simps,
     simp add: slice_def)

definition path_broken_wire :: "path_broken \<Rightarrow> bool" where
  "path_broken_wire m \<longleftrightarrow> (case pb_last_known_coords m of Some c \<Rightarrow> wire_coord c | None \<Rightarrow> True)"

lemma path_broken_decode_encode:
  assumes "path_broken_wire m"
  shows "path_broken_decode (drop 5 (path_broken_encode m)) =
    Ok (m\<lparr> pb_last_known_coords := map_option strip (pb_last_known_coords m) \<rparr>)"
proof (cases "pb_last_known_coords m")
  case None
  then show ?thesis
    using decode_optional_coords_empty [of "[]"]
    by (simp add: path_broken_encode_def path_broken_decode_def Let_def codec_simps encode_empty_coords_def)
next
  case (Some c)
  then show ?thesis
    using assms decode_optional_coords_encoded [of c "[]"]
    by (simp add: path_broken_encode_def path_broken_decode_def Let_def codec_simps path_broken_wire_def
        coords_wire_size_def)
qed

lemma path_broken_decode_total: "path_broken_decode bs \<noteq> Panic"
  using decode_optional_coords_cases [of "drop 33 bs"]
  by (auto simp: path_broken_decode_def get_in_range slice_from_def)

section \<open>Classification lemmas\<close>

definition setup_bootstrap :: "node_addr \<Rightarrow> node_addr \<Rightarrow> session_setup \<Rightarrow> bool" where
  "setup_bootstrap source destination m \<longleftrightarrow>
     setup_wire m \<and> strip (ss_src_coords m) = ss_src_coords m \<and> strip (ss_dest_coords m) = ss_dest_coords m \<and>
     length (ss_handshake_payload m) = XK_HANDSHAKE_MSG1_SIZE \<and>
     node_addr (ss_src_coords m) = source \<and> node_addr (ss_dest_coords m) = destination"

definition ack_bootstrap :: "node_addr \<Rightarrow> node_addr \<Rightarrow> session_ack \<Rightarrow> bool" where
  "ack_bootstrap source destination m \<longleftrightarrow>
     ack_wire m \<and> strip (sa_src_coords m) = sa_src_coords m \<and> strip (sa_dest_coords m) = sa_dest_coords m \<and>
     length (sa_handshake_payload m) = XK_HANDSHAKE_MSG2_SIZE \<and> sa_flags m AND NOT 0x04 = 0 \<and>
     node_addr (sa_src_coords m) = source \<and> node_addr (sa_dest_coords m) = destination"

definition msg3_bootstrap :: "session_msg3 \<Rightarrow> bool" where
  "msg3_bootstrap m \<longleftrightarrow> length (sm_handshake_payload m) = XK_HANDSHAKE_MSG3_SIZE \<and> sm_flags m = 0"

lemma encode_prefix:
  "4 \<le> length (setup_encode m)" "hd (setup_encode m) = 1"
  "4 \<le> length (ack_encode a)" "hd (ack_encode a) = 2"
  "4 \<le> length (msg3_encode g)" "hd (msg3_encode g) = 3"
  by (simp_all add: setup_encode_def ack_encode_def msg3_encode_def Let_def)

lemma classify_unfold:
  assumes "4 \<le> length p" "length p \<le> 2048"
  shows "classify p s d =
    (if hd p = 0x1 then ok_or_none (setup_decode (drop 4 p)) (\<lambda>m.
         Ok (if length (ss_handshake_payload m) = XK_HANDSHAKE_MSG1_SIZE \<and> node_addr (ss_src_coords m) = s \<and>
               node_addr (ss_dest_coords m) = d \<and> setup_encode m = p then Some Setup else None))
     else if hd p = 0x2 then ok_or_none (ack_decode (drop 4 p)) (\<lambda>m.
         Ok (if length (sa_handshake_payload m) = XK_HANDSHAKE_MSG2_SIZE \<and> sa_flags m AND NOT 0x04 = 0 \<and>
               node_addr (sa_src_coords m) = s \<and> node_addr (sa_dest_coords m) = d \<and>
               ack_encode m = p then Some Ack else None))
     else if hd p = 0x3 then ok_or_none (msg3_decode (drop 4 p)) (\<lambda>m.
         Ok (if length (sm_handshake_payload m) = XK_HANDSHAKE_MSG3_SIZE \<and> sm_flags m = 0 \<and>
               msg3_encode m = p then Some Finish else None))
     else Ok None)"
proof -
  have "index_at p 0 = (Ok (hd p) :: (protocol_error, u8) outcome)"
    using assms(1) by (cases p) (auto simp: index_at_def)
  then show ?thesis using assms
    by (simp add: classify_def FSP_COMMON_PREFIX_SIZE_def MAX_BOOTSTRAP_HANDSHAKE_BYTES_def slice_from_def)
qed

lemma ok_or_none_Some:
  "ok_or_none m f = Ok (Some k) \<longleftrightarrow> (\<exists>x. m = Ok x \<and> f x = Ok (Some k))"
  by (cases m) auto

lemma classify_short: "\<not> (4 \<le> length p \<and> length p \<le> 2048) \<Longrightarrow> classify p s d = Ok None"
  by (auto simp: classify_def FSP_COMMON_PREFIX_SIZE_def MAX_BOOTSTRAP_HANDSHAKE_BYTES_def)

section \<open>Properties\<close>

text \<open>Path-MTU notices and the three error signals of transit routers decode from their own
  encodings to themselves, up to the metadata that coordinates drop on the wire.\<close>

theorem control_message_roundtrips:
  "path_mtu_decode (path_mtu_encode n) = Ok n \<and>
   coords_required_decode (drop 5 (coords_required_encode c)) = Ok c \<and>
   mtu_exceeded_decode (drop 5 (mtu_exceeded_encode e)) = Ok e \<and>
   (path_broken_wire b \<longrightarrow> path_broken_decode (drop 5 (path_broken_encode b)) =
      Ok (b\<lparr> pb_last_known_coords := map_option strip (pb_last_known_coords b) \<rparr>))"
  using path_mtu_codec.dec_enc coords_required_codec.dec_enc mtu_exceeded_codec.dec_enc
    path_broken_decode_encode by simp

theorem control_message_roundtrips_witness:
  "path_broken_decode (drop 5 (path_broken_encode \<lparr> pb_dest_addr = NodeAddr 4, pb_reporter = NodeAddr 2,
      pb_last_known_coords = Some [entry_new (NodeAddr 4) 8 9, addr_only (NodeAddr 1)] \<rparr>)) =
   Ok \<lparr> pb_dest_addr = NodeAddr 4, pb_reporter = NodeAddr 2,
      pb_last_known_coords = Some [addr_only (NodeAddr 4), addr_only (NodeAddr 1)] \<rparr>"
  using control_message_roundtrips [of undefined undefined undefined "\<lparr> pb_dest_addr = NodeAddr 4, pb_reporter = NodeAddr 2,
      pb_last_known_coords = Some [entry_new (NodeAddr 4) 8 9, addr_only (NodeAddr 1)] \<rparr>"]
  by (simp add: path_broken_wire_def wire_coord_def strip_def node_addrs_def entry_new_def addr_only_def)

text \<open>The classifier grants the bootstrap allowance to a packet exactly when it is the canonical
  encoding, of at most 2048 bytes, of a handshake message with the fixed Noise payload size, no
  unknown flags and coordinates that start at the packet's own source and destination: padding,
  trailing bytes and non-canonical lengths are all refused.\<close>

theorem classify_exactly_canonical:
  "classify p s d = Ok (Some k) \<longleftrightarrow> length p \<le> 2048 \<and>
    (case k of Setup \<Rightarrow> \<exists>m. setup_bootstrap s d m \<and> p = setup_encode m
     | Ack \<Rightarrow> \<exists>m. ack_bootstrap s d m \<and> p = ack_encode m
     | Finish \<Rightarrow> \<exists>m. msg3_bootstrap m \<and> p = msg3_encode m)"
proof (cases "4 \<le> length p \<and> length p \<le> 2048")
  case True
  have su: "setup_decode (drop 4 (setup_encode m)) = Ok m" if "setup_bootstrap s d m" for m
    using that by (simp add: setup_bootstrap_def setup_decode_encode)
  have ak: "ack_decode (drop 4 (ack_encode m)) = Ok m" if "ack_bootstrap s d m" for m
    using that by (simp add: ack_bootstrap_def ack_decode_encode)
  have m3: "msg3_decode (drop 4 (msg3_encode m)) = Ok m" if "msg3_bootstrap m" for m
    using that by (simp add: msg3_bootstrap_def msg3_wire_def msg3_decode_encode XK_HANDSHAKE_MSG3_SIZE_def)
  show ?thesis
    using True su ak m3 encode_prefix
    by (cases k) (auto simp: classify_unfold ok_or_none_Some setup_bootstrap_def ack_bootstrap_def msg3_bootstrap_def
        dest: setup_decode_wire ack_decode_wire split: if_splits)
next
  case False
  then show ?thesis using encode_prefix by (auto simp: classify_short split: session_handshake.splits)
qed

end
