(* ===== verification/Wire_Discovery.thy ===== *)
theory Wire_Discovery
  imports Wire_Session
begin

text \<open>
  Discovery messages (\<^verbatim>\<open>proto/protocol/discovery.rs\<close>): lookup requests and responses. Whether 64
  bytes are a Schnorr signature is decided by the secp256k1 crate and is the argument \<open>sig_ok\<close> of the
  response decoder.
\<close>

record lookup_request =
  lr_request_id :: u64
  lr_target :: node_addr
  lr_origin :: node_addr
  lr_origin_coords :: tree_coordinate
  lr_ttl :: u8
  lr_min_mtu :: u16

definition request_forward :: "lookup_request \<Rightarrow> lookup_request \<times> bool" where
  "request_forward r = (if lr_ttl r = 0 then (r, False) else (r\<lparr> lr_ttl := lr_ttl r - 1 \<rparr>, True))"

definition request_can_forward :: "lookup_request \<Rightarrow> bool" where
  "request_can_forward r \<longleftrightarrow> lr_ttl r > 0"

definition request_encode :: "lookup_request \<Rightarrow> bytes" where
  "request_encode r = [0x30] @ to_le 8 (lr_request_id r) @ as_bytes (lr_target r) @ as_bytes (lr_origin r) @
     [lr_ttl r] @ to_le 2 (lr_min_mtu r) @ encode_coords (lr_origin_coords r)"

definition request_decode :: "bytes \<Rightarrow> (protocol_error, lookup_request) outcome" where
  "request_decode payload =
    (if length payload < 45 then Err (MessageTooShort 45 (length payload))
     else obind (get_u64 payload 0) (\<lambda>request_id. obind (get_addr payload 8) (\<lambda>target.
       obind (get_addr payload 24) (\<lambda>origin. obind (index_at payload 40) (\<lambda>ttl.
       obind (get_u16 payload 41) (\<lambda>min_mtu. obind (slice_from payload 43) (\<lambda>rest.
       obind (decode_coords rest) (\<lambda>(origin_coords, _).
         Ok \<lparr> lr_request_id = request_id, lr_target = target, lr_origin = origin,
              lr_origin_coords = origin_coords, lr_ttl = ttl, lr_min_mtu = min_mtu \<rparr>))))))))"

record lookup_response =
  lp_request_id :: u64
  lp_target :: node_addr
  lp_path_mtu :: u16
  lp_target_coords :: tree_coordinate
  lp_proof :: bytes

definition response_new :: "u64 \<Rightarrow> node_addr \<Rightarrow> tree_coordinate \<Rightarrow> bytes \<Rightarrow> lookup_response" where
  "response_new request_id target coords proof = \<lparr> lp_request_id = request_id, lp_target = target,
     lp_path_mtu = - 1, lp_target_coords = coords, lp_proof = proof \<rparr>"

definition proof_bytes :: "u64 \<Rightarrow> node_addr \<Rightarrow> tree_coordinate \<Rightarrow> bytes" where
  "proof_bytes request_id target coords = to_le 8 request_id @ as_bytes target @ encode_coords coords"

definition response_encode :: "lookup_response \<Rightarrow> bytes" where
  "response_encode r = [0x31] @ to_le 8 (lp_request_id r) @ as_bytes (lp_target r) @ to_le 2 (lp_path_mtu r) @
     encode_coords (lp_target_coords r) @ lp_proof r"

definition response_decode :: "(bytes \<Rightarrow> bool) \<Rightarrow> bytes \<Rightarrow> (protocol_error, lookup_response) outcome" where
  "response_decode sig_ok payload =
    (if length payload < 92 then Err (MessageTooShort 92 (length payload))
     else obind (get_u64 payload 0) (\<lambda>request_id. obind (get_addr payload 8) (\<lambda>target.
       obind (get_u16 payload 24) (\<lambda>path_mtu. obind (slice_from payload 26) (\<lambda>rest.
       obind (decode_coords rest) (\<lambda>(target_coords, consumed).
         let pos = 26 + consumed in
         if length payload < pos + 64 then Err (MessageTooShort (pos + 64) (length payload))
         else obind (slice payload pos (pos + 64)) (\<lambda>sig.
           if \<not> sig_ok sig then Err (Malformed ''bad proof signature'')
           else Ok \<lparr> lp_request_id = request_id, lp_target = target, lp_path_mtu = path_mtu,
             lp_target_coords = target_coords, lp_proof = sig \<rparr>)))))))"

section \<open>Codec lemmas\<close>

definition request_wire :: "lookup_request \<Rightarrow> bool" where
  "request_wire r \<longleftrightarrow> wire_coord (lr_origin_coords r)"

definition response_wire :: "(bytes \<Rightarrow> bool) \<Rightarrow> lookup_response \<Rightarrow> bool" where
  "response_wire sig_ok r \<longleftrightarrow> wire_coord (lp_target_coords r) \<and> length (lp_proof r) = 64 \<and> sig_ok (lp_proof r)"

lemma request_decode_encode:
  assumes "request_wire r"
  shows "request_decode (tl (request_encode r)) = Ok (r\<lparr> lr_origin_coords := strip (lr_origin_coords r) \<rparr>)"
  using assms decode_coords_encoded [of "lr_origin_coords r" "[]"]
  by (simp add: request_wire_def request_decode_def request_encode_def codec_simps coords_wire_size_def)

lemma request_decode_total: "request_decode bs \<noteq> Panic"
  using decode_coords_cases [of "drop 43 bs"]
  by (auto simp: request_decode_def get_in_range slice_from_def index_at_def)

lemma response_decode_encode:
  assumes "response_wire sig_ok r"
  shows "response_decode sig_ok (tl (response_encode r)) = Ok (r\<lparr> lp_target_coords := strip (lp_target_coords r) \<rparr>)"
proof -
  let ?c = "lp_target_coords r"
  have dec: "decode_coords (encode_coords ?c @ lp_proof r) = Ok (strip ?c, coords_wire_size ?c)"
    using assms by (simp add: decode_coords_encoded response_wire_def)
  have "2 \<le> coords_wire_size ?c" by (simp add: coords_wire_size_def)
  moreover have "length (lp_proof r) = 64" "sig_ok (lp_proof r)"
    using assms by (simp_all add: response_wire_def)
  ultimately show ?thesis
    by (simp add: response_decode_def response_encode_def codec_simps dec Let_def)
qed

lemma response_decode_total: "response_decode sig_ok bs \<noteq> Panic"
  using decode_coords_cases [of "drop 26 bs"]
  by (auto simp: response_decode_def get_in_range slice_from_def slice_def Let_def split: if_splits)

interpretation request_codec: wire_codec
  "\<lambda>r. request_wire r \<and> strip (lr_origin_coords r) = lr_origin_coords r" "\<lambda>r. tl (request_encode r)" request_decode
  by unfold_locales (simp_all add: request_decode_encode request_decode_total)

interpretation response_codec: wire_codec
  "\<lambda>r. response_wire sig_ok r \<and> strip (lp_target_coords r) = lp_target_coords r"
  "\<lambda>r. tl (response_encode r)" "response_decode sig_ok" for sig_ok
  by unfold_locales (simp_all add: response_decode_encode response_decode_total)

lemma encode_coords_inject:
  assumes "wire_coord c" "wire_coord d" "encode_coords c = encode_coords d"
  shows "node_addrs c = node_addrs d"
proof -
  have "strip c = strip d"
    using decode_coords_encoded [OF assms(1), of "[]"] decode_coords_encoded [OF assms(2), of "[]"] assms(3) by simp
  then have "node_addrs (strip c) = node_addrs (strip d)" by simp
  then show ?thesis by (simp add: strip_def node_addrs_def addr_only_def entry_new_def comp_def)
qed

section \<open>Properties\<close>

text \<open>Lookup requests and responses with coordinates of fewer than 65536 entries decode from their
  own encodings to themselves, up to the metadata coordinates drop on the wire.\<close>

theorem lookup_roundtrips:
  "(request_wire q \<longrightarrow> request_decode (tl (request_encode q)) =
      Ok (q\<lparr> lr_origin_coords := strip (lr_origin_coords q) \<rparr>)) \<and>
   (response_wire sig_ok r \<longrightarrow> response_decode sig_ok (tl (response_encode r)) =
      Ok (r\<lparr> lp_target_coords := strip (lp_target_coords r) \<rparr>))"
  by (simp add: request_decode_encode response_decode_encode)

theorem lookup_roundtrips_witness:
  "response_decode (\<lambda>_. True) (tl (response_encode (response_new 7 (NodeAddr 4)
      [entry_new (NodeAddr 4) 1 2, addr_only (NodeAddr 1)] (replicate 64 5)))) =
    Ok (response_new 7 (NodeAddr 4) [addr_only (NodeAddr 4), addr_only (NodeAddr 1)] (replicate 64 5))"
  using lookup_roundtrips [of undefined "\<lambda>_. True" "response_new 7 (NodeAddr 4)
      [entry_new (NodeAddr 4) 1 2, addr_only (NodeAddr 1)] (replicate 64 5)"]
  by (simp add: response_wire_def response_new_def wire_coord_def strip_def node_addrs_def entry_new_def addr_only_def)

text \<open>A lookup proof binds the answer: the signed bytes determine the request, the target and the
  whole address path of the target, and not the path MTU that transit nodes rewrite.\<close>

theorem lookup_proof_binding:
  assumes "wire_coord c" "wire_coord d"
  shows "proof_bytes i t c = proof_bytes j u d \<longleftrightarrow> i = j \<and> t = u \<and> node_addrs c = node_addrs d"
proof -
  have "encode_coords c = encode_coords d \<longleftrightarrow> node_addrs c = node_addrs d"
    using encode_coords_inject [OF assms] by (auto simp: encode_coords_def simp del: length_node_addrs)
  then show ?thesis by (auto simp: proof_bytes_def to_le_inject)
qed

theorem lookup_proof_binding_witness:
  "proof_bytes 7 (NodeAddr 4) [addr_only (NodeAddr 4), addr_only (NodeAddr 1)] \<noteq>
   proof_bytes 7 (NodeAddr 4) [addr_only (NodeAddr 4), addr_only (NodeAddr 2)]"
  using lookup_proof_binding [of "[addr_only (NodeAddr 4), addr_only (NodeAddr 1)]"
      "[addr_only (NodeAddr 4), addr_only (NodeAddr 2)]" 7 "NodeAddr 4" 7 "NodeAddr 4"]
  by (simp add: wire_coord_def node_addrs_def addr_only_def entry_new_def)

end
