(* ===== verification/Wire_Report.thy ===== *)
theory Wire_Report
  imports Wire_Link
begin

text \<open>
  The measurement reports of the metrics protocol: link-layer reports (\<^verbatim>\<open>proto/mmp/report.rs\<close>), the
  session-layer reports that mirror them (\<^verbatim>\<open>proto/protocol/session.rs\<close>) and the conversions between
  the two. The signed field \<open>owd_trend\<close> is kept as its 32 bits; \<open>sint\<close> reads it.
\<close>

section \<open>Link-layer reports\<close>

record sender_report =
  sr_interval_start_counter :: u64
  sr_interval_end_counter :: u64
  sr_interval_start_timestamp :: u32
  sr_interval_end_timestamp :: u32
  sr_interval_bytes_sent :: u32
  sr_cumulative_packets_sent :: u64
  sr_cumulative_bytes_sent :: u64

record receiver_report =
  rr_highest_counter :: u64
  rr_cumulative_packets_recv :: u64
  rr_cumulative_bytes_recv :: u64
  rr_timestamp_echo :: u32
  rr_dwell_time :: u16
  rr_max_burst_loss :: u16
  rr_mean_burst_loss :: u16
  rr_jitter :: u32
  rr_ecn_ce_count :: u32
  rr_owd_trend :: u32
  rr_burst_loss_count :: u32
  rr_cumulative_reorder_count :: u32
  rr_interval_packets_recv :: u32
  rr_interval_bytes_recv :: u32

definition sender_report_encode :: "sender_report \<Rightarrow> bytes" where
  "sender_report_encode r = [0x01] @ replicate 3 0 @ to_le 8 (sr_interval_start_counter r) @ to_le 8 (sr_interval_end_counter r) @
     to_le 4 (sr_interval_start_timestamp r) @ to_le 4 (sr_interval_end_timestamp r) @ to_le 4 (sr_interval_bytes_sent r) @
     to_le 8 (sr_cumulative_packets_sent r) @ to_le 8 (sr_cumulative_bytes_sent r)"

definition sender_report_decode :: "bytes \<Rightarrow> (protocol_error, sender_report) outcome" where
  "sender_report_decode payload =
    (if length payload < 47 then Err (MessageTooShort 47 (length payload))
     else obind (slice_from payload 3) (\<lambda>p.
       obind (get_u64 p 0) (\<lambda>interval_start_counter.
       obind (get_u64 p 8) (\<lambda>interval_end_counter.
       obind (get_u32 p 16) (\<lambda>interval_start_timestamp.
       obind (get_u32 p 20) (\<lambda>interval_end_timestamp.
       obind (get_u32 p 24) (\<lambda>interval_bytes_sent.
       obind (get_u64 p 28) (\<lambda>cumulative_packets_sent.
       obind (get_u64 p 36) (\<lambda>cumulative_bytes_sent.
       Ok \<lparr> sr_interval_start_counter = interval_start_counter, sr_interval_end_counter = interval_end_counter, sr_interval_start_timestamp = interval_start_timestamp,
         sr_interval_end_timestamp = interval_end_timestamp, sr_interval_bytes_sent = interval_bytes_sent, sr_cumulative_packets_sent = cumulative_packets_sent,
         sr_cumulative_bytes_sent = cumulative_bytes_sent \<rparr>)))))))))"

definition receiver_report_encode :: "receiver_report \<Rightarrow> bytes" where
  "receiver_report_encode r = [0x02] @ replicate 3 0 @ to_le 8 (rr_highest_counter r) @ to_le 8 (rr_cumulative_packets_recv r) @
     to_le 8 (rr_cumulative_bytes_recv r) @ to_le 4 (rr_timestamp_echo r) @ to_le 2 (rr_dwell_time r) @
     to_le 2 (rr_max_burst_loss r) @ to_le 2 (rr_mean_burst_loss r) @ replicate 2 0 @
     to_le 4 (rr_jitter r) @ to_le 4 (rr_ecn_ce_count r) @ to_le 4 (rr_owd_trend r) @
     to_le 4 (rr_burst_loss_count r) @ to_le 4 (rr_cumulative_reorder_count r) @ to_le 4 (rr_interval_packets_recv r) @
     to_le 4 (rr_interval_bytes_recv r)"

definition receiver_report_decode :: "bytes \<Rightarrow> (protocol_error, receiver_report) outcome" where
  "receiver_report_decode payload =
    (if length payload < 67 then Err (MessageTooShort 67 (length payload))
     else obind (slice_from payload 3) (\<lambda>p.
       obind (get_u64 p 0) (\<lambda>highest_counter.
       obind (get_u64 p 8) (\<lambda>cumulative_packets_recv.
       obind (get_u64 p 16) (\<lambda>cumulative_bytes_recv.
       obind (get_u32 p 24) (\<lambda>timestamp_echo.
       obind (get_u16 p 28) (\<lambda>dwell_time.
       obind (get_u16 p 30) (\<lambda>max_burst_loss.
       obind (get_u16 p 32) (\<lambda>mean_burst_loss.
       obind (get_u32 p 36) (\<lambda>jitter.
       obind (get_u32 p 40) (\<lambda>ecn_ce_count.
       obind (get_u32 p 44) (\<lambda>owd_trend.
       obind (get_u32 p 48) (\<lambda>burst_loss_count.
       obind (get_u32 p 52) (\<lambda>cumulative_reorder_count.
       obind (get_u32 p 56) (\<lambda>interval_packets_recv.
       obind (get_u32 p 60) (\<lambda>interval_bytes_recv.
       Ok \<lparr> rr_highest_counter = highest_counter, rr_cumulative_packets_recv = cumulative_packets_recv, rr_cumulative_bytes_recv = cumulative_bytes_recv,
         rr_timestamp_echo = timestamp_echo, rr_dwell_time = dwell_time, rr_max_burst_loss = max_burst_loss,
         rr_mean_burst_loss = mean_burst_loss, rr_jitter = jitter, rr_ecn_ce_count = ecn_ce_count,
         rr_owd_trend = owd_trend, rr_burst_loss_count = burst_loss_count, rr_cumulative_reorder_count = cumulative_reorder_count,
         rr_interval_packets_recv = interval_packets_recv, rr_interval_bytes_recv = interval_bytes_recv \<rparr>))))))))))))))))"

section \<open>Session-layer reports\<close>

record session_sender_report =
  ssr_interval_start_counter :: u64
  ssr_interval_end_counter :: u64
  ssr_interval_start_timestamp :: u32
  ssr_interval_end_timestamp :: u32
  ssr_interval_bytes_sent :: u32
  ssr_cumulative_packets_sent :: u64
  ssr_cumulative_bytes_sent :: u64

record session_receiver_report =
  srr_highest_counter :: u64
  srr_cumulative_packets_recv :: u64
  srr_cumulative_bytes_recv :: u64
  srr_timestamp_echo :: u32
  srr_dwell_time :: u16
  srr_max_burst_loss :: u16
  srr_mean_burst_loss :: u16
  srr_jitter :: u32
  srr_ecn_ce_count :: u32
  srr_owd_trend :: u32
  srr_burst_loss_count :: u32
  srr_cumulative_reorder_count :: u32
  srr_interval_packets_recv :: u32
  srr_interval_bytes_recv :: u32

definition SESSION_SENDER_REPORT_SIZE :: nat where "SESSION_SENDER_REPORT_SIZE = 46"

definition SESSION_RECEIVER_REPORT_SIZE :: nat where "SESSION_RECEIVER_REPORT_SIZE = 66"

definition session_sender_report_encode :: "session_sender_report \<Rightarrow> bytes" where
  "session_sender_report_encode r = replicate 2 0 @ to_le 8 (ssr_interval_start_counter r) @ to_le 8 (ssr_interval_end_counter r) @
     to_le 4 (ssr_interval_start_timestamp r) @ to_le 4 (ssr_interval_end_timestamp r) @ to_le 4 (ssr_interval_bytes_sent r) @
     to_le 8 (ssr_cumulative_packets_sent r) @ to_le 8 (ssr_cumulative_bytes_sent r)"

definition session_sender_report_decode :: "bytes \<Rightarrow> (protocol_error, session_sender_report) outcome" where
  "session_sender_report_decode payload =
    (if length payload < SESSION_SENDER_REPORT_SIZE then Err (MessageTooShort SESSION_SENDER_REPORT_SIZE (length payload))
     else obind (slice_from payload 2) (\<lambda>p.
       obind (get_u64 p 0) (\<lambda>interval_start_counter.
       obind (get_u64 p 8) (\<lambda>interval_end_counter.
       obind (get_u32 p 16) (\<lambda>interval_start_timestamp.
       obind (get_u32 p 20) (\<lambda>interval_end_timestamp.
       obind (get_u32 p 24) (\<lambda>interval_bytes_sent.
       obind (get_u64 p 28) (\<lambda>cumulative_packets_sent.
       obind (get_u64 p 36) (\<lambda>cumulative_bytes_sent.
       Ok \<lparr> ssr_interval_start_counter = interval_start_counter, ssr_interval_end_counter = interval_end_counter, ssr_interval_start_timestamp = interval_start_timestamp,
         ssr_interval_end_timestamp = interval_end_timestamp, ssr_interval_bytes_sent = interval_bytes_sent, ssr_cumulative_packets_sent = cumulative_packets_sent,
         ssr_cumulative_bytes_sent = cumulative_bytes_sent \<rparr>)))))))))"

definition session_receiver_report_encode :: "session_receiver_report \<Rightarrow> bytes" where
  "session_receiver_report_encode r = replicate 2 0 @ to_le 8 (srr_highest_counter r) @ to_le 8 (srr_cumulative_packets_recv r) @
     to_le 8 (srr_cumulative_bytes_recv r) @ to_le 4 (srr_timestamp_echo r) @ to_le 2 (srr_dwell_time r) @
     to_le 2 (srr_max_burst_loss r) @ to_le 2 (srr_mean_burst_loss r) @ replicate 2 0 @
     to_le 4 (srr_jitter r) @ to_le 4 (srr_ecn_ce_count r) @ to_le 4 (srr_owd_trend r) @
     to_le 4 (srr_burst_loss_count r) @ to_le 4 (srr_cumulative_reorder_count r) @ to_le 4 (srr_interval_packets_recv r) @
     to_le 4 (srr_interval_bytes_recv r)"

definition session_receiver_report_decode :: "bytes \<Rightarrow> (protocol_error, session_receiver_report) outcome" where
  "session_receiver_report_decode payload =
    (if length payload < SESSION_RECEIVER_REPORT_SIZE then Err (MessageTooShort SESSION_RECEIVER_REPORT_SIZE (length payload))
     else obind (slice_from payload 2) (\<lambda>p.
       obind (get_u64 p 0) (\<lambda>highest_counter.
       obind (get_u64 p 8) (\<lambda>cumulative_packets_recv.
       obind (get_u64 p 16) (\<lambda>cumulative_bytes_recv.
       obind (get_u32 p 24) (\<lambda>timestamp_echo.
       obind (get_u16 p 28) (\<lambda>dwell_time.
       obind (get_u16 p 30) (\<lambda>max_burst_loss.
       obind (get_u16 p 32) (\<lambda>mean_burst_loss.
       obind (get_u32 p 36) (\<lambda>jitter.
       obind (get_u32 p 40) (\<lambda>ecn_ce_count.
       obind (get_u32 p 44) (\<lambda>owd_trend.
       obind (get_u32 p 48) (\<lambda>burst_loss_count.
       obind (get_u32 p 52) (\<lambda>cumulative_reorder_count.
       obind (get_u32 p 56) (\<lambda>interval_packets_recv.
       obind (get_u32 p 60) (\<lambda>interval_bytes_recv.
       Ok \<lparr> srr_highest_counter = highest_counter, srr_cumulative_packets_recv = cumulative_packets_recv, srr_cumulative_bytes_recv = cumulative_bytes_recv,
         srr_timestamp_echo = timestamp_echo, srr_dwell_time = dwell_time, srr_max_burst_loss = max_burst_loss,
         srr_mean_burst_loss = mean_burst_loss, srr_jitter = jitter, srr_ecn_ce_count = ecn_ce_count,
         srr_owd_trend = owd_trend, srr_burst_loss_count = burst_loss_count, srr_cumulative_reorder_count = cumulative_reorder_count,
         srr_interval_packets_recv = interval_packets_recv, srr_interval_bytes_recv = interval_bytes_recv \<rparr>))))))))))))))))"

section \<open>Conversions\<close>

definition session_of_sender :: "sender_report \<Rightarrow> session_sender_report" where
  "session_of_sender r = \<lparr> ssr_interval_start_counter = sr_interval_start_counter r, ssr_interval_end_counter = sr_interval_end_counter r, ssr_interval_start_timestamp = sr_interval_start_timestamp r,
         ssr_interval_end_timestamp = sr_interval_end_timestamp r, ssr_interval_bytes_sent = sr_interval_bytes_sent r, ssr_cumulative_packets_sent = sr_cumulative_packets_sent r,
         ssr_cumulative_bytes_sent = sr_cumulative_bytes_sent r \<rparr>"

definition sender_of_session :: "session_sender_report \<Rightarrow> sender_report" where
  "sender_of_session r = \<lparr> sr_interval_start_counter = ssr_interval_start_counter r, sr_interval_end_counter = ssr_interval_end_counter r, sr_interval_start_timestamp = ssr_interval_start_timestamp r,
         sr_interval_end_timestamp = ssr_interval_end_timestamp r, sr_interval_bytes_sent = ssr_interval_bytes_sent r, sr_cumulative_packets_sent = ssr_cumulative_packets_sent r,
         sr_cumulative_bytes_sent = ssr_cumulative_bytes_sent r \<rparr>"

definition session_of_receiver :: "receiver_report \<Rightarrow> session_receiver_report" where
  "session_of_receiver r = \<lparr> srr_highest_counter = rr_highest_counter r, srr_cumulative_packets_recv = rr_cumulative_packets_recv r, srr_cumulative_bytes_recv = rr_cumulative_bytes_recv r,
         srr_timestamp_echo = rr_timestamp_echo r, srr_dwell_time = rr_dwell_time r, srr_max_burst_loss = rr_max_burst_loss r,
         srr_mean_burst_loss = rr_mean_burst_loss r, srr_jitter = rr_jitter r, srr_ecn_ce_count = rr_ecn_ce_count r,
         srr_owd_trend = rr_owd_trend r, srr_burst_loss_count = rr_burst_loss_count r, srr_cumulative_reorder_count = rr_cumulative_reorder_count r,
         srr_interval_packets_recv = rr_interval_packets_recv r, srr_interval_bytes_recv = rr_interval_bytes_recv r \<rparr>"

definition receiver_of_session :: "session_receiver_report \<Rightarrow> receiver_report" where
  "receiver_of_session r = \<lparr> rr_highest_counter = srr_highest_counter r, rr_cumulative_packets_recv = srr_cumulative_packets_recv r, rr_cumulative_bytes_recv = srr_cumulative_bytes_recv r,
         rr_timestamp_echo = srr_timestamp_echo r, rr_dwell_time = srr_dwell_time r, rr_max_burst_loss = srr_max_burst_loss r,
         rr_mean_burst_loss = srr_mean_burst_loss r, rr_jitter = srr_jitter r, rr_ecn_ce_count = srr_ecn_ce_count r,
         rr_owd_trend = srr_owd_trend r, rr_burst_loss_count = srr_burst_loss_count r, rr_cumulative_reorder_count = srr_cumulative_reorder_count r,
         rr_interval_packets_recv = srr_interval_packets_recv r, rr_interval_bytes_recv = srr_interval_bytes_recv r \<rparr>"

section \<open>Codec lemmas\<close>

interpretation sender_report_codec: wire_codec "\<lambda>_. True" "\<lambda>r. tl (sender_report_encode r)" sender_report_decode
  by unfold_locales
    (simp_all add: sender_report_decode_def sender_report_encode_def codec_simps,
     simp add: slice_from_def slice_def, linarith)

interpretation receiver_report_codec: wire_codec "\<lambda>_. True" "\<lambda>r. tl (receiver_report_encode r)" receiver_report_decode
  by unfold_locales
    (simp_all add: receiver_report_decode_def receiver_report_encode_def codec_simps,
     simp add: slice_from_def slice_def, linarith)

interpretation session_sender_report_codec: wire_codec "\<lambda>_. True" session_sender_report_encode session_sender_report_decode
  by unfold_locales
    (simp_all add: session_sender_report_decode_def session_sender_report_encode_def
      SESSION_SENDER_REPORT_SIZE_def codec_simps,
     simp add: slice_from_def slice_def, linarith)

interpretation session_receiver_report_codec: wire_codec "\<lambda>_. True" session_receiver_report_encode session_receiver_report_decode
  by unfold_locales
    (simp_all add: session_receiver_report_decode_def session_receiver_report_encode_def
      SESSION_RECEIVER_REPORT_SIZE_def codec_simps,
     simp add: slice_from_def slice_def, linarith)

section \<open>Properties\<close>

text \<open>Every link-layer and session-layer report decodes from its encoding to itself, the
  conversions between the two layers lose nothing, and no input makes a report decoder read out of
  range.\<close>

theorem report_roundtrips:
  "sender_report_decode (tl (sender_report_encode s)) = Ok s \<and>
   receiver_report_decode (tl (receiver_report_encode r)) = Ok r \<and>
   session_sender_report_decode (session_sender_report_encode (session_of_sender s)) = Ok (session_of_sender s) \<and>
   session_receiver_report_decode (session_receiver_report_encode (session_of_receiver r)) = Ok (session_of_receiver r) \<and>
   sender_of_session (session_of_sender s) = s \<and> receiver_of_session (session_of_receiver r) = r \<and>
   sender_report_decode bs \<noteq> Panic \<and> receiver_report_decode bs \<noteq> Panic \<and>
   session_sender_report_decode bs \<noteq> Panic \<and> session_receiver_report_decode bs \<noteq> Panic"
  using sender_report_codec.dec_enc receiver_report_codec.dec_enc session_sender_report_codec.dec_enc
    session_receiver_report_codec.dec_enc sender_report_codec.dec_total receiver_report_codec.dec_total
    session_sender_report_codec.dec_total session_receiver_report_codec.dec_total
  by (simp add: sender_of_session_def session_of_sender_def receiver_of_session_def session_of_receiver_def)

end
