(* ===== verification/Wire_Tree.thy ===== *)
theory Wire_Tree
  imports Wire_Link Tree_State
begin

text \<open>
  The tree announcement (\<^verbatim>\<open>proto/protocol/tree.rs\<close>): its wire format and the structural validation a
  receiver applies. The central result joins it to the tree state: what a node announces after any
  parent change is accepted by every receiver.
\<close>

record tree_announce =
  ta_declaration :: parent_declaration
  ta_ancestry :: tree_coordinate

definition VERSION_1 :: u8 where "VERSION_1 = 0x01"
definition MIN_PAYLOAD_SIZE :: nat where "MIN_PAYLOAD_SIZE = 99"

definition validate_semantics :: "tree_announce \<Rightarrow> (tree_error, unit) outcome" where
  "validate_semantics a =
    (let entries = ta_ancestry a; d = ta_declaration a in
     obind (index_at entries 0) (\<lambda>e0.
       if ce_node_addr e0 \<noteq> pd_node_addr d
         then Err (AncestryNodeMismatch (pd_node_addr d) (ce_node_addr e0))
       else obind
         (if decl_is_root d then (if length entries \<noteq> 1 then Err RootDeclarationMismatch else Ok ())
          else if length entries \<le> 1 then Err AncestryTooShort
          else if ce_node_addr (entries ! 1) \<noteq> pd_parent_id d
            then Err (AncestryParentMismatch (pd_parent_id d) (ce_node_addr (entries ! 1)))
          else Ok ()) (\<lambda>_.
       let advertised = root_id entries; minimum = Min (set (map ce_node_addr entries)) in
       if advertised \<noteq> minimum then Err (AncestryRootNotMinimum advertised minimum) else Ok ())))"

definition encode_entry :: "coord_entry \<Rightarrow> bytes" where
  "encode_entry e = as_bytes (ce_node_addr e) @ to_le 8 (ce_sequence e) @ to_le 8 (ce_timestamp e)"

definition announce_encode :: "tree_announce \<Rightarrow> (protocol_error, bytes) outcome" where
  "announce_encode a =
    (case pd_signature (ta_declaration a) of
       None \<Rightarrow> Err protocol_error.InvalidSignature
     | Some sig \<Rightarrow>
        Ok ([link_to_byte TreeAnnounceT, VERSION_1] @ to_le 8 (pd_sequence (ta_declaration a)) @
          to_le 8 (pd_timestamp (ta_declaration a)) @ as_bytes (pd_parent_id (ta_declaration a)) @
          to_le 2 (of_nat (length (ta_ancestry a)) :: u16) @ concat (map encode_entry (ta_ancestry a)) @ sig))"

primrec read_entries :: "bytes \<Rightarrow> nat \<Rightarrow> nat \<Rightarrow> (protocol_error, coord_entry list) outcome" where
  "read_entries payload pos 0 = Ok []"
| "read_entries payload pos (Suc n) = obind (get_addr payload pos) (\<lambda>a. obind (get_u64 payload (pos + 16)) (\<lambda>s.
     obind (get_u64 payload (pos + 24)) (\<lambda>t. obind (read_entries payload (pos + 32) n) (\<lambda>es.
       Ok (entry_new a s t # es)))))"

definition announce_decode :: "(bytes \<Rightarrow> bool) \<Rightarrow> bytes \<Rightarrow> (protocol_error, tree_announce) outcome" where
  "announce_decode sig_ok payload =
    (if length payload < MIN_PAYLOAD_SIZE then Err (MessageTooShort MIN_PAYLOAD_SIZE (length payload))
     else obind (index_at payload 0) (\<lambda>version.
       if version \<noteq> VERSION_1 then Err (UnsupportedVersion version)
       else obind (get_u64 payload 1) (\<lambda>sequence. obind (get_u64 payload 9) (\<lambda>timestamp.
         obind (get_addr payload 17) (\<lambda>parent. obind (get_u16 payload 33) (\<lambda>cnt.
         let count = unat cnt; expected_remaining = count * WIRE_SIZE + 64 in
         if length payload - 35 < expected_remaining
           then Err (MessageTooShort (35 + expected_remaining) (length payload))
         else obind (read_entries payload 35 count) (\<lambda>entries.
           obind (slice payload (35 + count * 32) (35 + count * 32 + 64)) (\<lambda>sig.
             if \<not> sig_ok sig then Err protocol_error.InvalidSignature
             else if entries = [] then Err (Malformed ''ancestry must have at least one entry'')
             else obind (index_at entries 0) (\<lambda>e0.
               obind (omap_err (\<lambda>_. Malformed ''bad ancestry: invalid tree coordinate: empty path'')
                 (coord_new entries)) (\<lambda>coords.
               Ok \<lparr> ta_declaration = with_signature (ce_node_addr e0) parent sequence timestamp sig,
                    ta_ancestry = coords \<rparr>))))))))))"

section \<open>Codec lemmas\<close>

lemma length_encode_entry [simp]: "length (encode_entry e) = 32"
  by (simp add: encode_entry_def)

lemma length_concat_entries [simp]: "length (concat (map encode_entry es)) = length es * 32"
  by (induction es) auto

lemma read_entry_at:
  "length pre = pos \<Longrightarrow> get_addr (pre @ encode_entry e @ rest) pos = Ok (ce_node_addr e)"
  "length pre = pos \<Longrightarrow> get_u64 (pre @ encode_entry e @ rest) (pos + 16) = Ok (ce_sequence e)"
  "length pre = pos \<Longrightarrow> get_u64 (pre @ encode_entry e @ rest) (pos + 24) = Ok (ce_timestamp e)"
  by (simp_all add: encode_entry_def codec_simps)

lemma read_entries_encoded:
  "length pre = pos \<Longrightarrow> read_entries (pre @ concat (map encode_entry es) @ rest) pos (length es) = Ok es"
proof (induction es arbitrary: pos pre)
  case (Cons e es)
  have "read_entries ((pre @ encode_entry e) @ concat (map encode_entry es) @ rest) (pos + 32) (length es) = Ok es"
    using Cons by (intro Cons.IH) simp
  then show ?case using Cons.prems
    by (simp add: read_entry_at entry_new_def)
qed simp

lemma read_entries_total:
  "pos + n * 32 \<le> length payload \<Longrightarrow> \<exists>es. read_entries payload pos n = Ok es \<and> length es = n"
proof (induction n arbitrary: pos)
  case (Suc n)
  then have "pos + 32 + n * 32 \<le> length payload" by simp
  then obtain es where "read_entries payload (pos + 32) n = Ok es" "length es = n" using Suc.IH by blast
  then show ?case using Suc.prems by (simp add: get_in_range)
qed simp

definition announce_wire :: "(bytes \<Rightarrow> bool) \<Rightarrow> tree_announce \<Rightarrow> bytes \<Rightarrow> bool" where
  "announce_wire sig_ok a sig \<longleftrightarrow> ta_ancestry a \<noteq> [] \<and> length (ta_ancestry a) < 65536 \<and>
     ce_node_addr (hd (ta_ancestry a)) = pd_node_addr (ta_declaration a) \<and>
     pd_signature (ta_declaration a) = Some sig \<and> length sig = 64 \<and> sig_ok sig"

lemma announce_decode_encode:
  assumes "announce_wire sig_ok a sig" "announce_encode a = Ok bs"
  shows "announce_decode sig_ok (tl bs) = Ok a"
proof -
  define pre where "pre = VERSION_1 # to_le 8 (pd_sequence (ta_declaration a)) @
    to_le 8 (pd_timestamp (ta_declaration a)) @ as_bytes (pd_parent_id (ta_declaration a)) @
    to_le 2 (of_nat (length (ta_ancestry a)) :: u16)"
  have bs: "tl bs = pre @ concat (map encode_entry (ta_ancestry a)) @ sig" and len: "length pre = 35"
    using assms by (auto simp: announce_wire_def announce_encode_def pre_def)
  have cnt: "unat (of_nat (length (ta_ancestry a)) :: u16) = length (ta_ancestry a)"
    using assms by (simp add: announce_wire_def unat_of_nat)
  have entries: "read_entries (tl bs) 35 (length (ta_ancestry a)) = Ok (ta_ancestry a)"
    unfolding bs using read_entries_encoded [OF len] .
  have sig: "slice (tl bs) (35 + length (ta_ancestry a) * 32) (35 + length (ta_ancestry a) * 32 + 64) =
      (Ok sig :: (protocol_error, bytes) outcome)"
    unfolding bs using assms len by (simp add: slice_def announce_wire_def)
  have head: "index_at (tl bs) 0 = (Ok VERSION_1 :: (protocol_error, u8) outcome)"
    "get_u64 (tl bs) (Suc 0) = (Ok (pd_sequence (ta_declaration a)) :: (protocol_error, u64) outcome)"
    "get_u64 (tl bs) 9 = (Ok (pd_timestamp (ta_declaration a)) :: (protocol_error, u64) outcome)"
    "get_addr (tl bs) 17 = (Ok (pd_parent_id (ta_declaration a)) :: (protocol_error, node_addr) outcome)"
    "get_u16 (tl bs) 33 = (Ok (of_nat (length (ta_ancestry a))) :: (protocol_error, u16) outcome)"
    unfolding bs pre_def by (simp_all add: codec_simps)
  have "length (tl bs) = 35 + length (ta_ancestry a) * 32 + 64"
    unfolding bs using len assms(1) by (simp add: announce_wire_def)
  moreover have "index_at (ta_ancestry a) 0 = (Ok (hd (ta_ancestry a)) :: (protocol_error, coord_entry) outcome)"
    using assms(1) by (cases "ta_ancestry a") (auto simp: announce_wire_def index_at_def)
  ultimately show ?thesis using assms
    by (simp add: announce_decode_def head entries cnt sig [simplified] Let_def MIN_PAYLOAD_SIZE_def WIRE_SIZE_def
        announce_wire_def with_signature_def coord_new_def)
qed

lemma announce_decode_total: "announce_decode sig_ok bs \<noteq> Panic"
proof (cases "length bs < 99")
  case False
  define n where "n = unat (of_le (take 2 (drop 33 bs)) :: u16)"
  show ?thesis
  proof (cases "length bs - 35 < n * 32 + 64")
    case True
    then show ?thesis using False
      by (auto simp: announce_decode_def MIN_PAYLOAD_SIZE_def WIRE_SIZE_def get_in_range index_at_def Let_def n_def)
  next
    case ok: False
    then have "35 + n * 32 \<le> length bs" using False by linarith
    then obtain es where es: "read_entries bs 35 n = Ok es" "length es = n"
      using read_entries_total by blast
    then show ?thesis using False ok
      by (auto simp: announce_decode_def MIN_PAYLOAD_SIZE_def WIRE_SIZE_def get_in_range index_at_def Let_def
          n_def [symmetric] slice_def coord_new_def)
  qed
qed (simp add: announce_decode_def MIN_PAYLOAD_SIZE_def)

section \<open>Validation\<close>

text \<open>The conditions the documentation of \<open>validate_semantics\<close> lists.\<close>

definition announce_valid :: "parent_declaration \<Rightarrow> tree_coordinate \<Rightarrow> bool" where
  "announce_valid d c \<longleftrightarrow> c \<noteq> [] \<and> node_addr c = pd_node_addr d \<and>
     (if decl_is_root d then length c = 1 else 1 < length c \<and> parent_id c = pd_parent_id d) \<and>
     (\<forall>e\<in>set c. root_id c \<le> ce_node_addr e)"

lemma root_is_Min: "c \<noteq> [] \<Longrightarrow> root_id c = Min (set (map ce_node_addr c)) \<longleftrightarrow> (\<forall>e\<in>set c. root_id c \<le> ce_node_addr e)"
proof -
  assume ne: "c \<noteq> []"
  then have mem: "root_id c \<in> set (map ce_node_addr c)" by (simp add: root_id_def)
  show ?thesis
  proof
    assume "root_id c = Min (set (map ce_node_addr c))"
    then show "\<forall>e\<in>set c. root_id c \<le> ce_node_addr e" by simp
  next
    assume "\<forall>e\<in>set c. root_id c \<le> ce_node_addr e"
    then show "root_id c = Min (set (map ce_node_addr c))" using mem by (intro Min_eqI [symmetric]) auto
  qed
qed

lemma validate_semantics_iff:
  assumes "c \<noteq> []"
  shows "validate_semantics \<lparr> ta_declaration = d, ta_ancestry = c \<rparr> = Ok () \<longleftrightarrow> announce_valid d c"
proof -
  have "index_at c 0 = (Ok (hd c) :: (tree_error, coord_entry) outcome)"
    using assms by (cases c) (auto simp: index_at_def)
  then show ?thesis using assms root_is_Min [OF assms]
    by (auto simp: validate_semantics_def announce_valid_def node_addr_def parent_id_def Let_def)
qed

text \<open>Recomputing the coordinates makes the announcement valid when the declared parent, if any, is a
  peer with a valid announcement of its own.\<close>

lemma recompute_announce_valid:
  assumes inv: "tree_inv s" and "\<not> leaf_only s"
    and parent: "\<not> decl_is_root (my_declaration s) \<Longrightarrow>
      \<exists>c d. map_of (peer_ancestry s) (pd_parent_id (my_declaration s)) = Some c \<and>
        pd_node_addr d = pd_parent_id (my_declaration s) \<and> announce_valid d c"
  shows "announce_valid (my_declaration (recompute_coords s)) (my_coords (recompute_coords s))"
proof (cases "decl_is_root (my_declaration s)")
  case True
  then show ?thesis using inv
    by (simp add: recompute_coords_def announce_valid_def root_with_meta_def node_addr_def root_id_def
        entry_new_def tree_inv_def Let_def)
next
  case False
  then obtain c d where c: "map_of (peer_ancestry s) (pd_parent_id (my_declaration s)) = Some c"
    and d: "pd_node_addr d = pd_parent_id (my_declaration s)" and valid: "announce_valid d c"
    using parent by blast
  show ?thesis
  proof (cases "my_node_addr s \<le> root_id c")
    case True
    then show ?thesis using False c inv assms(2)
      by (simp add: recompute_coords_def announce_valid_def root_with_meta_def node_addr_def root_id_def
          entry_new_def self_root_def decl_new_def decl_is_root_def Let_def)
  next
    case big: False
    have "c \<noteq> []" using valid by (simp add: announce_valid_def)
    then show ?thesis using False c inv big valid d
      by (auto simp: recompute_coords_def announce_valid_def node_addr_def root_id_def parent_id_def
          entry_new_def tree_inv_def Let_def hd_conv_nth)
  qed
qed

definition peers_valid :: "tree_state \<Rightarrow> bool" where
  "peers_valid s \<longleftrightarrow> (\<forall>pc\<in>set (peer_ancestry s). case map_of (peer_declarations s) (fst pc) of
     Some d \<Rightarrow> pd_node_addr d = fst pc \<and>
       validate_semantics \<lparr> ta_declaration = d, ta_ancestry = snd pc \<rparr> = Ok ()
   | None \<Rightarrow> False)"

lemma peers_valid_at:
  assumes "peers_valid s" "tree_inv s" "map_of (peer_ancestry s) p = Some c"
  shows "\<exists>d. pd_node_addr d = p \<and> announce_valid d c"
proof -
  have "(p, c) \<in> set (peer_ancestry s)" using assms(3) by (rule map_of_SomeD)
  moreover have "c \<noteq> []" using assms(2,3) by (auto simp: tree_inv_def coord_ok_def)
  ultimately show ?thesis using assms(1)
    by (fastforce simp: peers_valid_def validate_semantics_iff split: option.splits)
qed

lemma evaluate_parent_known:
  assumes "hm_inv (peer_ancestry s)" "evaluate_parent s now costs = Some p"
  shows "\<exists>c. map_of (peer_ancestry s) p = Some c"
proof -
  obtain r d where "scan_best parent_better (parent_candidates (my_node_addr s) costs r (peer_ancestry s)) = Some (p, d)"
    using evaluate_parent_SomeD [OF assms(2)] by metis
  from scan_best_mem [OF this] show ?thesis using assms(1) by (auto simp: set_parent_candidates hm_mem_iff)
qed

section \<open>Properties\<close>

text \<open>A signed tree announcement with fewer than 65536 ancestry entries decodes from its own
  encoding to itself, sequence numbers, timestamps and signature included, and no input makes the
  decoder read out of range.\<close>

theorem tree_announce_roundtrip:
  assumes "announce_wire sig_ok a sig"
  shows "\<exists>bs. announce_encode a = Ok bs \<and> announce_decode sig_ok (tl bs) = Ok a \<and>
    (\<forall>bs'. announce_decode sig_ok bs' \<noteq> Panic)"
  using assms announce_decode_encode [OF assms] announce_decode_total
  by (auto simp: announce_encode_def announce_wire_def)

text \<open>Validation accepts exactly the announcements whose path starts at the declaring node, follows
  the declared parent (or is a single entry for a root), and ends at its smallest address.\<close>

theorem validate_semantics_exact:
  assumes "c \<noteq> []"
  shows "validate_semantics \<lparr> ta_declaration = d, ta_ancestry = c \<rparr> = Ok () \<longleftrightarrow>
    node_addr c = pd_node_addr d \<and>
    (if pd_node_addr d = pd_parent_id d then length c = 1 else 1 < length c \<and> parent_id c = pd_parent_id d) \<and>
    (\<forall>e\<in>set c. root_id c \<le> ce_node_addr e)"
  using validate_semantics_iff [OF assms, of d] assms by (simp add: announce_valid_def decl_is_root_def)

text \<open>C14: a routing node whose peers' announcements passed validation announces something every receiver
  accepts after it lost its parent, whether it adopted another parent or became a root; the same holds
  when it promotes itself to root.\<close>

theorem parent_change_announces_valid:
  assumes "tree_inv s" "\<not> leaf_only s" "peers_valid s"
  shows "(let s' = fst (handle_parent_lost s now now_s costs) in
      validate_semantics \<lparr> ta_declaration = my_declaration s', ta_ancestry = my_coords s' \<rparr> = Ok ()) \<and>
    (let s' = become_root s now_s in
      validate_semantics \<lparr> ta_declaration = my_declaration s', ta_ancestry = my_coords s' \<rparr> = Ok ())"
proof -
  have valid: "validate_semantics \<lparr> ta_declaration = my_declaration (recompute_coords t),
      ta_ancestry = my_coords (recompute_coords t) \<rparr> = Ok ()"
    if "tree_inv t" "\<not> leaf_only t" "\<not> decl_is_root (my_declaration t) \<Longrightarrow>
      \<exists>c d. map_of (peer_ancestry t) (pd_parent_id (my_declaration t)) = Some c \<and>
        pd_node_addr d = pd_parent_id (my_declaration t) \<and> announce_valid d c" for t
  proof -
    have v: "announce_valid (my_declaration (recompute_coords t)) (my_coords (recompute_coords t))"
      by (rule recompute_announce_valid [OF that])
    then have "my_coords (recompute_coords t) \<noteq> []" by (simp add: announce_valid_def)
    then show ?thesis by (simp add: validate_semantics_iff v)
  qed
  have root: "validate_semantics \<lparr> ta_declaration = my_declaration (recompute_coords (s\<lparr> my_declaration := self_root (my_node_addr s) q t \<rparr>)),
      ta_ancestry = my_coords (recompute_coords (s\<lparr> my_declaration := self_root (my_node_addr s) q t \<rparr>)) \<rparr> = Ok ()" for q t
    using assms by (intro valid tree_inv_decl) (simp_all add: self_root_def decl_new_def decl_is_root_def)
  have switch: "validate_semantics \<lparr> ta_declaration = my_declaration (recompute_coords (fst (set_parent s now p q t))),
      ta_ancestry = my_coords (recompute_coords (fst (set_parent s now p q t))) \<rparr> = Ok ()"
    if p: "evaluate_parent s now costs = Some p" for p q t
  proof -
    obtain c where "map_of (peer_ancestry s) p = Some c"
      using evaluate_parent_known [OF _ p] assms(1) by (auto simp: tree_inv_def)
    moreover from this obtain d where "pd_node_addr d = p" "announce_valid d c"
      using peers_valid_at [OF assms(3,1)] by blast
    ultimately show ?thesis using assms
      by (intro valid tree_inv_set_parent) (auto simp: decl_new_def)
  qed
  show ?thesis using root switch
    by (auto simp: handle_parent_lost_def become_root_def Let_def split: option.splits)
qed

section \<open>Witnesses\<close>

theorem tree_announce_roundtrip_witness:
  "\<exists>bs. announce_encode \<lparr> ta_declaration = with_signature (NodeAddr 5) (NodeAddr 3) 2 100 (replicate 64 9),
      ta_ancestry = [entry_new (NodeAddr 5) 2 100, entry_new (NodeAddr 3) 1 95] \<rparr> = Ok bs \<and>
    announce_decode (\<lambda>_. True) (tl bs) = Ok \<lparr> ta_declaration = with_signature (NodeAddr 5) (NodeAddr 3) 2 100 (replicate 64 9),
      ta_ancestry = [entry_new (NodeAddr 5) 2 100, entry_new (NodeAddr 3) 1 95] \<rparr>"
  using tree_announce_roundtrip [of "\<lambda>_. True" "\<lparr> ta_declaration = with_signature (NodeAddr 5) (NodeAddr 3) 2 100 (replicate 64 9),
      ta_ancestry = [entry_new (NodeAddr 5) 2 100, entry_new (NodeAddr 3) 1 95] \<rparr>" "replicate 64 9"]
  by (auto simp: announce_wire_def with_signature_def entry_new_def)

theorem validate_semantics_exact_witness:
  "validate_semantics \<lparr> ta_declaration = decl_new (NodeAddr 5) (NodeAddr 3) 2 100,
     ta_ancestry = [addr_only (NodeAddr 5), addr_only (NodeAddr 3)] \<rparr> = Ok ()"
  by (subst validate_semantics_exact)
    (simp_all add: decl_new_def addr_only_def entry_new_def node_addr_def parent_id_def root_id_def
      less_eq_node_addr_def word_le_nat_alt)

theorem parent_change_announces_valid_witness:
  "let s' = fst (handle_parent_lost demo_tree 9 9 []) in
     validate_semantics \<lparr> ta_declaration = my_declaration s', ta_ancestry = my_coords s' \<rparr> = Ok ()"
proof -
  have "tree_inv demo_tree"
    unfolding demo_tree_def by (rule tree_machine.run_inv) (rule tree_inv_new)
  moreover have "peers_valid demo_tree"
    by (simp add: peers_valid_def demo_tree_peers demo_tree_decls validate_semantics_iff announce_valid_def
        decl_new_def entry_new_def node_addr_def root_id_def parent_id_def decl_is_root_def
        less_eq_node_addr_def word_le_nat_alt)
  ultimately show ?thesis
    using parent_change_announces_valid [of demo_tree 9 9 "[]"] by (simp add: demo_tree_self)
qed

end
