(* ===== verification/Bloom_Filter.thy ===== *)
theory Bloom_Filter
  imports Identity F64
begin

text \<open>
  Bloom filters (\<^verbatim>\<open>proto/bloom/filter.rs\<close>, \<^verbatim>\<open>proto/bloom/mod.rs\<close>). A filter is a packed bit array
  with its size and hash count; SHA-256 is the parameter \<open>sha256\<close>. The fields are private and
  every constructor establishes \<open>bloom_ok\<close>, under which no bit index leaves the array
  (\<open>hash_from_pair_in_range\<close>). The abstraction of a filter is its set of bits \<open>bits_of\<close>: insertion
  adds the indices of the item, merging is union, and membership is inclusion.
\<close>

definition DEFAULT_FILTER_SIZE_BITS :: nat where "DEFAULT_FILTER_SIZE_BITS = 8192"

definition DEFAULT_HASH_COUNT :: u8 where "DEFAULT_HASH_COUNT = 5"

definition V1_SIZE_CLASS :: u8 where "V1_SIZE_CLASS = 1"

datatype bloom_error =
    InvalidSize nat nat
  | SizeNotByteAligned nat
  | ZeroHashCount

record bloom_filter =
  bf_bits :: bytes
  bf_num_bits :: nat
  bf_hash_count :: u8

definition with_params :: "nat \<Rightarrow> u8 \<Rightarrow> (bloom_error, bloom_filter) outcome" where
  "with_params num_bits hash_count =
    (if num_bits = 0 \<or> num_bits mod 8 \<noteq> 0 then Err (SizeNotByteAligned num_bits)
     else if hash_count = 0 then Err ZeroHashCount
     else Ok \<lparr> bf_bits = replicate (num_bits div 8) 0, bf_num_bits = num_bits, bf_hash_count = hash_count \<rparr>)"

definition bloom_new :: bloom_filter where
  "bloom_new = \<lparr> bf_bits = replicate (DEFAULT_FILTER_SIZE_BITS div 8) 0,
     bf_num_bits = DEFAULT_FILTER_SIZE_BITS, bf_hash_count = DEFAULT_HASH_COUNT \<rparr>"

definition bloom_from_bytes :: "bytes \<Rightarrow> u8 \<Rightarrow> (bloom_error, bloom_filter) outcome" where
  "bloom_from_bytes bs hash_count =
    (if hash_count = 0 then Err ZeroHashCount
     else if bs = [] then Err (SizeNotByteAligned 0)
     else Ok \<lparr> bf_bits = bs, bf_num_bits = length bs * 8, bf_hash_count = hash_count \<rparr>)"

definition hash_pair :: "(bytes \<Rightarrow> bytes) \<Rightarrow> bytes \<Rightarrow> u64 \<times> u64" where
  "hash_pair sha256 data = (let h = sha256 data in (of_le (take 8 h), of_le (take 8 (drop 8 h))))"

definition hash_from_pair :: "bloom_filter \<Rightarrow> u64 \<Rightarrow> u64 \<Rightarrow> u8 \<Rightarrow> nat" where
  "hash_from_pair f h1 h2 k = unat (h1 + ucast k * h2) mod bf_num_bits f"

definition set_bit_at :: "bloom_filter \<Rightarrow> nat \<Rightarrow> bloom_filter" where
  "set_bit_at f index = (let byte_index = index div 8; bit_offset = index mod 8 in
     f\<lparr> bf_bits := (bf_bits f)[byte_index := (bf_bits f ! byte_index) OR push_bit bit_offset 1] \<rparr>)"

definition get_bit :: "bloom_filter \<Rightarrow> nat \<Rightarrow> bool" where
  "get_bit f index = (let byte_index = index div 8; bit_offset = index mod 8 in
     drop_bit bit_offset (bf_bits f ! byte_index) AND 1 = 1)"

definition hash_ids :: "bloom_filter \<Rightarrow> u8 list" where
  "hash_ids f = map of_nat [0..<unat (bf_hash_count f)]"

definition insert_bytes :: "(bytes \<Rightarrow> bytes) \<Rightarrow> bloom_filter \<Rightarrow> bytes \<Rightarrow> bloom_filter" where
  "insert_bytes sha256 f data = (case hash_pair sha256 data of (h1, h2) \<Rightarrow>
     fold (\<lambda>i f. set_bit_at f (hash_from_pair f h1 h2 i)) (hash_ids f) f)"

definition bloom_insert :: "(bytes \<Rightarrow> bytes) \<Rightarrow> bloom_filter \<Rightarrow> node_addr \<Rightarrow> bloom_filter" where
  "bloom_insert sha256 f a = insert_bytes sha256 f (as_bytes a)"

definition contains_hash_pair :: "bloom_filter \<Rightarrow> u64 \<times> u64 \<Rightarrow> bool" where
  "contains_hash_pair f h = list_all (\<lambda>i. get_bit f (hash_from_pair f (fst h) (snd h) i)) (hash_ids f)"

definition contains_bytes :: "(bytes \<Rightarrow> bytes) \<Rightarrow> bloom_filter \<Rightarrow> bytes \<Rightarrow> bool" where
  "contains_bytes sha256 f data = contains_hash_pair f (hash_pair sha256 data)"

definition bloom_contains :: "(bytes \<Rightarrow> bytes) \<Rightarrow> bloom_filter \<Rightarrow> node_addr \<Rightarrow> bool" where
  "bloom_contains sha256 f a = contains_bytes sha256 f (as_bytes a)"

text \<open>\<open>zip_mut g xs ys\<close> is \<^verbatim>\<open>for (a, b) in xs.iter_mut().zip(ys) { *a = g(*a, b) }\<close>: the surplus of the
  longer sequence is left alone.\<close>

definition zip_mut :: "('a \<Rightarrow> 'b \<Rightarrow> 'a) \<Rightarrow> 'a list \<Rightarrow> 'b list \<Rightarrow> 'a list" where
  "zip_mut g xs ys = map2 g xs ys @ drop (length ys) xs"

definition merge :: "bloom_filter \<Rightarrow> bloom_filter \<Rightarrow> bloom_filter \<times> (bloom_error, unit) outcome" where
  "merge f other =
    (if bf_num_bits f \<noteq> bf_num_bits other then (f, Err (InvalidSize (bf_num_bits f) (bf_num_bits other)))
     else (f\<lparr> bf_bits := zip_mut (OR) (bf_bits f) (bf_bits other) \<rparr>, Ok ()))"

definition bloom_union :: "bloom_filter \<Rightarrow> bloom_filter \<Rightarrow> (bloom_error, bloom_filter) outcome" where
  "bloom_union f other = (case merge f other of (m, r) \<Rightarrow> obind r (\<lambda>_. Ok m))"

definition clear :: "bloom_filter \<Rightarrow> bloom_filter" where
  "clear f = f\<lparr> bf_bits := map (\<lambda>_. 0) (bf_bits f) \<rparr>"

definition byte_ones :: "u8 \<Rightarrow> nat" where
  "byte_ones b = length (filter (bit b) [0..<8])"

definition count_ones :: "bloom_filter \<Rightarrow> nat" where
  "count_ones f = sum_list (map byte_ones (bf_bits f))"

definition fill_ratio :: "bloom_filter \<Rightarrow> f64" where
  "fill_ratio f = f_div (f_of_nat (count_ones f)) (f_of_nat (bf_num_bits f))"

text \<open>\<open>fpowi\<close> and \<open>fln\<close> are the platform's floating-point routines.\<close>

definition estimated_count :: "(f64 \<Rightarrow> nat \<Rightarrow> f64) \<Rightarrow> (f64 \<Rightarrow> f64) \<Rightarrow> bloom_filter \<Rightarrow> f64 \<Rightarrow> f64 option" where
  "estimated_count fpowi fln f max_fpr =
    (let m = f_of_nat (bf_num_bits f); k = f_of_nat (unat (bf_hash_count f)); x = f_of_nat (count_ones f) in
     if f_le m x then None
     else let fill = f_div x m; fpr = fpowi fill (unat (bf_hash_count f)) in
       if f_lt max_fpr fpr then None
       else Some (f_mul (f_neg (f_div m k)) (fln (f_sub (Fin 1) fill))))"

definition bloom_is_empty :: "bloom_filter \<Rightarrow> bool" where
  "bloom_is_empty f = list_all (\<lambda>b. b = 0) (bf_bits f)"

definition bloom_eq :: "bloom_filter \<Rightarrow> bloom_filter \<Rightarrow> bool" where
  "bloom_eq f g \<longleftrightarrow> bf_num_bits f = bf_num_bits g \<and> bf_hash_count f = bf_hash_count g \<and> bf_bits f = bf_bits g"

section \<open>Bit arrays\<close>

definition byte_bit :: "bytes \<Rightarrow> nat \<Rightarrow> bool" where
  "byte_bit bs i \<longleftrightarrow> bit (bs ! (i div 8)) (i mod 8)"

definition bloom_ok :: "bloom_filter \<Rightarrow> bool" where
  "bloom_ok f \<longleftrightarrow> bf_num_bits f = length (bf_bits f) * 8 \<and> bf_bits f \<noteq> [] \<and> bf_hash_count f \<noteq> 0"

definition bits_of :: "bloom_filter \<Rightarrow> nat set" where
  "bits_of f = {i. i < bf_num_bits f \<and> get_bit f i}"

definition indices :: "bloom_filter \<Rightarrow> u64 \<times> u64 \<Rightarrow> nat set" where
  "indices f h = hash_from_pair f (fst h) (snd h) ` set (hash_ids f)"

lemma and_one_eq_one: "w AND 1 = 1 \<longleftrightarrow> bit w 0" for w :: "'a::len word"
  by (auto simp: and_one_eq odd_iff_mod_2_eq_one bit_0)

lemma get_bit_byte_bit: "get_bit f i \<longleftrightarrow> byte_bit (bf_bits f) i"
  by (simp add: get_bit_def byte_bit_def Let_def and_one_eq_one bit_drop_bit_eq)

lemma byte_bit_ext:
  assumes "length xs = length ys" "\<And>i. i < length xs * 8 \<Longrightarrow> byte_bit xs i = byte_bit ys i"
  shows "xs = ys"
proof (rule nth_equalityI [OF assms(1)], rule bit_word_eqI)
  fix k n assume "k < length xs" "n < LENGTH(8)"
  then show "bit (xs ! k) n = bit (ys ! k) n"
    using assms(2) [of "k * 8 + n"] by (simp add: byte_bit_def)
qed

lemma byte_bit_update:
  assumes "i div 8 < length bs"
  shows "byte_bit (bs[i div 8 := (bs ! (i div 8)) OR push_bit (i mod 8) 1]) j \<longleftrightarrow> byte_bit bs j \<or> j = i"
proof (cases "j div 8 = i div 8")
  case True
  then have "j mod 8 = i mod 8 \<longleftrightarrow> j = i"
    by (metis div_mult_mod_eq)
  then show ?thesis
    using assms True by (auto simp: byte_bit_def bit_or_iff bit_push_bit_iff bit_1_iff simp del: push_bit_of_1)
next
  case False
  then show ?thesis by (auto simp: byte_bit_def)
qed

lemma length_zip_mut [simp]: "length (zip_mut g xs ys) = length xs"
  by (simp add: zip_mut_def)

lemma nth_zip_mut [simp]:
  "i < length xs \<Longrightarrow> length xs \<le> length ys \<Longrightarrow> zip_mut g xs ys ! i = g (xs ! i) (ys ! i)"
  by (simp add: zip_mut_def nth_append)

lemma byte_bit_zip_or:
  "i < length xs * 8 \<Longrightarrow> length xs \<le> length ys \<Longrightarrow>
     byte_bit (zip_mut (OR) xs ys) i \<longleftrightarrow> byte_bit xs i \<or> byte_bit ys i"
  by (simp add: byte_bit_def bit_or_iff less_mult_imp_div_less)

section \<open>Every constructor and operation keeps a filter well formed\<close>

lemma with_params_default: "with_params DEFAULT_FILTER_SIZE_BITS DEFAULT_HASH_COUNT = Ok bloom_new"
  by (simp add: with_params_def bloom_new_def DEFAULT_FILTER_SIZE_BITS_def DEFAULT_HASH_COUNT_def)

lemma bloom_ok_new [simp]: "bloom_ok bloom_new"
  by (simp add: bloom_ok_def bloom_new_def DEFAULT_FILTER_SIZE_BITS_def DEFAULT_HASH_COUNT_def)

lemma bloom_ok_with_params: "with_params n k = Ok f \<Longrightarrow> bloom_ok f"
  by (auto simp: with_params_def bloom_ok_def split: if_splits)

lemma bloom_ok_from_bytes: "bloom_from_bytes bs k = Ok f \<Longrightarrow> bloom_ok f"
  by (auto simp: bloom_from_bytes_def bloom_ok_def split: if_splits)

lemma set_bit_at_simps [simp]:
  "bf_num_bits (set_bit_at f i) = bf_num_bits f" "bf_hash_count (set_bit_at f i) = bf_hash_count f"
  "length (bf_bits (set_bit_at f i)) = length (bf_bits f)"
  by (simp_all add: set_bit_at_def Let_def)

lemma bloom_ok_set_bit_at [simp]: "bloom_ok f \<Longrightarrow> bloom_ok (set_bit_at f i)"
  by (auto simp: bloom_ok_def simp flip: length_greater_0_conv)

lemma hash_from_pair_in_range: "bloom_ok f \<Longrightarrow> hash_from_pair f h1 h2 k div 8 < length (bf_bits f)"
  by (simp add: hash_from_pair_def bloom_ok_def less_mult_imp_div_less)

lemma hash_from_pair_less: "bloom_ok f \<Longrightarrow> hash_from_pair f h1 h2 k < bf_num_bits f"
  by (simp add: hash_from_pair_def bloom_ok_def)

lemma bits_of_set_bit_at:
  "bloom_ok f \<Longrightarrow> i < bf_num_bits f \<Longrightarrow> bits_of (set_bit_at f i) = insert i (bits_of f)"
  by (auto simp: bits_of_def get_bit_byte_bit set_bit_at_def Let_def byte_bit_update bloom_ok_def
      less_mult_imp_div_less simp del: push_bit_of_1)

lemma fold_set_bit_at:
  assumes "bloom_ok f"
  shows "let g = fold (\<lambda>i f. set_bit_at f (hash_from_pair f h1 h2 i)) ks f in
    bloom_ok g \<and> bf_num_bits g = bf_num_bits f \<and> bf_hash_count g = bf_hash_count f \<and>
    bits_of g = bits_of f \<union> hash_from_pair f h1 h2 ` set ks"
  using assms
proof (induction ks arbitrary: f)
  case (Cons k ks)
  have "hash_from_pair (set_bit_at f i) h1 h2 = hash_from_pair f h1 h2" for i
    by (simp add: hash_from_pair_def fun_eq_iff)
  then show ?case
    using Cons.IH [of "set_bit_at f (hash_from_pair f h1 h2 k)"] Cons.prems
    by (simp add: Let_def bits_of_set_bit_at hash_from_pair_less)
qed simp

lemma insert_bytes_simps [simp]:
  assumes "bloom_ok f"
  shows "bloom_ok (insert_bytes sha256 f data)"
    and "bf_num_bits (insert_bytes sha256 f data) = bf_num_bits f"
    and "bf_hash_count (insert_bytes sha256 f data) = bf_hash_count f"
    and "bits_of (insert_bytes sha256 f data) = bits_of f \<union> indices f (hash_pair sha256 data)"
  using fold_set_bit_at [OF assms, of "fst (hash_pair sha256 data)" "snd (hash_pair sha256 data)" "hash_ids f"]
  by (simp_all add: insert_bytes_def split_beta Let_def indices_def)

lemma contains_hash_pair_iff: "bloom_ok f \<Longrightarrow> contains_hash_pair f h \<longleftrightarrow> indices f h \<subseteq> bits_of f"
  by (auto simp: contains_hash_pair_def indices_def bits_of_def list_all_iff hash_from_pair_less)

lemma merge_simps [simp]:
  assumes "bloom_ok f" "bloom_ok g"
  shows "bloom_ok (fst (merge f g))"
    and "bf_num_bits (fst (merge f g)) = bf_num_bits f"
    and "bf_hash_count (fst (merge f g)) = bf_hash_count f"
    and "bits_of (fst (merge f g)) = bits_of f \<union> (if bf_num_bits g = bf_num_bits f then bits_of g else {})"
  using assms
  by (auto simp: merge_def bloom_ok_def bits_of_def get_bit_byte_bit byte_bit_zip_or simp flip: length_greater_0_conv)

lemma merge_result:
  "snd (merge f g) = (if bf_num_bits f = bf_num_bits g then Ok () else Err (InvalidSize (bf_num_bits f) (bf_num_bits g)))"
  by (simp add: merge_def)

lemma bloom_ext:
  assumes "bloom_ok f" "bloom_ok g" "bf_num_bits f = bf_num_bits g" "bf_hash_count f = bf_hash_count g"
    and "bits_of f = bits_of g"
  shows "f = g"
proof -
  have "bf_bits f = bf_bits g"
  proof (rule byte_bit_ext)
    show "length (bf_bits f) = length (bf_bits g)"
      using assms by (simp add: bloom_ok_def)
    fix i assume "i < length (bf_bits f) * 8"
    then show "byte_bit (bf_bits f) i = byte_bit (bf_bits g) i"
      using assms by (auto simp: bits_of_def bloom_ok_def get_bit_byte_bit set_eq_iff)
  qed
  then show ?thesis using assms by simp
qed

lemma indices_insert_bytes [simp]: "bloom_ok f \<Longrightarrow> indices (insert_bytes sha256 f data) h = indices f h"
  by (simp add: indices_def hash_ids_def hash_from_pair_def)

lemma indices_merge [simp]: "bloom_ok f \<Longrightarrow> bloom_ok g \<Longrightarrow> indices (fst (merge f g)) h = indices f h"
  by (simp add: indices_def hash_ids_def hash_from_pair_def)

lemma indices_mono:
  "bf_num_bits f = bf_num_bits g \<Longrightarrow> bf_hash_count f \<le> bf_hash_count g \<Longrightarrow> indices f h \<subseteq> indices g h"
  by (auto simp: indices_def hash_ids_def hash_from_pair_def word_le_nat_alt)

lemma insert_bytes_commute:
  "bloom_ok f \<Longrightarrow> insert_bytes sha256 (insert_bytes sha256 f x) y = insert_bytes sha256 (insert_bytes sha256 f y) x"
  by (rule bloom_ext) auto

section \<open>No false negatives\<close>

datatype bloom_op = Insert node_addr | InsertBytes bytes | Merge bloom_filter

fun bloom_step :: "(bytes \<Rightarrow> bytes) \<Rightarrow> bloom_filter \<Rightarrow> bloom_op \<Rightarrow> bloom_filter" where
  "bloom_step sha256 f (Insert a) = bloom_insert sha256 f a"
| "bloom_step sha256 f (InsertBytes d) = insert_bytes sha256 f d"
| "bloom_step sha256 f (Merge g) = fst (merge f g)"

fun merge_ok :: "bloom_op \<Rightarrow> bool" where
  "merge_ok (Merge g) = bloom_ok g"
| "merge_ok _ = True"

lemma bloom_step_grows:
  assumes "bloom_ok f" "merge_ok op"
  shows "bloom_ok (bloom_step sha256 f op)" "bits_of f \<subseteq> bits_of (bloom_step sha256 f op)"
    "indices (bloom_step sha256 f op) h = indices f h"
    "bf_num_bits (bloom_step sha256 f op) = bf_num_bits f"
    "bf_hash_count (bloom_step sha256 f op) = bf_hash_count f"
  using assms by (cases op; auto simp: bloom_insert_def)+

lemma bloom_run_grows:
  "bloom_ok f \<Longrightarrow> list_all merge_ok ops \<Longrightarrow>
     bloom_ok (run (bloom_step sha256) f ops) \<and> bits_of f \<subseteq> bits_of (run (bloom_step sha256) f ops) \<and>
     indices (run (bloom_step sha256) f ops) h = indices f h \<and>
     bf_num_bits (run (bloom_step sha256) f ops) = bf_num_bits f \<and>
     bf_hash_count (run (bloom_step sha256) f ops) = bf_hash_count f"
proof (induction ops arbitrary: f)
  case (Cons op ops)
  then show ?case
    using Cons.IH [of "bloom_step sha256 f op"] bloom_step_grows [of f op]
    by (simp add: subset_trans [of "bits_of f" "bits_of (bloom_step sha256 f op)"])
qed simp

text \<open>\<open>offers f op a\<close>: the operation adds \<open>a\<close> to a filter with the parameters of \<open>f\<close>.\<close>

fun offers :: "(bytes \<Rightarrow> bytes) \<Rightarrow> bloom_filter \<Rightarrow> bloom_op \<Rightarrow> node_addr \<Rightarrow> bool" where
  "offers sha256 f (Insert b) a \<longleftrightarrow> b = a"
| "offers sha256 f (InsertBytes d) a \<longleftrightarrow> d = as_bytes a"
| "offers sha256 f (Merge g) a \<longleftrightarrow> bf_num_bits g = bf_num_bits f \<and> bf_hash_count f \<le> bf_hash_count g \<and>
     bloom_contains sha256 g a"

lemma bloom_contains_iff:
  "bloom_ok f \<Longrightarrow> bloom_contains sha256 f a \<longleftrightarrow> indices f (hash_pair sha256 (as_bytes a)) \<subseteq> bits_of f"
  by (simp add: bloom_contains_def contains_bytes_def contains_hash_pair_iff)

lemma bloom_step_offers:
  assumes "bloom_ok f" "merge_ok op" "offers sha256 f op a"
  shows "indices f (hash_pair sha256 (as_bytes a)) \<subseteq> bits_of (bloom_step sha256 f op)"
proof (cases op)
  case (Merge g)
  then show ?thesis
    using assms indices_mono [of f g "hash_pair sha256 (as_bytes a)"]
    by (simp add: bloom_contains_iff subset_trans le_supI2)
qed (use assms in \<open>auto simp: bloom_insert_def\<close>)

lemma offers_params: "bf_num_bits f = bf_num_bits g \<Longrightarrow> bf_hash_count f = bf_hash_count g \<Longrightarrow>
    offers sha256 f op a = offers sha256 g op a"
  by (cases op) auto

lemma bloom_run_offers:
  "bloom_ok f \<Longrightarrow> list_all merge_ok ops \<Longrightarrow> op \<in> set ops \<Longrightarrow> offers sha256 f op a \<Longrightarrow>
     bloom_contains sha256 (run (bloom_step sha256) f ops) a"
proof (induction ops arbitrary: f)
  case (Cons x ops)
  let ?f = "bloom_step sha256 f x"
  note step = bloom_step_grows [of f x sha256] and rest = bloom_run_grows [of ?f ops sha256]
  show ?case
  proof (cases "op = x")
    case True
    then show ?thesis
      using Cons.prems bloom_step_offers [of f x sha256 a] step rest
      by (simp add: bloom_contains_iff subset_trans)
  next
    case False
    then show ?thesis
      using Cons step offers_params [of ?f f sha256 op a] by simp
  qed
qed simp

text \<open>C22: a Bloom filter has no false negatives: whatever insertions and merges follow, an address that
  the filter contained, that was inserted, or that a merged filter of the same size and at least as many
  hash functions contained, is reported as contained.\<close>

theorem bloom_no_false_negatives:
  assumes "bloom_ok f" "list_all merge_ok ops"
    and "bloom_contains sha256 f a \<or> (\<exists>op \<in> set ops. offers sha256 f op a)"
  shows "bloom_contains sha256 (run (bloom_step sha256) f ops) a"
  using assms(3)
proof
  assume "bloom_contains sha256 f a"
  then show ?thesis
    using assms(1,2) bloom_run_grows [of f ops sha256] by (simp add: bloom_contains_iff subset_trans)
next
  assume "\<exists>op \<in> set ops. offers sha256 f op a"
  then show ?thesis
    using assms(1,2) bloom_run_offers by blast
qed

theorem bloom_no_false_negatives_witness:
  "bloom_contains rev (run (bloom_step rev) bloom_new [Insert (NodeAddr 7), InsertBytes [1, 2]]) (NodeAddr 7)"
  using bloom_no_false_negatives [of bloom_new "[Insert (NodeAddr 7), InsertBytes [1, 2]]" rev "NodeAddr 7"] by simp

section \<open>Merging across hash counts\<close>

definition one_hash_filter :: bloom_filter where
  "one_hash_filter = bloom_new\<lparr> bf_hash_count := 1 \<rparr>"

lemma one_hash_filter_ok: "with_params DEFAULT_FILTER_SIZE_BITS 1 = Ok one_hash_filter" "bloom_ok one_hash_filter"
  by (simp_all add: with_params_def one_hash_filter_def bloom_new_def bloom_ok_def DEFAULT_FILTER_SIZE_BITS_def)

lemma byte_bit_zero [simp]: "i < n * 8 \<Longrightarrow> \<not> byte_bit (replicate n 0) i"
  by (simp add: byte_bit_def less_mult_imp_div_less)

lemma bits_of_new [simp]: "bits_of bloom_new = {}" "bits_of one_hash_filter = {}"
  by (auto simp: bits_of_def get_bit_byte_bit bloom_new_def one_hash_filter_def DEFAULT_FILTER_SIZE_BITS_def)

lemma params_new [simp]:
  "bf_num_bits bloom_new = 8192" "bf_hash_count bloom_new = 5"
  "bf_num_bits one_hash_filter = 8192" "bf_hash_count one_hash_filter = 1"
  by (simp_all add: one_hash_filter_def bloom_new_def DEFAULT_FILTER_SIZE_BITS_def DEFAULT_HASH_COUNT_def)

lemma indices_one_hash: "indices one_hash_filter h = {unat (fst h) mod 8192}"
  by (simp add: indices_def hash_ids_def hash_from_pair_def)

lemma second_index_new: "(unat (fst h) + unat (snd h)) mod 8192 \<in> indices bloom_new h"
proof -
  have "(8192 :: nat) dvd 2 ^ 64" by simp
  then have "unat (fst h + snd h) mod 8192 = (unat (fst h) + unat (snd h)) mod 8192"
    by (simp add: unat_word_ariths mod_mod_cancel del: dvd_numeral_simp)
  moreover have "hash_from_pair bloom_new (fst h) (snd h) 1 \<in> indices bloom_new h"
    by (auto simp: indices_def hash_ids_def intro!: imageI image_eqI [of _ _ 1])
  ultimately show ?thesis by (simp add: hash_from_pair_def)
qed

text \<open>Merging compares filter sizes only. A filter of the default size with one hash function that
  contains an address merges without error into a default filter, and the result does not contain the
  address, unless the second hash happens to vanish modulo the size.\<close>

theorem merge_drops_lower_hash_count:
  assumes "unat (snd (hash_pair sha256 (as_bytes a))) mod 8192 \<noteq> 0"
  shows "let g = bloom_insert sha256 one_hash_filter a in
    bloom_contains sha256 g a \<and> snd (merge bloom_new g) = Ok () \<and>
    \<not> bloom_contains sha256 (fst (merge bloom_new g)) a"
proof -
  obtain h1 h2 where h: "hash_pair sha256 (as_bytes a) = (h1, h2)" by fastforce
  have "(unat h1 + unat h2) mod 8192 \<noteq> unat h1 mod 8192"
    using assms h mod_eq_dvd_iff_nat [of "unat h1" "unat h1 + unat h2" 8192] by (simp add: mod_eq_0_iff_dvd)
  then show ?thesis
    using second_index_new [of "(h1, h2)"] h one_hash_filter_ok(2)
    by (auto simp: Let_def bloom_contains_iff bloom_insert_def merge_result indices_one_hash)
qed

theorem merge_drops_lower_hash_count_witness:
  "let g = bloom_insert (\<lambda>_. [0,0,0,0,0,0,0,0,1]) one_hash_filter (NodeAddr 7) in
    bloom_contains (\<lambda>_. [0,0,0,0,0,0,0,0,1]) g (NodeAddr 7) \<and> snd (merge bloom_new g) = Ok () \<and>
    \<not> bloom_contains (\<lambda>_. [0,0,0,0,0,0,0,0,1]) (fst (merge bloom_new g)) (NodeAddr 7)"
  by (rule merge_drops_lower_hash_count) (simp add: hash_pair_def)

end
