(* ===== verification/Wire_Filter.thy ===== *)
theory Wire_Filter
  imports Bloom_Filter Wire_Link
begin

text \<open>
  Filter announcements (\<^verbatim>\<open>proto/protocol/filter.rs\<close>): the message that carries a Bloom filter to a
  peer. The error strings are formatted as the source formats them.
\<close>

fun show_nat :: "nat \<Rightarrow> string" where
  "show_nat n = (if n < 10 then [char_of (48 + n)] else show_nat (n div 10) @ [char_of (48 + n mod 10)])"

declare show_nat.simps [simp del]

fun show_bloom_error :: "bloom_error \<Rightarrow> string" where
  "show_bloom_error (InvalidSize expected got) =
     ''invalid filter size: expected '' @ show_nat expected @ '' bits, got '' @ show_nat got"
| "show_bloom_error (SizeNotByteAligned n) = ''filter size must be a multiple of 8, got '' @ show_nat n"
| "show_bloom_error ZeroHashCount = ''hash count must be positive''"

record filter_announce =
  fa_filter :: bloom_filter
  fa_sequence :: u64
  fa_hash_count :: u8
  fa_size_class :: u8

definition filter_announce_new :: "bloom_filter \<Rightarrow> u64 \<Rightarrow> filter_announce" where
  "filter_announce_new f n = \<lparr> fa_filter = f, fa_sequence = n, fa_hash_count = bf_hash_count f,
     fa_size_class = V1_SIZE_CLASS \<rparr>"

definition with_size_class :: "bloom_filter \<Rightarrow> u64 \<Rightarrow> u8 \<Rightarrow> filter_announce" where
  "with_size_class f n sc = \<lparr> fa_filter = f, fa_sequence = n, fa_hash_count = bf_hash_count f,
     fa_size_class = sc \<rparr>"

text \<open>A shift by 64 or more takes the amount modulo 64 in a release build.\<close>

definition filter_size_bytes :: "filter_announce \<Rightarrow> nat" where
  "filter_size_bytes m = unat (push_bit (unat (fa_size_class m) mod 64) (512 :: u64))"

definition is_valid :: "filter_announce \<Rightarrow> bool" where
  "is_valid m \<longleftrightarrow> length (bf_bits (fa_filter m)) = filter_size_bytes m \<and> bf_hash_count (fa_filter m) = fa_hash_count m"

definition is_v1_compliant :: "filter_announce \<Rightarrow> bool" where
  "is_v1_compliant m \<longleftrightarrow> fa_size_class m = V1_SIZE_CLASS"

definition FILTER_MIN_PAYLOAD_SIZE :: nat where "FILTER_MIN_PAYLOAD_SIZE = 10"

definition MAX_SIZE_CLASS :: u8 where "MAX_SIZE_CLASS = 3"

definition filter_announce_encode :: "filter_announce \<Rightarrow> (protocol_error, bytes) outcome" where
  "filter_announce_encode m =
    (if \<not> is_valid m then Err (Malformed ''filter size does not match size_class'')
     else Ok ([link_to_byte FilterAnnounceT] @ to_le 8 (fa_sequence m) @ [fa_hash_count m] @ [fa_size_class m]
            @ bf_bits (fa_filter m)))"

definition filter_announce_decode :: "bytes \<Rightarrow> (protocol_error, filter_announce) outcome" where
  "filter_announce_decode p =
    (if length p < FILTER_MIN_PAYLOAD_SIZE then Err (MessageTooShort FILTER_MIN_PAYLOAD_SIZE (length p))
     else obind (get_u64 p 0) (\<lambda>sequence.
       obind (index_at p 8) (\<lambda>hash_count.
       obind (index_at p 9) (\<lambda>sc.
         if MAX_SIZE_CLASS < sc then
           Err (Malformed (''invalid size_class: '' @ show_nat (unat sc) @ '' (max ''
             @ show_nat (unat MAX_SIZE_CLASS) @ '')''))
         else if sc \<noteq> V1_SIZE_CLASS then
           Err (Malformed (''unsupported size_class: '' @ show_nat (unat sc) @ '' (v1 requires ''
             @ show_nat (unat V1_SIZE_CLASS) @ '')''))
         else let expected = unat (push_bit (unat sc) (512 :: u64)); remaining = length p - 10 in
           if remaining \<noteq> expected then Err (MessageTooShort (FILTER_MIN_PAYLOAD_SIZE + expected) (length p))
           else obind (slice_from p 10) (\<lambda>bits.
             obind (omap_err (\<lambda>e. Malformed (''invalid bloom filter: '' @ show_bloom_error e))
                (bloom_from_bytes bits hash_count)) (\<lambda>f.
               Ok \<lparr> fa_filter = f, fa_sequence = sequence, fa_hash_count = hash_count,
                    fa_size_class = sc \<rparr>))))))"

lemma v1_filter_size: "unat (push_bit (unat V1_SIZE_CLASS) (512 :: u64)) = 1024"
  by (simp add: V1_SIZE_CLASS_def push_bit_eq_mult)

lemma v1_not_above_max: "\<not> MAX_SIZE_CLASS < V1_SIZE_CLASS"
  by (simp add: MAX_SIZE_CLASS_def V1_SIZE_CLASS_def)

lemma is_valid_v1: "fa_size_class m = V1_SIZE_CLASS \<Longrightarrow>
    is_valid m \<longleftrightarrow> length (bf_bits (fa_filter m)) = 1024 \<and> bf_hash_count (fa_filter m) = fa_hash_count m"
  by (simp add: is_valid_def filter_size_bytes_def V1_SIZE_CLASS_def push_bit_eq_mult)

lemma filter_decode_eq:
  assumes "length bits = 1024"
  shows "filter_announce_decode (to_le 8 n @ [k, V1_SIZE_CLASS] @ bits) =
    (if k = 0 then Err (Malformed ''invalid bloom filter: hash count must be positive'')
     else Ok \<lparr> fa_filter = \<lparr> bf_bits = bits, bf_num_bits = 8192, bf_hash_count = k \<rparr>,
          fa_sequence = n, fa_hash_count = k, fa_size_class = V1_SIZE_CLASS \<rparr>)"
  using assms v1_filter_size v1_not_above_max
  by (auto simp: filter_announce_decode_def FILTER_MIN_PAYLOAD_SIZE_def codec_simps Let_def bloom_from_bytes_def)

lemma filter_decode_Ok_shape:
  assumes "filter_announce_decode p = Ok m"
  shows "\<exists>n k bits. p = to_le 8 (n :: u64) @ [k, V1_SIZE_CLASS] @ bits \<and> length bits = 1024"
proof -
  have len: "length p = 1034" and sc: "p ! 9 = V1_SIZE_CLASS"
    using assms v1_filter_size
    by (auto simp: filter_announce_decode_def FILTER_MIN_PAYLOAD_SIZE_def get_in_range index_at_def Let_def
        obind_Ok split: if_splits)
  have "drop 8 p = p ! 8 # drop 9 p" "drop 9 p = p ! 9 # drop 10 p"
    using Cons_nth_drop_Suc [of 8 p] Cons_nth_drop_Suc [of 9 p] len by simp_all
  then have "p = take 8 p @ [p ! 8, p ! 9] @ drop 10 p"
    by (metis append_Cons append_Nil append_take_drop_id)
  moreover have "take 8 p = to_le 8 (of_le (take 8 p) :: u64)"
    using to_le_of_le [of "take 8 p", where ?'a = 64] len by simp
  ultimately have "p = to_le 8 (of_le (take 8 p) :: u64) @ [p ! 8, V1_SIZE_CLASS] @ drop 10 p"
    using sc by simp
  then show ?thesis using len by (intro exI [of _ "of_le (take 8 p)"] exI [of _ "p ! 8"] exI [of _ "drop 10 p"]) simp
qed

lemma filter_announce_decode_total: "filter_announce_decode p \<noteq> Panic"
  by (auto simp: filter_announce_decode_def FILTER_MIN_PAYLOAD_SIZE_def get_in_range index_at_def slice_from_def
      bloom_from_bytes_def Let_def)

section \<open>Properties\<close>

text \<open>The announcement codec is a bijection: a payload decodes to a message exactly when the message is
  a valid version-1 announcement of a well-formed filter whose encoding is the type byte followed by that
  payload, and no payload makes the decoder panic.\<close>

theorem filter_announce_codec:
  "(filter_announce_decode p = Ok m \<longleftrightarrow> is_v1_compliant m \<and> bloom_ok (fa_filter m) \<and>
      filter_announce_encode m = Ok (0x20 # p)) \<and>
   filter_announce_decode p \<noteq> Panic"
proof (intro conjI iffI filter_announce_decode_total)
  assume dec: "filter_announce_decode p = Ok m"
  obtain n :: u64 and k bits where p: "p = to_le 8 n @ [k, V1_SIZE_CLASS] @ bits" "length bits = 1024"
    using filter_decode_Ok_shape [OF dec] by blast
  show "is_v1_compliant m" "bloom_ok (fa_filter m)" "filter_announce_encode m = Ok (0x20 # p)"
    using dec p filter_decode_eq [of bits n k]
    by (auto simp: is_v1_compliant_def bloom_ok_def filter_announce_encode_def is_valid_v1 split: if_splits)
next
  assume m: "is_v1_compliant m \<and> bloom_ok (fa_filter m) \<and> filter_announce_encode m = Ok (0x20 # p)"
  then have v: "is_valid m" "fa_size_class m = V1_SIZE_CLASS"
    and p: "p = to_le 8 (fa_sequence m) @ [fa_hash_count m, V1_SIZE_CLASS] @ bf_bits (fa_filter m)"
    by (auto simp: filter_announce_encode_def is_v1_compliant_def split: if_splits)
  show "filter_announce_decode p = Ok m"
    using m v p filter_decode_eq [of "bf_bits (fa_filter m)" "fa_sequence m" "fa_hash_count m"]
    by (simp add: is_valid_v1 bloom_ok_def)
qed

end
