(* ===== verification/Bloom_State.thy ===== *)
theory Bloom_State
  imports Bloom_Filter Hash_Map "HOL-Library.Product_Lexorder"
begin

text \<open>
  The announcement state of Bloom filters (\<^verbatim>\<open>proto/bloom/state.rs\<close>): which peers need an update and
  when, and the outgoing filter of each peer. Hash sets and maps are lists in iteration order, the
  \<^verbatim>\<open>BTreeSet\<close> of deadlines is its sorted list. Two facts carry the component: the deadline index
  agrees with the pending map after every operation, and the fan-out view that aggregates all inputs
  once gives every peer the filter that merging the other peers' filters one by one gives.
\<close>

record outgoing_filters =
  og_peers :: "(node_addr, bloom_filter) hmap option"
  og_combined :: bytes
  og_shared :: bytes
  og_hash_count :: u8

definition excluded :: "outgoing_filters \<Rightarrow> node_addr \<Rightarrow> bloom_filter option" where
  "excluded og peer = (case og_peers og of None \<Rightarrow> None
     | Some peers \<Rightarrow> (case map_of peers peer of None \<Rightarrow> None
        | Some f \<Rightarrow> if length (bf_bits f) = length (og_combined og) then Some f else None))"

definition for_peer :: "outgoing_filters \<Rightarrow> node_addr \<Rightarrow> (bloom_error, bloom_filter) outcome" where
  "for_peer og peer =
    (let bs = (case excluded og peer of
        None \<Rightarrow> og_combined og
      | Some ex \<Rightarrow> zip_mut (\<lambda>b (sh, e). b AND (NOT e OR sh)) (og_combined og) (zip (og_shared og) (bf_bits ex))) in
     case bloom_from_bytes bs (og_hash_count og) of Ok f \<Rightarrow> Ok f | _ \<Rightarrow> Panic)"

definition matches :: "outgoing_filters \<Rightarrow> node_addr \<Rightarrow> bloom_filter \<Rightarrow> bool" where
  "matches og peer prev =
    (if length (bf_bits prev) \<noteq> length (og_combined og) \<or> bf_hash_count prev \<noteq> og_hash_count og then False
     else case excluded og peer of
       Some ex \<Rightarrow> list_all (\<lambda>(((l, a), sh), e). l = a AND (NOT e OR sh))
         (zip (zip (zip (bf_bits prev) (og_combined og)) (og_shared og)) (bf_bits ex))
     | None \<Rightarrow> bf_bits prev = og_combined og)"

record bloom_state =
  bs_own_node_addr :: node_addr
  bs_leaf_dependents :: "node_addr list"
  bs_is_leaf_only :: bool
  bs_update_debounce_ms :: u64
  bs_last_update_sent :: "(node_addr, u64) hmap"
  bs_pending_updates :: "(node_addr, u64) hmap"
  bs_pending_update_deadlines :: "(u64 \<times> node_addr) list"
  bs_pending_update_deadline_ms :: "u64 option"
  bs_sequence :: u64
  bs_last_sent_filters :: "(node_addr, bloom_filter) hmap"

definition bloom_state_new :: "node_addr \<Rightarrow> bloom_state" where
  "bloom_state_new own = \<lparr> bs_own_node_addr = own, bs_leaf_dependents = [], bs_is_leaf_only = False,
     bs_update_debounce_ms = 500, bs_last_update_sent = [], bs_pending_updates = [],
     bs_pending_update_deadlines = [], bs_pending_update_deadline_ms = None, bs_sequence = 0,
     bs_last_sent_filters = [] \<rparr>"

definition leaf_only :: "node_addr \<Rightarrow> bloom_state" where
  "leaf_only own = (bloom_state_new own)\<lparr> bs_is_leaf_only := True \<rparr>"

definition bs_set_leaf_only :: "bloom_state \<Rightarrow> bool \<Rightarrow> bloom_state" where
  "bs_set_leaf_only s b = s\<lparr> bs_is_leaf_only := b \<rparr>"

definition next_sequence :: "bloom_state \<Rightarrow> bloom_state \<times> u64" where
  "next_sequence s = (s\<lparr> bs_sequence := bs_sequence s + 1 \<rparr>, bs_sequence s + 1)"

definition pending_peer_deadline_ms :: "bloom_state \<Rightarrow> node_addr \<Rightarrow> u64 option" where
  "pending_peer_deadline_ms s peer = (case map_of (bs_pending_updates s) peer of
     None \<Rightarrow> None
   | Some retry \<Rightarrow> Some (max retry (case map_of (bs_last_update_sent s) peer of
       None \<Rightarrow> 0 | Some t \<Rightarrow> saturating_add t (bs_update_debounce_ms s))))"

definition first_deadline :: "(u64 \<times> node_addr) list \<Rightarrow> u64 option" where
  "first_deadline ds = (case ds of [] \<Rightarrow> None | d # _ \<Rightarrow> Some (fst d))"

definition refresh_pending_deadline :: "bloom_state \<Rightarrow> bloom_state" where
  "refresh_pending_deadline s =
    (let ds = sort (remdups (List.map_filter
        (\<lambda>peer. map_option (\<lambda>due. (due, peer)) (pending_peer_deadline_ms s peer)) (hm_keys (bs_pending_updates s)))) in
     s\<lparr> bs_pending_update_deadlines := ds, bs_pending_update_deadline_ms := first_deadline ds \<rparr>)"

definition update_pending_deadline :: "bloom_state \<Rightarrow> node_addr \<Rightarrow> u64 option \<Rightarrow> bloom_state" where
  "update_pending_deadline s peer previous =
    (let ds = (case previous of None \<Rightarrow> bs_pending_update_deadlines s
         | Some due \<Rightarrow> remove1 (due, peer) (bs_pending_update_deadlines s));
         ds = (case pending_peer_deadline_ms s peer of None \<Rightarrow> ds | Some due \<Rightarrow> insort_insert (due, peer) ds) in
     s\<lparr> bs_pending_update_deadlines := ds, bs_pending_update_deadline_ms := first_deadline ds \<rparr>)"

definition set_update_debounce_ms :: "bloom_state \<Rightarrow> u64 \<Rightarrow> bloom_state" where
  "set_update_debounce_ms s ms = refresh_pending_deadline (s\<lparr> bs_update_debounce_ms := ms \<rparr>)"

definition add_leaf_dependent :: "bloom_state \<Rightarrow> node_addr \<Rightarrow> bloom_state" where
  "add_leaf_dependent s a = s\<lparr> bs_leaf_dependents := List.insert a (bs_leaf_dependents s) \<rparr>"

definition remove_leaf_dependent :: "bloom_state \<Rightarrow> node_addr \<Rightarrow> bloom_state \<times> bool" where
  "remove_leaf_dependent s a =
    (s\<lparr> bs_leaf_dependents := remove1 a (bs_leaf_dependents s) \<rparr>, a \<in> set (bs_leaf_dependents s))"

definition mark_update_needed :: "bloom_state \<Rightarrow> node_addr \<Rightarrow> bloom_state" where
  "mark_update_needed s peer =
    (if hm_contains (bs_pending_updates s) peer then s
     else update_pending_deadline (s\<lparr> bs_pending_updates := hm_insert peer 0 (bs_pending_updates s) \<rparr>) peer None)"

definition mark_all_updates_needed :: "bloom_state \<Rightarrow> node_addr list \<Rightarrow> bloom_state" where
  "mark_all_updates_needed s peers = fold (\<lambda>p s. mark_update_needed s p) peers s"

definition needs_update :: "bloom_state \<Rightarrow> node_addr \<Rightarrow> bool" where
  "needs_update s peer = hm_contains (bs_pending_updates s) peer"

definition should_send_update :: "bloom_state \<Rightarrow> node_addr \<Rightarrow> u64 \<Rightarrow> bool" where
  "should_send_update s peer now =
    (if \<not> needs_update s peer then False
     else case map_of (bs_last_update_sent s) peer of
       Some t \<Rightarrow> saturating_add t (bs_update_debounce_ms s) \<le> now
     | None \<Rightarrow> True)"

definition pending_peers_due :: "bloom_state \<Rightarrow> u64 \<Rightarrow> node_addr list" where
  "pending_peers_due s now = filter (\<lambda>peer. case pending_peer_deadline_ms s peer of
      Some due \<Rightarrow> due \<le> now | None \<Rightarrow> False) (hm_keys (bs_pending_updates s))"

definition defer_update_retry :: "bloom_state \<Rightarrow> node_addr \<Rightarrow> u64 \<Rightarrow> bloom_state" where
  "defer_update_retry s peer retry_at =
    (let previous = pending_peer_deadline_ms s peer in
     case map_of (bs_pending_updates s) peer of
       None \<Rightarrow> s
     | Some flr \<Rightarrow>
         if retry_at \<le> flr then s
         else update_pending_deadline
           (s\<lparr> bs_pending_updates := hm_insert peer (max flr retry_at) (bs_pending_updates s) \<rparr>) peer previous)"

definition defer_pending_retries :: "bloom_state \<Rightarrow> u64 \<Rightarrow> bloom_state" where
  "defer_pending_retries s retry_at = refresh_pending_deadline
    (s\<lparr> bs_pending_updates := map (\<lambda>(p, flr). (p, max flr retry_at)) (bs_pending_updates s) \<rparr>)"

definition refresh_due :: "bloom_state \<Rightarrow> node_addr \<Rightarrow> u64 \<Rightarrow> u64 \<Rightarrow> bool" where
  "refresh_due s peer now interval \<longleftrightarrow> 0 < interval \<and>
    (case map_of (bs_last_update_sent s) peer of Some t \<Rightarrow> interval \<le> saturating_sub now t | None \<Rightarrow> False)"

definition record_update_sent :: "bloom_state \<Rightarrow> node_addr \<Rightarrow> u64 \<Rightarrow> bloom_state" where
  "record_update_sent s peer now =
    (let previous = pending_peer_deadline_ms s peer in
     update_pending_deadline (s\<lparr> bs_last_update_sent := hm_insert peer now (bs_last_update_sent s),
       bs_pending_updates := hm_remove peer (bs_pending_updates s) \<rparr>) peer previous)"

definition clear_pending_updates :: "bloom_state \<Rightarrow> bloom_state" where
  "clear_pending_updates s = s\<lparr> bs_pending_updates := [], bs_pending_update_deadlines := [],
     bs_pending_update_deadline_ms := None \<rparr>"

definition record_sent_filter :: "bloom_state \<Rightarrow> node_addr \<Rightarrow> bloom_filter \<Rightarrow> bloom_state" where
  "record_sent_filter s peer f = s\<lparr> bs_last_sent_filters := hm_insert peer f (bs_last_sent_filters s) \<rparr>"

definition remove_peer_state :: "bloom_state \<Rightarrow> node_addr \<Rightarrow> bloom_state" where
  "remove_peer_state s peer =
    (let previous = pending_peer_deadline_ms s peer in
     update_pending_deadline (s\<lparr> bs_leaf_dependents := remove1 peer (bs_leaf_dependents s),
       bs_last_sent_filters := hm_remove peer (bs_last_sent_filters s),
       bs_last_update_sent := hm_remove peer (bs_last_update_sent s),
       bs_pending_updates := hm_remove peer (bs_pending_updates s) \<rparr>) peer previous)"

definition base_filter :: "(bytes \<Rightarrow> bytes) \<Rightarrow> bloom_state \<Rightarrow> bloom_filter" where
  "base_filter sha256 s =
    (let f = bloom_insert sha256 bloom_new (bs_own_node_addr s) in
     if bs_is_leaf_only s then f
     else fold (\<lambda>dep f. bloom_insert sha256 f dep) (bs_leaf_dependents s) f)"

definition absorb :: "bytes \<Rightarrow> bytes \<times> bytes \<Rightarrow> bytes \<times> bytes" where
  "absorb incoming acc = (case acc of (all, shared) \<Rightarrow>
     (zip_mut (OR) all (map snd (zip shared incoming)),
      zip_mut (\<lambda>sh (a, i). sh OR (a AND i)) shared (zip all incoming)))"

definition prepare_outgoing_filters ::
  "(bytes \<Rightarrow> bytes) \<Rightarrow> bloom_state \<Rightarrow> (node_addr, bloom_filter) hmap \<Rightarrow> outgoing_filters" where
  "prepare_outgoing_filters sha256 s peer_filters =
    (let base = base_filter sha256 s; combined = bf_bits base; shared = replicate (length combined) 0;
         (combined, shared) = fold (\<lambda>f. absorb (bf_bits f))
           (filter (\<lambda>f. \<not> bs_is_leaf_only s \<and> bf_num_bits f = bf_num_bits base) (map snd peer_filters))
           (combined, shared) in
     \<lparr> og_peers = (if bs_is_leaf_only s then None else Some peer_filters), og_combined = combined,
       og_shared = shared, og_hash_count = bf_hash_count base \<rparr>)"

definition mark_changed_peers ::
  "(bytes \<Rightarrow> bytes) \<Rightarrow> bloom_state \<Rightarrow> node_addr \<Rightarrow> node_addr list \<Rightarrow> (node_addr, bloom_filter) hmap \<Rightarrow> bloom_state" where
  "mark_changed_peers sha256 s exclude_from peer_addrs peer_filters =
    (let filters = prepare_outgoing_filters sha256 s peer_filters in
     fold (\<lambda>peer s.
       if peer = exclude_from then s
       else let changed = (case map_of (bs_last_sent_filters s) peer of
               None \<Rightarrow> True | Some prev \<Rightarrow> \<not> matches filters peer prev) in
         if changed then mark_update_needed s peer else s) peer_addrs s)"

definition compute_outgoing_filter ::
  "(bytes \<Rightarrow> bytes) \<Rightarrow> bloom_state \<Rightarrow> node_addr \<Rightarrow> (node_addr, bloom_filter) hmap \<Rightarrow> bloom_filter" where
  "compute_outgoing_filter sha256 s exclude_peer peer_filters =
    (if bs_is_leaf_only s then base_filter sha256 s
     else let f = bloom_insert sha256 bloom_new (bs_own_node_addr s);
              f = fold (\<lambda>dep f. bloom_insert sha256 f dep) (bs_leaf_dependents s) f in
       fold (\<lambda>(peer, pf) f. if peer \<noteq> exclude_peer then fst (merge f pf) else f) peer_filters f)"

section \<open>The deadline index\<close>

definition index_ok :: "bloom_state \<Rightarrow> bool" where
  "index_ok s \<longleftrightarrow> sorted (bs_pending_update_deadlines s) \<and> distinct (bs_pending_update_deadlines s) \<and>
     set (bs_pending_update_deadlines s) = {(d, p). pending_peer_deadline_ms s p = Some d} \<and>
     bs_pending_update_deadline_ms s = first_deadline (bs_pending_update_deadlines s)"

definition bloom_state_inv :: "bloom_state \<Rightarrow> bool" where
  "bloom_state_inv s \<longleftrightarrow> hm_inv (bs_pending_updates s) \<and> hm_inv (bs_last_update_sent s) \<and>
     hm_inv (bs_last_sent_filters s) \<and> distinct (bs_leaf_dependents s) \<and> index_ok s"

lemma pending_deadline_frame [simp]:
  "pending_peer_deadline_ms (s\<lparr> bs_pending_update_deadlines := ds \<rparr>) p = pending_peer_deadline_ms s p"
  "pending_peer_deadline_ms (s\<lparr> bs_pending_update_deadline_ms := m \<rparr>) p = pending_peer_deadline_ms s p"
  "pending_peer_deadline_ms (s\<lparr> bs_leaf_dependents := l \<rparr>) p = pending_peer_deadline_ms s p"
  "pending_peer_deadline_ms (s\<lparr> bs_is_leaf_only := b \<rparr>) p = pending_peer_deadline_ms s p"
  "pending_peer_deadline_ms (s\<lparr> bs_sequence := n \<rparr>) p = pending_peer_deadline_ms s p"
  "pending_peer_deadline_ms (s\<lparr> bs_last_sent_filters := fs \<rparr>) p = pending_peer_deadline_ms s p"
  by (simp_all add: pending_peer_deadline_ms_def cong: option.case_cong)

lemma pending_deadline_None: "pending_peer_deadline_ms s p = None \<longleftrightarrow> map_of (bs_pending_updates s) p = None"
  by (simp add: pending_peer_deadline_ms_def split: option.splits)

lemma index_ok_refresh: "index_ok (refresh_pending_deadline s)"
proof -
  have "p \<in> set (hm_keys (bs_pending_updates s))" if "pending_peer_deadline_ms s p = Some d" for p d
    using that by (metis hm_keys_def image_set map_of_eq_None_iff option.distinct(1) pending_deadline_None)
  then have "set (List.map_filter (\<lambda>peer. map_option (\<lambda>due. (due, peer)) (pending_peer_deadline_ms s peer))
      (hm_keys (bs_pending_updates s))) = {(d, p). pending_peer_deadline_ms s p = Some d}"
    by (force simp: List.map_filter_def)
  then show ?thesis
    by (simp add: index_ok_def refresh_pending_deadline_def Let_def)
qed

lemma index_ok_update:
  assumes "index_ok s" "bs_pending_update_deadlines s' = bs_pending_update_deadlines s"
    and frame: "\<And>q. q \<noteq> p \<Longrightarrow> pending_peer_deadline_ms s' q = pending_peer_deadline_ms s q"
  shows "index_ok (update_pending_deadline s' p (pending_peer_deadline_ms s p))"
proof -
  define ds where "ds = (case pending_peer_deadline_ms s p of None \<Rightarrow> bs_pending_update_deadlines s
    | Some due \<Rightarrow> remove1 (due, p) (bs_pending_update_deadlines s))"
  have "set ds = {(d, q). q \<noteq> p \<and> pending_peer_deadline_ms s q = Some d}"
    using assms(1) by (auto simp: ds_def index_ok_def split: option.splits)
  also have "\<dots> = {(d, q). q \<noteq> p \<and> pending_peer_deadline_ms s' q = Some d}"
    using frame by auto
  finally have set: "set ds = {(d, q). q \<noteq> p \<and> pending_peer_deadline_ms s' q = Some d}" .
  moreover have "sorted ds" "distinct ds"
    using assms(1) by (auto simp: ds_def index_ok_def sorted_remove1 split: option.splits)
  moreover have "(case pending_peer_deadline_ms s p of None \<Rightarrow> bs_pending_update_deadlines s'
      | Some due \<Rightarrow> remove1 (due, p) (bs_pending_update_deadlines s')) = ds"
    using assms(2) by (simp only: ds_def)
  ultimately show ?thesis
    by (auto simp: index_ok_def update_pending_deadline_def Let_def sorted_insort_insert distinct_insort_insert
        set_insort_insert split: option.splits)
qed

lemma update_pending_deadline_simps [simp]:
  "bs_pending_updates (update_pending_deadline s p d) = bs_pending_updates s"
  "bs_last_update_sent (update_pending_deadline s p d) = bs_last_update_sent s"
  "bs_last_sent_filters (update_pending_deadline s p d) = bs_last_sent_filters s"
  "bs_leaf_dependents (update_pending_deadline s p d) = bs_leaf_dependents s"
  "bs_own_node_addr (update_pending_deadline s p d) = bs_own_node_addr s"
  "bs_is_leaf_only (update_pending_deadline s p d) = bs_is_leaf_only s"
  by (simp_all add: update_pending_deadline_def Let_def)

lemma refresh_pending_deadline_simps [simp]:
  "bs_pending_updates (refresh_pending_deadline s) = bs_pending_updates s"
  "bs_last_update_sent (refresh_pending_deadline s) = bs_last_update_sent s"
  "bs_last_sent_filters (refresh_pending_deadline s) = bs_last_sent_filters s"
  "bs_leaf_dependents (refresh_pending_deadline s) = bs_leaf_dependents s"
  by (simp_all add: refresh_pending_deadline_def Let_def)

lemma pending_deadline_cong:
  "map_of (bs_pending_updates s) q = map_of (bs_pending_updates s') q \<Longrightarrow>
   map_of (bs_last_update_sent s) q = map_of (bs_last_update_sent s') q \<Longrightarrow>
   bs_update_debounce_ms s = bs_update_debounce_ms s' \<Longrightarrow>
   pending_peer_deadline_ms s q = pending_peer_deadline_ms s' q"
  by (simp only: pending_peer_deadline_ms_def)

lemma inv_update:
  assumes "bloom_state_inv s" "previous = pending_peer_deadline_ms s p"
    and "bs_pending_update_deadlines s' = bs_pending_update_deadlines s" "bs_update_debounce_ms s' = bs_update_debounce_ms s"
    and "\<And>q. q \<noteq> p \<Longrightarrow> map_of (bs_pending_updates s') q = map_of (bs_pending_updates s) q"
    and "\<And>q. q \<noteq> p \<Longrightarrow> map_of (bs_last_update_sent s') q = map_of (bs_last_update_sent s) q"
    and "hm_inv (bs_pending_updates s')" "hm_inv (bs_last_update_sent s')" "hm_inv (bs_last_sent_filters s')"
    and "distinct (bs_leaf_dependents s')"
  shows "bloom_state_inv (update_pending_deadline s' p previous)"
proof -
  have "index_ok (update_pending_deadline s' p previous)"
    unfolding assms(2) using assms(1,3-6)
    by (intro index_ok_update pending_deadline_cong) (simp_all add: bloom_state_inv_def)
  then show ?thesis using assms by (simp add: bloom_state_inv_def)
qed

lemma bloom_state_invD:
  assumes "bloom_state_inv s"
  shows "hm_inv (bs_pending_updates s)" "hm_inv (bs_last_update_sent s)" "hm_inv (bs_last_sent_filters s)"
    "distinct (bs_leaf_dependents s)" "index_ok s"
  using assms by (simp_all add: bloom_state_inv_def)

lemma inv_mark_update_needed [simp]:
  assumes "bloom_state_inv s"
  shows "bloom_state_inv (mark_update_needed s p)"
proof (cases "hm_contains (bs_pending_updates s) p")
  case False
  show ?thesis
    unfolding mark_update_needed_def if_not_P [OF False]
    using assms False bloom_state_invD [OF assms] pending_deadline_None [of s p]
    by (intro inv_update [of s]) (simp_all add: hm_simps hm_contains_def)
qed (simp add: mark_update_needed_def assms)

lemma inv_fold:
  "bloom_state_inv s \<Longrightarrow> (\<And>x s. bloom_state_inv s \<Longrightarrow> bloom_state_inv (f x s)) \<Longrightarrow> bloom_state_inv (fold f xs s)"
  by (induction xs arbitrary: s) auto

lemma inv_defer_update_retry [simp]:
  assumes "bloom_state_inv s"
  shows "bloom_state_inv (defer_update_retry s p t)"
proof (cases "map_of (bs_pending_updates s) p")
  case (Some flr)
  then show ?thesis
    using assms bloom_state_invD [OF assms]
    by (auto simp: defer_update_retry_def Let_def hm_simps intro!: inv_update [of s])
qed (simp add: defer_update_retry_def assms)

lemma inv_record_update_sent [simp]:
  "bloom_state_inv s \<Longrightarrow> bloom_state_inv (record_update_sent s p t)"
  unfolding record_update_sent_def Let_def
  by (rule inv_update [of s]) (simp_all add: hm_simps bloom_state_invD)

lemma inv_remove_peer_state [simp]:
  "bloom_state_inv s \<Longrightarrow> bloom_state_inv (remove_peer_state s p)"
  unfolding remove_peer_state_def Let_def
  by (rule inv_update [of s]) (simp_all add: hm_simps bloom_state_invD)

lemma inv_refresh:
  "hm_inv (bs_pending_updates s) \<Longrightarrow> hm_inv (bs_last_update_sent s) \<Longrightarrow> hm_inv (bs_last_sent_filters s) \<Longrightarrow>
   distinct (bs_leaf_dependents s) \<Longrightarrow> bloom_state_inv (refresh_pending_deadline s)"
  by (simp add: bloom_state_inv_def index_ok_refresh)

lemma inv_set_update_debounce_ms [simp]: "bloom_state_inv s \<Longrightarrow> bloom_state_inv (set_update_debounce_ms s ms)"
  by (simp add: set_update_debounce_ms_def inv_refresh bloom_state_invD)

lemma inv_defer_pending_retries [simp]: "bloom_state_inv s \<Longrightarrow> bloom_state_inv (defer_pending_retries s t)"
  using bloom_state_invD [of s]
  by (simp add: defer_pending_retries_def inv_refresh hm_inv_def comp_def case_prod_beta)

lemma inv_frame:
  assumes "bloom_state_inv s"
  shows "bloom_state_inv (s\<lparr> bs_is_leaf_only := b \<rparr>)" "bloom_state_inv (s\<lparr> bs_sequence := n \<rparr>)"
    "distinct l \<Longrightarrow> bloom_state_inv (s\<lparr> bs_leaf_dependents := l \<rparr>)"
    "hm_inv fs \<Longrightarrow> bloom_state_inv (s\<lparr> bs_last_sent_filters := fs \<rparr>)"
  using assms by (simp_all add: bloom_state_inv_def index_ok_def)

lemma inv_clear_pending_updates [simp]: "bloom_state_inv s \<Longrightarrow> bloom_state_inv (clear_pending_updates s)"
  by (auto simp: bloom_state_inv_def clear_pending_updates_def index_ok_def first_deadline_def pending_peer_deadline_ms_def)

lemma inv_mark_changed_peers [simp]:
  "bloom_state_inv s \<Longrightarrow> bloom_state_inv (mark_changed_peers sha256 s ex ps pf)"
  unfolding mark_changed_peers_def Let_def by (rule inv_fold) auto

lemma inv_new [simp]: "bloom_state_inv (bloom_state_new own)"
  by (simp add: bloom_state_inv_def bloom_state_new_def index_ok_def first_deadline_def pending_peer_deadline_ms_def)

section \<open>Sequences of operations\<close>

datatype bloom_state_op =
    NextSequence | SetLeafOnly bool | SetDebounce u64 | AddLeafDependent node_addr | RemoveLeafDependent node_addr
  | MarkUpdate node_addr | MarkAllUpdates "node_addr list" | DeferRetry node_addr u64 | DeferPending u64
  | RecordSent node_addr u64 | ClearPending | RecordSentFilter node_addr bloom_filter | RemovePeer node_addr
  | MarkChanged node_addr "node_addr list" "(node_addr, bloom_filter) hmap"

fun bloom_state_step :: "(bytes \<Rightarrow> bytes) \<Rightarrow> bloom_state \<Rightarrow> bloom_state_op \<Rightarrow> bloom_state" where
  "bloom_state_step sha256 s NextSequence = fst (next_sequence s)"
| "bloom_state_step sha256 s (SetLeafOnly b) = bs_set_leaf_only s b"
| "bloom_state_step sha256 s (SetDebounce ms) = set_update_debounce_ms s ms"
| "bloom_state_step sha256 s (AddLeafDependent a) = add_leaf_dependent s a"
| "bloom_state_step sha256 s (RemoveLeafDependent a) = fst (remove_leaf_dependent s a)"
| "bloom_state_step sha256 s (MarkUpdate p) = mark_update_needed s p"
| "bloom_state_step sha256 s (MarkAllUpdates ps) = mark_all_updates_needed s ps"
| "bloom_state_step sha256 s (DeferRetry p t) = defer_update_retry s p t"
| "bloom_state_step sha256 s (DeferPending t) = defer_pending_retries s t"
| "bloom_state_step sha256 s (RecordSent p t) = record_update_sent s p t"
| "bloom_state_step sha256 s ClearPending = clear_pending_updates s"
| "bloom_state_step sha256 s (RecordSentFilter p f) = record_sent_filter s p f"
| "bloom_state_step sha256 s (RemovePeer p) = remove_peer_state s p"
| "bloom_state_step sha256 s (MarkChanged ex ps pf) = mark_changed_peers sha256 s ex ps pf"

interpretation bloom_machine: invariant_machine bloom_state_inv "bloom_state_step sha256" for sha256
proof
  fix s op assume "bloom_state_inv s"
  then show "bloom_state_inv (bloom_state_step sha256 s op)"
    by (cases op) (auto simp: next_sequence_def bs_set_leaf_only_def add_leaf_dependent_def remove_leaf_dependent_def
        mark_all_updates_needed_def record_sent_filter_def bloom_state_invD intro: inv_frame inv_fold)
qed

lemma first_deadline_Min:
  assumes "sorted ds"
  shows "first_deadline ds = (if ds = [] then None else Some (Min (fst ` set ds)))"
proof (cases ds)
  case (Cons d ds')
  then have "\<forall>e \<in> set ds. fst d \<le> fst e"
    using assms by (auto simp: less_eq_prod_def)
  then show ?thesis
    using Cons by (auto simp: first_deadline_def intro!: Min_eqI [symmetric])
qed (simp add: first_deadline_def)

lemma pending_key: "p \<in> set (hm_keys (bs_pending_updates s)) \<longleftrightarrow> (\<exists>d. pending_peer_deadline_ms s p = Some d)"
  by (metis hm_keys_def image_set map_of_eq_None_iff not_Some_eq pending_deadline_None)

lemma pending_peers_due_iff:
  "pending_peers_due s now \<noteq> [] \<longleftrightarrow> (\<exists>p d. pending_peer_deadline_ms s p = Some d \<and> d \<le> now)"
proof -
  have "pending_peers_due s now \<noteq> [] \<longleftrightarrow>
      (\<exists>p \<in> set (hm_keys (bs_pending_updates s)). \<exists>d. pending_peer_deadline_ms s p = Some d \<and> d \<le> now)"
    by (auto simp: pending_peers_due_def filter_empty_conv split: option.splits)
  then show ?thesis using pending_key by blast
qed

lemma index_ok_deadline:
  assumes "index_ok s"
  shows "pending_peers_due s now \<noteq> [] \<longleftrightarrow> (\<exists>due. bs_pending_update_deadline_ms s = Some due \<and> due \<le> now)"
    and "bs_pending_update_deadline_ms s = None \<longleftrightarrow> bs_pending_updates s = []"
proof -
  let ?ds = "bs_pending_update_deadlines s"
  have dl: "bs_pending_update_deadline_ms s = (if ?ds = [] then None else Some (Min (fst ` set ?ds)))"
    and set: "set ?ds = {(d, p). pending_peer_deadline_ms s p = Some d}"
    using assms by (simp_all add: index_ok_def first_deadline_Min)
  have "pending_peers_due s now \<noteq> [] \<longleftrightarrow> (\<exists>d \<in> fst ` set ?ds. d \<le> now)"
    unfolding set pending_peers_due_iff by force
  also have "\<dots> \<longleftrightarrow> (\<exists>due. bs_pending_update_deadline_ms s = Some due \<and> due \<le> now)"
    unfolding dl by (simp add: Min_le_iff)
  finally show "pending_peers_due s now \<noteq> [] \<longleftrightarrow> (\<exists>due. bs_pending_update_deadline_ms s = Some due \<and> due \<le> now)" .
  have "snd ` set ?ds = set (hm_keys (bs_pending_updates s))"
    unfolding set by (force simp: pending_key)
  then have "?ds = [] \<longleftrightarrow> hm_keys (bs_pending_updates s) = []"
    by (metis image_is_empty set_empty)
  then show "bs_pending_update_deadline_ms s = None \<longleftrightarrow> bs_pending_updates s = []"
    unfolding dl by (simp add: hm_keys_def)
qed

text \<open>C23: after any sequence of operations on the announcement state, the cached deadline is the least
  deadline of a pending peer, so that some peer is due exactly when the cached deadline has passed: the
  receive loop may consult the cache alone and never misses or anticipates an update.\<close>

theorem bloom_deadline_exact:
  "let s = run (bloom_state_step sha256) (bloom_state_new own) ops in
    (pending_peers_due s now \<noteq> [] \<longleftrightarrow> (\<exists>due. bs_pending_update_deadline_ms s = Some due \<and> due \<le> now)) \<and>
    (bs_pending_update_deadline_ms s = None \<longleftrightarrow> bs_pending_updates s = [])"
proof -
  have "index_ok (run (bloom_state_step sha256) (bloom_state_new own) ops)"
    by (rule bloom_state_invD(5) [OF bloom_machine.run_inv]) simp
  then show ?thesis by (simp only: Let_def index_ok_deadline simp_thms)
qed

section \<open>Outgoing filters\<close>

lemma bloom_insert_simps [simp]:
  assumes "bloom_ok f"
  shows "bloom_ok (bloom_insert sha256 f a)" "bf_num_bits (bloom_insert sha256 f a) = bf_num_bits f"
    "bf_hash_count (bloom_insert sha256 f a) = bf_hash_count f"
    "bits_of (bloom_insert sha256 f a) = bits_of f \<union> indices f (hash_pair sha256 (as_bytes a))"
  using assms by (simp_all add: bloom_insert_def)

lemma fold_bloom_insert:
  assumes "bloom_ok f"
  shows "bloom_ok (fold (\<lambda>d f. bloom_insert sha256 f d) ds f)"
    "bf_num_bits (fold (\<lambda>d f. bloom_insert sha256 f d) ds f) = bf_num_bits f"
    "bf_hash_count (fold (\<lambda>d f. bloom_insert sha256 f d) ds f) = bf_hash_count f"
  using assms by (induction ds arbitrary: f) simp_all

lemma base_filter_simps [simp]:
  "bloom_ok (base_filter sha256 s)" "bf_num_bits (base_filter sha256 s) = 8192"
  "bf_hash_count (base_filter sha256 s) = 5" "length (bf_bits (base_filter sha256 s)) = 1024"
proof -
  show ok: "bloom_ok (base_filter sha256 s)" and n: "bf_num_bits (base_filter sha256 s) = 8192"
    and "bf_hash_count (base_filter sha256 s) = 5"
    by (simp_all add: base_filter_def Let_def fold_bloom_insert)
  show "length (bf_bits (base_filter sha256 s)) = 1024"
    using ok n by (simp add: bloom_ok_def)
qed

lemma bloom_ok_length: "bloom_ok f \<Longrightarrow> length (bf_bits f) = 1024 \<longleftrightarrow> bf_num_bits f = 8192"
  by (auto simp: bloom_ok_def)

lemma absorb_bits:
  assumes "length all = n" "length sh = n" "length inc = n" "i < n * 8"
  shows "byte_bit (fst (absorb inc (all, sh))) i \<longleftrightarrow> byte_bit all i \<or> byte_bit inc i"
    "byte_bit (snd (absorb inc (all, sh))) i \<longleftrightarrow> byte_bit sh i \<or> (byte_bit all i \<and> byte_bit inc i)"
  using assms less_mult_imp_div_less [of i n 8]
  by (simp_all add: absorb_def byte_bit_def bit_or_iff bit_and_iff)

lemma length_absorb [simp]:
  "length (fst (absorb inc p)) = length (fst p)" "length (snd (absorb inc p)) = length (snd p)"
  by (simp_all add: absorb_def split_beta)

text \<open>The aggregate counts contributors: a bit is set in the combined array when it has at least one and
  in the shared array when it has at least two.\<close>

lemma fold_absorb_counts:
  assumes "length (fst p) = n" "length (snd p) = n" "\<forall>x \<in> set xs. length x = n" "i < n * 8"
    and "byte_bit (fst p) i \<longleftrightarrow> 1 \<le> c" "byte_bit (snd p) i \<longleftrightarrow> 2 \<le> c"
  shows "(byte_bit (fst (fold absorb xs p)) i \<longleftrightarrow> 1 \<le> c + length (filter (\<lambda>x. byte_bit x i) xs)) \<and>
    (byte_bit (snd (fold absorb xs p)) i \<longleftrightarrow> 2 \<le> c + length (filter (\<lambda>x. byte_bit x i) xs))"
  using assms
proof (induction xs arbitrary: p c)
  case (Cons x xs)
  let ?c = "if byte_bit x i then Suc c else c"
  have len: "length x = n" "length (fst p) = n" "length (snd p) = n" "i < n * 8"
    using Cons.prems by simp_all
  have "byte_bit (fst (absorb x p)) i \<longleftrightarrow> 1 \<le> ?c" "byte_bit (snd (absorb x p)) i \<longleftrightarrow> 2 \<le> ?c"
    using absorb_bits [OF len(2,3,1,4)] unfolding prod.collapse Cons.prems(5,6) by (simp_all, linarith)
  moreover have "length (fst (absorb x p)) = n" "length (snd (absorb x p)) = n" "\<forall>x \<in> set xs. length x = n" "i < n * 8"
    using Cons.prems by simp_all
  ultimately have "(byte_bit (fst (fold absorb xs (absorb x p))) i \<longleftrightarrow> 1 \<le> ?c + length (filter (\<lambda>x. byte_bit x i) xs)) \<and>
    (byte_bit (snd (fold absorb xs (absorb x p))) i \<longleftrightarrow> 2 \<le> ?c + length (filter (\<lambda>x. byte_bit x i) xs))"
    by (intro Cons.IH)
  then show ?case by (cases "byte_bit x i") simp_all
qed simp

lemma length_fold_absorb:
  "length (fst (fold absorb xs p)) = length (fst p)" "length (snd (fold absorb xs p)) = length (snd p)"
  by (induction xs arbitrary: p) auto

lemma fold_merge_bits:
  fixes p :: node_addr
  assumes "bloom_ok f" "\<forall>(q, g) \<in> set pf. bloom_ok g"
  defines "m \<equiv> fold (\<lambda>(q, g) f. if q \<noteq> p then fst (merge f g) else f) pf f"
  shows "bloom_ok m \<and> bf_num_bits m = bf_num_bits f \<and> bf_hash_count m = bf_hash_count f \<and>
    bits_of m = bits_of f \<union> (\<Union>(q, g) \<in> {(q, g) \<in> set pf. q \<noteq> p \<and> bf_num_bits g = bf_num_bits f}. bits_of g)"
  unfolding m_def using assms(1,2)
proof (induction pf arbitrary: f)
  case (Cons qg pf)
  obtain q g where qg: "qg = (q, g)" by fastforce
  show ?case
    using Cons.IH [of "if q \<noteq> p then fst (merge f g) else f"] Cons.prems unfolding qg by auto
qed simp

text \<open>\<open>outgoing_bytes\<close> is the bit array both readers of the fan-out view work on.\<close>

definition outgoing_bytes :: "outgoing_filters \<Rightarrow> node_addr \<Rightarrow> bytes" where
  "outgoing_bytes og peer = (case excluded og peer of
     None \<Rightarrow> og_combined og
   | Some ex \<Rightarrow> zip_mut (\<lambda>b (sh, e). b AND (NOT e OR sh)) (og_combined og) (zip (og_shared og) (bf_bits ex)))"

definition contributions :: "bloom_state \<Rightarrow> (node_addr, bloom_filter) hmap \<Rightarrow> (node_addr, bloom_filter) hmap" where
  "contributions s pf = filter (\<lambda>(q, g). \<not> bs_is_leaf_only s \<and> bf_num_bits g = 8192) pf"

lemma prepare_simps:
  fixes pf :: "(node_addr, bloom_filter) hmap" and s :: bloom_state and sha256 :: "bytes \<Rightarrow> bytes"
  defines "bs \<equiv> fold absorb (map (bf_bits \<circ> snd) (contributions s pf)) (bf_bits (base_filter sha256 s), replicate 1024 0)"
  shows "og_combined (prepare_outgoing_filters sha256 s pf) = fst bs"
    and "og_shared (prepare_outgoing_filters sha256 s pf) = snd bs"
    and "og_hash_count (prepare_outgoing_filters sha256 s pf) = 5"
    and "og_peers (prepare_outgoing_filters sha256 s pf) = (if bs_is_leaf_only s then None else Some pf)"
proof -
  have "filter (\<lambda>f. \<not> bs_is_leaf_only s \<and> bf_num_bits f = 8192) (map snd pf) = map snd (contributions s pf)"
    by (simp add: contributions_def filter_map comp_def case_prod_beta)
  then show "og_combined (prepare_outgoing_filters sha256 s pf) = fst bs"
    "og_shared (prepare_outgoing_filters sha256 s pf) = snd bs"
    "og_hash_count (prepare_outgoing_filters sha256 s pf) = 5"
    "og_peers (prepare_outgoing_filters sha256 s pf) = (if bs_is_leaf_only s then None else Some pf)"
    by (simp_all add: prepare_outgoing_filters_def bs_def Let_def split_beta fold_map comp_def)
qed

lemma filter_others:
  assumes "hm_inv m" "map_of m p = Some g"
  shows "length (filter (\<lambda>(q, f). P f) m) = of_bool (P g) + length (filter (\<lambda>(q, f). q \<noteq> p \<and> P f) m)"
  using assms
proof (induction m)
  case (Cons kv m)
  obtain k v where kv: "kv = (k, v)" by fastforce
  show ?case
  proof (cases "k = p")
    case True
    then have "p \<notin> fst ` set m" "g = v" using Cons.prems kv by (auto simp: hm_inv_def)
    then have "filter (\<lambda>(q, f). q \<noteq> p \<and> P f) m = filter (\<lambda>(q, f). P f) m"
      by (intro filter_cong) (auto simp: image_iff)
    then show ?thesis using True kv \<open>g = v\<close> by simp
  next
    case False
    then show ?thesis using Cons kv by (auto simp: hm_inv_def)
  qed
qed simp

lemma map_of_filter_snd:
  "hm_inv m \<Longrightarrow> map_of (filter (\<lambda>(q, g). P g) m) p = (case map_of m p of None \<Rightarrow> None | Some g \<Rightarrow> if P g then Some g else None)"
  using map_of_hm_retain [of m "\<lambda>_. P" p] by (simp add: hm_retain_def case_prod_unfold)

definition peer_filters_ok :: "(node_addr, bloom_filter) hmap \<Rightarrow> bool" where
  "peer_filters_ok pf \<longleftrightarrow> hm_inv pf \<and> list_all (\<lambda>(q, g). bloom_ok g) pf"

lemma contributions_ok:
  assumes "peer_filters_ok pf"
  shows "hm_inv (contributions s pf)" "(q, g) \<in> set (contributions s pf) \<Longrightarrow> length (bf_bits g) = 1024"
  using assms by (auto simp: contributions_def peer_filters_ok_def list_all_iff bloom_ok_length)

lemma excluded_prepare:
  assumes "peer_filters_ok pf"
  shows "excluded (prepare_outgoing_filters sha256 s pf) p = map_of (contributions s pf) p"
proof -
  have "bloom_ok g" if "map_of pf p = Some g" for g
    using that assms by (auto simp: peer_filters_ok_def list_all_iff dest: map_of_SomeD)
  moreover have "hm_inv pf" using assms by (simp add: peer_filters_ok_def)
  ultimately show ?thesis
    by (auto simp: excluded_def prepare_simps length_fold_absorb contributions_def map_of_filter_snd bloom_ok_length
        split: option.splits)
qed

lemma prepared_counts:
  fixes s :: bloom_state and sha256 :: "bytes \<Rightarrow> bytes"
  assumes "peer_filters_ok pf" "i < 8192"
  defines "c \<equiv> of_bool (byte_bit (bf_bits (base_filter sha256 s)) i) +
    length (filter (\<lambda>(q, g). byte_bit (bf_bits g) i) (contributions s pf))"
  shows "byte_bit (og_combined (prepare_outgoing_filters sha256 s pf)) i \<longleftrightarrow> 1 \<le> c"
    "byte_bit (og_shared (prepare_outgoing_filters sha256 s pf)) i \<longleftrightarrow> 2 \<le> c"
proof -
  let ?xs = "map (bf_bits \<circ> snd) (contributions s pf)"
  have "\<forall>x \<in> set ?xs. length x = 1024" using contributions_ok(2) [OF assms(1)] by auto
  moreover have "length (filter (\<lambda>x. byte_bit x i) ?xs) = length (filter (\<lambda>(q, g). byte_bit (bf_bits g) i) (contributions s pf))"
    by (simp add: filter_map comp_def case_prod_unfold)
  ultimately show "byte_bit (og_combined (prepare_outgoing_filters sha256 s pf)) i \<longleftrightarrow> 1 \<le> c"
    "byte_bit (og_shared (prepare_outgoing_filters sha256 s pf)) i \<longleftrightarrow> 2 \<le> c"
    using assms(2) fold_absorb_counts [of "(bf_bits (base_filter sha256 s), replicate 1024 0)" 1024 ?xs i
        "of_bool (byte_bit (bf_bits (base_filter sha256 s)) i)"]
    by (simp_all add: prepare_simps c_def)
qed

lemma length_outgoing_bytes: "length (outgoing_bytes (prepare_outgoing_filters sha256 s pf) p) = 1024"
  by (simp add: outgoing_bytes_def prepare_simps length_fold_absorb split: option.splits)

lemma outgoing_bit:
  assumes "peer_filters_ok pf" "i < 8192"
  shows "byte_bit (outgoing_bytes (prepare_outgoing_filters sha256 s pf) p) i \<longleftrightarrow>
    byte_bit (bf_bits (base_filter sha256 s)) i \<or> (\<exists>(q, g) \<in> set (contributions s pf). q \<noteq> p \<and> byte_bit (bf_bits g) i)"
proof -
  let ?og = "prepare_outgoing_filters sha256 s pf" and ?cs = "contributions s pf"
  let ?b = "of_bool (byte_bit (bf_bits (base_filter sha256 s)) i) :: nat"
  let ?others = "filter (\<lambda>(q, g). q \<noteq> p \<and> byte_bit (bf_bits g) i) ?cs"
  have "byte_bit (outgoing_bytes ?og p) i \<longleftrightarrow> 1 \<le> ?b + length ?others"
  proof (cases "map_of ?cs p")
    case None
    then have "filter (\<lambda>(q, g). byte_bit (bf_bits g) i) ?cs = ?others"
      by (intro filter_cong) (auto simp: map_of_eq_None_iff image_iff)
    then show ?thesis
      using None prepared_counts(1) [OF assms, of sha256 s] assms(1) by (simp add: outgoing_bytes_def excluded_prepare)
  next
    case (Some ex)
    then have ex: "length (bf_bits ex) = 1024"
      using contributions_ok(2) [OF assms(1)] map_of_SomeD by fast
    have "byte_bit (outgoing_bytes ?og p) i \<longleftrightarrow>
        byte_bit (og_combined ?og) i \<and> (\<not> byte_bit (bf_bits ex) i \<or> byte_bit (og_shared ?og) i)"
      using Some assms ex less_mult_imp_div_less [of i 1024 8]
      by (simp add: outgoing_bytes_def excluded_prepare byte_bit_def bit_and_iff bit_or_iff bit_not_iff
          prepare_simps length_fold_absorb)
    also have "\<dots> \<longleftrightarrow> 1 \<le> ?b + length ?others"
      unfolding prepared_counts [OF assms]
        filter_others [OF contributions_ok(1) [OF assms(1)] Some, of "\<lambda>g. byte_bit (bf_bits g) i"]
      by (cases "byte_bit (bf_bits ex) i") auto
    finally show ?thesis .
  qed
  also have "\<dots> \<longleftrightarrow> ?b = 1 \<or> ?others \<noteq> []"
    by (cases ?others) auto
  also have "\<dots> \<longleftrightarrow> byte_bit (bf_bits (base_filter sha256 s)) i \<or>
      (\<exists>(q, g) \<in> set ?cs. q \<noteq> p \<and> byte_bit (bf_bits g) i)"
    by (auto simp: filter_empty_conv)
  finally show ?thesis .
qed

lemma compute_as_merge:
  "compute_outgoing_filter sha256 s p pf =
     fold (\<lambda>(q, g) f. if q \<noteq> p then fst (merge f g) else f) (if bs_is_leaf_only s then [] else pf) (base_filter sha256 s)"
  by (simp add: compute_outgoing_filter_def base_filter_def Let_def)

lemma compute_outgoing_simps:
  assumes "peer_filters_ok pf"
  shows "bloom_ok (compute_outgoing_filter sha256 s p pf)" "bf_num_bits (compute_outgoing_filter sha256 s p pf) = 8192"
    and "bf_hash_count (compute_outgoing_filter sha256 s p pf) = 5"
    and "bits_of (compute_outgoing_filter sha256 s p pf) =
      bits_of (base_filter sha256 s) \<union> (\<Union>(q, g) \<in> {(q, g) \<in> set (contributions s pf). q \<noteq> p}. bits_of g)"
proof -
  have "\<forall>(q, g) \<in> set (if bs_is_leaf_only s then [] else pf). bloom_ok g"
    using assms by (auto simp: peer_filters_ok_def list_all_iff)
  note m = fold_merge_bits [OF base_filter_simps(1) [of sha256 s] this, of p, folded compute_as_merge]
  then show "bloom_ok (compute_outgoing_filter sha256 s p pf)" "bf_num_bits (compute_outgoing_filter sha256 s p pf) = 8192"
    "bf_hash_count (compute_outgoing_filter sha256 s p pf) = 5"
    by simp_all
  show "bits_of (compute_outgoing_filter sha256 s p pf) =
      bits_of (base_filter sha256 s) \<union> (\<Union>(q, g) \<in> {(q, g) \<in> set (contributions s pf). q \<noteq> p}. bits_of g)"
    using m by (auto simp: contributions_def)
qed

lemma outgoing_bytes_compute:
  assumes "peer_filters_ok pf"
  shows "outgoing_bytes (prepare_outgoing_filters sha256 s pf) p = bf_bits (compute_outgoing_filter sha256 s p pf)"
    (is "?bs = bf_bits ?g")
proof (rule byte_bit_ext)
  note g = compute_outgoing_simps [OF assms, of sha256 s p]
  show "length ?bs = length (bf_bits ?g)"
    using g(1,2) by (simp add: length_outgoing_bytes bloom_ok_length)
  fix i assume "i < length ?bs * 8"
  then have i: "i < 8192" by (simp add: length_outgoing_bytes)
  have "byte_bit (bf_bits ?g) i \<longleftrightarrow> i \<in> bits_of ?g"
    using i g(2) by (simp add: bits_of_def get_bit_byte_bit)
  also have "\<dots> \<longleftrightarrow> byte_bit (bf_bits (base_filter sha256 s)) i \<or>
      (\<exists>(q, g) \<in> set (contributions s pf). q \<noteq> p \<and> byte_bit (bf_bits g) i)"
    unfolding g(4) using i by (force simp: bits_of_def get_bit_byte_bit contributions_def)
  finally show "byte_bit ?bs i = byte_bit (bf_bits ?g) i"
    using outgoing_bit [OF assms i] by simp
qed

lemma for_peer_bytes: "for_peer og p = (case bloom_from_bytes (outgoing_bytes og p) (og_hash_count og) of
    Ok f \<Rightarrow> Ok f | _ \<Rightarrow> Panic)"
  by (simp only: for_peer_def outgoing_bytes_def Let_def)

lemma matches_bytes:
  assumes "length (og_shared og) = length (og_combined og)"
  shows "matches og p prev \<longleftrightarrow> bf_bits prev = outgoing_bytes og p \<and> bf_hash_count prev = og_hash_count og"
proof (cases "excluded og p")
  case None
  then show ?thesis by (auto simp: matches_def outgoing_bytes_def)
next
  case (Some ex)
  then have "length (bf_bits ex) = length (og_combined og)"
    by (auto simp: excluded_def split: option.splits if_splits)
  then show ?thesis
    using Some assms by (auto simp: matches_def outgoing_bytes_def list_all_length list_eq_iff_nth_eq)
qed

text \<open>C24: aggregating all inbound filters once and masking out the recipient gives each peer, for any
  iteration order of the tables, exactly the filter obtained by merging the filters of all other peers
  one by one, without panicking; and the change test against the filter last sent is exact.\<close>

theorem bloom_fanout_exact:
  assumes "peer_filters_ok pf" "bloom_ok prev"
  shows "for_peer (prepare_outgoing_filters sha256 s pf) p = Ok (compute_outgoing_filter sha256 s p pf) \<and>
    (matches (prepare_outgoing_filters sha256 s pf) p prev \<longleftrightarrow> bloom_eq prev (compute_outgoing_filter sha256 s p pf))"
proof
  note g = compute_outgoing_simps [OF assms(1), of sha256 s p] and bs = outgoing_bytes_compute [OF assms(1), of sha256 s p]
  have "length (bf_bits (compute_outgoing_filter sha256 s p pf)) = 1024"
    using g(1,2) by (simp add: bloom_ok_length)
  then show "for_peer (prepare_outgoing_filters sha256 s pf) p = Ok (compute_outgoing_filter sha256 s p pf)"
    using g(2,3) by (auto simp: for_peer_bytes bs prepare_simps bloom_from_bytes_def)
  show "matches (prepare_outgoing_filters sha256 s pf) p prev \<longleftrightarrow> bloom_eq prev (compute_outgoing_filter sha256 s p pf)"
    using g(1,3) assms(2)
    by (subst matches_bytes) (auto simp: prepare_simps length_fold_absorb bs bloom_eq_def bloom_ok_def)
qed

definition demo_peer_filters :: "(bytes \<Rightarrow> bytes) \<Rightarrow> (node_addr, bloom_filter) hmap" where
  "demo_peer_filters sha256 = [(NodeAddr 2, bloom_insert sha256 bloom_new (NodeAddr 20)),
     (NodeAddr 3, bloom_insert sha256 bloom_new (NodeAddr 30))]"

theorem bloom_fanout_exact_witness:
  "for_peer (prepare_outgoing_filters rev (bloom_state_new (NodeAddr 1)) (demo_peer_filters rev)) (NodeAddr 2) =
     Ok (compute_outgoing_filter rev (bloom_state_new (NodeAddr 1)) (NodeAddr 2) (demo_peer_filters rev))"
  using bloom_fanout_exact [of "demo_peer_filters rev" bloom_new rev "bloom_state_new (NodeAddr 1)" "NodeAddr 2"]
  by (simp add: peer_filters_ok_def demo_peer_filters_def hm_inv_def)

end
