(* ===== verification/Noise_Handshake.thy ===== *)
theory Noise_Handshake
  imports Noise_Session
begin

text \<open>
  The Noise IK and XK handshakes (\<^verbatim>\<open>noise/handshake.rs\<close>): the symmetric state, the handshake
  state machine of both roles and the split into a transport session. SHA-256, HKDF and secp256k1 are
  third-party packages: they are the record \<open>curve\<close> of functions every operation takes, with secret
  keys of type \<open>'s\<close> and public keys of type \<open>'p\<close>. A keypair is its secret key. The random bytes of an
  ephemeral key are an argument. Every operation returns the state it leaves behind, also when it fails.
\<close>

section \<open>Parameters and constants\<close>

record ('s, 'p) curve =
  sha256 :: "bytes \<Rightarrow> bytes"
  hkdf64 :: "bytes \<Rightarrow> bytes \<Rightarrow> bytes"
  secret_from_slice :: "bytes \<Rightarrow> 's option"
  public_key :: "'s \<Rightarrow> 'p"
  serialize :: "'p \<Rightarrow> bytes"
  public_from_slice :: "bytes \<Rightarrow> 'p option"
  shared_secret_point :: "'p \<Rightarrow> 's \<Rightarrow> bytes"

definition PUBKEY_SIZE :: nat where "PUBKEY_SIZE = 33"
definition EPOCH_SIZE :: nat where "EPOCH_SIZE = 8"
definition EPOCH_ENCRYPTED_SIZE :: nat where "EPOCH_ENCRYPTED_SIZE = EPOCH_SIZE + TAG_SIZE"
definition HANDSHAKE_MSG1_SIZE :: nat where "HANDSHAKE_MSG1_SIZE = PUBKEY_SIZE + PUBKEY_SIZE + TAG_SIZE + EPOCH_ENCRYPTED_SIZE"
definition HANDSHAKE_MSG2_SIZE :: nat where "HANDSHAKE_MSG2_SIZE = PUBKEY_SIZE + EPOCH_ENCRYPTED_SIZE"
definition XK_HANDSHAKE_MSG1_SIZE :: nat where "XK_HANDSHAKE_MSG1_SIZE = PUBKEY_SIZE"
definition XK_HANDSHAKE_MSG2_SIZE :: nat where "XK_HANDSHAKE_MSG2_SIZE = PUBKEY_SIZE + EPOCH_ENCRYPTED_SIZE"
definition XK_HANDSHAKE_MSG3_SIZE :: nat where "XK_HANDSHAKE_MSG3_SIZE = PUBKEY_SIZE + TAG_SIZE + EPOCH_ENCRYPTED_SIZE"

lemmas handshake_sizes = PUBKEY_SIZE_def EPOCH_SIZE_def EPOCH_ENCRYPTED_SIZE_def HANDSHAKE_MSG1_SIZE_def
  HANDSHAKE_MSG2_SIZE_def XK_HANDSHAKE_MSG1_SIZE_def XK_HANDSHAKE_MSG2_SIZE_def XK_HANDSHAKE_MSG3_SIZE_def TAG_SIZE_def

definition ascii :: "string \<Rightarrow> bytes" where
  "ascii s = map (\<lambda>c. of_nat (of_char c)) s"

definition PROTOCOL_NAME_IK :: bytes where "PROTOCOL_NAME_IK = ascii ''Noise_IK_secp256k1_ChaChaPoly_SHA256''"
definition PROTOCOL_NAME_XK :: bytes where "PROTOCOL_NAME_XK = ascii ''Noise_XK_secp256k1_ChaChaPoly_SHA256''"

datatype noise_pattern = Ik | Xk

datatype handshake_progress = Initial | Message1Done | Message2Done | Complete

fun progress_string :: "handshake_progress \<Rightarrow> string" where
  "progress_string Initial = ''initial''"
| "progress_string Message1Done = ''message1_done''"
| "progress_string Message2Done = ''message2_done''"
| "progress_string Complete = ''complete''"

fun role_string :: "handshake_role \<Rightarrow> string" where
  "role_string Initiator = ''initiator''"
| "role_string Responder = ''responder''"

section \<open>Symmetric state\<close>

record 'k symmetric_state =
  sym_ck :: bytes
  sym_h :: bytes
  sym_cipher :: "'k cipher_state"

definition initialize :: "('s, 'p) curve \<Rightarrow> bytes \<Rightarrow> 'k symmetric_state" where
  "initialize C protocol_name =
    (let h0 = (if length protocol_name \<le> 32 then protocol_name @ replicate (32 - length protocol_name) 0
               else sha256 C protocol_name) in
     \<lparr> sym_ck = h0, sym_h = h0, sym_cipher = cipher_empty \<rparr>)"

definition mix_hash :: "('s, 'p) curve \<Rightarrow> 'k symmetric_state \<Rightarrow> bytes \<Rightarrow> 'k symmetric_state" where
  "mix_hash C y data = y\<lparr> sym_h := sha256 C (sym_h y @ data) \<rparr>"

definition mix_key :: "('s, 'p) curve \<Rightarrow> 'k aead \<Rightarrow> 'k symmetric_state \<Rightarrow> bytes \<Rightarrow> 'k symmetric_state" where
  "mix_key C A y input_key_material =
    (let output = hkdf64 C (sym_ck y) input_key_material in
     y\<lparr> sym_ck := take 32 output, sym_cipher := initialize_key A (sym_cipher y) (take 32 (drop 32 output)) \<rparr>)"

definition encrypt_and_hash ::
  "('s, 'p) curve \<Rightarrow> 'k aead \<Rightarrow> 'k symmetric_state \<Rightarrow> bytes \<Rightarrow> 'k symmetric_state \<times> (noise_error, bytes) outcome" where
  "encrypt_and_hash C A y plaintext = (case cipher_encrypt A (sym_cipher y) plaintext of (c, r) \<Rightarrow>
     (let y = y\<lparr> sym_cipher := c \<rparr> in
      case r of Ok ciphertext \<Rightarrow> (mix_hash C y ciphertext, Ok ciphertext) | e \<Rightarrow> (y, e)))"

definition decrypt_and_hash ::
  "('s, 'p) curve \<Rightarrow> 'k aead \<Rightarrow> 'k symmetric_state \<Rightarrow> bytes \<Rightarrow> 'k symmetric_state \<times> (noise_error, bytes) outcome" where
  "decrypt_and_hash C A y ciphertext = (case cipher_decrypt A (sym_cipher y) ciphertext of (c, r) \<Rightarrow>
     (let y = y\<lparr> sym_cipher := c \<rparr> in
      case r of Ok plaintext \<Rightarrow> (mix_hash C y ciphertext, Ok plaintext) | e \<Rightarrow> (y, e)))"

definition split_ciphers :: "('s, 'p) curve \<Rightarrow> 'k aead \<Rightarrow> 'k symmetric_state \<Rightarrow> 'k cipher_state \<times> 'k cipher_state" where
  "split_ciphers C A y = (let output = hkdf64 C (sym_ck y) [] in
     (cipher_new A (take 32 output), cipher_new A (take 32 (drop 32 output))))"

definition symmetric_clone :: "'k aead \<Rightarrow> 'k symmetric_state \<Rightarrow> 'k symmetric_state" where
  "symmetric_clone A y = \<lparr> sym_ck = sym_ck y, sym_h = sym_h y, sym_cipher = clone A (sym_cipher y) \<rparr>"

section \<open>Handshake state\<close>

record ('s, 'p, 'k) handshake_state =
  hs_pattern :: noise_pattern
  hs_role :: handshake_role
  hs_progress :: handshake_progress
  hs_symmetric :: "'k symmetric_state"
  hs_static :: 's
  hs_ephemeral :: "'s option"
  hs_remote_static :: "'p option"
  hs_remote_ephemeral :: "'p option"
  hs_local_epoch :: "bytes option"
  hs_remote_epoch :: "bytes option"

definition normalize_for_premessage :: "('s, 'p) curve \<Rightarrow> 'p \<Rightarrow> bytes" where
  "normalize_for_premessage C p = (serialize C p)[0 := 2]"

definition initial_state ::
  "noise_pattern \<Rightarrow> handshake_role \<Rightarrow> 'k symmetric_state \<Rightarrow> 's \<Rightarrow> 'p option \<Rightarrow> ('s, 'p, 'k) handshake_state" where
  "initial_state pat r y static remote = \<lparr> hs_pattern = pat, hs_role = r, hs_progress = Initial, hs_symmetric = y,
     hs_static = static, hs_ephemeral = None, hs_remote_static = remote, hs_remote_ephemeral = None,
     hs_local_epoch = None, hs_remote_epoch = None \<rparr>"

definition new_initiator :: "('s, 'p) curve \<Rightarrow> 's \<Rightarrow> 'p \<Rightarrow> ('s, 'p, 'k) handshake_state" where
  "new_initiator C static remote = initial_state Ik Initiator
     (mix_hash C (initialize C PROTOCOL_NAME_IK) (normalize_for_premessage C remote)) static (Some remote)"

definition new_responder :: "('s, 'p) curve \<Rightarrow> 's \<Rightarrow> ('s, 'p, 'k) handshake_state" where
  "new_responder C static = initial_state Ik Responder
     (mix_hash C (initialize C PROTOCOL_NAME_IK) (normalize_for_premessage C (public_key C static))) static None"

definition new_xk_initiator :: "('s, 'p) curve \<Rightarrow> 's \<Rightarrow> 'p \<Rightarrow> ('s, 'p, 'k) handshake_state" where
  "new_xk_initiator C static remote = initial_state Xk Initiator
     (mix_hash C (initialize C PROTOCOL_NAME_XK) (normalize_for_premessage C remote)) static (Some remote)"

definition new_xk_responder :: "('s, 'p) curve \<Rightarrow> 's \<Rightarrow> ('s, 'p, 'k) handshake_state" where
  "new_xk_responder C static = initial_state Xk Responder
     (mix_hash C (initialize C PROTOCOL_NAME_XK) (normalize_for_premessage C (public_key C static))) static None"

definition set_local_epoch :: "('s, 'p, 'k) handshake_state \<Rightarrow> bytes \<Rightarrow> ('s, 'p, 'k) handshake_state" where
  "set_local_epoch s epoch = s\<lparr> hs_local_epoch := Some epoch \<rparr>"

definition is_complete :: "('s, 'p, 'k) handshake_state \<Rightarrow> bool" where
  "is_complete s \<longleftrightarrow> hs_progress s = Complete"

definition generate_ephemeral ::
  "('s, 'p) curve \<Rightarrow> ('s, 'p, 'k) handshake_state \<Rightarrow> bytes \<Rightarrow> ('s, 'p, 'k) handshake_state \<times> (noise_error, 's) outcome" where
  "generate_ephemeral C s secret_bytes = (case secret_from_slice C secret_bytes of
     None \<Rightarrow> (s, Panic) | Some e \<Rightarrow> (s\<lparr> hs_ephemeral := Some e \<rparr>, Ok e))"

definition ecdh :: "('s, 'p) curve \<Rightarrow> 's \<Rightarrow> 'p \<Rightarrow> bytes" where
  "ecdh C our_secret their_public = sha256 C (take 32 (shared_secret_point C their_public our_secret))"

text \<open>The handshake operations in sequence: \<open>hbind\<close> is the question mark operator on a state that was
  already changed; \<open>absorb\<close> runs an operation of the symmetric state.\<close>

definition hbind :: "'t \<times> ('e, 'a) outcome \<Rightarrow> ('t \<Rightarrow> 'a \<Rightarrow> 't \<times> ('e, 'b) outcome) \<Rightarrow> 't \<times> ('e, 'b) outcome" where
  "hbind sr f = (case sr of (s, r) \<Rightarrow> (case r of Ok a \<Rightarrow> f s a | Err e \<Rightarrow> (s, Err e) | Panic \<Rightarrow> (s, Panic)))"

definition absorb :: "('s, 'p, 'k) handshake_state \<Rightarrow> 'k symmetric_state \<times> (noise_error, 'a) outcome \<Rightarrow>
    ('s, 'p, 'k) handshake_state \<times> (noise_error, 'a) outcome" where
  "absorb s yr = (case yr of (y, r) \<Rightarrow> (s\<lparr> hs_symmetric := y \<rparr>, r))"

definition hs_mix_hash :: "('s, 'p) curve \<Rightarrow> ('s, 'p, 'k) handshake_state \<Rightarrow> bytes \<Rightarrow> ('s, 'p, 'k) handshake_state" where
  "hs_mix_hash C s data = s\<lparr> hs_symmetric := mix_hash C (hs_symmetric s) data \<rparr>"

definition hs_mix_key :: "('s, 'p) curve \<Rightarrow> 'k aead \<Rightarrow> ('s, 'p, 'k) handshake_state \<Rightarrow> bytes \<Rightarrow> ('s, 'p, 'k) handshake_state" where
  "hs_mix_key C A s ikm = s\<lparr> hs_symmetric := mix_key C A (hs_symmetric s) ikm \<rparr>"

text \<open>The two guards every message operation starts with, and the length check of the readers.\<close>

definition guard_state ::
  "handshake_role \<Rightarrow> handshake_progress \<Rightarrow> ('s, 'p, 'k) handshake_state \<Rightarrow> (noise_error, unit) outcome" where
  "guard_state r p s =
    (if hs_role s \<noteq> r then Err (WrongState (role_string r) (role_string (hs_role s)))
     else if hs_progress s \<noteq> p then Err (WrongState (progress_string p) (progress_string (hs_progress s)))
     else Ok ())"

definition guard_message ::
  "handshake_role \<Rightarrow> handshake_progress \<Rightarrow> nat \<Rightarrow> ('s, 'p, 'k) handshake_state \<Rightarrow> bytes \<Rightarrow> (noise_error, unit) outcome" where
  "guard_message r p n s message = obind (guard_state r p s) (\<lambda>_.
     if length message \<noteq> n then Err (MessageTooShort n (length message)) else Ok ())"

text \<open>\<open>copy_from_slice\<close> into the 8-byte epoch.\<close>

definition copy_epoch :: "('s, 'p, 'k) handshake_state \<Rightarrow> bytes \<Rightarrow> ('s, 'p, 'k) handshake_state \<times> (noise_error, unit) outcome" where
  "copy_epoch s epoch =
    (if length epoch = EPOCH_SIZE then (s\<lparr> hs_remote_epoch := Some epoch \<rparr>, Ok ()) else (s, Panic))"

section \<open>IK messages\<close>

definition write_message_1 ::
  "('s, 'p) curve \<Rightarrow> 'k aead \<Rightarrow> ('s, 'p, 'k) handshake_state \<Rightarrow> bytes \<Rightarrow> ('s, 'p, 'k) handshake_state \<times> (noise_error, bytes) outcome" where
  "write_message_1 C A s rnd = hbind (s, guard_state Initiator Initial s) (\<lambda>s _.
    case (hs_remote_static s, hs_local_epoch s) of
      (Some remote, Some epoch) \<Rightarrow>
        hbind (generate_ephemeral C s rnd) (\<lambda>s e.
          let e_pub = serialize C (public_key C e);
              s = hs_mix_hash C s e_pub;
              s = hs_mix_key C A s (ecdh C e remote) in
          hbind (absorb s (encrypt_and_hash C A (hs_symmetric s) (serialize C (public_key C (hs_static s))))) (\<lambda>s encrypted_static.
            let s = hs_mix_key C A s (ecdh C (hs_static s) remote) in
            hbind (absorb s (encrypt_and_hash C A (hs_symmetric s) epoch)) (\<lambda>s encrypted_epoch.
              (s\<lparr> hs_progress := Message1Done \<rparr>, Ok (e_pub @ encrypted_static @ encrypted_epoch)))))
    | _ \<Rightarrow> (s, Panic))"

definition read_message_1 ::
  "('s, 'p) curve \<Rightarrow> 'k aead \<Rightarrow> ('s, 'p, 'k) handshake_state \<Rightarrow> bytes \<Rightarrow> ('s, 'p, 'k) handshake_state \<times> (noise_error, unit) outcome" where
  "read_message_1 C A s message = hbind (s, guard_message Responder Initial HANDSHAKE_MSG1_SIZE s message) (\<lambda>s _.
    case public_from_slice C (take PUBKEY_SIZE message) of
      None \<Rightarrow> (s, Err InvalidPublicKey)
    | Some re \<Rightarrow>
        (let s = hs_mix_hash C (s\<lparr> hs_remote_ephemeral := Some re \<rparr>) (take PUBKEY_SIZE message);
             s = hs_mix_key C A s (ecdh C (hs_static s) re);
             static_end = PUBKEY_SIZE + PUBKEY_SIZE + TAG_SIZE in
         hbind (absorb s (decrypt_and_hash C A (hs_symmetric s) (take (static_end - PUBKEY_SIZE) (drop PUBKEY_SIZE message)))) (\<lambda>s decrypted_static.
           case public_from_slice C decrypted_static of
             None \<Rightarrow> (s, Err InvalidPublicKey)
           | Some rs \<Rightarrow>
               (let s = s\<lparr> hs_remote_static := Some rs \<rparr>;
                    s = hs_mix_key C A s (ecdh C (hs_static s) rs) in
                hbind (absorb s (decrypt_and_hash C A (hs_symmetric s) (drop static_end message))) (\<lambda>s decrypted_epoch.
                  hbind (copy_epoch s decrypted_epoch) (\<lambda>s _.
                    (s\<lparr> hs_progress := Message1Done \<rparr>, Ok ())))))))"

definition write_message_2 ::
  "('s, 'p) curve \<Rightarrow> 'k aead \<Rightarrow> ('s, 'p, 'k) handshake_state \<Rightarrow> bytes \<Rightarrow> ('s, 'p, 'k) handshake_state \<times> (noise_error, bytes) outcome" where
  "write_message_2 C A s rnd = hbind (s, guard_state Responder Message1Done s) (\<lambda>s _.
    case (hs_remote_ephemeral s, hs_local_epoch s) of
      (Some re, Some epoch) \<Rightarrow>
        hbind (generate_ephemeral C s rnd) (\<lambda>s e.
          let e_pub = serialize C (public_key C e);
              s = hs_mix_hash C s e_pub;
              s = hs_mix_key C A s (ecdh C e re);
              s = hs_mix_key C A s (ecdh C (hs_static s) re) in
          hbind (absorb s (encrypt_and_hash C A (hs_symmetric s) epoch)) (\<lambda>s encrypted_epoch.
            (s\<lparr> hs_progress := Complete \<rparr>, Ok (e_pub @ encrypted_epoch))))
    | _ \<Rightarrow> (s, Panic))"

definition read_message_2 ::
  "('s, 'p) curve \<Rightarrow> 'k aead \<Rightarrow> ('s, 'p, 'k) handshake_state \<Rightarrow> bytes \<Rightarrow> ('s, 'p, 'k) handshake_state \<times> (noise_error, unit) outcome" where
  "read_message_2 C A s message = hbind (s, guard_message Initiator Message1Done HANDSHAKE_MSG2_SIZE s message) (\<lambda>s _.
    case public_from_slice C (take PUBKEY_SIZE message) of
      None \<Rightarrow> (s, Err InvalidPublicKey)
    | Some re \<Rightarrow>
        (let s = hs_mix_hash C (s\<lparr> hs_remote_ephemeral := Some re \<rparr>) (take PUBKEY_SIZE message) in
         case hs_ephemeral s of
           None \<Rightarrow> (s, Panic)
         | Some e \<Rightarrow>
             (let s = hs_mix_key C A s (ecdh C e re) in
              case hs_remote_static s of
                None \<Rightarrow> (s, Panic)
              | Some rs \<Rightarrow>
                  (let s = hs_mix_key C A s (ecdh C e rs) in
                   hbind (absorb s (decrypt_and_hash C A (hs_symmetric s) (drop PUBKEY_SIZE message))) (\<lambda>s decrypted_epoch.
                     hbind (copy_epoch s decrypted_epoch) (\<lambda>s _.
                       (s\<lparr> hs_progress := Complete \<rparr>, Ok ())))))))"

text \<open>The transactional wrappers put a clone of the symmetric state back.\<close>

definition try_read_message_2 ::
  "('s, 'p) curve \<Rightarrow> 'k aead \<Rightarrow> ('s, 'p, 'k) handshake_state \<Rightarrow> bytes \<Rightarrow> ('s, 'p, 'k) handshake_state \<times> (noise_error, unit) outcome" where
  "try_read_message_2 C A s message = (case read_message_2 C A s message of
     (s', Err e) \<Rightarrow> (s'\<lparr> hs_symmetric := symmetric_clone A (hs_symmetric s), hs_remote_ephemeral := hs_remote_ephemeral s,
        hs_remote_epoch := hs_remote_epoch s, hs_progress := hs_progress s \<rparr>, Err e)
   | r \<Rightarrow> r)"

section \<open>XK messages\<close>

definition write_xk_message_1 ::
  "('s, 'p) curve \<Rightarrow> 'k aead \<Rightarrow> ('s, 'p, 'k) handshake_state \<Rightarrow> bytes \<Rightarrow> ('s, 'p, 'k) handshake_state \<times> (noise_error, bytes) outcome" where
  "write_xk_message_1 C A s rnd = hbind (s, guard_state Initiator Initial s) (\<lambda>s _.
    case hs_remote_static s of
      None \<Rightarrow> (s, Panic)
    | Some remote \<Rightarrow>
        hbind (generate_ephemeral C s rnd) (\<lambda>s e.
          let e_pub = serialize C (public_key C e);
              s = hs_mix_hash C s e_pub;
              s = hs_mix_key C A s (ecdh C e remote) in
          (s\<lparr> hs_progress := Message1Done \<rparr>, Ok e_pub)))"

definition read_xk_message_1 ::
  "('s, 'p) curve \<Rightarrow> 'k aead \<Rightarrow> ('s, 'p, 'k) handshake_state \<Rightarrow> bytes \<Rightarrow> ('s, 'p, 'k) handshake_state \<times> (noise_error, unit) outcome" where
  "read_xk_message_1 C A s message = hbind (s, guard_message Responder Initial XK_HANDSHAKE_MSG1_SIZE s message) (\<lambda>s _.
    case public_from_slice C (take PUBKEY_SIZE message) of
      None \<Rightarrow> (s, Err InvalidPublicKey)
    | Some re \<Rightarrow>
        (let s = hs_mix_hash C (s\<lparr> hs_remote_ephemeral := Some re \<rparr>) (take PUBKEY_SIZE message);
             s = hs_mix_key C A s (ecdh C (hs_static s) re) in
         (s\<lparr> hs_progress := Message1Done \<rparr>, Ok ())))"

definition write_xk_message_2 ::
  "('s, 'p) curve \<Rightarrow> 'k aead \<Rightarrow> ('s, 'p, 'k) handshake_state \<Rightarrow> bytes \<Rightarrow> ('s, 'p, 'k) handshake_state \<times> (noise_error, bytes) outcome" where
  "write_xk_message_2 C A s rnd = hbind (s, guard_state Responder Message1Done s) (\<lambda>s _.
    case (hs_remote_ephemeral s, hs_local_epoch s) of
      (Some re, Some epoch) \<Rightarrow>
        hbind (generate_ephemeral C s rnd) (\<lambda>s e.
          let e_pub = serialize C (public_key C e);
              s = hs_mix_hash C s e_pub;
              s = hs_mix_key C A s (ecdh C e re) in
          hbind (absorb s (encrypt_and_hash C A (hs_symmetric s) epoch)) (\<lambda>s encrypted_epoch.
            (s\<lparr> hs_progress := Message2Done \<rparr>, Ok (e_pub @ encrypted_epoch))))
    | _ \<Rightarrow> (s, Panic))"

definition read_xk_message_2 ::
  "('s, 'p) curve \<Rightarrow> 'k aead \<Rightarrow> ('s, 'p, 'k) handshake_state \<Rightarrow> bytes \<Rightarrow> ('s, 'p, 'k) handshake_state \<times> (noise_error, unit) outcome" where
  "read_xk_message_2 C A s message = hbind (s, guard_message Initiator Message1Done XK_HANDSHAKE_MSG2_SIZE s message) (\<lambda>s _.
    case public_from_slice C (take PUBKEY_SIZE message) of
      None \<Rightarrow> (s, Err InvalidPublicKey)
    | Some re \<Rightarrow>
        (let s = hs_mix_hash C (s\<lparr> hs_remote_ephemeral := Some re \<rparr>) (take PUBKEY_SIZE message) in
         case hs_ephemeral s of
           None \<Rightarrow> (s, Panic)
         | Some e \<Rightarrow>
             (let s = hs_mix_key C A s (ecdh C e re) in
              hbind (absorb s (decrypt_and_hash C A (hs_symmetric s) (drop PUBKEY_SIZE message))) (\<lambda>s decrypted_epoch.
                hbind (copy_epoch s decrypted_epoch) (\<lambda>s _.
                  (s\<lparr> hs_progress := Message2Done \<rparr>, Ok ()))))))"

definition try_read_xk_message_2 ::
  "('s, 'p) curve \<Rightarrow> 'k aead \<Rightarrow> ('s, 'p, 'k) handshake_state \<Rightarrow> bytes \<Rightarrow> ('s, 'p, 'k) handshake_state \<times> (noise_error, unit) outcome" where
  "try_read_xk_message_2 C A s message = (case read_xk_message_2 C A s message of
     (s', Err e) \<Rightarrow> (s'\<lparr> hs_symmetric := symmetric_clone A (hs_symmetric s), hs_remote_ephemeral := hs_remote_ephemeral s,
        hs_remote_epoch := hs_remote_epoch s, hs_progress := hs_progress s \<rparr>, Err e)
   | r \<Rightarrow> r)"

definition write_xk_message_3 ::
  "('s, 'p) curve \<Rightarrow> 'k aead \<Rightarrow> ('s, 'p, 'k) handshake_state \<Rightarrow> ('s, 'p, 'k) handshake_state \<times> (noise_error, bytes) outcome" where
  "write_xk_message_3 C A s = hbind (s, guard_state Initiator Message2Done s) (\<lambda>s _.
    case (hs_remote_ephemeral s, hs_local_epoch s) of
      (Some re, Some epoch) \<Rightarrow>
        hbind (absorb s (encrypt_and_hash C A (hs_symmetric s) (serialize C (public_key C (hs_static s))))) (\<lambda>s encrypted_static.
          let s = hs_mix_key C A s (ecdh C (hs_static s) re) in
          hbind (absorb s (encrypt_and_hash C A (hs_symmetric s) epoch)) (\<lambda>s encrypted_epoch.
            (s\<lparr> hs_progress := Complete \<rparr>, Ok (encrypted_static @ encrypted_epoch))))
    | _ \<Rightarrow> (s, Panic))"

definition read_xk_message_3_in_place ::
  "('s, 'p) curve \<Rightarrow> 'k aead \<Rightarrow> ('s, 'p, 'k) handshake_state \<Rightarrow> bytes \<Rightarrow> ('s, 'p, 'k) handshake_state \<times> (noise_error, unit) outcome" where
  "read_xk_message_3_in_place C A s message = hbind (s, guard_message Responder Message2Done XK_HANDSHAKE_MSG3_SIZE s message) (\<lambda>s _.
    let static_end = PUBKEY_SIZE + TAG_SIZE in
    hbind (absorb s (decrypt_and_hash C A (hs_symmetric s) (take static_end message))) (\<lambda>s decrypted_static.
      case public_from_slice C decrypted_static of
        None \<Rightarrow> (s, Err InvalidPublicKey)
      | Some rs \<Rightarrow>
          (let s = s\<lparr> hs_remote_static := Some rs \<rparr> in
           case hs_ephemeral s of
             None \<Rightarrow> (s, Panic)
           | Some e \<Rightarrow>
               (let s = hs_mix_key C A s (ecdh C e rs) in
                hbind (absorb s (decrypt_and_hash C A (hs_symmetric s) (drop static_end message))) (\<lambda>s decrypted_epoch.
                  hbind (copy_epoch s decrypted_epoch) (\<lambda>s _.
                    (s\<lparr> hs_progress := Complete \<rparr>, Ok ())))))))"

definition read_xk_message_3 ::
  "('s, 'p) curve \<Rightarrow> 'k aead \<Rightarrow> ('s, 'p, 'k) handshake_state \<Rightarrow> bytes \<Rightarrow> ('s, 'p, 'k) handshake_state \<times> (noise_error, unit) outcome" where
  "read_xk_message_3 C A s message = (case read_xk_message_3_in_place C A s message of
     (s', Err e) \<Rightarrow> (s'\<lparr> hs_symmetric := symmetric_clone A (hs_symmetric s), hs_progress := hs_progress s,
        hs_remote_static := hs_remote_static s, hs_remote_epoch := hs_remote_epoch s \<rparr>, Err e)
   | r \<Rightarrow> r)"

section \<open>Transition to transport\<close>

definition into_session ::
  "('s, 'p) curve \<Rightarrow> 'k aead \<Rightarrow> ('s, 'p, 'k) handshake_state \<Rightarrow> (noise_error, 'k noise_session) outcome" where
  "into_session C A s =
    (if \<not> is_complete s then Err HandshakeNotComplete
     else case split_ciphers C A (hs_symmetric s) of (c1, c2) \<Rightarrow>
       (case (hs_remote_static s, hs_remote_epoch s) of
          (Some remote, Some epoch) \<Rightarrow>
            (case (case hs_role s of Initiator \<Rightarrow> (c1, c2) | Responder \<Rightarrow> (c2, c1)) of (send_c, recv_c) \<Rightarrow>
               Ok (from_handshake (hs_role s) send_c recv_c (sym_h (hs_symmetric s)) (serialize C remote) epoch))
        | _ \<Rightarrow> Panic))"

section \<open>What the primitives promise\<close>

text \<open>Documented behaviour of the packages: HKDF fills the 64 bytes asked for, a compressed public key has 33
  bytes and parses back, Diffie-Hellman commutes and its x coordinate does not depend on the parity of the
  public key, and the AEAD takes every 32-byte key and every message within the size limit.\<close>

definition curve_contract :: "('s, 'p) curve \<Rightarrow> bool" where
  "curve_contract C \<longleftrightarrow>
     (\<forall>salt ikm. length (hkdf64 C salt ikm) = 64) \<and>
     (\<forall>p. length (serialize C p) = 33 \<and> public_from_slice C (serialize C p) = Some p) \<and>
     (\<forall>a b. take 32 (shared_secret_point C (public_key C a) b) = take 32 (shared_secret_point C (public_key C b) a)) \<and>
     (\<forall>p q s. tl (serialize C p) = tl (serialize C q) \<longrightarrow>
        take 32 (shared_secret_point C p s) = take 32 (shared_secret_point C q s))"

definition aead_available :: "'k aead \<Rightarrow> bool" where
  "aead_available A \<longleftrightarrow> aead_contract A \<and> (\<forall>k. length k = 32 \<longrightarrow> less_safe_key A k \<noteq> None) \<and>
     (\<forall>k n aad p. length p \<le> MAX_MESSAGE_SIZE - TAG_SIZE \<longrightarrow> seal_in_place A k n aad p \<noteq> None)"

section \<open>Synchronised symmetric states\<close>

text \<open>Two symmetric states are in step when they hold the same chaining key and the same cipher. The
  handshake hash is kept apart: it is the hash of the transcript each side saw.\<close>

definition synced :: "'k symmetric_state \<Rightarrow> 'k symmetric_state \<Rightarrow> bool" where
  "synced y z \<longleftrightarrow> sym_ck y = sym_ck z \<and> sym_cipher y = sym_cipher z"

definition keyed :: "u64 \<Rightarrow> 'k symmetric_state \<Rightarrow> bool" where
  "keyed n y \<longleftrightarrow> has_key (sym_cipher y) \<and> cipher (sym_cipher y) \<noteq> None \<and> nonce (sym_cipher y) = n"

definition transcript :: "('s, 'p) curve \<Rightarrow> bytes \<Rightarrow> bytes list \<Rightarrow> bytes" where
  "transcript C h0 ds = foldl (\<lambda>h d. sha256 C (h @ d)) h0 ds"

lemma transcript_simps [simp]:
  "transcript C h0 [] = h0" "transcript C h0 (d # ds) = transcript C (sha256 C (h0 @ d)) ds"
  by (simp_all add: transcript_def)

lemma ecdh_agree:
  assumes "curve_contract C" "tl (serialize C p) = tl (serialize C (public_key C b))"
    and "tl (serialize C q) = tl (serialize C (public_key C a))"
  shows "ecdh C a p = ecdh C b q"
  using assms unfolding curve_contract_def ecdh_def by metis

lemma synced_mix:
  assumes "synced y z"
  shows "synced (mix_hash C y d) (mix_hash C z d')" "synced (mix_key C A y k) (mix_key C A z k)"
  using assms by (simp_all add: synced_def mix_hash_def mix_key_def Let_def)

lemma sym_h_mix [simp]:
  "sym_h (mix_hash C y d) = sha256 C (sym_h y @ d)" "sym_h (mix_key C A y k) = sym_h y"
  by (simp_all add: mix_hash_def mix_key_def Let_def)

lemma keyed_mix_key:
  assumes "curve_contract C" "aead_available A"
  shows "keyed 0 (mix_key C A y k)"
  using assms
  by (simp add: curve_contract_def aead_available_def keyed_def mix_key_def initialize_key_def build_cipher_def Let_def)

lemma keyed_synced: "synced y z \<Longrightarrow> keyed n y \<longleftrightarrow> keyed n z"
  by (simp add: synced_def keyed_def)

text \<open>What one side encrypts, the other side decrypts, and they stay in step.\<close>

lemma encrypt_decrypt_synced:
  assumes A: "aead_available A" and "synced y z" "keyed n y" "n \<noteq> - 1" "length p \<le> MAX_MESSAGE_SIZE - TAG_SIZE"
  obtains ct y' z' where "encrypt_and_hash C A y p = (y', Ok ct)" "decrypt_and_hash C A z ct = (z', Ok p)"
    "length ct = length p + TAG_SIZE" "synced y' z'" "keyed (n + 1) y'"
    "sym_h y' = sha256 C (sym_h y @ ct)" "sym_h z' = sha256 C (sym_h z @ ct)"
proof -
  obtain k where k: "cipher (sym_cipher y) = Some k" using assms(3) by (auto simp: keyed_def)
  obtain ct where ct: "seal_in_place A k (counter_to_nonce n) [] p = Some ct"
    using A assms(5) unfolding aead_available_def by blast
  then have op: "open_in_place_fn A k (counter_to_nonce n) [] ct = Some p" "length ct = length p + TAG_SIZE"
    using A by (auto simp: aead_available_def aead_contract_def)
  let ?c = "(sym_cipher y)\<lparr> nonce := n + 1 \<rparr>"
  have "encrypt_and_hash C A y p = (mix_hash C (y\<lparr> sym_cipher := ?c \<rparr>) ct, Ok ct)"
    using assms k ct by (simp add: encrypt_and_hash_def cipher_encrypt_def keyed_def advance_nonce_def seal_def)
  moreover have "decrypt_and_hash C A z ct = (mix_hash C (z\<lparr> sym_cipher := ?c \<rparr>) ct, Ok p)"
    using assms k op
    by (simp add: decrypt_and_hash_def cipher_decrypt_def keyed_def synced_def advance_nonce_def open_aead_def)
  ultimately show ?thesis
    using that [OF _ _ op(2)] assms(2,3) k by (simp add: mix_hash_def synced_def keyed_def)
qed

lemma small_message: "length p \<le> 33 \<Longrightarrow> length p \<le> MAX_MESSAGE_SIZE - TAG_SIZE"
  by (simp add: MAX_MESSAGE_SIZE_def TAG_SIZE_def)

lemmas encrypt_decrypt_mixed = encrypt_decrypt_synced [OF _ _ keyed_mix_key _ small_message]

section \<open>Message exchanges\<close>

lemmas handshake_defs = guard_state_def guard_message_def hbind_def generate_ephemeral_def absorb_def
  hs_mix_hash_def hs_mix_key_def copy_epoch_def Let_def

text \<open>Each lemma runs one message between states in step. The ephemeral key may arrive with another parity
  byte (\<open>qb\<close>, parsed as \<open>q\<close>): everything but the transcript is the same.\<close>

lemma ik_message_1:
  assumes C: "curve_contract C" and A: "aead_available A" and e: "secret_from_slice C rnd = Some e"
    and i: "hs_role i = Initiator" "hs_progress i = Initial" "hs_remote_static i = Some rs" "hs_local_epoch i = Some ep"
    and ep: "length ep = 8"
    and r: "hs_role r = Responder" "hs_progress r = Initial"
    and rs: "tl (serialize C rs) = tl (serialize C (public_key C (hs_static r)))"
    and sync: "synced (hs_symmetric i) (hs_symmetric r)"
    and q: "public_from_slice C qb = Some q" "length qb = 33" "tl (serialize C q) = tl (serialize C (public_key C e))"
  obtains y z c1 c2 where
    "write_message_1 C A i rnd =
       (i\<lparr> hs_symmetric := y, hs_ephemeral := Some e, hs_progress := Message1Done \<rparr>, Ok (serialize C (public_key C e) @ c1 @ c2))"
    "read_message_1 C A r (qb @ c1 @ c2) =
       (r\<lparr> hs_symmetric := z, hs_remote_ephemeral := Some q, hs_remote_static := Some (public_key C (hs_static i)),
           hs_remote_epoch := Some ep, hs_progress := Message1Done \<rparr>, Ok ())"
    "synced y z"
    "sym_h y = transcript C (sym_h (hs_symmetric i)) [serialize C (public_key C e), c1, c2]"
    "sym_h z = transcript C (sym_h (hs_symmetric r)) [qb, c1, c2]"
proof -
  let ?E = "serialize C (public_key C e)"
  let ?S = "serialize C (public_key C (hs_static i))"
  let ?y = "mix_key C A (mix_hash C (hs_symmetric i) ?E) (ecdh C e rs)"
  let ?z = "mix_key C A (mix_hash C (hs_symmetric r) qb) (ecdh C (hs_static r) q)"
  have S: "length ?S = 33" "public_from_slice C ?S = Some (public_key C (hs_static i))"
    using C by (auto simp: curve_contract_def)
  have "synced ?y ?z"
    using ecdh_agree [OF C rs q(3)] sync by (simp add: synced_mix)
  then obtain c1 y1 z1 where 1: "encrypt_and_hash C A ?y ?S = (y1, Ok c1)" "decrypt_and_hash C A ?z c1 = (z1, Ok ?S)"
    "length c1 = length ?S + TAG_SIZE" "synced y1 z1" "sym_h y1 = sha256 C (sym_h ?y @ c1)" "sym_h z1 = sha256 C (sym_h ?z @ c1)"
    using S by (auto intro: encrypt_decrypt_mixed [OF A _ C A, where p = ?S and C = C])
  let ?ss = "ecdh C (hs_static i) rs" and ?ss' = "ecdh C (hs_static r) (public_key C (hs_static i))"
  have "synced (mix_key C A y1 ?ss) (mix_key C A z1 ?ss')"
    using ecdh_agree [OF C rs, of "public_key C (hs_static i)"] 1(4) by (simp add: synced_mix)
  then obtain c2 y2 z2 where 2: "encrypt_and_hash C A (mix_key C A y1 ?ss) ep = (y2, Ok c2)"
    "decrypt_and_hash C A (mix_key C A z1 ?ss') c2 = (z2, Ok ep)" "length c2 = length ep + TAG_SIZE" "synced y2 z2"
    "sym_h y2 = sha256 C (sym_h (mix_key C A y1 ?ss) @ c2)" "sym_h z2 = sha256 C (sym_h (mix_key C A z1 ?ss') @ c2)"
    using ep by (auto intro: encrypt_decrypt_mixed [OF A _ C A, where p = ep and C = C])
  show ?thesis
  proof (rule that [of y2 c1 c2 z2])
    show "write_message_1 C A i rnd = (i\<lparr> hs_symmetric := y2, hs_ephemeral := Some e, hs_progress := Message1Done \<rparr>, Ok (?E @ c1 @ c2))"
      using i e 1(1) 2(1) by (simp add: write_message_1_def handshake_defs)
    show "read_message_1 C A r (qb @ c1 @ c2) =
       (r\<lparr> hs_symmetric := z2, hs_remote_ephemeral := Some q, hs_remote_static := Some (public_key C (hs_static i)),
           hs_remote_epoch := Some ep, hs_progress := Message1Done \<rparr>, Ok ())"
      using r q 1(2,3) 2(2,3) S ep by (simp add: read_message_1_def handshake_defs handshake_sizes)
  qed (use 1 2 sync in \<open>simp_all add: synced_mix\<close>)
qed

lemma ik_message_2:
  assumes C: "curve_contract C" and A: "aead_available A" and e: "secret_from_slice C rnd = Some e"
    and r: "hs_role r = Responder" "hs_progress r = Message1Done" "hs_remote_ephemeral r = Some q" "hs_local_epoch r = Some ep"
    and ep: "length ep = 8"
    and i: "hs_role i = Initiator" "hs_progress i = Message1Done" "hs_ephemeral i = Some d" "hs_remote_static i = Some rs"
    and rs: "tl (serialize C rs) = tl (serialize C (public_key C (hs_static r)))"
    and q: "tl (serialize C q) = tl (serialize C (public_key C d))"
    and sync: "synced (hs_symmetric r) (hs_symmetric i)"
  obtains y z c where
    "write_message_2 C A r rnd =
       (r\<lparr> hs_symmetric := y, hs_ephemeral := Some e, hs_progress := Complete \<rparr>, Ok (serialize C (public_key C e) @ c))"
    "read_message_2 C A i (serialize C (public_key C e) @ c) =
       (i\<lparr> hs_symmetric := z, hs_remote_ephemeral := Some (public_key C e), hs_remote_epoch := Some ep, hs_progress := Complete \<rparr>, Ok ())"
    "synced y z"
    "sym_h y = transcript C (sym_h (hs_symmetric r)) [serialize C (public_key C e), c]"
    "sym_h z = transcript C (sym_h (hs_symmetric i)) [serialize C (public_key C e), c]"
proof -
  let ?E = "serialize C (public_key C e)"
  let ?y = "mix_key C A (mix_key C A (mix_hash C (hs_symmetric r) ?E) (ecdh C e q)) (ecdh C (hs_static r) q)"
  let ?z = "mix_key C A (mix_key C A (mix_hash C (hs_symmetric i) ?E) (ecdh C d (public_key C e))) (ecdh C d rs)"
  have E: "length ?E = 33" "public_from_slice C ?E = Some (public_key C e)"
    using C by (auto simp: curve_contract_def)
  have "synced ?y ?z"
    using ecdh_agree [OF C q, of "public_key C e"] ecdh_agree [OF C q rs] sync by (simp add: synced_mix)
  then obtain c y' z' where 1: "encrypt_and_hash C A ?y ep = (y', Ok c)" "decrypt_and_hash C A ?z c = (z', Ok ep)"
    "length c = length ep + TAG_SIZE" "synced y' z'" "sym_h y' = sha256 C (sym_h ?y @ c)" "sym_h z' = sha256 C (sym_h ?z @ c)"
    using ep by (auto intro: encrypt_decrypt_mixed [OF A _ C A, where p = ep and C = C])
  show ?thesis
  proof (rule that [of y' c z'])
    show "write_message_2 C A r rnd = (r\<lparr> hs_symmetric := y', hs_ephemeral := Some e, hs_progress := Complete \<rparr>, Ok (?E @ c))"
      using r e 1(1) by (simp add: write_message_2_def handshake_defs)
    show "read_message_2 C A i (?E @ c) =
       (i\<lparr> hs_symmetric := z', hs_remote_ephemeral := Some (public_key C e), hs_remote_epoch := Some ep, hs_progress := Complete \<rparr>, Ok ())"
      using i E 1(2,3) ep by (simp add: read_message_2_def handshake_defs handshake_sizes)
  qed (use 1 in simp_all)
qed

lemma xk_message_1:
  assumes C: "curve_contract C" and e: "secret_from_slice C rnd = Some e"
    and i: "hs_role i = Initiator" "hs_progress i = Initial" "hs_remote_static i = Some rs"
    and r: "hs_role r = Responder" "hs_progress r = Initial"
    and rs: "tl (serialize C rs) = tl (serialize C (public_key C (hs_static r)))"
    and sync: "synced (hs_symmetric i) (hs_symmetric r)"
  obtains y z where
    "write_xk_message_1 C A i rnd =
       (i\<lparr> hs_symmetric := y, hs_ephemeral := Some e, hs_progress := Message1Done \<rparr>, Ok (serialize C (public_key C e)))"
    "read_xk_message_1 C A r (serialize C (public_key C e)) =
       (r\<lparr> hs_symmetric := z, hs_remote_ephemeral := Some (public_key C e), hs_progress := Message1Done \<rparr>, Ok ())"
    "synced y z"
    "sym_h y = transcript C (sym_h (hs_symmetric i)) [serialize C (public_key C e)]"
    "sym_h z = transcript C (sym_h (hs_symmetric r)) [serialize C (public_key C e)]"
proof -
  let ?E = "serialize C (public_key C e)"
  let ?y = "mix_key C A (mix_hash C (hs_symmetric i) ?E) (ecdh C e rs)"
  let ?z = "mix_key C A (mix_hash C (hs_symmetric r) ?E) (ecdh C (hs_static r) (public_key C e))"
  have E: "length ?E = 33" "public_from_slice C ?E = Some (public_key C e)"
    using C by (auto simp: curve_contract_def)
  show ?thesis
  proof (rule that [of ?y ?z])
    show "synced ?y ?z" using ecdh_agree [OF C rs, of "public_key C e"] sync by (simp add: synced_mix)
  qed (use i r e E in \<open>simp_all add: write_xk_message_1_def read_xk_message_1_def handshake_defs handshake_sizes\<close>)
qed

lemma xk_message_2:
  assumes C: "curve_contract C" and A: "aead_available A" and e: "secret_from_slice C rnd = Some e"
    and r: "hs_role r = Responder" "hs_progress r = Message1Done" "hs_remote_ephemeral r = Some (public_key C d)" "hs_local_epoch r = Some ep"
    and ep: "length ep = 8"
    and i: "hs_role i = Initiator" "hs_progress i = Message1Done" "hs_ephemeral i = Some d"
    and sync: "synced (hs_symmetric r) (hs_symmetric i)"
  obtains y z c where
    "write_xk_message_2 C A r rnd =
       (r\<lparr> hs_symmetric := y, hs_ephemeral := Some e, hs_progress := Message2Done \<rparr>, Ok (serialize C (public_key C e) @ c))"
    "read_xk_message_2 C A i (serialize C (public_key C e) @ c) =
       (i\<lparr> hs_symmetric := z, hs_remote_ephemeral := Some (public_key C e), hs_remote_epoch := Some ep, hs_progress := Message2Done \<rparr>, Ok ())"
    "synced y z" "keyed 1 y"
    "sym_h y = transcript C (sym_h (hs_symmetric r)) [serialize C (public_key C e), c]"
    "sym_h z = transcript C (sym_h (hs_symmetric i)) [serialize C (public_key C e), c]"
proof -
  let ?E = "serialize C (public_key C e)"
  let ?y = "mix_key C A (mix_hash C (hs_symmetric r) ?E) (ecdh C e (public_key C d))"
  let ?z = "mix_key C A (mix_hash C (hs_symmetric i) ?E) (ecdh C d (public_key C e))"
  have E: "length ?E = 33" "public_from_slice C ?E = Some (public_key C e)"
    using C by (auto simp: curve_contract_def)
  have "synced ?y ?z"
    using ecdh_agree [OF C, of "public_key C e" e "public_key C d" d] sync by (simp add: synced_mix)
  then obtain c y' z' where 1: "encrypt_and_hash C A ?y ep = (y', Ok c)" "decrypt_and_hash C A ?z c = (z', Ok ep)"
    "length c = length ep + TAG_SIZE" "synced y' z'" "keyed 1 y'"
    "sym_h y' = sha256 C (sym_h ?y @ c)" "sym_h z' = sha256 C (sym_h ?z @ c)"
    using ep by (auto intro: encrypt_decrypt_mixed [OF A _ C A, where p = ep and C = C])
  show ?thesis
  proof (rule that [of y' c z'])
    show "write_xk_message_2 C A r rnd = (r\<lparr> hs_symmetric := y', hs_ephemeral := Some e, hs_progress := Message2Done \<rparr>, Ok (?E @ c))"
      using r e 1(1) by (simp add: write_xk_message_2_def handshake_defs)
    show "read_xk_message_2 C A i (?E @ c) =
       (i\<lparr> hs_symmetric := z', hs_remote_ephemeral := Some (public_key C e), hs_remote_epoch := Some ep, hs_progress := Message2Done \<rparr>, Ok ())"
      using i E 1(2,3) ep by (simp add: read_xk_message_2_def handshake_defs handshake_sizes)
  qed (use 1 in simp_all)
qed

lemma xk_message_3:
  assumes C: "curve_contract C" and A: "aead_available A"
    and i: "hs_role i = Initiator" "hs_progress i = Message2Done" "hs_remote_ephemeral i = Some (public_key C d)" "hs_local_epoch i = Some ep"
    and ep: "length ep = 8"
    and r: "hs_role r = Responder" "hs_progress r = Message2Done" "hs_ephemeral r = Some d"
    and sync: "synced (hs_symmetric i) (hs_symmetric r)" "keyed 1 (hs_symmetric i)"
  obtains y z c1 c2 where
    "write_xk_message_3 C A i = (i\<lparr> hs_symmetric := y, hs_progress := Complete \<rparr>, Ok (c1 @ c2))"
    "read_xk_message_3 C A r (c1 @ c2) =
       (r\<lparr> hs_symmetric := z, hs_remote_static := Some (public_key C (hs_static i)), hs_remote_epoch := Some ep, hs_progress := Complete \<rparr>, Ok ())"
    "synced y z"
    "sym_h y = transcript C (sym_h (hs_symmetric i)) [c1, c2]"
    "sym_h z = transcript C (sym_h (hs_symmetric r)) [c1, c2]"
proof -
  let ?S = "serialize C (public_key C (hs_static i))"
  have S: "length ?S = 33" "public_from_slice C ?S = Some (public_key C (hs_static i))"
    using C by (auto simp: curve_contract_def)
  then obtain c1 y1 z1 where 1: "encrypt_and_hash C A (hs_symmetric i) ?S = (y1, Ok c1)"
    "decrypt_and_hash C A (hs_symmetric r) c1 = (z1, Ok ?S)" "length c1 = length ?S + TAG_SIZE" "synced y1 z1"
    "sym_h y1 = sha256 C (sym_h (hs_symmetric i) @ c1)" "sym_h z1 = sha256 C (sym_h (hs_symmetric r) @ c1)"
    by (auto intro: encrypt_decrypt_synced [OF A sync _ small_message, where p = ?S and C = C])
  let ?se = "ecdh C (hs_static i) (public_key C d)" and ?se' = "ecdh C d (public_key C (hs_static i))"
  have "synced (mix_key C A y1 ?se) (mix_key C A z1 ?se')"
    using ecdh_agree [OF C, of "public_key C d" d "public_key C (hs_static i)"] 1(4) by (simp add: synced_mix)
  then obtain c2 y2 z2 where 2: "encrypt_and_hash C A (mix_key C A y1 ?se) ep = (y2, Ok c2)"
    "decrypt_and_hash C A (mix_key C A z1 ?se') c2 = (z2, Ok ep)" "length c2 = length ep + TAG_SIZE" "synced y2 z2"
    "sym_h y2 = sha256 C (sym_h (mix_key C A y1 ?se) @ c2)" "sym_h z2 = sha256 C (sym_h (mix_key C A z1 ?se') @ c2)"
    using ep by (auto intro: encrypt_decrypt_mixed [OF A _ C A, where p = ep and C = C])
  show ?thesis
  proof (rule that [of y2 c1 c2 z2])
    show "write_xk_message_3 C A i = (i\<lparr> hs_symmetric := y2, hs_progress := Complete \<rparr>, Ok (c1 @ c2))"
      using i 1(1) 2(1) by (simp add: write_xk_message_3_def handshake_defs)
    show "read_xk_message_3 C A r (c1 @ c2) =
       (r\<lparr> hs_symmetric := z2, hs_remote_static := Some (public_key C (hs_static i)), hs_remote_epoch := Some ep, hs_progress := Complete \<rparr>, Ok ())"
      using r 1(2,3) 2(2,3) S ep
      by (simp add: read_xk_message_3_def read_xk_message_3_in_place_def handshake_defs handshake_sizes)
  qed (use 1 2 in simp_all)
qed

section \<open>State machines of the two patterns\<close>

datatype ik_op = IkEpoch bytes | IkWrite1 bytes | IkRead1 bytes | IkWrite2 bytes | IkRead2 bytes | IkTryRead2 bytes

fun ik_step :: "('s, 'p) curve \<Rightarrow> 'k aead \<Rightarrow> ('s, 'p, 'k) handshake_state \<Rightarrow> ik_op \<Rightarrow> ('s, 'p, 'k) handshake_state" where
  "ik_step C A s (IkEpoch ep) = set_local_epoch s ep"
| "ik_step C A s (IkWrite1 rnd) = fst (write_message_1 C A s rnd)"
| "ik_step C A s (IkRead1 m) = fst (read_message_1 C A s m)"
| "ik_step C A s (IkWrite2 rnd) = fst (write_message_2 C A s rnd)"
| "ik_step C A s (IkRead2 m) = fst (read_message_2 C A s m)"
| "ik_step C A s (IkTryRead2 m) = fst (try_read_message_2 C A s m)"

datatype xk_op = XkEpoch bytes | XkWrite1 bytes | XkRead1 bytes | XkWrite2 bytes | XkRead2 bytes | XkTryRead2 bytes | XkWrite3 | XkRead3 bytes

fun xk_step :: "('s, 'p) curve \<Rightarrow> 'k aead \<Rightarrow> ('s, 'p, 'k) handshake_state \<Rightarrow> xk_op \<Rightarrow> ('s, 'p, 'k) handshake_state" where
  "xk_step C A s (XkEpoch ep) = set_local_epoch s ep"
| "xk_step C A s (XkWrite1 rnd) = fst (write_xk_message_1 C A s rnd)"
| "xk_step C A s (XkRead1 m) = fst (read_xk_message_1 C A s m)"
| "xk_step C A s (XkWrite2 rnd) = fst (write_xk_message_2 C A s rnd)"
| "xk_step C A s (XkRead2 m) = fst (read_xk_message_2 C A s m)"
| "xk_step C A s (XkTryRead2 m) = fst (try_read_xk_message_2 C A s m)"
| "xk_step C A s XkWrite3 = fst (write_xk_message_3 C A s)"
| "xk_step C A s (XkRead3 m) = fst (read_xk_message_3 C A s m)"

text \<open>The cached cipher is the one the retained key builds, so a clone is the state itself.\<close>

definition cipher_cached :: "'k aead \<Rightarrow> ('s, 'p, 'k) handshake_state \<Rightarrow> bool" where
  "cipher_cached A s \<longleftrightarrow> clone A (sym_cipher (hs_symmetric s)) = sym_cipher (hs_symmetric s)"

text \<open>What the progress of a handshake guarantees about the keys and epochs it has learned.\<close>

definition ik_inv :: "'k aead \<Rightarrow> ('s, 'p, 'k) handshake_state \<Rightarrow> bool" where
  "ik_inv A s \<longleftrightarrow> cipher_cached A s \<and>
    (if hs_role s = Initiator then hs_remote_static s \<noteq> None \<and> (hs_progress s = Complete \<longrightarrow> hs_remote_epoch s \<noteq> None)
     else hs_progress s \<noteq> Initial \<longrightarrow> hs_remote_static s \<noteq> None \<and> hs_remote_epoch s \<noteq> None)"

definition xk_inv :: "'k aead \<Rightarrow> ('s, 'p, 'k) handshake_state \<Rightarrow> bool" where
  "xk_inv A s \<longleftrightarrow> cipher_cached A s \<and>
    (if hs_role s = Initiator
     then hs_remote_static s \<noteq> None \<and> (hs_progress s \<in> {Message2Done, Complete} \<longrightarrow> hs_remote_epoch s \<noteq> None)
     else hs_progress s = Complete \<longrightarrow> hs_remote_static s \<noteq> None \<and> hs_remote_epoch s \<noteq> None)"

lemma clone_cached: "cipher c = (if has_key c then build_cipher A (key c) else None) \<longleftrightarrow> clone A c = c"
  by (cases c) (auto simp: clone_def)

lemma cached_symmetric:
  assumes "clone A (sym_cipher y) = sym_cipher y"
  shows "symmetric_clone A y = y"
    "clone A (sym_cipher (mix_hash C y d)) = sym_cipher (mix_hash C y d)"
    "clone A (sym_cipher (mix_key C A y k)) = sym_cipher (mix_key C A y k)"
    "encrypt_and_hash C A y p = (y', r) \<Longrightarrow> clone A (sym_cipher y') = sym_cipher y'"
    "decrypt_and_hash C A y p = (y', r') \<Longrightarrow> clone A (sym_cipher y') = sym_cipher y'"
  using assms
  by (auto simp: symmetric_clone_def mix_hash_def mix_key_def Let_def initialize_key_def clone_cached [symmetric]
      encrypt_and_hash_def decrypt_and_hash_def cipher_encrypt_def cipher_decrypt_def advance_nonce_def
      split: if_splits outcome.splits)

lemma hbind_inv:
  assumes "P (fst sr)" "\<And>s a. sr = (s, Ok a) \<Longrightarrow> P s \<Longrightarrow> P (fst (f s a))"
  shows "P (fst (hbind sr f))"
  using assms by (cases sr) (auto simp: hbind_def split: outcome.splits)

lemma absorb_inv:
  assumes "\<And>y r. yr = (y, r) \<Longrightarrow> P (s\<lparr> hs_symmetric := y \<rparr>)"
  shows "P (fst (absorb s yr))"
  using assms by (cases yr) (simp add: absorb_def)

lemmas message_defs = write_message_1_def read_message_1_def write_message_2_def read_message_2_def
  write_xk_message_1_def read_xk_message_1_def write_xk_message_2_def read_xk_message_2_def
  write_xk_message_3_def read_xk_message_3_in_place_def

lemma cached_primitives:
  assumes "cipher_cached A s"
  shows "cipher_cached A (hs_mix_hash C s d)" "cipher_cached A (hs_mix_key C A s k)"
    "cipher_cached A (fst (absorb s (encrypt_and_hash C A (hs_symmetric s) p)))"
    "cipher_cached A (fst (absorb s (decrypt_and_hash C A (hs_symmetric s) p)))"
    "cipher_cached A (fst (generate_ephemeral C s rnd))" "cipher_cached A (fst (copy_epoch s ep))"
    "cipher_cached A (s\<lparr> hs_progress := pr \<rparr>)" "cipher_cached A (s\<lparr> hs_remote_ephemeral := re \<rparr>)"
    "cipher_cached A (s\<lparr> hs_remote_static := rs \<rparr>)" "cipher_cached A (set_local_epoch s ep)"
  using assms cached_symmetric(4,5) [of A "hs_symmetric s"]
  by (auto simp: cipher_cached_def hs_mix_hash_def hs_mix_key_def absorb_def generate_ephemeral_def copy_epoch_def
      cached_symmetric(2,3) set_local_epoch_def split: prod.split option.split)

lemmas cached_intros = cached_primitives hbind_inv [where P = "cipher_cached A" for A]

lemma cipher_cached_messages:
  assumes "cipher_cached A s"
  shows "cipher_cached A (fst (write_message_1 C A s m))" "cipher_cached A (fst (read_message_1 C A s m))"
    "cipher_cached A (fst (write_message_2 C A s m))" "cipher_cached A (fst (read_message_2 C A s m))"
    "cipher_cached A (fst (write_xk_message_1 C A s m))" "cipher_cached A (fst (read_xk_message_1 C A s m))"
    "cipher_cached A (fst (write_xk_message_2 C A s m))" "cipher_cached A (fst (read_xk_message_2 C A s m))"
    "cipher_cached A (fst (write_xk_message_3 C A s))" "cipher_cached A (fst (read_xk_message_3_in_place C A s m))"
  using assms unfolding message_defs Let_def
  by (auto intro!: cached_intros split: option.split)

text \<open>What a message operation does to the role, the progress and the knowledge of the remote side: it
  leaves the progress alone, or it succeeds from the state its guard asks for.\<close>

definition grows :: "('s, 'p, 'k) handshake_state \<Rightarrow> ('s, 'p, 'k) handshake_state \<Rightarrow> bool" where
  "grows s s' \<longleftrightarrow> hs_role s' = hs_role s \<and> (hs_remote_static s \<noteq> None \<longrightarrow> hs_remote_static s' \<noteq> None) \<and>
     (hs_remote_epoch s \<noteq> None \<longrightarrow> hs_remote_epoch s' \<noteq> None)"

definition advances :: "handshake_role \<Rightarrow> handshake_progress \<Rightarrow> handshake_progress \<Rightarrow>
    ('s, 'p, 'k) handshake_state \<Rightarrow> ('s, 'p, 'k) handshake_state \<Rightarrow> bool" where
  "advances r p p' s s' \<longleftrightarrow> grows s s' \<and>
     (hs_progress s' = hs_progress s \<or> hs_role s = r \<and> hs_progress s = p \<and> hs_progress s' = p')"

lemma writers_advance:
  "advances Initiator Initial Message1Done s (fst (write_message_1 C A s m))"
  "advances Responder Message1Done Complete s (fst (write_message_2 C A s m))"
  "advances Initiator Initial Message1Done s (fst (write_xk_message_1 C A s m))"
  "advances Responder Message1Done Message2Done s (fst (write_xk_message_2 C A s m))"
  "advances Initiator Message2Done Complete s (fst (write_xk_message_3 C A s))"
  by (auto simp: message_defs handshake_defs advances_def grows_def split: option.split prod.split outcome.split if_splits)

lemma readers_advance:
  "advances Responder Initial Message1Done s (fst (read_message_1 C A s m))"
  "advances Initiator Message1Done Complete s (fst (read_message_2 C A s m))"
  "advances Responder Initial Message1Done s (fst (read_xk_message_1 C A s m))"
  "advances Initiator Message1Done Message2Done s (fst (read_xk_message_2 C A s m))"
  "advances Responder Message2Done Complete s (fst (read_xk_message_3_in_place C A s m))"
  by (auto simp: message_defs handshake_defs advances_def grows_def split: option.split prod.split outcome.split if_splits)

lemma readers_learn:
  "hs_progress (fst (read_message_1 C A s m)) = hs_progress s \<or>
     hs_remote_static (fst (read_message_1 C A s m)) \<noteq> None \<and> hs_remote_epoch (fst (read_message_1 C A s m)) \<noteq> None"
  "hs_progress (fst (read_message_2 C A s m)) = hs_progress s \<or> hs_remote_epoch (fst (read_message_2 C A s m)) \<noteq> None"
  "hs_progress (fst (read_xk_message_2 C A s m)) = hs_progress s \<or> hs_remote_epoch (fst (read_xk_message_2 C A s m)) \<noteq> None"
  "hs_progress (fst (read_xk_message_3_in_place C A s m)) = hs_progress s \<or>
     hs_remote_static (fst (read_xk_message_3_in_place C A s m)) \<noteq> None \<and>
     hs_remote_epoch (fst (read_xk_message_3_in_place C A s m)) \<noteq> None"
  by (simp_all add: message_defs handshake_defs split: option.split prod.split outcome.split)

text \<open>A transactional reader that fails changes nothing.\<close>

definition same_identity :: "('s, 'p, 'k) handshake_state \<Rightarrow> ('s, 'p, 'k) handshake_state \<Rightarrow> bool" where
  "same_identity s s' \<longleftrightarrow> hs_pattern s' = hs_pattern s \<and> hs_role s' = hs_role s \<and> hs_static s' = hs_static s \<and>
     hs_ephemeral s' = hs_ephemeral s \<and> hs_local_epoch s' = hs_local_epoch s"

lemma readers_frame:
  "same_identity s (fst (read_message_2 C A s m)) \<and> hs_remote_static (fst (read_message_2 C A s m)) = hs_remote_static s"
  "same_identity s (fst (read_xk_message_2 C A s m)) \<and> hs_remote_static (fst (read_xk_message_2 C A s m)) = hs_remote_static s"
  "same_identity s (fst (read_xk_message_3_in_place C A s m)) \<and>
     hs_remote_ephemeral (fst (read_xk_message_3_in_place C A s m)) = hs_remote_ephemeral s"
  by (auto simp: message_defs handshake_defs same_identity_def split: option.split prod.split outcome.split)

lemma try_readers_keep:
  assumes "cipher_cached A s"
  shows "try_read_message_2 C A s m = (s', Err e) \<Longrightarrow> s' = s"
    "try_read_xk_message_2 C A s m = (s', Err e) \<Longrightarrow> s' = s"
    "read_xk_message_3 C A s m = (s', Err e) \<Longrightarrow> s' = s"
  using assms readers_frame [of s C A m]
  by (auto simp: try_read_message_2_def try_read_xk_message_2_def read_xk_message_3_def same_identity_def
      cipher_cached_def cached_symmetric(1) split: prod.splits outcome.splits intro!: handshake_state.equality)

lemma try_readers_result:
  assumes "cipher_cached A s"
  shows "fst (try_read_message_2 C A s m) \<in> {s, fst (read_message_2 C A s m)}"
    "fst (try_read_xk_message_2 C A s m) \<in> {s, fst (read_xk_message_2 C A s m)}"
    "fst (read_xk_message_3 C A s m) \<in> {s, fst (read_xk_message_3_in_place C A s m)}"
  using try_readers_keep [OF assms, of C m]
  by (auto simp: try_read_message_2_def try_read_xk_message_2_def read_xk_message_3_def split: prod.split outcome.split)

interpretation ik_machine: invariant_machine "ik_inv A" "ik_step C A" for C :: "('s, 'p) curve" and A :: "'k aead"
proof
  fix s :: "('s, 'p, 'k) handshake_state" and op assume inv: "ik_inv A s"
  then have cached: "cipher_cached A s" by (simp add: ik_inv_def)
  have r2: "ik_inv A (fst (read_message_2 C A s m))" for m
    using inv readers_advance(2) [of s C A m] readers_learn(2) [of C A s m] cipher_cached_messages(4) [OF cached, of C m]
    by (auto simp: ik_inv_def advances_def grows_def)
  show "ik_inv A (ik_step C A s op)"
  proof (cases op)
    case (IkEpoch ep)
    then show ?thesis using inv by (simp add: ik_inv_def set_local_epoch_def cipher_cached_def)
  next
    case (IkWrite1 rnd)
    then show ?thesis using inv writers_advance(1) [of s C A rnd] cipher_cached_messages(1) [OF cached, of C rnd]
      by (auto simp: ik_inv_def advances_def grows_def)
  next
    case (IkRead1 m)
    then show ?thesis using inv readers_advance(1) [of s C A m] readers_learn(1) [of C A s m]
        cipher_cached_messages(2) [OF cached, of C m]
      by (auto simp: ik_inv_def advances_def grows_def)
  next
    case (IkWrite2 rnd)
    then show ?thesis using inv writers_advance(2) [of s C A rnd] cipher_cached_messages(3) [OF cached, of C rnd]
      by (auto simp: ik_inv_def advances_def grows_def)
  next
    case (IkTryRead2 m)
    then show ?thesis using inv r2 [of m] try_readers_result(1) [OF cached, of C m] by auto
  qed (use r2 in simp)
qed

interpretation xk_machine: invariant_machine "xk_inv A" "xk_step C A" for C :: "('s, 'p) curve" and A :: "'k aead"
proof
  fix s :: "('s, 'p, 'k) handshake_state" and op assume inv: "xk_inv A s"
  then have cached: "cipher_cached A s" by (simp add: xk_inv_def)
  have r2: "xk_inv A (fst (read_xk_message_2 C A s m))" for m
    using inv readers_advance(4) [of s C A m] readers_learn(3) [of C A s m] cipher_cached_messages(8) [OF cached, of C m]
    by (auto simp: xk_inv_def advances_def grows_def)
  show "xk_inv A (xk_step C A s op)"
  proof (cases op)
    case (XkEpoch ep)
    then show ?thesis using inv by (simp add: xk_inv_def set_local_epoch_def cipher_cached_def)
  next
    case (XkWrite1 rnd)
    then show ?thesis using inv writers_advance(3) [of s C A rnd] cipher_cached_messages(5) [OF cached, of C rnd]
      by (auto simp: xk_inv_def advances_def grows_def)
  next
    case (XkRead1 m)
    then show ?thesis using inv readers_advance(3) [of s C A m] cipher_cached_messages(6) [OF cached, of C m]
      by (auto simp: xk_inv_def advances_def grows_def)
  next
    case (XkWrite2 rnd)
    then show ?thesis using inv writers_advance(4) [of s C A rnd] cipher_cached_messages(7) [OF cached, of C rnd]
      by (auto simp: xk_inv_def advances_def grows_def)
  next
    case (XkTryRead2 m)
    then show ?thesis using inv r2 [of m] try_readers_result(2) [OF cached, of C m] by auto
  next
    case XkWrite3
    then show ?thesis using inv writers_advance(5) [of s C A] cipher_cached_messages(9) [OF cached, of C]
      by (auto simp: xk_inv_def advances_def grows_def)
  next
    case (XkRead3 m)
    have "xk_inv A (fst (read_xk_message_3_in_place C A s m))"
      using inv readers_advance(5) [of s C A m] readers_learn(4) [of C A s m] cipher_cached_messages(10) [OF cached, of C m]
      by (auto simp: xk_inv_def advances_def grows_def)
    then show ?thesis using XkRead3 inv try_readers_result(3) [OF cached, of C m] by auto
  qed (use r2 in simp)
qed

section \<open>Whole exchanges\<close>

lemma ik_exchange:
  assumes C: "curve_contract C" and A: "aead_available A"
    and e: "secret_from_slice C rnd_i = Some ei" "secret_from_slice C rnd_r = Some er"
    and ep: "length ep_i = 8" "length ep_r = 8"
    and i: "hs_role i = Initiator" "hs_progress i = Initial" "hs_remote_static i = Some rs" "hs_local_epoch i = Some ep_i"
    and r: "hs_role r = Responder" "hs_progress r = Initial" "hs_local_epoch r = Some ep_r"
    and rs: "tl (serialize C rs) = tl (serialize C (public_key C (hs_static r)))"
    and sync: "synced (hs_symmetric i) (hs_symmetric r)"
    and q: "public_from_slice C qb = Some q" "length qb = 33" "tl (serialize C q) = tl (serialize C (public_key C ei))"
  obtains i1 i2 r1 r2 c1 c2 c where
    "write_message_1 C A i rnd_i = (i1, Ok (serialize C (public_key C ei) @ c1 @ c2))"
    "read_message_1 C A r (qb @ c1 @ c2) = (r1, Ok ())"
    "write_message_2 C A r1 rnd_r = (r2, Ok (serialize C (public_key C er) @ c))"
    "try_read_message_2 C A i1 (serialize C (public_key C er) @ c) = (i2, Ok ())"
    "hs_role i2 = Initiator" "hs_progress i2 = Complete" "hs_remote_static i2 = Some rs" "hs_remote_epoch i2 = Some ep_r"
    "hs_role r2 = Responder" "hs_progress r2 = Complete" "hs_remote_static r2 = Some (public_key C (hs_static i))"
    "hs_remote_epoch r2 = Some ep_i" "synced (hs_symmetric i2) (hs_symmetric r2)"
    "sym_h (hs_symmetric i2) = transcript C (sym_h (hs_symmetric i)) [serialize C (public_key C ei), c1, c2, serialize C (public_key C er), c]"
    "sym_h (hs_symmetric r2) = transcript C (sym_h (hs_symmetric r)) [qb, c1, c2, serialize C (public_key C er), c]"
proof -
  obtain y z c1 c2 where 1: "write_message_1 C A i rnd_i =
       (i\<lparr> hs_symmetric := y, hs_ephemeral := Some ei, hs_progress := Message1Done \<rparr>, Ok (serialize C (public_key C ei) @ c1 @ c2))"
    "read_message_1 C A r (qb @ c1 @ c2) =
       (r\<lparr> hs_symmetric := z, hs_remote_ephemeral := Some q, hs_remote_static := Some (public_key C (hs_static i)),
           hs_remote_epoch := Some ep_i, hs_progress := Message1Done \<rparr>, Ok ())"
    "synced y z" "sym_h y = transcript C (sym_h (hs_symmetric i)) [serialize C (public_key C ei), c1, c2]"
    "sym_h z = transcript C (sym_h (hs_symmetric r)) [qb, c1, c2]"
    by (rule ik_message_1 [OF C A e(1) i ep(1) r(1,2) rs sync q])
  define i1 where "i1 = i\<lparr> hs_symmetric := y, hs_ephemeral := Some ei, hs_progress := Message1Done \<rparr>"
  define r1 where "r1 = r\<lparr> hs_symmetric := z, hs_remote_ephemeral := Some q, hs_remote_static := Some (public_key C (hs_static i)),
           hs_remote_epoch := Some ep_i, hs_progress := Message1Done \<rparr>"
  have sy: "synced (hs_symmetric r1) (hs_symmetric i1)" using 1(3) by (simp add: i1_def r1_def synced_def)
  obtain y' z' c where 2: "write_message_2 C A r1 rnd_r =
       (r1\<lparr> hs_symmetric := y', hs_ephemeral := Some er, hs_progress := Complete \<rparr>, Ok (serialize C (public_key C er) @ c))"
    "read_message_2 C A i1 (serialize C (public_key C er) @ c) =
       (i1\<lparr> hs_symmetric := z', hs_remote_ephemeral := Some (public_key C er), hs_remote_epoch := Some ep_r, hs_progress := Complete \<rparr>, Ok ())"
    "synced y' z'" "sym_h y' = transcript C (sym_h (hs_symmetric r1)) [serialize C (public_key C er), c]"
    "sym_h z' = transcript C (sym_h (hs_symmetric i1)) [serialize C (public_key C er), c]"
    by (rule ik_message_2 [OF C A e(2), of r1 q ep_r i1 ei rs]) (use i r rs q ep sy in \<open>simp_all add: i1_def r1_def\<close>)
  show ?thesis
  proof (rule that)
    show "write_message_1 C A i rnd_i = (i1, Ok (serialize C (public_key C ei) @ c1 @ c2))"
      "read_message_1 C A r (qb @ c1 @ c2) = (r1, Ok ())" using 1 by (simp_all add: i1_def r1_def)
    show "try_read_message_2 C A i1 (serialize C (public_key C er) @ c) =
       (i1\<lparr> hs_symmetric := z', hs_remote_ephemeral := Some (public_key C er), hs_remote_epoch := Some ep_r, hs_progress := Complete \<rparr>, Ok ())"
      using 2(2) by (simp add: try_read_message_2_def)
    show "write_message_2 C A r1 rnd_r =
       (r1\<lparr> hs_symmetric := y', hs_ephemeral := Some er, hs_progress := Complete \<rparr>, Ok (serialize C (public_key C er) @ c))"
      by (rule 2(1))
  qed (use 1 2(3-5) i r in \<open>simp_all add: i1_def r1_def synced_def\<close>)
qed

lemma xk_exchange:
  assumes C: "curve_contract C" and A: "aead_available A"
    and e: "secret_from_slice C rnd_i = Some ei" "secret_from_slice C rnd_r = Some er"
    and ep: "length ep_i = 8" "length ep_r = 8"
    and i: "hs_role i = Initiator" "hs_progress i = Initial" "hs_remote_static i = Some rs" "hs_local_epoch i = Some ep_i"
    and r: "hs_role r = Responder" "hs_progress r = Initial" "hs_local_epoch r = Some ep_r"
    and rs: "tl (serialize C rs) = tl (serialize C (public_key C (hs_static r)))"
    and sync: "synced (hs_symmetric i) (hs_symmetric r)" "sym_h (hs_symmetric i) = sym_h (hs_symmetric r)"
  obtains i1 i2 i3 r1 r2 r3 m1 m2 m3 where
    "write_xk_message_1 C A i rnd_i = (i1, Ok m1)" "read_xk_message_1 C A r m1 = (r1, Ok ())"
    "write_xk_message_2 C A r1 rnd_r = (r2, Ok m2)" "try_read_xk_message_2 C A i1 m2 = (i2, Ok ())"
    "write_xk_message_3 C A i2 = (i3, Ok m3)" "read_xk_message_3 C A r2 m3 = (r3, Ok ())"
    "hs_role i3 = Initiator" "hs_progress i3 = Complete" "hs_remote_static i3 = Some rs" "hs_remote_epoch i3 = Some ep_r"
    "hs_role r3 = Responder" "hs_progress r3 = Complete" "hs_remote_static r3 = Some (public_key C (hs_static i))"
    "hs_remote_epoch r3 = Some ep_i" "synced (hs_symmetric i3) (hs_symmetric r3)"
    "sym_h (hs_symmetric i3) = sym_h (hs_symmetric r3)"
proof -
  let ?E = "serialize C (public_key C ei)" and ?E' = "serialize C (public_key C er)"
  obtain y z where 1:
    "write_xk_message_1 C A i rnd_i = (i\<lparr> hs_symmetric := y, hs_ephemeral := Some ei, hs_progress := Message1Done \<rparr>, Ok ?E)"
    "read_xk_message_1 C A r ?E =
       (r\<lparr> hs_symmetric := z, hs_remote_ephemeral := Some (public_key C ei), hs_progress := Message1Done \<rparr>, Ok ())"
    "synced y z" "sym_h y = transcript C (sym_h (hs_symmetric i)) [?E]" "sym_h z = transcript C (sym_h (hs_symmetric r)) [?E]"
    by (rule xk_message_1 [OF C e(1) i(1-3) r(1,2) rs sync(1), of A])
  define i1 where "i1 = i\<lparr> hs_symmetric := y, hs_ephemeral := Some ei, hs_progress := Message1Done \<rparr>"
  define r1 where "r1 = r\<lparr> hs_symmetric := z, hs_remote_ephemeral := Some (public_key C ei), hs_progress := Message1Done \<rparr>"
  have sy: "synced (hs_symmetric r1) (hs_symmetric i1)" using 1(3) by (simp add: i1_def r1_def synced_def)
  obtain y' z' c where 2: "write_xk_message_2 C A r1 rnd_r =
       (r1\<lparr> hs_symmetric := y', hs_ephemeral := Some er, hs_progress := Message2Done \<rparr>, Ok (?E' @ c))"
    "read_xk_message_2 C A i1 (?E' @ c) =
       (i1\<lparr> hs_symmetric := z', hs_remote_ephemeral := Some (public_key C er), hs_remote_epoch := Some ep_r, hs_progress := Message2Done \<rparr>, Ok ())"
    "synced y' z'" "keyed 1 y'" "sym_h y' = transcript C (sym_h (hs_symmetric r1)) [?E', c]"
    "sym_h z' = transcript C (sym_h (hs_symmetric i1)) [?E', c]"
    by (rule xk_message_2 [OF C A e(2), of r1 ei ep_r i1]) (use i r ep sy in \<open>simp_all add: i1_def r1_def\<close>)
  define i2 where "i2 = i1\<lparr> hs_symmetric := z', hs_remote_ephemeral := Some (public_key C er), hs_remote_epoch := Some ep_r, hs_progress := Message2Done \<rparr>"
  define r2 where "r2 = r1\<lparr> hs_symmetric := y', hs_ephemeral := Some er, hs_progress := Message2Done \<rparr>"
  have sy: "synced (hs_symmetric i2) (hs_symmetric r2)" "keyed 1 (hs_symmetric i2)"
    using 2(3,4) by (simp_all add: i2_def r2_def synced_def keyed_def)
  obtain y3 z3 c1 c2 where 3: "write_xk_message_3 C A i2 = (i2\<lparr> hs_symmetric := y3, hs_progress := Complete \<rparr>, Ok (c1 @ c2))"
    "read_xk_message_3 C A r2 (c1 @ c2) =
       (r2\<lparr> hs_symmetric := z3, hs_remote_static := Some (public_key C (hs_static i2)), hs_remote_epoch := Some ep_i, hs_progress := Complete \<rparr>, Ok ())"
    "synced y3 z3" "sym_h y3 = transcript C (sym_h (hs_symmetric i2)) [c1, c2]" "sym_h z3 = transcript C (sym_h (hs_symmetric r2)) [c1, c2]"
    by (rule xk_message_3 [OF C A, of i2 er ep_i r2]) (use i r ep sy in \<open>simp_all add: i1_def r1_def i2_def r2_def\<close>)
  have "try_read_xk_message_2 C A i1 (?E' @ c) = (i2, Ok ())"
    using 2(2) by (simp add: try_read_xk_message_2_def i2_def)
  then show ?thesis
    by (rule that [OF 1(1) [folded i1_def] 1(2) [folded r1_def] 2(1) [folded r2_def] _ 3(1,2)])
      (use 1(4,5) 2(5,6) 3(3-5) i r sync in \<open>simp_all add: i1_def r1_def i2_def r2_def\<close>)
qed

section \<open>Properties\<close>

lemma into_session_pair:
  assumes "hs_role i = Initiator" "hs_progress i = Complete" "hs_remote_static i = Some rs" "hs_remote_epoch i = Some ep"
    and "hs_role r = Responder" "hs_progress r = Complete" "hs_remote_static r = Some is" "hs_remote_epoch r = Some ep'"
    and "synced (hs_symmetric i) (hs_symmetric r)"
  obtains a b where "into_session C A i = Ok a" "into_session C A r = Ok b"
    "send_cipher a = recv_cipher b" "recv_cipher a = send_cipher b" "has_key (send_cipher a)" "has_key (recv_cipher a)"
    "handshake_hash a = sym_h (hs_symmetric i)" "handshake_hash b = sym_h (hs_symmetric r)"
    "remote_static a = serialize C rs" "remote_static b = serialize C is" "remote_epoch a = ep" "remote_epoch b = ep'"
  using assms
  by (simp add: into_session_def is_complete_def split_ciphers_def synced_def from_handshake_def cipher_new_def Let_def)

lemma new_states_synced:
  assumes "curve_contract C" "tl (serialize C rs) = tl (serialize C (public_key C sr))"
  shows "mix_hash C y (normalize_for_premessage C rs) = mix_hash C y (normalize_for_premessage C (public_key C sr))"
proof -
  have "p[0 := 2] = 2 # tl p" if "length p = 33" for p :: bytes using that by (cases p) auto
  then have "normalize_for_premessage C rs = normalize_for_premessage C (public_key C sr)"
    using assms by (simp add: curve_contract_def normalize_for_premessage_def)
  then show ?thesis by simp
qed

text \<open>A concrete instance of the parameters, for the witnesses: scalars modulo 256 with a parity byte.\<close>

definition mini_curve :: "(u8, u8 \<times> bool) curve" where
  "mini_curve = \<lparr> sha256 = (\<lambda>b. take 32 (b @ replicate 32 0)), hkdf64 = (\<lambda>salt ikm. take 64 (ikm @ salt @ replicate 64 0)),
     secret_from_slice = (\<lambda>b. case b of [] \<Rightarrow> None | x # _ \<Rightarrow> Some x), public_key = (\<lambda>a. (a, False)),
     serialize = (\<lambda>(x, odd). (if odd then 3 else 2) # replicate 31 0 @ [x]),
     public_from_slice = (\<lambda>b. if length b = 33 \<and> b ! 0 \<in> {2, 3} then Some (b ! 32, b ! 0 = 3) else None),
     shared_secret_point = (\<lambda>(x, _) s. replicate 64 (x * s)) \<rparr>"

lemma mini_curve_contract: "curve_contract mini_curve"
  by (auto simp: curve_contract_def mini_curve_def mult.commute nth_append)

lemma tag_aead_available: "aead_available tag_aead"
  by (simp add: aead_available_def aead_contract_def tag_aead_def TAG_SIZE_def)

definition ik_initiator :: "('s, 'p) curve \<Rightarrow> 's \<Rightarrow> 'p \<Rightarrow> bytes \<Rightarrow> ('s, 'p, 'k) handshake_state" where
  "ik_initiator C si rs ep = set_local_epoch (new_initiator C si rs) ep"

definition ik_responder :: "('s, 'p) curve \<Rightarrow> 's \<Rightarrow> bytes \<Rightarrow> ('s, 'p, 'k) handshake_state" where
  "ik_responder C sr ep = set_local_epoch (new_responder C sr) ep"

definition xk_initiator :: "('s, 'p) curve \<Rightarrow> 's \<Rightarrow> 'p \<Rightarrow> bytes \<Rightarrow> ('s, 'p, 'k) handshake_state" where
  "xk_initiator C si rs ep = set_local_epoch (new_xk_initiator C si rs) ep"

definition xk_responder :: "('s, 'p) curve \<Rightarrow> 's \<Rightarrow> bytes \<Rightarrow> ('s, 'p, 'k) handshake_state" where
  "xk_responder C sr ep = set_local_epoch (new_xk_responder C sr) ep"

lemmas start_defs = ik_initiator_def ik_responder_def xk_initiator_def xk_responder_def set_local_epoch_def
  new_initiator_def new_responder_def new_xk_initiator_def new_xk_responder_def initial_state_def

lemma ik_start [simp]:
  "hs_role (ik_initiator C si rs ep) = Initiator" "hs_progress (ik_initiator C si rs ep) = Initial"
  "hs_remote_static (ik_initiator C si rs ep) = Some rs" "hs_local_epoch (ik_initiator C si rs ep) = Some ep"
  "hs_static (ik_initiator C si rs ep) = si"
  "hs_role (ik_responder C sr ep) = Responder" "hs_progress (ik_responder C sr ep) = Initial"
  "hs_local_epoch (ik_responder C sr ep) = Some ep" "hs_static (ik_responder C sr ep) = sr"
  by (simp_all add: start_defs)

lemma xk_start [simp]:
  "hs_role (xk_initiator C si rs ep) = Initiator" "hs_progress (xk_initiator C si rs ep) = Initial"
  "hs_remote_static (xk_initiator C si rs ep) = Some rs" "hs_local_epoch (xk_initiator C si rs ep) = Some ep"
  "hs_static (xk_initiator C si rs ep) = si"
  "hs_role (xk_responder C sr ep) = Responder" "hs_progress (xk_responder C sr ep) = Initial"
  "hs_local_epoch (xk_responder C sr ep) = Some ep" "hs_static (xk_responder C sr ep) = sr"
  by (simp_all add: start_defs)

lemma start_synced:
  assumes "curve_contract C" "tl (serialize C rs) = tl (serialize C (public_key C sr))"
  shows "hs_symmetric (ik_initiator C si rs ep) = hs_symmetric (ik_responder C sr ep')"
    "hs_symmetric (xk_initiator C si rs ep) = hs_symmetric (xk_responder C sr ep')"
  using new_states_synced [OF assms] by (simp_all add: start_defs)

lemma synced_refl [simp]: "synced y y"
  by (simp add: synced_def)

lemma own_key_parses:
  assumes "curve_contract C"
  shows "public_from_slice C (serialize C p) = Some p" "length (serialize C p) = 33"
  using assms by (simp_all add: curve_contract_def)

text \<open>The IK exchange from fresh states, up to the sessions.\<close>

lemma ik_sessions:
  fixes C :: "('s, 'p) curve" and A :: "'k aead"
  assumes C: "curve_contract C" and A: "aead_available A"
    and e: "secret_from_slice C rnd_i = Some ei" "secret_from_slice C rnd_r = Some er"
    and ep: "length ep_i = 8" "length ep_r = 8"
    and rs: "tl (serialize C rs) = tl (serialize C (public_key C sr))"
    and q: "public_from_slice C qb = Some q" "length qb = 33" "tl (serialize C q) = tl (serialize C (public_key C ei))"
  shows "\<exists>h0 i1 i2 r1 r2 c1 c2 c a b.
    write_message_1 C A (ik_initiator C si rs ep_i) rnd_i = (i1, Ok (serialize C (public_key C ei) @ c1 @ c2)) \<and>
    read_message_1 C A (ik_responder C sr ep_r) (qb @ c1 @ c2) = (r1, Ok ()) \<and>
    write_message_2 C A r1 rnd_r = (r2, Ok (serialize C (public_key C er) @ c)) \<and>
    try_read_message_2 C A i1 (serialize C (public_key C er) @ c) = (i2, Ok ()) \<and>
    into_session C A i2 = Ok a \<and> into_session C A r2 = Ok b \<and>
    send_cipher a = recv_cipher b \<and> recv_cipher a = send_cipher b \<and> has_key (send_cipher a) \<and> has_key (recv_cipher a) \<and>
    handshake_hash a = transcript C h0 [serialize C (public_key C ei), c1, c2, serialize C (public_key C er), c] \<and>
    handshake_hash b = transcript C h0 [qb, c1, c2, serialize C (public_key C er), c] \<and>
    remote_static b = serialize C (public_key C si) \<and> remote_epoch a = ep_r \<and> remote_epoch b = ep_i"
proof -
  let ?i = "ik_initiator C si rs ep_i :: ('s, 'p, 'k) handshake_state"
  let ?r = "ik_responder C sr ep_r :: ('s, 'p, 'k) handshake_state"
  have s: "hs_symmetric ?i = hs_symmetric ?r" by (rule start_synced [OF C rs])
  have rs': "tl (serialize C rs) = tl (serialize C (public_key C (hs_static ?r)))" using rs by simp
  have s': "synced (hs_symmetric ?i) (hs_symmetric ?r)" using s by simp
  obtain i1 i2 r1 r2 c1 c2 c where x:
    "write_message_1 C A ?i rnd_i = (i1, Ok (serialize C (public_key C ei) @ c1 @ c2))"
    "read_message_1 C A ?r (qb @ c1 @ c2) = (r1, Ok ())"
    "write_message_2 C A r1 rnd_r = (r2, Ok (serialize C (public_key C er) @ c))"
    "try_read_message_2 C A i1 (serialize C (public_key C er) @ c) = (i2, Ok ())"
    "hs_role i2 = Initiator" "hs_progress i2 = Complete" "hs_remote_static i2 = Some rs" "hs_remote_epoch i2 = Some ep_r"
    "hs_role r2 = Responder" "hs_progress r2 = Complete" "hs_remote_static r2 = Some (public_key C (hs_static ?i))"
    "hs_remote_epoch r2 = Some ep_i" "synced (hs_symmetric i2) (hs_symmetric r2)"
    "sym_h (hs_symmetric i2) = transcript C (sym_h (hs_symmetric ?i)) [serialize C (public_key C ei), c1, c2, serialize C (public_key C er), c]"
    "sym_h (hs_symmetric r2) = transcript C (sym_h (hs_symmetric ?r)) [qb, c1, c2, serialize C (public_key C er), c]"
    by (rule ik_exchange [OF C A e ep ik_start(1-4,6-8) rs' s' q])
  obtain a b where y: "into_session C A i2 = Ok a" "into_session C A r2 = Ok b"
    "send_cipher a = recv_cipher b" "recv_cipher a = send_cipher b" "has_key (send_cipher a)" "has_key (recv_cipher a)"
    "handshake_hash a = sym_h (hs_symmetric i2)" "handshake_hash b = sym_h (hs_symmetric r2)"
    "remote_static b = serialize C (public_key C (hs_static ?i))" "remote_epoch a = ep_r" "remote_epoch b = ep_i"
    by (rule into_session_pair [OF x(5-13), of C A])
  show ?thesis
    by (rule exI [of _ "sym_h (hs_symmetric ?r)"], rule exI [of _ i1], rule exI [of _ i2], rule exI [of _ r1], rule exI [of _ r2],
        rule exI [of _ c1], rule exI [of _ c2], rule exI [of _ c], rule exI [of _ a], rule exI [of _ b])
      (use x(1-4,14,15) y s in simp)
qed

text \<open>C1: the IK handshake of two honest sides succeeds on every message and both sides end with the same
  transport keys (what one sends with, the other receives with) and the same handshake hash. The responder
  learns the initiator's static key, and each side the other's epoch. The initiator needs the responder's
  key only up to parity.\<close>

theorem ik_handshake_agrees:
  assumes "curve_contract C" and "aead_available A"
    and "secret_from_slice C rnd_i = Some ei" "secret_from_slice C rnd_r = Some er"
    and "length ep_i = 8" "length ep_r = 8"
    and "tl (serialize C rs) = tl (serialize C (public_key C sr))"
  shows "\<exists>i1 i2 r1 r2 m1 m2 a b.
    write_message_1 C A (ik_initiator C si rs ep_i) rnd_i = (i1, Ok m1) \<and>
    read_message_1 C A (ik_responder C sr ep_r) m1 = (r1, Ok ()) \<and>
    write_message_2 C A r1 rnd_r = (r2, Ok m2) \<and> try_read_message_2 C A i1 m2 = (i2, Ok ()) \<and>
    into_session C A i2 = Ok a \<and> into_session C A r2 = Ok b \<and>
    send_cipher a = recv_cipher b \<and> recv_cipher a = send_cipher b \<and> has_key (send_cipher a) \<and> has_key (recv_cipher a) \<and>
    handshake_hash a = handshake_hash b \<and>
    remote_static b = serialize C (public_key C si) \<and> remote_epoch a = ep_r \<and> remote_epoch b = ep_i"
  using ik_sessions [OF assms own_key_parses [OF assms(1), of "public_key C ei"] refl, of si] by metis

theorem ik_handshake_agrees_witness:
  "\<exists>i1 i2 r1 r2 m1 m2 a b.
    write_message_1 mini_curve tag_aead (ik_initiator mini_curve 5 (7, True) (replicate 8 1)) [3] = (i1, Ok m1) \<and>
    read_message_1 mini_curve tag_aead (ik_responder mini_curve 7 (replicate 8 2)) m1 = (r1, Ok ()) \<and>
    write_message_2 mini_curve tag_aead r1 [11] = (r2, Ok m2) \<and> try_read_message_2 mini_curve tag_aead i1 m2 = (i2, Ok ()) \<and>
    into_session mini_curve tag_aead i2 = Ok a \<and> into_session mini_curve tag_aead r2 = Ok b \<and>
    send_cipher a = recv_cipher b \<and> recv_cipher a = send_cipher b \<and> has_key (send_cipher a) \<and> has_key (recv_cipher a) \<and>
    handshake_hash a = handshake_hash b \<and>
    remote_static b = serialize mini_curve (public_key mini_curve 5) \<and> remote_epoch a = replicate 8 2 \<and> remote_epoch b = replicate 8 1"
  by (rule ik_handshake_agrees [OF mini_curve_contract tag_aead_available, of "[3]" 3 "[11]" 11])
    (simp_all add: mini_curve_def)

text \<open>C12: the IK handshake does not authenticate its transcript. Whoever relays the first message may
  replace the parity byte of the ephemeral key: every later message is still accepted, and both sides end
  with the same transport keys but with handshake hashes over different transcripts.\<close>

theorem ik_transcript_not_authenticated:
  assumes "curve_contract C" and "aead_available A"
    and "secret_from_slice C rnd_i = Some ei" "secret_from_slice C rnd_r = Some er"
    and "length ep_i = 8" "length ep_r = 8"
    and "tl (serialize C rs) = tl (serialize C (public_key C sr))"
    and "public_from_slice C qb = Some q" "length qb = 33" "tl (serialize C q) = tl (serialize C (public_key C ei))"
    and "qb \<noteq> serialize C (public_key C ei)"
  shows "\<exists>i1 i2 r1 r2 e rest m2 a b ts h0.
    write_message_1 C A (ik_initiator C si rs ep_i) rnd_i = (i1, Ok (e @ rest)) \<and> qb @ rest \<noteq> e @ rest \<and>
    read_message_1 C A (ik_responder C sr ep_r) (qb @ rest) = (r1, Ok ()) \<and>
    write_message_2 C A r1 rnd_r = (r2, Ok m2) \<and> try_read_message_2 C A i1 m2 = (i2, Ok ()) \<and>
    into_session C A i2 = Ok a \<and> into_session C A r2 = Ok b \<and>
    send_cipher a = recv_cipher b \<and> recv_cipher a = send_cipher b \<and>
    handshake_hash a = transcript C h0 (e # ts) \<and> handshake_hash b = transcript C h0 (qb # ts)"
proof -
  let ?E = "serialize C (public_key C ei)"
  obtain h0 i1 i2 r1 r2 c1 c2 c a b where
    "write_message_1 C A (ik_initiator C si rs ep_i) rnd_i = (i1, Ok (?E @ c1 @ c2)) \<and>
    read_message_1 C A (ik_responder C sr ep_r) (qb @ c1 @ c2) = (r1, Ok ()) \<and>
    write_message_2 C A r1 rnd_r = (r2, Ok (serialize C (public_key C er) @ c)) \<and>
    try_read_message_2 C A i1 (serialize C (public_key C er) @ c) = (i2, Ok ()) \<and>
    into_session C A i2 = Ok a \<and> into_session C A r2 = Ok b \<and>
    send_cipher a = recv_cipher b \<and> recv_cipher a = send_cipher b \<and>
    handshake_hash a = transcript C h0 [?E, c1, c2, serialize C (public_key C er), c] \<and>
    handshake_hash b = transcript C h0 [qb, c1, c2, serialize C (public_key C er), c]"
    using ik_sessions [OF assms(1-10), of si] by blast
  moreover have "qb @ c1 @ c2 \<noteq> ?E @ c1 @ c2" using assms(11) by simp
  ultimately show ?thesis by blast
qed

theorem ik_transcript_not_authenticated_witness:
  "\<exists>i1 i2 r1 r2 e rest m2 a b ts h0.
    write_message_1 mini_curve tag_aead (ik_initiator mini_curve 5 (7, True) (replicate 8 1)) [3] = (i1, Ok (e @ rest)) \<and>
    3 # replicate 31 0 @ [3] @ rest \<noteq> e @ rest \<and>
    read_message_1 mini_curve tag_aead (ik_responder mini_curve 7 (replicate 8 2)) (3 # replicate 31 0 @ [3] @ rest) = (r1, Ok ()) \<and>
    write_message_2 mini_curve tag_aead r1 [11] = (r2, Ok m2) \<and> try_read_message_2 mini_curve tag_aead i1 m2 = (i2, Ok ()) \<and>
    into_session mini_curve tag_aead i2 = Ok a \<and> into_session mini_curve tag_aead r2 = Ok b \<and>
    send_cipher a = recv_cipher b \<and> recv_cipher a = send_cipher b \<and>
    handshake_hash a = transcript mini_curve h0 (e # ts) \<and> handshake_hash b = transcript mini_curve h0 ((3 # replicate 31 0 @ [3]) # ts)"
proof -
  have "\<exists>i1 i2 r1 r2 e rest m2 a b ts h0.
    write_message_1 mini_curve tag_aead (ik_initiator mini_curve 5 (7, True) (replicate 8 1)) [3] = (i1, Ok (e @ rest)) \<and>
    (3 # replicate 31 0 @ [3]) @ rest \<noteq> e @ rest \<and>
    read_message_1 mini_curve tag_aead (ik_responder mini_curve 7 (replicate 8 2)) ((3 # replicate 31 0 @ [3]) @ rest) = (r1, Ok ()) \<and>
    write_message_2 mini_curve tag_aead r1 [11] = (r2, Ok m2) \<and> try_read_message_2 mini_curve tag_aead i1 m2 = (i2, Ok ()) \<and>
    into_session mini_curve tag_aead i2 = Ok a \<and> into_session mini_curve tag_aead r2 = Ok b \<and>
    send_cipher a = recv_cipher b \<and> recv_cipher a = send_cipher b \<and>
    handshake_hash a = transcript mini_curve h0 (e # ts) \<and> handshake_hash b = transcript mini_curve h0 ((3 # replicate 31 0 @ [3]) # ts)"
    by (rule ik_transcript_not_authenticated [OF mini_curve_contract tag_aead_available,
          where ei = 3 and er = 11 and q = "(3, True)"]) (simp_all add: mini_curve_def nth_append nth_Cons')
  then show ?thesis by simp
qed

text \<open>C2: the XK handshake of two honest sides succeeds on all three messages; both sides end with the same
  transport keys and handshake hash, and the responder learns the initiator's key from the third message.\<close>

theorem xk_handshake_agrees:
  fixes C :: "('s, 'p) curve" and A :: "'k aead"
  assumes C: "curve_contract C" and A: "aead_available A"
    and e: "secret_from_slice C rnd_i = Some ei" "secret_from_slice C rnd_r = Some er"
    and ep: "length ep_i = 8" "length ep_r = 8"
    and rs: "tl (serialize C rs) = tl (serialize C (public_key C sr))"
  shows "\<exists>i1 i2 i3 r1 r2 r3 m1 m2 m3 a b.
    write_xk_message_1 C A (xk_initiator C si rs ep_i) rnd_i = (i1, Ok m1) \<and>
    read_xk_message_1 C A (xk_responder C sr ep_r) m1 = (r1, Ok ()) \<and>
    write_xk_message_2 C A r1 rnd_r = (r2, Ok m2) \<and> try_read_xk_message_2 C A i1 m2 = (i2, Ok ()) \<and>
    write_xk_message_3 C A i2 = (i3, Ok m3) \<and> read_xk_message_3 C A r2 m3 = (r3, Ok ()) \<and>
    into_session C A i3 = Ok a \<and> into_session C A r3 = Ok b \<and>
    send_cipher a = recv_cipher b \<and> recv_cipher a = send_cipher b \<and> has_key (send_cipher a) \<and> has_key (recv_cipher a) \<and>
    handshake_hash a = handshake_hash b \<and>
    remote_static b = serialize C (public_key C si) \<and> remote_epoch a = ep_r \<and> remote_epoch b = ep_i"
proof -
  let ?i = "xk_initiator C si rs ep_i :: ('s, 'p, 'k) handshake_state"
  let ?r = "xk_responder C sr ep_r :: ('s, 'p, 'k) handshake_state"
  have "hs_symmetric ?i = hs_symmetric ?r" by (rule start_synced [OF C rs])
  then have s: "synced (hs_symmetric ?i) (hs_symmetric ?r)" "sym_h (hs_symmetric ?i) = sym_h (hs_symmetric ?r)" by simp_all
  have rs': "tl (serialize C rs) = tl (serialize C (public_key C (hs_static ?r)))" using rs by simp
  obtain i1 i2 i3 r1 r2 r3 m1 m2 m3 where x:
    "write_xk_message_1 C A ?i rnd_i = (i1, Ok m1)" "read_xk_message_1 C A ?r m1 = (r1, Ok ())"
    "write_xk_message_2 C A r1 rnd_r = (r2, Ok m2)" "try_read_xk_message_2 C A i1 m2 = (i2, Ok ())"
    "write_xk_message_3 C A i2 = (i3, Ok m3)" "read_xk_message_3 C A r2 m3 = (r3, Ok ())"
    "hs_role i3 = Initiator" "hs_progress i3 = Complete" "hs_remote_static i3 = Some rs" "hs_remote_epoch i3 = Some ep_r"
    "hs_role r3 = Responder" "hs_progress r3 = Complete" "hs_remote_static r3 = Some (public_key C (hs_static ?i))"
    "hs_remote_epoch r3 = Some ep_i" "synced (hs_symmetric i3) (hs_symmetric r3)"
    "sym_h (hs_symmetric i3) = sym_h (hs_symmetric r3)"
    by (rule xk_exchange [OF C A e ep xk_start(1-4,6-8) rs' s])
  obtain a b where y: "into_session C A i3 = Ok a" "into_session C A r3 = Ok b"
    "send_cipher a = recv_cipher b" "recv_cipher a = send_cipher b" "has_key (send_cipher a)" "has_key (recv_cipher a)"
    "handshake_hash a = sym_h (hs_symmetric i3)" "handshake_hash b = sym_h (hs_symmetric r3)"
    "remote_static b = serialize C (public_key C (hs_static ?i))" "remote_epoch a = ep_r" "remote_epoch b = ep_i"
    by (rule into_session_pair [OF x(7-15), of C A])
  have z: "handshake_hash a = handshake_hash b" "remote_static b = serialize C (public_key C si)"
    using x(16) y(7-9) by simp_all
  show ?thesis
    by (intro exI conjI, rule x(1), rule x(2), rule x(3), rule x(4), rule x(5), rule x(6), rule y(1), rule y(2))
      (rule y z)+
qed

theorem xk_handshake_agrees_witness:
  "\<exists>i1 i2 i3 r1 r2 r3 m1 m2 m3 a b.
    write_xk_message_1 mini_curve tag_aead (xk_initiator mini_curve 5 (7, True) (replicate 8 1)) [3] = (i1, Ok m1) \<and>
    read_xk_message_1 mini_curve tag_aead (xk_responder mini_curve 7 (replicate 8 2)) m1 = (r1, Ok ()) \<and>
    write_xk_message_2 mini_curve tag_aead r1 [11] = (r2, Ok m2) \<and> try_read_xk_message_2 mini_curve tag_aead i1 m2 = (i2, Ok ()) \<and>
    write_xk_message_3 mini_curve tag_aead i2 = (i3, Ok m3) \<and> read_xk_message_3 mini_curve tag_aead r2 m3 = (r3, Ok ()) \<and>
    into_session mini_curve tag_aead i3 = Ok a \<and> into_session mini_curve tag_aead r3 = Ok b \<and>
    send_cipher a = recv_cipher b \<and> recv_cipher a = send_cipher b \<and> has_key (send_cipher a) \<and> has_key (recv_cipher a) \<and>
    handshake_hash a = handshake_hash b \<and>
    remote_static b = serialize mini_curve (public_key mini_curve 5) \<and> remote_epoch a = replicate 8 2 \<and> remote_epoch b = replicate 8 1"
  by (rule xk_handshake_agrees [OF mini_curve_contract tag_aead_available, of "[3]" 3 "[11]" 11])
    (simp_all add: mini_curve_def)

lemma start_inv:
  "ik_inv A (new_initiator C si rs)" "ik_inv A (new_responder C sr)"
  "xk_inv A (new_xk_initiator C si rs)" "xk_inv A (new_xk_responder C sr)"
  by (simp_all add: start_defs ik_inv_def xk_inv_def cipher_cached_def mix_hash_def initialize_def Let_def
      cipher_empty_def clone_def)

lemma inv_cached: "ik_inv A s \<Longrightarrow> cipher_cached A s" "xk_inv A s \<Longrightarrow> cipher_cached A s"
  by (simp_all add: ik_inv_def xk_inv_def)

lemma rejected_keeps:
  assumes "cipher_cached A s"
  shows "case try_read_message_2 C A s m of (s', Err e) \<Rightarrow> s' = s | _ \<Rightarrow> True"
    "case try_read_xk_message_2 C A s m of (s', Err e) \<Rightarrow> s' = s | _ \<Rightarrow> True"
    "case read_xk_message_3 C A s m of (s', Err e) \<Rightarrow> s' = s | _ \<Rightarrow> True"
  using try_readers_keep [OF assms] by (simp_all split: prod.split outcome.split)

lemma inv_session:
  "ik_inv A s \<Longrightarrow> into_session C A s \<noteq> Panic" "xk_inv A s \<Longrightarrow> into_session C A s \<noteq> Panic"
  by (auto simp: ik_inv_def xk_inv_def into_session_def is_complete_def split_beta split: option.splits if_splits handshake_role.splits)

text \<open>Whatever messages arrive in whatever order, failed ones included, a completed handshake knows the
  remote key and epoch: turning it into a session returns a session or \<open>HandshakeNotComplete\<close> and never
  panics, for both patterns and both roles.\<close>

theorem into_session_never_panics:
  "into_session C A (run (ik_step C A) (new_initiator C si rs) ik_ops) \<noteq> Panic \<and>
   into_session C A (run (ik_step C A) (new_responder C sr) ik_ops) \<noteq> Panic \<and>
   into_session C A (run (xk_step C A) (new_xk_initiator C si rs) xk_ops) \<noteq> Panic \<and>
   into_session C A (run (xk_step C A) (new_xk_responder C sr) xk_ops) \<noteq> Panic"
  by (intro conjI inv_session ik_machine.run_inv xk_machine.run_inv start_inv)

text \<open>C11: a forged or damaged message does not consume a handshake. In every state a handshake reaches, a
  second message the transactional readers reject, and a third message that is rejected, leave the whole
  state as it was, so that the genuine message can still complete it.\<close>

theorem rejected_message_keeps_handshake:
  "(let s = run (ik_step C A) (new_initiator C si rs) ik_ops in
      case try_read_message_2 C A s m of (s', Err e) \<Rightarrow> s' = s | _ \<Rightarrow> True) \<and>
   (let s = run (xk_step C A) (new_xk_initiator C si rs) xk_ops in
      case try_read_xk_message_2 C A s m of (s', Err e) \<Rightarrow> s' = s | _ \<Rightarrow> True) \<and>
   (let s = run (xk_step C A) (new_xk_responder C sr) xk_ops in
      case read_xk_message_3 C A s m of (s', Err e) \<Rightarrow> s' = s | _ \<Rightarrow> True)"
  unfolding Let_def
  by (intro conjI rejected_keeps inv_cached(1) [OF ik_machine.run_inv] inv_cached(2) [OF xk_machine.run_inv] start_inv)

end
