(* ===== verification/Limiter.thy ===== *)
theory Limiter
  imports Hash_Map
begin

text \<open>
  The contract the interval limiters share. A limiter decides for a key at an instant; an admission is
  remembered, and a memory is dropped only when the interval it enforces has passed. Whatever the
  eviction and cleanup policy, admissions of one key are then an interval apart. The limiters of
  routing errors, of ICMP messages and of forwarded lookups are interpretations.
\<close>

fun admitted :: "('s \<Rightarrow> 'k \<Rightarrow> instant \<Rightarrow> 's \<times> bool) \<Rightarrow> 's \<Rightarrow> ('k \<times> instant) list \<Rightarrow> ('k \<times> instant) list" where
  "admitted step s [] = []"
| "admitted step s ((k, t) # evs) =
    (case step s k t of (s', b) \<Rightarrow> (if b then [(k, t)] else []) @ admitted step s' evs)"

lemma set_admitted: "set (admitted step s evs) \<subseteq> set evs"
  by (induction step s evs rule: admitted.induct) (auto split: prod.splits)

locale interval_limiter =
  fixes inv :: "'s \<Rightarrow> bool" and step :: "'s \<Rightarrow> 'k \<Rightarrow> instant \<Rightarrow> 's \<times> bool"
    and memory :: "'s \<Rightarrow> 'k \<Rightarrow> instant option" and gap :: duration
  assumes inv_step: "inv s \<Longrightarrow> inv (fst (step s k t))"
    and admit_remembers: "inv s \<Longrightarrow> snd (step s k t) \<Longrightarrow> memory (fst (step s k t)) k = Some t"
    and admit_after_gap: "inv s \<Longrightarrow> snd (step s k t) \<Longrightarrow> memory s k = Some u \<Longrightarrow> gap \<le> t - u"
    and forget_after_gap: "inv s \<Longrightarrow> \<not> (j = k \<and> snd (step s k t)) \<Longrightarrow> memory s j = Some u \<Longrightarrow>
        memory (fst (step s k t)) j = Some u \<or> gap \<le> t - u"
begin

lemma admitted_later:
  assumes "inv s" "(\<exists>u'. u \<le> u' \<and> memory s j = Some u') \<or> gap \<le> now - u"
    and "sorted (map snd evs)" "\<forall>e \<in> set evs. now \<le> snd e" "(j, t) \<in> set (admitted step s evs)"
  shows "gap \<le> t - u"
  using assms
proof (induction evs arbitrary: s now)
  case (Cons e evs)
  obtain k v where e: "e = (k, v)" by fastforce
  show ?case
  proof (cases "gap \<le> now - u")
    case True
    have "now \<le> t" using Cons.prems(4,5) set_admitted [of step s "e # evs"] by fastforce
    then show ?thesis using True by linarith
  next
    case False
    then obtain u' where u': "u \<le> u'" "memory s j = Some u'" using Cons.prems(2) by blast
    show ?thesis
    proof (cases "j = k \<and> snd (step s k v)")
      case True
      then have "gap \<le> v - u'" using admit_after_gap Cons.prems(1) u' by blast
      then have "gap \<le> v - u" using u'(1) by linarith
      moreover have "v \<le> t"
        using Cons.prems(3,5) e True set_admitted [of step "fst (step s k v)" evs]
        by (fastforce simp: split_beta split: if_splits)
      ultimately show ?thesis by linarith
    next
      case other: False
      then have "memory (fst (step s k v)) j = Some u' \<or> gap \<le> v - u"
        using forget_after_gap [OF Cons.prems(1) other u'(2)] u'(1) by auto
      moreover have "(j, t) \<in> set (admitted step (fst (step s k v)) evs)"
        using Cons.prems(5) e other by (auto simp: split_beta split: if_splits)
      ultimately show ?thesis
        using Cons.IH [of "fst (step s k v)" v] Cons.prems(1,3) e u'(1) inv_step by auto
    qed
  qed
qed simp

lemma admitted_spaced:
  assumes "inv s" "sorted (map snd evs)"
  shows "sorted_wrt (\<lambda>u t. gap \<le> t - u) (map snd (filter (\<lambda>e. fst e = k) (admitted step s evs)))"
  using assms
proof (induction evs arbitrary: s)
  case (Cons e evs)
  obtain j v where e: "e = (j, v)" by fastforce
  let ?s = "fst (step s j v)"
  have rest: "sorted_wrt (\<lambda>u t. gap \<le> t - u) (map snd (filter (\<lambda>e. fst e = k) (admitted step ?s evs)))"
    using Cons e inv_step by simp
  have "gap \<le> t - v" if "snd (step s j v)" "(j, t) \<in> set (admitted step ?s evs)" for t
    using admitted_later [of ?s v j v evs t] that Cons.prems e inv_step admit_remembers by auto
  then show ?case using rest e by (auto simp: split_beta)
qed simp

end

sublocale interval_limiter \<subseteq> limiter_run: invariant_machine inv "\<lambda>s e. fst (step s (fst e) (snd e))"
  by unfold_locales (rule inv_step)

end
