(* ===== verification/Rate_Limit.thy ===== *)
theory Rate_Limit
  imports Identity Limiter
begin

text \<open>
  Limiters of error signals: routing errors per destination at transit nodes
  (\<^verbatim>\<open>proto/rate_limit.rs\<close>), with a hard cap on the keys an attacker can mint, and ICMP Packet Too Big
  per source (\<^verbatim>\<open>upper/icmp_rate_limit.rs\<close>). The clock is an argument.
\<close>

definition MAX_ENTRIES :: nat where "MAX_ENTRIES = 4096"

definition SWEEPS_PER_MAX_AGE :: nat where "SWEEPS_PER_MAX_AGE = 8"

datatype limit_verdict = Admit | AdmitAtCapacity | Suppress

record error_limiter =
  el_last_sent :: "(node_addr, instant) hmap"
  el_min_interval :: duration
  el_max_age :: duration
  el_last_sweep :: instant

definition error_limiter_with_interval :: "duration \<Rightarrow> instant \<Rightarrow> error_limiter" where
  "error_limiter_with_interval min_interval now = \<lparr> el_last_sent = [], el_min_interval = min_interval,
     el_max_age = from_secs 10, el_last_sweep = now \<rparr>"

definition error_limiter_new :: "instant \<Rightarrow> error_limiter" where
  "error_limiter_new now = error_limiter_with_interval (from_millis 100) now"

definition el_cleanup :: "error_limiter \<Rightarrow> instant \<Rightarrow> error_limiter" where
  "el_cleanup s now = s\<lparr> el_last_sweep := now,
     el_last_sent := hm_retain (\<lambda>_ t. duration_since now t < el_max_age s) (el_last_sent s) \<rparr>"

definition el_maybe_cleanup :: "error_limiter \<Rightarrow> instant \<Rightarrow> error_limiter" where
  "el_maybe_cleanup s now =
    (if el_max_age s div SWEEPS_PER_MAX_AGE \<le> duration_since now (el_last_sweep s) then el_cleanup s now else s)"

definition el_remember :: "error_limiter \<Rightarrow> node_addr \<Rightarrow> instant \<Rightarrow> error_limiter \<times> limit_verdict" where
  "el_remember s dest now =
    (el_maybe_cleanup (s\<lparr> el_last_sent := hm_insert dest now (el_last_sent s) \<rparr>) now, Admit)"

definition el_check :: "error_limiter \<Rightarrow> node_addr \<Rightarrow> instant \<Rightarrow> error_limiter \<times> limit_verdict" where
  "el_check s dest now =
    (if \<exists>t. map_of (el_last_sent s) dest = Some t \<and> duration_since now t < el_min_interval s then (s, Suppress)
     else if MAX_ENTRIES \<le> length (el_last_sent s) \<and> \<not> hm_contains (el_last_sent s) dest then
       (let s' = el_maybe_cleanup s now in
        if MAX_ENTRIES \<le> length (el_last_sent s') then (s', AdmitAtCapacity) else el_remember s' dest now)
     else el_remember s dest now)"

definition el_should_send :: "error_limiter \<Rightarrow> node_addr \<Rightarrow> instant \<Rightarrow> error_limiter \<times> bool" where
  "el_should_send s dest now = (case el_check s dest now of (s', v) \<Rightarrow> (s', v = Admit))"

type_synonym ipv6_addr = "128 word"

record icmp_limiter =
  il_last_sent :: "(ipv6_addr, instant) hmap"
  il_min_interval :: duration
  il_max_age :: duration

definition icmp_limiter_with_interval :: "duration \<Rightarrow> icmp_limiter" where
  "icmp_limiter_with_interval min_interval = \<lparr> il_last_sent = [], il_min_interval = min_interval,
     il_max_age = from_secs 10 \<rparr>"

definition icmp_limiter_new :: icmp_limiter where
  "icmp_limiter_new = icmp_limiter_with_interval (from_millis 100)"

definition il_cleanup :: "icmp_limiter \<Rightarrow> instant \<Rightarrow> icmp_limiter" where
  "il_cleanup s now = s\<lparr> il_last_sent := hm_retain (\<lambda>_ t. duration_since now t < il_max_age s) (il_last_sent s) \<rparr>"

definition il_should_send :: "icmp_limiter \<Rightarrow> ipv6_addr \<Rightarrow> instant \<Rightarrow> icmp_limiter \<times> bool" where
  "il_should_send s src now =
    (if \<exists>t. map_of (il_last_sent s) src = Some t \<and> duration_since now t < il_min_interval s then (s, False)
     else (il_cleanup (s\<lparr> il_last_sent := hm_insert src now (il_last_sent s) \<rparr>) now, True))"

section \<open>The limiters keep the interval\<close>

definition el_inv :: "duration \<Rightarrow> error_limiter \<Rightarrow> bool" where
  "el_inv gap s \<longleftrightarrow> hm_inv (el_last_sent s) \<and> length (el_last_sent s) \<le> MAX_ENTRIES \<and> el_min_interval s = gap \<and>
     gap \<le> el_max_age s \<and> 0 < el_max_age s"

definition il_inv :: "duration \<Rightarrow> icmp_limiter \<Rightarrow> bool" where
  "il_inv gap s \<longleftrightarrow> hm_inv (il_last_sent s) \<and> il_min_interval s = gap \<and> gap \<le> il_max_age s \<and> 0 < il_max_age s"

lemma el_inv_maybe_cleanup [simp]: "el_inv gap s \<Longrightarrow> el_inv gap (el_maybe_cleanup s now)"
  by (auto simp: el_inv_def el_maybe_cleanup_def el_cleanup_def intro: order_trans [OF length_hm_retain_le])

lemma el_cleanup_memory:
  assumes "el_inv gap s" "map_of (el_last_sent s) j = Some u"
  shows "map_of (el_last_sent (el_maybe_cleanup s now)) j = Some u \<or> gap \<le> now - u"
    and "u = now \<Longrightarrow> map_of (el_last_sent (el_maybe_cleanup s now)) j = Some u"
  using assms by (auto simp: el_inv_def el_maybe_cleanup_def el_cleanup_def hm_simps duration_since_def)

lemma el_remember_inv:
  assumes "el_inv gap s" "length (el_last_sent s) < MAX_ENTRIES \<or> hm_contains (el_last_sent s) dest"
  shows "el_inv gap (s\<lparr> el_last_sent := hm_insert dest now (el_last_sent s) \<rparr>)"
    and "el_inv gap (fst (el_remember s dest now))"
proof -
  show "el_inv gap (s\<lparr> el_last_sent := hm_insert dest now (el_last_sent s) \<rparr>)"
    using assms by (auto simp: el_inv_def hm_simps hm_contains_def)
  then show "el_inv gap (fst (el_remember s dest now))"
    by (simp add: el_remember_def)
qed

lemma el_remember_memory:
  assumes "el_inv gap s" "length (el_last_sent s) < MAX_ENTRIES \<or> hm_contains (el_last_sent s) dest"
  shows "map_of (el_last_sent (fst (el_remember s dest now))) dest = Some now"
    and "j \<noteq> dest \<Longrightarrow> map_of (el_last_sent s) j = Some u \<Longrightarrow>
      map_of (el_last_sent (fst (el_remember s dest now))) j = Some u \<or> gap \<le> now - u"
  using el_cleanup_memory [OF el_remember_inv(1) [OF assms]]
  by (simp_all add: el_remember_def hm_simps)

text \<open>The three outcomes of a check: admissions go through \<open>el_remember\<close> with room in the table.\<close>

lemma el_check_cases:
  assumes "el_inv gap s"
  obtains (suppress) "el_check s dest now = (s, Suppress)"
  | (capacity) "el_check s dest now = (el_maybe_cleanup s now, AdmitAtCapacity)" "map_of (el_last_sent s) dest = None"
  | (admit) s0 where "s0 = s \<or> s0 = el_maybe_cleanup s now \<and> map_of (el_last_sent s) dest = None"
      "el_check s dest now = el_remember s0 dest now" "el_inv gap s0"
      "length (el_last_sent s0) < MAX_ENTRIES \<or> hm_contains (el_last_sent s0) dest"
      "\<And>u. map_of (el_last_sent s) dest = Some u \<Longrightarrow> gap \<le> now - u"
proof (cases "\<exists>t. map_of (el_last_sent s) dest = Some t \<and> duration_since now t < el_min_interval s")
  case True
  then show thesis by (intro suppress) (simp add: el_check_def)
next
  case False
  then have gap: "\<And>u. map_of (el_last_sent s) dest = Some u \<Longrightarrow> gap \<le> now - u"
    using assms by (auto simp: el_inv_def duration_since_def)
  show thesis
  proof (cases "MAX_ENTRIES \<le> length (el_last_sent s) \<and> \<not> hm_contains (el_last_sent s) dest")
    case full: True
    then show thesis
      using False assms capacity admit [of "el_maybe_cleanup s now"]
      by (cases "MAX_ENTRIES \<le> length (el_last_sent (el_maybe_cleanup s now))")
        (auto simp: el_check_def Let_def hm_contains_def)
  next
    case room: False
    have "el_check s dest now = el_remember s dest now" unfolding el_check_def if_not_P [OF False] if_not_P [OF room] ..
    then show thesis using room assms gap by (intro admit [of s]) auto
  qed
qed

interpretation error_limit: interval_limiter "el_inv gap" el_should_send "\<lambda>s. map_of (el_last_sent s)" gap for gap
proof
  fix s k t u j
  assume inv: "el_inv gap s"
  show "el_inv gap (fst (el_should_send s k t))"
    using inv by (rule el_check_cases [of gap s k t]) (auto simp: el_should_send_def split_beta el_remember_inv inv)
  show "map_of (el_last_sent (fst (el_should_send s k t))) k = Some t" if "snd (el_should_send s k t)"
    using inv by (rule el_check_cases [of gap s k t])
      (use that in \<open>auto simp: el_should_send_def split_beta el_remember_memory\<close>)
  show "gap \<le> t - u" if "snd (el_should_send s k t)" "map_of (el_last_sent s) k = Some u"
    using inv by (rule el_check_cases [of gap s k t])
      (use that in \<open>auto simp: el_should_send_def split_beta\<close>)
  show "map_of (el_last_sent (fst (el_should_send s k t))) j = Some u \<or> gap \<le> t - u"
    if "\<not> (j = k \<and> snd (el_should_send s k t))" "map_of (el_last_sent s) j = Some u"
  proof (rule el_check_cases [OF inv, of k t])
    fix s0 assume "s0 = s \<or> s0 = el_maybe_cleanup s t \<and> map_of (el_last_sent s) k = None"
      and s0: "el_check s k t = el_remember s0 k t" "el_inv gap s0"
        "length (el_last_sent s0) < MAX_ENTRIES \<or> hm_contains (el_last_sent s0) k"
    then have "map_of (el_last_sent s0) j = Some u \<or> gap \<le> t - u"
      using that(2) el_cleanup_memory(1) [OF inv that(2), of t] by auto
    moreover have "j \<noteq> k"
      using that(1) s0(1) by (auto simp: el_should_send_def el_remember_def split_beta)
    ultimately show ?thesis
      using s0(1) el_remember_memory(2) [OF s0(2,3)] by (auto simp: el_should_send_def split_beta)
  qed (use that el_cleanup_memory(1) [OF inv that(2), of t] in \<open>auto simp: el_should_send_def\<close>)
qed

interpretation icmp_limit: interval_limiter "il_inv gap" il_should_send "\<lambda>s. map_of (il_last_sent s)" gap for gap
  by unfold_locales
    (auto simp: il_inv_def il_should_send_def il_cleanup_def hm_simps duration_since_def split: if_splits)

text \<open>With a clock that does not run backwards, two admitted error signals for one destination are at
  least the configured interval apart, for routing errors as for ICMP messages, and the table of routing
  errors never holds more than 4096 destinations.\<close>

theorem error_signals_spaced:
  assumes "sorted (map snd evs)" "sorted (map snd ievs)" "gap \<le> from_secs 10"
  shows "sorted_wrt (\<lambda>u t. gap \<le> t - u) (map snd (filter (\<lambda>e. fst e = dest)
      (admitted el_should_send (error_limiter_with_interval gap start) evs))) \<and>
    sorted_wrt (\<lambda>u t. gap \<le> t - u) (map snd (filter (\<lambda>e. fst e = src)
      (admitted il_should_send (icmp_limiter_with_interval gap) ievs))) \<and>
    length (el_last_sent (run (\<lambda>s (d, t). fst (el_check s d t)) (error_limiter_with_interval gap start) checks)) \<le> 4096"
proof (intro conjI)
  have inv: "el_inv gap (error_limiter_with_interval gap start)"
    using assms(3) by (simp add: el_inv_def error_limiter_with_interval_def from_secs_def)
  show "sorted_wrt (\<lambda>u t. gap \<le> t - u) (map snd (filter (\<lambda>e. fst e = dest)
      (admitted el_should_send (error_limiter_with_interval gap start) evs)))"
    by (rule error_limit.admitted_spaced [OF inv assms(1)])
  show "sorted_wrt (\<lambda>u t. gap \<le> t - u) (map snd (filter (\<lambda>e. fst e = src)
      (admitted il_should_send (icmp_limiter_with_interval gap) ievs)))"
    using assms(2,3) by (intro icmp_limit.admitted_spaced)
      (simp_all add: il_inv_def icmp_limiter_with_interval_def from_secs_def)
  show "length (el_last_sent (run (\<lambda>s (d, t). fst (el_check s d t)) (error_limiter_with_interval gap start) checks)) \<le> 4096"
    using error_limit.limiter_run.run_inv [OF inv, of checks]
    by (simp add: el_inv_def MAX_ENTRIES_def el_should_send_def case_prod_unfold)
qed

theorem error_signals_spaced_witness:
  "sorted_wrt (\<lambda>u t. from_millis 100 \<le> t - u) (map snd (filter (\<lambda>e. fst e = NodeAddr 7)
      (admitted el_should_send (error_limiter_with_interval (from_millis 100) 0)
        [(NodeAddr 7, 5), (NodeAddr 8, 6), (NodeAddr 7, from_millis 40), (NodeAddr 7, from_millis 150)])))"
  using error_signals_spaced [of "[(NodeAddr 7, 5), (NodeAddr 8, 6), (NodeAddr 7, from_millis 40), (NodeAddr 7, from_millis 150)]"
      "[]" "from_millis 100" "NodeAddr 7" 0]
  by (simp add: from_millis_def from_secs_def)

end
