(* ===== verification/Session_Index.thy ===== *)
theory Session_Index
  imports Fips_Prelude
begin

text \<open>
  Allocation of session indices (\<^verbatim>\<open>utils/index.rs\<close>). The random generator is the argument \<open>draws\<close>, the
  sequence of candidates of one call. The client's view of the allocator is the list of indices it
  holds: those handed out and not given back.
\<close>

datatype index_error = Exhausted | NotFound u32 | AlreadyInUse u32

datatype session_index = SessionIndex (as_u32: u32)

definition index_to_le_bytes :: "session_index \<Rightarrow> bytes" where
  "index_to_le_bytes i = to_le 4 (as_u32 i)"

definition index_from_le_bytes :: "bytes \<Rightarrow> session_index" where
  "index_from_le_bytes bs = SessionIndex (of_le bs)"

record index_allocator =
  ia_in_use :: "u32 list"
  ia_max_attempts :: nat

definition with_max_attempts :: "nat \<Rightarrow> index_allocator" where
  "with_max_attempts n = \<lparr> ia_in_use = [], ia_max_attempts = n \<rparr>"

definition allocator_new :: index_allocator where
  "allocator_new = with_max_attempts 100"

text \<open>The loop of \<^verbatim>\<open>allocate\<close>: \<open>attempts\<close> candidates, from the \<open>i\<close>-th draw on.\<close>

primrec allocate_loop :: "(nat \<Rightarrow> u32) \<Rightarrow> u32 list \<Rightarrow> nat \<Rightarrow> nat \<Rightarrow> u32 option" where
  "allocate_loop draws in_use i 0 = None"
| "allocate_loop draws in_use i (Suc attempts) =
    (if draws i \<notin> set in_use then Some (draws i) else allocate_loop draws in_use (Suc i) attempts)"

definition allocate :: "(nat \<Rightarrow> u32) \<Rightarrow> index_allocator \<Rightarrow> index_allocator \<times> (index_error, session_index) outcome" where
  "allocate draws a = (case allocate_loop draws (ia_in_use a) 0 (ia_max_attempts a) of
     Some c \<Rightarrow> (a\<lparr> ia_in_use := List.insert c (ia_in_use a) \<rparr>, Ok (SessionIndex c))
   | None \<Rightarrow> (a, Err Exhausted))"

definition free :: "index_allocator \<Rightarrow> session_index \<Rightarrow> index_allocator \<times> (index_error, unit) outcome" where
  "free a i = (if as_u32 i \<in> set (ia_in_use a)
     then (a\<lparr> ia_in_use := remove1 (as_u32 i) (ia_in_use a) \<rparr>, Ok ())
     else (a, Err (NotFound (as_u32 i))))"

definition is_allocated :: "index_allocator \<Rightarrow> session_index \<Rightarrow> bool" where
  "is_allocated a i \<longleftrightarrow> as_u32 i \<in> set (ia_in_use a)"

definition reserve_index :: "index_allocator \<Rightarrow> session_index \<Rightarrow> index_allocator \<times> (index_error, unit) outcome" where
  "reserve_index a i = (if as_u32 i \<in> set (ia_in_use a) then (a, Err (AlreadyInUse (as_u32 i)))
     else (a\<lparr> ia_in_use := List.insert (as_u32 i) (ia_in_use a) \<rparr>, Ok ()))"

definition clear_allocator :: "index_allocator \<Rightarrow> index_allocator" where
  "clear_allocator a = a\<lparr> ia_in_use := [] \<rparr>"

lemma allocate_loop_Some:
  "allocate_loop draws in_use i n = Some c \<Longrightarrow> c \<notin> set in_use \<and> (\<exists>k < n. c = draws (i + k))"
  by (induction n arbitrary: i) (auto split: if_splits, metis Suc_mono add_Suc_right add_Suc)

lemma allocate_loop_None:
  "allocate_loop draws in_use i n = None \<longleftrightarrow> (\<forall>k < n. draws (i + k) \<in> set in_use)"
  by (induction n arbitrary: i) (auto simp: less_Suc_eq_0_disj All_less_Suc2)

section \<open>Held indices\<close>

datatype index_op = Allocate "nat \<Rightarrow> u32" | Free session_index | Reserve session_index | ClearAll

text \<open>\<open>held\<close> follows the results the calls return, not the allocator's own table.\<close>

fun index_step :: "index_allocator \<times> session_index list \<Rightarrow> index_op \<Rightarrow> index_allocator \<times> session_index list" where
  "index_step (a, held) (Allocate draws) = (case allocate draws a of
     (a', Ok i) \<Rightarrow> (a', i # held) | (a', _) \<Rightarrow> (a', held))"
| "index_step (a, held) (Free i) = (case free a i of
     (a', Ok _) \<Rightarrow> (a', remove1 i held) | (a', _) \<Rightarrow> (a', held))"
| "index_step (a, held) (Reserve i) = (case reserve_index a i of
     (a', Ok _) \<Rightarrow> (a', i # held) | (a', _) \<Rightarrow> (a', held))"
| "index_step (a, held) ClearAll = (clear_allocator a, [])"

definition held_inv :: "index_allocator \<times> session_index list \<Rightarrow> bool" where
  "held_inv s \<longleftrightarrow> distinct (snd s) \<and> distinct (ia_in_use (fst s)) \<and> as_u32 ` set (snd s) = set (ia_in_use (fst s))"

lemma held_image_remove:
  "distinct held \<Longrightarrow> as_u32 ` set (remove1 i held) = as_u32 ` set held - {as_u32 i}"
  by (auto simp: session_index.expand)

interpretation index_machine: invariant_machine held_inv index_step
proof
  fix s op assume inv: "held_inv s"
  obtain a held where s: "s = (a, held)" by fastforce
  have new: "SessionIndex c \<notin> set held" if "c \<notin> set (ia_in_use a)" for c
    using inv s that by (force simp: held_inv_def)
  show "held_inv (index_step s op)"
  proof (cases op)
    case (Allocate draws)
    then show ?thesis
      using inv s new allocate_loop_Some [of draws "ia_in_use a" 0 "ia_max_attempts a"]
      by (auto simp: allocate_def held_inv_def split: option.splits)
  next
    case (Free i)
    then show ?thesis
      using inv s by (auto simp: free_def held_inv_def held_image_remove session_index.expand)
  next
    case (Reserve i)
    then show ?thesis
      using inv s new [of "as_u32 i"] by (auto simp: reserve_index_def held_inv_def)
  qed (simp add: s held_inv_def clear_allocator_def)
qed

text \<open>C21: whatever the random draws and the order of calls, the indices a client holds are pairwise
  distinct and are exactly those the allocator reports as allocated; an allocation fails only when every
  candidate it drew was in use.\<close>

theorem session_indices_unique:
  "let (a, held) = run index_step (allocator_new, []) ops in
    distinct held \<and> (\<forall>i. is_allocated a i \<longleftrightarrow> i \<in> set held) \<and>
    (snd (allocate draws a) = Err Exhausted \<longleftrightarrow> (\<forall>k. k < ia_max_attempts a \<longrightarrow> SessionIndex (draws k) \<in> set held))"
proof -
  have "held_inv (run index_step (allocator_new, []) ops)"
    by (rule index_machine.run_inv) (simp add: held_inv_def allocator_new_def with_max_attempts_def)
  moreover obtain a held where run: "run index_step (allocator_new, []) ops = (a, held)" by fastforce
  ultimately have inv: "held_inv (a, held)" by simp
  have mem: "c \<in> set (ia_in_use a) \<longleftrightarrow> SessionIndex c \<in> set held" for c
    using inv by (auto simp: held_inv_def image_iff set_eq_iff) (metis session_index.exhaust_sel session_index.sel)+
  have "is_allocated a i \<longleftrightarrow> i \<in> set held" for i
    by (simp add: is_allocated_def mem)
  moreover have "snd (allocate draws a) = Err Exhausted \<longleftrightarrow> (\<forall>k. k < ia_max_attempts a \<longrightarrow> SessionIndex (draws k) \<in> set held)"
    using allocate_loop_None [of draws "ia_in_use a" 0 "ia_max_attempts a"]
    by (auto simp: allocate_def mem split: option.splits)
  ultimately show ?thesis using inv run by (simp add: held_inv_def)
qed

theorem session_indices_unique_witness:
  "let (a, held) = run index_step (allocator_new, []) [Allocate (\<lambda>n. of_nat n), Allocate (\<lambda>n. of_nat n)] in
    distinct held \<and> held = [SessionIndex 1, SessionIndex 0]"
  using session_indices_unique [of "[Allocate (\<lambda>n. of_nat n), Allocate (\<lambda>n. of_nat n)]" "\<lambda>n. of_nat n"]
  by (simp add: allocator_new_def with_max_attempts_def allocate_def numeral_eq_Suc)

end
