(* ===== verification/Coord_Cache.thy ===== *)
theory Coord_Cache
  imports Tree_Coordinate Hash_Map F64
begin

text \<open>
  The coordinate cache (\<^verbatim>\<open>cache/mod.rs\<close>, \<^verbatim>\<open>cache/entry.rs\<close>, \<^verbatim>\<open>cache/coord_cache.rs\<close>): coordinates of
  destinations learnt from session headers (hints) and from lookup responses whose proof was verified
  here. Verified coordinates outrank hints for a fixed time, and the table never outgrows its capacity.
\<close>

definition VERIFIED_TTL_MS :: u64 where "VERIFIED_TTL_MS = 300000"

definition DEFAULT_COORD_CACHE_SIZE :: nat where "DEFAULT_COORD_CACHE_SIZE = 50000"

definition DEFAULT_COORD_CACHE_TTL_MS :: u64 where "DEFAULT_COORD_CACHE_TTL_MS = 300000"

datatype coord_source = Verified | Hint

record cache_entry =
  ce_coords :: tree_coordinate
  ce_created_at :: u64
  ce_last_used :: u64
  ce_expires_at :: u64
  ce_path_mtu :: "u16 option"
  ce_source :: coord_source
  ce_verified_until :: u64

definition cache_entry_new :: "tree_coordinate \<Rightarrow> u64 \<Rightarrow> u64 \<Rightarrow> cache_entry" where
  "cache_entry_new coords now ttl = \<lparr> ce_coords = coords, ce_created_at = now, ce_last_used = now,
     ce_expires_at = saturating_add now ttl, ce_path_mtu = None, ce_source = Hint, ce_verified_until = 0 \<rparr>"

definition is_verified :: "cache_entry \<Rightarrow> u64 \<Rightarrow> bool" where
  "is_verified e now \<longleftrightarrow> ce_source e = Verified \<and> now \<le> ce_verified_until e"

definition mark_verified :: "cache_entry \<Rightarrow> u64 \<Rightarrow> cache_entry" where
  "mark_verified e now = e\<lparr> ce_source := Verified, ce_verified_until := saturating_add now VERIFIED_TTL_MS \<rparr>"

definition mark_hint :: "cache_entry \<Rightarrow> cache_entry" where
  "mark_hint e = e\<lparr> ce_source := Hint, ce_verified_until := 0 \<rparr>"

definition new_verified :: "tree_coordinate \<Rightarrow> u64 \<Rightarrow> u64 \<Rightarrow> cache_entry" where
  "new_verified coords now ttl = mark_verified (cache_entry_new coords now ttl) now"

definition set_path_mtu :: "cache_entry \<Rightarrow> u16 \<Rightarrow> cache_entry" where
  "set_path_mtu e mtu = e\<lparr> ce_path_mtu := Some mtu \<rparr>"

definition is_expired :: "cache_entry \<Rightarrow> u64 \<Rightarrow> bool" where
  "is_expired e now \<longleftrightarrow> ce_expires_at e < now"

definition touch :: "cache_entry \<Rightarrow> u64 \<Rightarrow> cache_entry" where
  "touch e now = e\<lparr> ce_last_used := now \<rparr>"

definition refresh :: "cache_entry \<Rightarrow> u64 \<Rightarrow> u64 \<Rightarrow> cache_entry" where
  "refresh e now ttl = e\<lparr> ce_expires_at := saturating_add now ttl, ce_last_used := now \<rparr>"

definition update :: "cache_entry \<Rightarrow> tree_coordinate \<Rightarrow> u64 \<Rightarrow> u64 \<Rightarrow> cache_entry" where
  "update e coords now ttl =
     mark_hint (e\<lparr> ce_coords := coords, ce_last_used := now, ce_expires_at := saturating_add now ttl \<rparr>)"

definition update_verified :: "cache_entry \<Rightarrow> tree_coordinate \<Rightarrow> u64 \<Rightarrow> u64 \<Rightarrow> cache_entry" where
  "update_verified e coords now ttl = mark_verified (update e coords now ttl) now"

definition idle_time :: "cache_entry \<Rightarrow> u64 \<Rightarrow> u64" where
  "idle_time e now = saturating_sub now (ce_last_used e)"

definition age :: "cache_entry \<Rightarrow> u64 \<Rightarrow> u64" where
  "age e now = saturating_sub now (ce_created_at e)"

definition time_to_expiry :: "cache_entry \<Rightarrow> u64 \<Rightarrow> u64" where
  "time_to_expiry e now = saturating_sub (ce_expires_at e) now"

datatype hint_outcome = Inserted | Changed | Unchanged | Rejected

record coord_cache =
  cc_entries :: "(node_addr, cache_entry) hmap"
  cc_max_entries :: nat
  cc_default_ttl_ms :: u64

definition cache_new :: "nat \<Rightarrow> u64 \<Rightarrow> coord_cache" where
  "cache_new max_entries ttl = \<lparr> cc_entries = [], cc_max_entries = max_entries, cc_default_ttl_ms = ttl \<rparr>"

definition with_defaults :: coord_cache where
  "with_defaults = cache_new DEFAULT_COORD_CACHE_SIZE DEFAULT_COORD_CACHE_TTL_MS"

definition set_default_ttl_ms :: "coord_cache \<Rightarrow> u64 \<Rightarrow> coord_cache" where
  "set_default_ttl_ms c ttl = c\<lparr> cc_default_ttl_ms := ttl \<rparr>"

definition evict_expired :: "coord_cache \<Rightarrow> u64 \<Rightarrow> coord_cache \<times> bool" where
  "evict_expired c now = (case find (\<lambda>(_, e). is_expired e now) (cc_entries c) of
     Some (k, _) \<Rightarrow> (c\<lparr> cc_entries := hm_remove k (cc_entries c) \<rparr>, True)
   | None \<Rightarrow> (c, False))"

definition evict_hint_victim :: "coord_cache \<Rightarrow> u64 \<Rightarrow> coord_cache" where
  "evict_hint_victim c now = (case evict_expired c now of (c', True) \<Rightarrow> c'
   | (c', False) \<Rightarrow> (case max_by_key (\<lambda>(_, e). idle_time e now) (filter (\<lambda>(_, e). \<not> is_verified e now) (cc_entries c')) of
       Some (k, _) \<Rightarrow> c'\<lparr> cc_entries := hm_remove k (cc_entries c') \<rparr>
     | None \<Rightarrow> c'))"

definition evict_verified_victim :: "coord_cache \<Rightarrow> u64 \<Rightarrow> coord_cache" where
  "evict_verified_victim c now = (case evict_expired c now of (c', True) \<Rightarrow> c'
   | (c', False) \<Rightarrow> (case max_by_key (\<lambda>(_, e). idle_time e now) (cc_entries c') of
       Some (k, _) \<Rightarrow> c'\<lparr> cc_entries := hm_remove k (cc_entries c') \<rparr>
     | None \<Rightarrow> c'))"

definition hint_room :: "coord_cache \<Rightarrow> u64 \<Rightarrow> coord_cache" where
  "hint_room c now = (if cc_max_entries c \<le> length (cc_entries c) then evict_hint_victim c now else c)"

definition verified_room :: "coord_cache \<Rightarrow> u64 \<Rightarrow> coord_cache" where
  "verified_room c now = (if cc_max_entries c \<le> length (cc_entries c) then evict_verified_victim c now else c)"

definition put :: "coord_cache \<Rightarrow> node_addr \<Rightarrow> cache_entry \<Rightarrow> coord_cache" where
  "put c addr e = c\<lparr> cc_entries := hm_insert addr e (cc_entries c) \<rparr>"

definition insert_hint_with_ttl :: "coord_cache \<Rightarrow> node_addr \<Rightarrow> tree_coordinate \<Rightarrow> u64 \<Rightarrow> u64 \<Rightarrow> coord_cache \<times> hint_outcome" where
  "insert_hint_with_ttl c addr coords now ttl = (case map_of (cc_entries c) addr of
     Some e \<Rightarrow>
       if is_verified e now then (c, Rejected)
       else (put c addr (update e coords now ttl), if ce_coords e \<noteq> coords then Changed else Unchanged)
   | None \<Rightarrow>
       (let c = hint_room c now in
        if cc_max_entries c \<le> length (cc_entries c) then (c, Rejected)
        else (put c addr (cache_entry_new coords now ttl), Inserted)))"

definition insert_checked :: "coord_cache \<Rightarrow> node_addr \<Rightarrow> tree_coordinate \<Rightarrow> u64 \<Rightarrow> coord_cache \<times> hint_outcome" where
  "insert_checked c addr coords now = insert_hint_with_ttl c addr coords now (cc_default_ttl_ms c)"

definition insert_with_ttl_checked ::
  "coord_cache \<Rightarrow> node_addr \<Rightarrow> tree_coordinate \<Rightarrow> u64 \<Rightarrow> u64 \<Rightarrow> coord_cache \<times> hint_outcome" where
  "insert_with_ttl_checked c addr coords now ttl = insert_hint_with_ttl c addr coords now ttl"

definition insert_with_ttl :: "coord_cache \<Rightarrow> node_addr \<Rightarrow> tree_coordinate \<Rightarrow> u64 \<Rightarrow> u64 \<Rightarrow> coord_cache" where
  "insert_with_ttl c addr coords now ttl = fst (insert_with_ttl_checked c addr coords now ttl)"

definition insert_hint :: "coord_cache \<Rightarrow> node_addr \<Rightarrow> tree_coordinate \<Rightarrow> u64 \<Rightarrow> coord_cache" where
  "insert_hint c addr coords now = fst (insert_checked c addr coords now)"

definition insert_with_path_mtu_checked ::
  "coord_cache \<Rightarrow> node_addr \<Rightarrow> tree_coordinate \<Rightarrow> u64 \<Rightarrow> u16 \<Rightarrow> coord_cache \<times> hint_outcome" where
  "insert_with_path_mtu_checked c addr coords now path_mtu = (case map_of (cc_entries c) addr of
     Some e \<Rightarrow>
       if is_verified e now then (c, Rejected)
       else (let e' = update e coords now (cc_default_ttl_ms c);
                 mtu = (case ce_path_mtu e' of None \<Rightarrow> path_mtu | Some m \<Rightarrow> min m path_mtu) in
         (put c addr (set_path_mtu e' mtu), if ce_coords e \<noteq> coords then Changed else Unchanged))
   | None \<Rightarrow>
       (let c = hint_room c now in
        if cc_max_entries c \<le> length (cc_entries c) then (c, Rejected)
        else (put c addr (set_path_mtu (cache_entry_new coords now (cc_default_ttl_ms c)) path_mtu), Inserted)))"

definition insert_with_path_mtu :: "coord_cache \<Rightarrow> node_addr \<Rightarrow> tree_coordinate \<Rightarrow> u64 \<Rightarrow> u16 \<Rightarrow> coord_cache" where
  "insert_with_path_mtu c addr coords now path_mtu = fst (insert_with_path_mtu_checked c addr coords now path_mtu)"

definition insert_current_root_hint ::
  "coord_cache \<Rightarrow> node_addr \<Rightarrow> tree_coordinate \<Rightarrow> node_addr \<Rightarrow> u64 \<Rightarrow> coord_cache \<times> hint_outcome option" where
  "insert_current_root_hint c addr coords current_root now =
    (if node_addr coords \<noteq> addr \<or> root_id coords \<noteq> current_root then (c, None)
     else (case insert_checked c addr coords now of (c', r) \<Rightarrow> (c', Some r)))"

definition insert_verified :: "coord_cache \<Rightarrow> node_addr \<Rightarrow> tree_coordinate \<Rightarrow> u64 \<Rightarrow> coord_cache" where
  "insert_verified c addr coords now = (case map_of (cc_entries c) addr of
     Some e \<Rightarrow> put c addr (update_verified e coords now (cc_default_ttl_ms c))
   | None \<Rightarrow>
       (let c = verified_room c now in
        if cc_max_entries c \<le> length (cc_entries c) then c
        else put c addr (new_verified coords now (cc_default_ttl_ms c))))"

definition insert_verified_with_path_mtu ::
  "coord_cache \<Rightarrow> node_addr \<Rightarrow> tree_coordinate \<Rightarrow> u64 \<Rightarrow> u16 \<Rightarrow> coord_cache" where
  "insert_verified_with_path_mtu c addr coords now path_mtu = (case map_of (cc_entries c) addr of
     Some e \<Rightarrow>
       (let mtu = (if is_verified e now then (case ce_path_mtu e of None \<Rightarrow> path_mtu | Some m \<Rightarrow> min m path_mtu) else path_mtu) in
        put c addr (set_path_mtu (update_verified e coords now (cc_default_ttl_ms c)) mtu))
   | None \<Rightarrow>
       (let c = verified_room c now in
        if cc_max_entries c \<le> length (cc_entries c) then c
        else put c addr (set_path_mtu (new_verified coords now (cc_default_ttl_ms c)) path_mtu)))"

definition get :: "coord_cache \<Rightarrow> node_addr \<Rightarrow> u64 \<Rightarrow> tree_coordinate option" where
  "get c addr now = (case map_of (cc_entries c) addr of None \<Rightarrow> None
     | Some e \<Rightarrow> if is_expired e now then None else Some (ce_coords e))"

definition get_and_touch :: "coord_cache \<Rightarrow> node_addr \<Rightarrow> u64 \<Rightarrow> coord_cache \<times> tree_coordinate option" where
  "get_and_touch c addr now = (case map_of (cc_entries c) addr of
     None \<Rightarrow> (c, None)
   | Some e \<Rightarrow>
       if is_expired e now then (c\<lparr> cc_entries := hm_remove addr (cc_entries c) \<rparr>, None)
       else (put c addr (refresh e now (cc_default_ttl_ms c)), Some (ce_coords e)))"

definition remove :: "coord_cache \<Rightarrow> node_addr \<Rightarrow> coord_cache \<times> cache_entry option" where
  "remove c addr = (c\<lparr> cc_entries := hm_remove addr (cc_entries c) \<rparr>, map_of (cc_entries c) addr)"

definition retain_entries :: "(cache_entry \<Rightarrow> bool) \<Rightarrow> coord_cache \<Rightarrow> coord_cache \<times> nat" where
  "retain_entries keep c = (let es = hm_retain (\<lambda>_. keep) (cc_entries c) in
     (c\<lparr> cc_entries := es \<rparr>, length (cc_entries c) - length es))"

definition purge_expired :: "coord_cache \<Rightarrow> u64 \<Rightarrow> coord_cache \<times> nat" where
  "purge_expired c now = retain_entries (\<lambda>e. \<not> is_expired e now) c"

definition clear_cache :: "coord_cache \<Rightarrow> coord_cache" where
  "clear_cache c = c\<lparr> cc_entries := [] \<rparr>"

definition invalidate_via_node :: "coord_cache \<Rightarrow> node_addr \<Rightarrow> coord_cache \<times> nat" where
  "invalidate_via_node c a = retain_entries (\<lambda>e. \<not> contains (ce_coords e) a) c"

definition invalidate_other_roots :: "coord_cache \<Rightarrow> node_addr \<Rightarrow> coord_cache \<times> nat" where
  "invalidate_other_roots c current_root = retain_entries (\<lambda>e. root_id (ce_coords e) = current_root) c"

record cache_stats =
  st_entries :: nat
  st_max_entries :: nat
  st_expired :: nat
  st_avg_age_ms :: u64

definition stats :: "coord_cache \<Rightarrow> u64 \<Rightarrow> cache_stats" where
  "stats c now = \<lparr> st_entries = length (cc_entries c), st_max_entries = cc_max_entries c,
     st_expired = length (filter (\<lambda>(_, e). is_expired e now) (cc_entries c)),
     st_avg_age_ms = (if cc_entries c = [] then 0
       else sum_list (map (\<lambda>(_, e). age e now) (cc_entries c)) div of_nat (length (cc_entries c))) \<rparr>"

definition stats_fill_ratio :: "cache_stats \<Rightarrow> f64" where
  "stats_fill_ratio st = (if st_max_entries st = 0 then Fin 0
     else f_div (f_of_nat (st_entries st)) (f_of_nat (st_max_entries st)))"

section \<open>Capacity\<close>

definition cache_inv :: "nat \<Rightarrow> coord_cache \<Rightarrow> bool" where
  "cache_inv cap c \<longleftrightarrow> hm_inv (cc_entries c) \<and> length (cc_entries c) \<le> cap \<and> cc_max_entries c = cap"

text \<open>What an eviction may do: nothing, or remove one entry the policy allows.\<close>

definition evicts :: "(cache_entry \<Rightarrow> bool) \<Rightarrow> coord_cache \<Rightarrow> coord_cache \<Rightarrow> bool" where
  "evicts victim c c' \<longleftrightarrow> c' = c \<or>
     (\<exists>k e. map_of (cc_entries c) k = Some e \<and> victim e \<and> c' = c\<lparr> cc_entries := hm_remove k (cc_entries c) \<rparr>)"

lemma evict_expired_evicts:
  assumes "hm_inv (cc_entries c)" "evict_expired c now = (c', b)"
  shows "b \<Longrightarrow> \<exists>k e. map_of (cc_entries c) k = Some e \<and> is_expired e now \<and> c' = c\<lparr> cc_entries := hm_remove k (cc_entries c) \<rparr>"
    and "\<not> b \<Longrightarrow> c' = c"
proof -
  show "\<not> b \<Longrightarrow> c' = c" using assms(2) by (auto simp: evict_expired_def split: option.splits)
  assume b
  then obtain k e where "find (\<lambda>(_, e). is_expired e now) (cc_entries c) = Some (k, e)"
    and c': "c' = c\<lparr> cc_entries := hm_remove k (cc_entries c) \<rparr>"
    using assms(2) by (auto simp: evict_expired_def split: option.splits)
  then have "(k, e) \<in> set (cc_entries c)" "is_expired e now"
    by (auto simp: find_Some_iff dest: nth_mem [of _ "cc_entries c"])
  then show "\<exists>k e. map_of (cc_entries c) k = Some e \<and> is_expired e now \<and> c' = c\<lparr> cc_entries := hm_remove k (cc_entries c) \<rparr>"
    using assms(1) c' by (auto simp: hm_mem_iff)
qed

lemma evict_hint_victim_evicts:
  assumes "hm_inv (cc_entries c)"
  shows "evicts (\<lambda>e. is_expired e now \<or> \<not> is_verified e now) c (evict_hint_victim c now)"
proof -
  obtain c' b where cb: "evict_expired c now = (c', b)" by fastforce
  show ?thesis
  proof (cases b)
    case True
    then show ?thesis using evict_expired_evicts(1) [OF assms cb] cb by (auto simp: evict_hint_victim_def evicts_def)
  next
    case False
    then have "c' = c" using evict_expired_evicts(2) [OF assms cb] by simp
    then show ?thesis
      using False cb assms
      by (auto simp: evict_hint_victim_def evicts_def hm_mem_iff split: option.splits dest!: max_by_key_Some) blast+
  qed
qed

lemma evict_verified_victim_evicts:
  assumes "hm_inv (cc_entries c)" "cc_entries c \<noteq> []"
  shows "evicts (\<lambda>e. True) c (evict_verified_victim c now) \<and> evict_verified_victim c now \<noteq> c"
proof -
  have ne: "c\<lparr> cc_entries := hm_remove k (cc_entries c) \<rparr> \<noteq> c" if "map_of (cc_entries c) k = Some e" for k e
    using that length_hm_remove [OF assms(1), of k] by (metis (no_types, lifting) coord_cache.select_convs(1)
        coord_cache.surjective coord_cache.update_convs(1) n_not_Suc_n option.distinct(1))
  obtain c' b where cb: "evict_expired c now = (c', b)" by fastforce
  show ?thesis
  proof (cases b)
    case True
    then show ?thesis using evict_expired_evicts(1) [OF assms(1) cb] cb ne by (auto simp: evict_verified_victim_def evicts_def)
  next
    case False
    then have "c' = c" using evict_expired_evicts(2) [OF assms(1) cb] by simp
    moreover obtain k e where m: "max_by_key (\<lambda>(_, e). idle_time e now) (cc_entries c) = Some (k, e)"
      using assms(2) by (cases "max_by_key (\<lambda>(_, e). idle_time e now) (cc_entries c)") auto
    moreover have "map_of (cc_entries c) k = Some e" using max_by_key_Some [OF m] assms(1) by (simp add: hm_mem_iff)
    ultimately show ?thesis
      using False cb ne by (auto simp: evict_verified_victim_def evicts_def)
  qed
qed

lemma evicts_inv: "evicts P c c' \<Longrightarrow> cache_inv cap c \<Longrightarrow> cache_inv cap c'"
  by (auto simp: evicts_def cache_inv_def intro: order_trans [OF length_hm_remove_le])

lemma evicts_length: "evicts P c c' \<Longrightarrow> c' \<noteq> c \<Longrightarrow> hm_inv (cc_entries c) \<Longrightarrow> length (cc_entries c') < length (cc_entries c)"
  using length_hm_remove [of "cc_entries c"] by (fastforce simp: evicts_def)

lemma evicts_keeps: "evicts P c c' \<Longrightarrow> map_of (cc_entries c) a = Some e \<Longrightarrow> \<not> P e \<Longrightarrow> map_of (cc_entries c') a = Some e"
  by (auto simp: evicts_def hm_simps)

lemma evicts_absent: "evicts P c c' \<Longrightarrow> map_of (cc_entries c) a = None \<Longrightarrow> map_of (cc_entries c') a = None"
  by (auto simp: evicts_def hm_simps)

lemma put_inv:
  "cache_inv cap c \<Longrightarrow> length (cc_entries c) < cap \<or> map_of (cc_entries c) a \<noteq> None \<Longrightarrow> cache_inv cap (put c a e)"
  by (auto simp: cache_inv_def put_def hm_simps)

lemma put_simps [simp]:
  "map_of (cc_entries (put c a e)) b = (if b = a then Some e else map_of (cc_entries c) b)"
  "cc_default_ttl_ms (put c a e) = cc_default_ttl_ms c"
  by (auto simp: put_def hm_simps)

lemma hint_room_evicts:
  "hm_inv (cc_entries c) \<Longrightarrow> evicts (\<lambda>e. is_expired e now \<or> \<not> is_verified e now) c (hint_room c now)"
  using evict_hint_victim_evicts [of c now] by (auto simp: hint_room_def evicts_def)

lemma evicts_params: "evicts P c c' \<Longrightarrow> cc_default_ttl_ms c' = cc_default_ttl_ms c \<and> cc_max_entries c' = cc_max_entries c"
  by (auto simp: evicts_def)

text \<open>The shape of every hint insertion: refuse, update an unprotected entry, or insert after making room.\<close>

definition hint_result :: "coord_cache \<Rightarrow> node_addr \<Rightarrow> u64 \<Rightarrow> coord_cache \<Rightarrow> bool" where
  "hint_result c addr now c' \<longleftrightarrow> c' = c \<or>
     (\<exists>e e'. map_of (cc_entries c) addr = Some e \<and> \<not> is_verified e now \<and> c' = put c addr e') \<or>
     (map_of (cc_entries c) addr = None \<and> (c' = hint_room c now \<or>
        length (cc_entries (hint_room c now)) < cc_max_entries c \<and> (\<exists>e'. c' = put (hint_room c now) addr e')))"

lemma hint_results:
  assumes "cache_inv cap c"
  shows "hint_result c addr now (fst (insert_hint_with_ttl c addr coords now ttl))"
    and "hint_result c addr now (fst (insert_checked c addr coords now))"
    and "hint_result c addr now (fst (insert_with_path_mtu_checked c addr coords now mtu))"
    and "hint_result c addr now (fst (insert_current_root_hint c addr coords r now))"
proof -
  have max: "cc_max_entries (hint_room c now) = cc_max_entries c"
    using evicts_params [OF hint_room_evicts] assms by (auto simp: cache_inv_def)
  show ttl: "hint_result c addr now (fst (insert_hint_with_ttl c addr coords now ttl))" for ttl
    using max by (auto simp: hint_result_def insert_hint_with_ttl_def Let_def split: option.splits)
  then show "hint_result c addr now (fst (insert_checked c addr coords now))"
    by (simp add: insert_checked_def)
  then show "hint_result c addr now (fst (insert_current_root_hint c addr coords r now))"
    by (simp add: insert_current_root_hint_def split_beta) (simp add: hint_result_def)
  show "hint_result c addr now (fst (insert_with_path_mtu_checked c addr coords now mtu))"
    using max by (auto simp: hint_result_def insert_with_path_mtu_checked_def Let_def split: option.splits)
qed

lemma hint_result_inv:
  assumes "cache_inv cap c" "hint_result c addr now c'"
  shows "cache_inv cap c'"
proof -
  have "cache_inv cap (hint_room c now)"
    using evicts_inv [OF hint_room_evicts] assms(1) by (auto simp: cache_inv_def)
  then show ?thesis
    using assms by (auto simp: hint_result_def intro!: put_inv) (auto simp: cache_inv_def)
qed

lemma hint_result_keeps:
  assumes "cache_inv cap c" "hint_result c addr now c'" "map_of (cc_entries c) a = Some e" "is_verified e now" "\<not> is_expired e now"
  shows "map_of (cc_entries c') a = Some e" "cc_default_ttl_ms c' = cc_default_ttl_ms c"
proof -
  have ev: "evicts (\<lambda>e. is_expired e now \<or> \<not> is_verified e now) c (hint_room c now)"
    using hint_room_evicts assms(1) by (auto simp: cache_inv_def)
  then have "map_of (cc_entries (hint_room c now)) a = Some e"
    by (rule evicts_keeps) (use assms in auto)
  then show "map_of (cc_entries c') a = Some e" "cc_default_ttl_ms c' = cc_default_ttl_ms c"
    using assms evicts_params [OF ev] by (auto simp: hint_result_def)
qed

definition protected_entry :: "tree_coordinate \<Rightarrow> u64 \<Rightarrow> u64 \<Rightarrow> cache_entry \<Rightarrow> bool" where
  "protected_entry coords start ttl e \<longleftrightarrow> ce_coords e = coords \<and> ce_source e = Verified \<and>
     ce_verified_until e = saturating_add start VERIFIED_TTL_MS \<and> saturating_add start ttl \<le> ce_expires_at e"

definition verified_result :: "coord_cache \<Rightarrow> node_addr \<Rightarrow> tree_coordinate \<Rightarrow> u64 \<Rightarrow> coord_cache \<Rightarrow> bool" where
  "verified_result c addr coords now c' \<longleftrightarrow> (\<exists>c0 e. (c0 = c \<and> map_of (cc_entries c) addr \<noteq> None \<or>
       c0 = verified_room c now \<and> length (cc_entries c0) < cc_max_entries c) \<and>
     c' = put c0 addr e \<and> protected_entry coords now (cc_default_ttl_ms c) e)"

lemma verified_room_evicts:
  assumes "cache_inv cap c" "0 < cap"
  shows "evicts (\<lambda>e. True) c (verified_room c now)" "length (cc_entries (verified_room c now)) < cap"
proof -
  have hm: "hm_inv (cc_entries c)" "cc_max_entries c = cap" "length (cc_entries c) \<le> cap"
    using assms(1) by (simp_all add: cache_inv_def)
  show ev: "evicts (\<lambda>e. True) c (verified_room c now)"
    using evict_verified_victim_evicts [OF hm(1), of now] hm assms(2) by (auto simp: verified_room_def evicts_def)
  show "length (cc_entries (verified_room c now)) < cap"
  proof (cases "cap \<le> length (cc_entries c)")
    case True
    then have "verified_room c now \<noteq> c"
      using evict_verified_victim_evicts [OF hm(1), of now] hm assms(2) by (auto simp: verified_room_def)
    then show ?thesis using evicts_length [OF ev _ hm(1)] hm by linarith
  next
    case False
    then show ?thesis using hm by (simp add: verified_room_def)
  qed
qed

lemma verified_resultI:
  assumes "protected_entry coords now (cc_default_ttl_ms c) e"
  shows "map_of (cc_entries c) addr \<noteq> None \<Longrightarrow> verified_result c addr coords now (put c addr e)"
    "length (cc_entries (verified_room c now)) < cc_max_entries c \<Longrightarrow>
      verified_result c addr coords now (put (verified_room c now) addr e)"
  using assms unfolding verified_result_def by blast+

lemma verified_results:
  assumes "cache_inv cap c" "0 < cap"
  shows "verified_result c addr coords now (insert_verified c addr coords now)"
    and "verified_result c addr coords now (insert_verified_with_path_mtu c addr coords now mtu)"
proof -
  note room = verified_room_evicts [OF assms, of now]
  have "cc_default_ttl_ms (verified_room c now) = cc_default_ttl_ms c" "cc_max_entries (verified_room c now) = cap"
    "cc_max_entries c = cap"
    using evicts_params [OF room(1)] assms(1) by (simp_all add: cache_inv_def)
  moreover have "protected_entry coords now ttl (update_verified e coords now ttl)"
    "protected_entry coords now ttl (set_path_mtu (update_verified e coords now ttl) m)"
    "protected_entry coords now ttl (new_verified coords now ttl)"
    "protected_entry coords now ttl (set_path_mtu (new_verified coords now ttl) m)" for e ttl m
    by (simp_all add: protected_entry_def update_verified_def update_def mark_verified_def mark_hint_def
        new_verified_def cache_entry_new_def set_path_mtu_def)
  ultimately show "verified_result c addr coords now (insert_verified c addr coords now)"
    "verified_result c addr coords now (insert_verified_with_path_mtu c addr coords now mtu)"
    using room(2)
    by (auto simp: insert_verified_def insert_verified_with_path_mtu_def Let_def intro!: verified_resultI split: option.splits)
qed

lemma verified_result_inv:
  assumes "cache_inv cap c" "0 < cap" "verified_result c addr coords now c'"
  shows "cache_inv cap c'" "\<exists>e. map_of (cc_entries c') addr = Some e \<and> protected_entry coords now (cc_default_ttl_ms c) e"
    "cc_default_ttl_ms c' = cc_default_ttl_ms c"
proof -
  note room = verified_room_evicts [OF assms(1,2), of now]
  show "cache_inv cap c'"
    using assms(3) evicts_inv [OF room(1) assms(1)] room(2) assms(1)
    by (auto simp: verified_result_def intro!: put_inv)
  show "\<exists>e. map_of (cc_entries c') addr = Some e \<and> protected_entry coords now (cc_default_ttl_ms c) e"
    "cc_default_ttl_ms c' = cc_default_ttl_ms c"
    using assms(3) evicts_params [OF room(1)] by (auto simp: verified_result_def)
qed

section \<open>Sequences of operations\<close>

datatype cache_op =
    HintOp node_addr tree_coordinate u64 | HintTtl node_addr tree_coordinate u64 u64
  | HintMtu node_addr tree_coordinate u64 u16 | HintRoot node_addr tree_coordinate node_addr u64
  | VerifiedOp node_addr tree_coordinate u64 | VerifiedMtu node_addr tree_coordinate u64 u16
  | TouchOp node_addr u64 | RemoveOp node_addr | PurgeOp u64 | ClearOp
  | InvalidateNode node_addr | InvalidateRoots node_addr | SetTtl u64

fun cache_step :: "coord_cache \<Rightarrow> cache_op \<Rightarrow> coord_cache" where
  "cache_step c (HintOp a v t) = fst (insert_checked c a v t)"
| "cache_step c (HintTtl a v t ttl) = fst (insert_hint_with_ttl c a v t ttl)"
| "cache_step c (HintMtu a v t m) = fst (insert_with_path_mtu_checked c a v t m)"
| "cache_step c (HintRoot a v r t) = fst (insert_current_root_hint c a v r t)"
| "cache_step c (VerifiedOp a v t) = insert_verified c a v t"
| "cache_step c (VerifiedMtu a v t m) = insert_verified_with_path_mtu c a v t m"
| "cache_step c (TouchOp a t) = fst (get_and_touch c a t)"
| "cache_step c (RemoveOp a) = fst (remove c a)"
| "cache_step c (PurgeOp t) = fst (purge_expired c t)"
| "cache_step c ClearOp = clear_cache c"
| "cache_step c (InvalidateNode a) = fst (invalidate_via_node c a)"
| "cache_step c (InvalidateRoots r) = fst (invalidate_other_roots c r)"
| "cache_step c (SetTtl ttl) = set_default_ttl_ms c ttl"

lemma retain_entries_inv: "cache_inv cap c \<Longrightarrow> cache_inv cap (fst (retain_entries keep c))"
  by (auto simp: cache_inv_def retain_entries_def Let_def intro: order_trans [OF length_hm_retain_le])

lemma zero_cap_verified:
  "cache_inv 0 c \<Longrightarrow> insert_verified c a v t = c \<and> insert_verified_with_path_mtu c a v t m = c"
  by (auto simp: cache_inv_def insert_verified_def insert_verified_with_path_mtu_def verified_room_def
      evict_verified_victim_def evict_expired_def max_by_key_def Let_def)

interpretation cache_machine: bounded_machine "cache_inv cap" cache_step "\<lambda>c. length (cc_entries c)" cap for cap
proof
  fix c op assume inv: "cache_inv cap c"
  show "cache_inv cap (cache_step c op)"
  proof (cases op)
    case (VerifiedOp a v t)
    then show ?thesis
      using inv zero_cap_verified [of c] verified_result_inv(1) [OF inv _ verified_results(1) [OF inv]] by (cases "cap = 0") auto
  next
    case (VerifiedMtu a v t m)
    then show ?thesis
      using inv zero_cap_verified [of c] verified_result_inv(1) [OF inv _ verified_results(2) [OF inv]] by (cases "cap = 0") auto
  next
    case (TouchOp a t)
    then show ?thesis
      using inv by (auto simp: get_and_touch_def cache_inv_def intro: order_trans [OF length_hm_remove_le]
          intro!: put_inv [unfolded cache_inv_def] split: option.splits)
  qed (use inv in \<open>auto simp: purge_expired_def invalidate_via_node_def invalidate_other_roots_def retain_entries_inv
        intro: hint_result_inv [OF inv hint_results(1) [OF inv]] hint_result_inv [OF inv hint_results(2) [OF inv]]
          hint_result_inv [OF inv hint_results(3) [OF inv]] hint_result_inv [OF inv hint_results(4) [OF inv]]\<close>,
      auto simp: remove_def cache_inv_def clear_cache_def set_default_ttl_ms_def intro: order_trans [OF length_hm_remove_le])
next
  fix c assume "cache_inv cap c"
  then show "length (cc_entries c) \<le> cap" by (simp add: cache_inv_def)
qed

lemma cache_inv_new: "cache_inv cap (cache_new cap ttl)"
  by (simp add: cache_inv_def cache_new_def)

section \<open>Verified coordinates outrank hints\<close>

text \<open>The operations that untrusted traffic and housekeeping trigger, with their time.\<close>

fun untrusted :: "cache_op \<Rightarrow> u64 option" where
  "untrusted (HintOp a v t) = Some t"
| "untrusted (HintTtl a v t ttl) = Some t"
| "untrusted (HintMtu a v t m) = Some t"
| "untrusted (HintRoot a v r t) = Some t"
| "untrusted (TouchOp a t) = Some t"
| "untrusted (PurgeOp t) = Some t"
| "untrusted _ = None"

definition in_guard_time :: "u64 \<Rightarrow> u64 \<Rightarrow> u64 \<Rightarrow> bool" where
  "in_guard_time start ttl t \<longleftrightarrow> start \<le> t \<and> t \<le> saturating_add start VERIFIED_TTL_MS \<and> t \<le> saturating_add start ttl"

definition guarded :: "node_addr \<Rightarrow> tree_coordinate \<Rightarrow> u64 \<Rightarrow> u64 \<Rightarrow> coord_cache \<Rightarrow> bool" where
  "guarded addr coords start ttl c \<longleftrightarrow> cc_default_ttl_ms c = ttl \<and>
     (\<exists>e. map_of (cc_entries c) addr = Some e \<and> protected_entry coords start ttl e)"

lemma saturating_add_left_mono: "a \<le> b \<Longrightarrow> saturating_add a c \<le> saturating_add b c" for a b c :: "'a::len word"
  by (simp add: word_le_nat_alt unat_saturating_add)

lemma protected_live:
  assumes "protected_entry coords start ttl e" "in_guard_time start ttl t"
  shows "is_verified e t" "\<not> is_expired e t"
  using assms by (auto simp: protected_entry_def in_guard_time_def is_verified_def is_expired_def not_less intro: order_trans)

lemma guarded_step:
  assumes "cache_inv cap c" "guarded addr coords start ttl c" "untrusted op = Some t" "in_guard_time start ttl t"
  shows "guarded addr coords start ttl (cache_step c op)"
proof -
  obtain e where e: "map_of (cc_entries c) addr = Some e" "protected_entry coords start ttl e" and ttl: "cc_default_ttl_ms c = ttl"
    using assms(2) by (auto simp: guarded_def)
  note live = protected_live [OF e(2) assms(4)]
  have hint: "guarded addr coords start ttl c'" if "hint_result c a t c'" for a c'
    using hint_result_keeps [OF assms(1) that e(1) live] e(2) ttl by (simp add: guarded_def)
  show ?thesis
  proof (cases op)
    case (TouchOp a u)
    then have "protected_entry coords start ttl (refresh e t ttl)"
      using e(2) assms(3,4) saturating_add_left_mono [of start t ttl] by (auto simp: protected_entry_def refresh_def in_guard_time_def)
    then show ?thesis
      using TouchOp e ttl live assms(3) by (auto simp: guarded_def get_and_touch_def hm_simps split: option.splits)
  next
    case (PurgeOp u)
    then show ?thesis
      using e ttl live assms(1,3)
      by (auto simp: guarded_def purge_expired_def retain_entries_def Let_def cache_inv_def hm_simps)
  qed (use assms(3) in \<open>auto intro: hint hint_results [OF assms(1)]\<close>)
qed

lemma guarded_run:
  "cache_inv cap c \<Longrightarrow> guarded addr coords start ttl c \<Longrightarrow>
   \<forall>op \<in> set ops. \<exists>t. untrusted op = Some t \<and> in_guard_time start ttl t \<Longrightarrow> guarded addr coords start ttl (run cache_step c ops)"
proof (induction ops arbitrary: c)
  case (Cons op ops)
  then show ?case using guarded_step [of cap c] cache_machine.step_inv [of cap c op] by auto
qed simp

text \<open>C18: the coordinate cache never holds more entries than its capacity, whatever is inserted, and a
  verified insertion into a cache of positive capacity always succeeds.\<close>

theorem coord_cache_bounded:
  "length (cc_entries (run cache_step (cache_new cap ttl) ops)) \<le> cap \<and>
   get (insert_verified (run cache_step (cache_new (Suc cap) ttl) ops) addr coords now) addr now = Some coords"
proof
  show "length (cc_entries (run cache_step (cache_new cap ttl) ops)) \<le> cap"
    by (rule cache_machine.run_bound [OF cache_inv_new])
  let ?c = "run cache_step (cache_new (Suc cap) ttl) ops"
  have inv: "cache_inv (Suc cap) ?c" by (rule cache_machine.run_inv [OF cache_inv_new])
  obtain e where "map_of (cc_entries (insert_verified ?c addr coords now)) addr = Some e"
    "protected_entry coords now (cc_default_ttl_ms ?c) e"
    using verified_result_inv(2) [OF inv _ verified_results(1) [OF inv]] by blast
  then show "get (insert_verified ?c addr coords now) addr now = Some coords"
    using saturating_add_mono [of now] by (auto simp: get_def protected_entry_def is_expired_def not_less intro: order_trans)
qed

text \<open>C19: coordinates from a verified lookup outrank hints: for the verification interval, and as long as
  the entry lives, no sequence of hints, touches and purges changes or evicts them, even in a full cache.\<close>

theorem verified_coords_outrank_hints:
  assumes "c = run cache_step (cache_new cap ttl0) history" "0 < cap" "ttl = cc_default_ttl_ms c"
    and "\<forall>op \<in> set ops. \<exists>t. untrusted op = Some t \<and> in_guard_time start ttl t" "in_guard_time start ttl now"
  shows "get (run cache_step (insert_verified c addr coords start) ops) addr now = Some coords"
proof -
  have inv: "cache_inv cap c" using assms(1) cache_machine.run_inv [OF cache_inv_new] by simp
  note v = verified_result_inv [OF inv assms(2) verified_results(1) [OF inv assms(2)], of addr coords start]
  then have "guarded addr coords start ttl (insert_verified c addr coords start)"
    using assms(3) by (auto simp: guarded_def)
  then obtain e where "map_of (cc_entries (run cache_step (insert_verified c addr coords start) ops)) addr = Some e"
    "protected_entry coords start ttl e"
    using guarded_run [OF v(1) _ assms(4)] by (auto simp: guarded_def)
  then show ?thesis
    using protected_live(2) [OF _ assms(5)] by (auto simp: get_def protected_entry_def)
qed

theorem verified_coords_outrank_hints_witness:
  "get (run cache_step (insert_verified (cache_new 1 5000) (NodeAddr 7) [addr_only (NodeAddr 7)] 100)
      [HintOp (NodeAddr 7) [addr_only (NodeAddr 9)] 200, HintOp (NodeAddr 8) [addr_only (NodeAddr 8)] 300])
    (NodeAddr 7) 400 = Some [addr_only (NodeAddr 7)]"
  using verified_coords_outrank_hints [of "cache_new 1 5000" 1 5000 "[]" 5000
      "[HintOp (NodeAddr 7) [addr_only (NodeAddr 9)] 200, HintOp (NodeAddr 8) [addr_only (NodeAddr 8)] 300]" 100 400
      "NodeAddr 7" "[addr_only (NodeAddr 7)]"]
  by (simp add: in_guard_time_def saturating_add_def VERIFIED_TTL_MS_def cache_new_def word_le_nat_alt)

end
