(* ===== verification/Learned_Routes.thy ===== *)
theory Learned_Routes
  imports Identity Hash_Map F64
begin

text \<open>
  The learned-route table (\<^verbatim>\<open>proto/routing.rs\<close>): next hops observed per destination, chosen by smooth
  weighted round robin, reinforced by return traffic and quarantined on failure. The power function of
  the weight is the parameter \<open>powf15\<close>, the caller's reachability test the argument \<open>can_send\<close>. The
  snapshot for the control socket is left out.
\<close>

definition MIN_ROUTE_SCORE :: f64 where "MIN_ROUTE_SCORE = rnd64 (5 / 100)"

definition MAX_ROUTE_SCORE :: f64 where "MAX_ROUTE_SCORE = Fin 64"

definition MAX_ROUTE_WEIGHT :: f64 where "MAX_ROUTE_WEIGHT = Fin 512"

record learned_route =
  lr_next_hop :: node_addr
  lr_last_seen_ms :: u64
  lr_expires_at_ms :: u64
  lr_successes :: u64
  lr_failures :: u64
  lr_score :: f64
  lr_current_weight :: f64
  lr_selected :: u64

record handshake_route =
  hr_next_hop :: node_addr
  hr_expires_at_ms :: u64

record learned_route_table =
  lt_routes :: "(node_addr, learned_route list) hmap"
  lt_handshake_routes :: "(node_addr, handshake_route) hmap"
  lt_explored_at_selected :: "(node_addr, u64) hmap"

definition table_new :: learned_route_table where
  "table_new = \<lparr> lt_routes = [], lt_handshake_routes = [], lt_explored_at_selected = [] \<rparr>"

definition should_explore ::
  "(node_addr, u64) hmap \<Rightarrow> node_addr \<Rightarrow> u64 \<Rightarrow> u64 \<Rightarrow> (node_addr, u64) hmap \<times> bool" where
  "should_explore explored dest selected interval =
    (if interval = 0 \<or> selected = 0 \<or> selected mod interval \<noteq> 0 then (explored, False)
     else if map_of explored dest = Some selected then (explored, False)
     else (hm_insert dest selected explored, True))"

definition retain_destinations :: "(node_addr, u64) hmap \<Rightarrow> (node_addr \<Rightarrow> bool) \<Rightarrow> (node_addr, u64) hmap" where
  "retain_destinations explored keep = hm_retain (\<lambda>d _. keep d) explored"

definition weight :: "(f64 \<Rightarrow> f64) \<Rightarrow> learned_route \<Rightarrow> f64" where
  "weight powf15 r =
     f_clamp (powf15 (f_clamp (lr_score r) MIN_ROUTE_SCORE MAX_ROUTE_SCORE)) MIN_ROUTE_SCORE MAX_ROUTE_WEIGHT"

text \<open>\<^verbatim>\<open>f64::total_cmp\<close>, with a positive NaN above infinity; the model has one zero, and scores are never zero.\<close>

fun total_lt :: "f64 \<Rightarrow> f64 \<Rightarrow> bool" where
  "total_lt a NaN \<longleftrightarrow> a \<noteq> NaN"
| "total_lt a b \<longleftrightarrow> f_lt a b"

definition routes_lt :: "learned_route \<Rightarrow> learned_route \<Rightarrow> bool" where
  "routes_lt l r \<longleftrightarrow> total_lt (lr_score r) (lr_score l) \<or>
     (lr_score r = lr_score l \<and> (lr_last_seen_ms r < lr_last_seen_ms l \<or>
       (lr_last_seen_ms r = lr_last_seen_ms l \<and> lr_next_hop l < lr_next_hop r)))"

text \<open>\<^verbatim>\<open>slice::sort_by\<close> is a stable sort.\<close>

fun insort_route :: "learned_route \<Rightarrow> learned_route list \<Rightarrow> learned_route list" where
  "insort_route x [] = [x]"
| "insort_route x (y # ys) = (if routes_lt y x then y # insort_route x ys else x # y # ys)"

definition sort_and_truncate :: "learned_route list \<Rightarrow> nat \<Rightarrow> learned_route list" where
  "sort_and_truncate routes n = take n (foldr insort_route routes [])"

text \<open>\<open>update_first\<close> is the assignment through \<^verbatim>\<open>iter_mut().find(..)\<close>.\<close>

fun update_first :: "('a \<Rightarrow> bool) \<Rightarrow> ('a \<Rightarrow> 'a) \<Rightarrow> 'a list \<Rightarrow> 'a list" where
  "update_first P f [] = []"
| "update_first P f (x # xs) = (if P x then f x # xs else x # update_first P f xs)"

definition routes_of :: "learned_route_table \<Rightarrow> node_addr \<Rightarrow> learned_route list" where
  "routes_of t dest = (case map_of (lt_routes t) dest of None \<Rightarrow> [] | Some rs \<Rightarrow> rs)"

definition expiry :: "u64 \<Rightarrow> u64 \<Rightarrow> u64" where
  "expiry now ttl_secs = saturating_add now (saturating_mul ttl_secs 1000)"

definition learn :: "learned_route_table \<Rightarrow> node_addr \<Rightarrow> node_addr \<Rightarrow> u64 \<Rightarrow> u64 \<Rightarrow> nat \<Rightarrow> learned_route_table" where
  "learn t dest hop now ttl_secs max_routes =
    (if dest = hop \<or> max_routes = 0 then t
     else let routes = routes_of t dest;
       routes = (if \<exists>r \<in> set routes. lr_next_hop r = hop then
           update_first (\<lambda>r. lr_next_hop r = hop) (\<lambda>r. r\<lparr> lr_successes := saturating_add (lr_successes r) 1,
             lr_failures := 0, lr_last_seen_ms := now, lr_expires_at_ms := expiry now ttl_secs,
             lr_score := f_clamp (f_add (lr_score r) (Fin 1)) MIN_ROUTE_SCORE MAX_ROUTE_SCORE \<rparr>) routes
         else routes @ [\<lparr> lr_next_hop = hop, lr_last_seen_ms = now, lr_expires_at_ms = expiry now ttl_secs,
             lr_successes = 1, lr_failures = 0, lr_score = Fin 1, lr_current_weight = Fin 0, lr_selected = 0 \<rparr>]) in
       t\<lparr> lt_routes := hm_insert dest (sort_and_truncate routes max_routes) (lt_routes t) \<rparr>)"

definition quarantine_failed_next_hop ::
  "learned_route_table \<Rightarrow> node_addr \<Rightarrow> node_addr \<Rightarrow> u64 \<Rightarrow> u64 \<Rightarrow> nat \<Rightarrow> learned_route_table" where
  "quarantine_failed_next_hop t dest hop now ttl_secs max_routes =
    (let t = (if \<exists>r. map_of (lt_handshake_routes t) dest = Some r \<and> hr_next_hop r = hop
        then t\<lparr> lt_handshake_routes := hm_remove dest (lt_handshake_routes t) \<rparr> else t) in
     if max_routes = 0 then t
     else let routes = routes_of t dest;
       routes = (if \<exists>r \<in> set routes. lr_next_hop r = hop then
           update_first (\<lambda>r. lr_next_hop r = hop) (\<lambda>r. r\<lparr> lr_failures := saturating_add (lr_failures r) 1,
             lr_score := f_max (f_mul (lr_score r) (Fin (1 / 2))) MIN_ROUTE_SCORE,
             lr_current_weight := f_min (lr_current_weight r) (Fin 0), lr_expires_at_ms := expiry now ttl_secs \<rparr>) routes
         else take (max_routes - 1) (sort_and_truncate routes max_routes) @ [\<lparr> lr_next_hop = hop,
             lr_last_seen_ms = now, lr_expires_at_ms = expiry now ttl_secs, lr_successes = 0, lr_failures = 1,
             lr_score = MIN_ROUTE_SCORE, lr_current_weight = Fin 0, lr_selected = 0 \<rparr>]) in
       t\<lparr> lt_routes := hm_insert dest routes (lt_routes t) \<rparr>)"

definition pin_handshake_route ::
  "learned_route_table \<Rightarrow> node_addr \<Rightarrow> node_addr \<Rightarrow> u64 \<Rightarrow> u64 \<Rightarrow> nat \<Rightarrow> learned_route_table" where
  "pin_handshake_route t dest hop now ttl_secs max_routes =
    (if max_routes = 0 then t
     else let t = (if dest \<noteq> hop then learn t dest hop now ttl_secs max_routes else t) in
       t\<lparr> lt_handshake_routes := hm_insert dest \<lparr> hr_next_hop = hop, hr_expires_at_ms = expiry now ttl_secs \<rparr>
          (lt_handshake_routes t) \<rparr>)"

definition live_routes :: "u64 \<Rightarrow> learned_route list \<Rightarrow> learned_route list" where
  "live_routes now routes = filter (\<lambda>r. now < lr_expires_at_ms r) routes"

definition record_selected :: "learned_route_table \<Rightarrow> node_addr \<Rightarrow> node_addr \<Rightarrow> u64 \<Rightarrow> learned_route_table \<times> bool" where
  "record_selected t dest hop now = (case map_of (lt_routes t) dest of
     None \<Rightarrow> (t, False)
   | Some routes \<Rightarrow>
      (let routes = live_routes now routes; found = (\<exists>r \<in> set routes. lr_next_hop r = hop);
           routes = (if found then update_first (\<lambda>r. lr_next_hop r = hop)
              (\<lambda>r. r\<lparr> lr_selected := saturating_add (lr_selected r) 1 \<rparr>) routes else routes) in
       (t\<lparr> lt_routes := hm_insert dest routes (lt_routes t) \<rparr>, found)))"

definition select_handshake_route ::
  "learned_route_table \<Rightarrow> node_addr \<Rightarrow> u64 \<Rightarrow> (node_addr \<Rightarrow> bool) \<Rightarrow> learned_route_table \<times> node_addr option" where
  "select_handshake_route t dest now can_send = (case map_of (lt_handshake_routes t) dest of
     None \<Rightarrow> (t, None)
   | Some route \<Rightarrow>
       if hr_expires_at_ms route \<le> now \<or> \<not> can_send (hr_next_hop route) then
         (t\<lparr> lt_handshake_routes := hm_remove dest (lt_handshake_routes t) \<rparr>, None)
       else (fst (record_selected t dest (hr_next_hop route) now), Some (hr_next_hop route)))"

definition active_handshake_route ::
  "learned_route_table \<Rightarrow> node_addr \<Rightarrow> u64 \<Rightarrow> learned_route_table \<times> node_addr option" where
  "active_handshake_route t dest now = (case map_of (lt_handshake_routes t) dest of
     None \<Rightarrow> (t, None)
   | Some route \<Rightarrow>
       if hr_expires_at_ms route \<le> now then
         (t\<lparr> lt_handshake_routes := hm_remove dest (lt_handshake_routes t) \<rparr>, None)
       else (t, Some (hr_next_hop route)))"

definition failed_next_hops :: "learned_route_table \<Rightarrow> node_addr \<Rightarrow> u64 \<Rightarrow> node_addr set" where
  "failed_next_hops t dest now =
     set (map lr_next_hop (filter (\<lambda>r. now < lr_expires_at_ms r \<and> 0 < lr_failures r) (routes_of t dest)))"

definition has_sendable_alternate ::
  "learned_route_table \<Rightarrow> node_addr \<Rightarrow> node_addr \<Rightarrow> u64 \<Rightarrow> (node_addr \<Rightarrow> bool) \<Rightarrow> bool" where
  "has_sendable_alternate t dest ex now can_send \<longleftrightarrow> list_ex (\<lambda>r. lr_next_hop r \<noteq> ex \<and> now < lr_expires_at_ms r \<and>
     lr_failures r = 0 \<and> can_send (lr_next_hop r)) (routes_of t dest)"

definition select_step :: "nat \<times> f64 \<Rightarrow> learned_route list \<times> nat \<Rightarrow> learned_route list \<times> nat" where
  "select_step iw acc = (case (iw, acc) of ((index, w), (routes, selected)) \<Rightarrow>
     let routes = routes[index := (routes ! index)\<lparr> lr_current_weight := f_add (lr_current_weight (routes ! index)) w \<rparr>];
         chosen = routes ! selected; candidate = routes ! index;
         better = f_lt (lr_current_weight chosen) (lr_current_weight candidate) \<or>
           (f_eq (lr_current_weight candidate) (lr_current_weight chosen) \<and> routes_lt candidate chosen) in
     (routes, if better then index else selected))"

definition sendable_routes :: "(f64 \<Rightarrow> f64) \<Rightarrow> (node_addr \<Rightarrow> bool) \<Rightarrow> learned_route list \<Rightarrow> (nat \<times> f64) list" where
  "sendable_routes powf15 can_send routes = map (\<lambda>(i, r). (i, weight powf15 r))
     (filter (\<lambda>(i, r). lr_failures r = 0 \<and> can_send (lr_next_hop r)) (enumerate 0 routes))"

definition select_next_hop ::
  "(f64 \<Rightarrow> f64) \<Rightarrow> learned_route_table \<Rightarrow> node_addr \<Rightarrow> u64 \<Rightarrow> (node_addr \<Rightarrow> bool) \<Rightarrow> learned_route_table \<times> node_addr option" where
  "select_next_hop powf15 t dest now can_send = (case map_of (lt_routes t) dest of
     None \<Rightarrow> (t, None)
   | Some routes \<Rightarrow>
      (let routes = live_routes now routes; sendable = sendable_routes powf15 can_send routes in
       if sendable = [] then (t\<lparr> lt_routes := hm_insert dest routes (lt_routes t) \<rparr>, None)
       else let total_weight = fold (\<lambda>(_, w) s. f_add s w) sendable (Fin 0);
         (routes, selected) = fold select_step sendable (routes, fst (hd sendable));
         chosen = routes ! selected;
         routes = routes[selected := chosen\<lparr> lr_current_weight := f_sub (lr_current_weight chosen) total_weight,
            lr_selected := saturating_add (lr_selected chosen) 1 \<rparr>];
         next_hop = lr_next_hop (routes ! selected) in
       (t\<lparr> lt_routes := hm_insert dest (sort_and_truncate routes (length routes)) (lt_routes t) \<rparr>, Some next_hop)))"

definition should_explore_fallback ::
  "learned_route_table \<Rightarrow> node_addr \<Rightarrow> u64 \<Rightarrow> u64 \<Rightarrow> (node_addr \<Rightarrow> bool) \<Rightarrow> learned_route_table \<times> bool" where
  "should_explore_fallback t dest now interval can_send =
    (if interval = 0 then (t, False)
     else case map_of (lt_routes t) dest of
       None \<Rightarrow> (t, False)
     | Some routes \<Rightarrow>
        (let routes = live_routes now routes; t = t\<lparr> lt_routes := hm_insert dest routes (lt_routes t) \<rparr> in
         if \<not> list_ex (\<lambda>r. lr_failures r = 0 \<and> can_send (lr_next_hop r)) routes then (t, False)
         else case should_explore (lt_explored_at_selected t) dest (sum_list (map lr_selected routes)) interval of
           (explored, b) \<Rightarrow> (t\<lparr> lt_explored_at_selected := explored \<rparr>, b)))"

definition purge_expired_routes :: "learned_route_table \<Rightarrow> u64 \<Rightarrow> learned_route_table" where
  "purge_expired_routes t now =
    (let routes = filter (\<lambda>(_, rs). rs \<noteq> []) (map (\<lambda>(d, rs). (d, live_routes now rs)) (lt_routes t)) in
     \<lparr> lt_routes = routes,
       lt_handshake_routes = hm_retain (\<lambda>_ r. now < hr_expires_at_ms r) (lt_handshake_routes t),
       lt_explored_at_selected = retain_destinations (lt_explored_at_selected t) (\<lambda>d. d \<in> set (hm_keys routes)) \<rparr>)"

section \<open>List facts\<close>

lemma mset_insort_route [simp]: "mset (insort_route x xs) = add_mset x (mset xs)"
  by (induction xs) auto

lemma mset_sort_routes [simp]: "mset (foldr insort_route xs []) = mset xs"
  by (induction xs) auto

lemma set_sort_routes [simp]: "set (foldr insort_route xs []) = set xs"
  by (metis mset_sort_routes set_mset_mset)

lemma length_sort_routes [simp]: "length (foldr insort_route xs []) = length xs"
  by (metis mset_sort_routes size_mset)

lemma distinct_sort_routes [simp]: "distinct (map lr_next_hop (foldr insort_route xs [])) = distinct (map lr_next_hop xs)"
  by (metis mset_map mset_sort_routes mset_eq_imp_distinct_iff)

lemma set_sort_and_truncate: "set (sort_and_truncate xs n) \<subseteq> set xs"
  using set_take_subset by (fastforce simp: sort_and_truncate_def)

lemma sort_all [simp]: "set (sort_and_truncate xs (length xs)) = set xs" "length (sort_and_truncate xs (length xs)) = length xs"
  by (simp_all add: sort_and_truncate_def)

lemma update_first_map: "(\<And>x. g (f x) = g x) \<Longrightarrow> map g (update_first P f xs) = map g xs"
  by (induction xs) auto

lemma length_update_first [simp]: "length (update_first P f xs) = length xs"
  by (induction xs) auto

lemma set_update_first: "y \<in> set (update_first P f xs) \<Longrightarrow> y \<in> set xs \<or> (\<exists>x \<in> set xs. P x \<and> y = f x)"
  by (induction xs) (auto split: if_splits)

lemma set_update_first_distinct:
  "distinct (map g xs) \<Longrightarrow> (\<And>x. g (f x) = g x) \<Longrightarrow> y \<in> set (update_first (\<lambda>x. g x = k) f xs) \<Longrightarrow> g y = k \<Longrightarrow>
     \<exists>x \<in> set xs. g x = k \<and> y = f x"
proof (induction xs)
  case (Cons x xs)
  then show ?case by (auto split: if_splits simp: image_iff)
qed simp

section \<open>The table invariant\<close>

definition routes_ok :: "nat \<Rightarrow> learned_route list \<Rightarrow> bool" where
  "routes_ok cap rs \<longleftrightarrow> distinct (map lr_next_hop rs) \<and> length rs \<le> cap \<and> list_all (\<lambda>r. f_le MIN_ROUTE_SCORE (lr_score r)) rs"

definition table_inv :: "nat \<Rightarrow> learned_route_table \<Rightarrow> bool" where
  "table_inv cap t \<longleftrightarrow> hm_inv (lt_routes t) \<and> hm_inv (lt_handshake_routes t) \<and> hm_inv (lt_explored_at_selected t) \<and>
     list_all (\<lambda>(d, rs). routes_ok cap rs) (lt_routes t)"

lemma routes_ok_of: "table_inv cap t \<Longrightarrow> routes_ok cap (routes_of t d)"
  by (auto simp: table_inv_def routes_of_def routes_ok_def list_all_iff split: option.splits dest!: map_of_SomeD)

lemma table_inv_insert:
  "table_inv cap t \<Longrightarrow> routes_ok cap rs \<Longrightarrow> table_inv cap (t\<lparr> lt_routes := hm_insert d rs (lt_routes t) \<rparr>)"
  by (auto simp: table_inv_def list_all_iff set_hm_insert)

lemma routes_ok_sort: "routes_ok m rs \<Longrightarrow> routes_ok (min n m) (sort_and_truncate rs n)"
  by (auto simp: routes_ok_def sort_and_truncate_def list_all_iff take_map [symmetric] dest: in_set_takeD)

lemma routes_ok_mono: "routes_ok m rs \<Longrightarrow> m \<le> n \<Longrightarrow> routes_ok n rs"
  by (simp add: routes_ok_def)

lemma routes_ok_live: "routes_ok m rs \<Longrightarrow> routes_ok m (live_routes now rs)"
  by (auto simp: routes_ok_def live_routes_def list_all_iff distinct_map_filter intro: order_trans [OF length_filter_le])

lemma routes_ok_update:
  assumes "routes_ok m rs" "\<And>r. lr_next_hop (f r) = lr_next_hop r"
    and "\<And>r. f_le MIN_ROUTE_SCORE (lr_score r) \<Longrightarrow> f_le MIN_ROUTE_SCORE (lr_score (f r))"
  shows "routes_ok m (update_first P f rs)"
  using assms update_first_map [of lr_next_hop f P rs]
  by (auto simp: routes_ok_def list_all_iff dest!: set_update_first)

lemma min_score_bounds: "\<exists>r. MIN_ROUTE_SCORE = Fin r \<and> 0 \<le> r \<and> r \<le> 1"
  using rnd64_le_int [of "5 / 100" 1] by (simp add: MIN_ROUTE_SCORE_def)

lemma min_score_value: "MIN_ROUTE_SCORE \<noteq> NaN" "\<not> f_lt MAX_ROUTE_SCORE MIN_ROUTE_SCORE" "f_le MIN_ROUTE_SCORE (Fin 1)"
proof -
  obtain r where r: "MIN_ROUTE_SCORE = Fin r" and "0 \<le> r" "r \<le> 1" using min_score_bounds by blast
  then show "MIN_ROUTE_SCORE \<noteq> NaN" "\<not> f_lt MAX_ROUTE_SCORE MIN_ROUTE_SCORE" "f_le MIN_ROUTE_SCORE (Fin 1)"
    unfolding r by (auto simp: MAX_ROUTE_SCORE_def f_le_def f_eq_def)
qed

lemma score_updates:
  assumes "f_le MIN_ROUTE_SCORE s"
  shows "f_le MIN_ROUTE_SCORE (f_clamp (f_add s (Fin 1)) MIN_ROUTE_SCORE MAX_ROUTE_SCORE)"
    and "f_le MIN_ROUTE_SCORE (f_max x MIN_ROUTE_SCORE)"
proof -
  obtain m where m: "MIN_ROUTE_SCORE = Fin m" using min_score_bounds by blast
  have "f_add s (Fin 1) \<noteq> NaN" using assms unfolding m by (cases s) (auto simp: f_le_def f_eq_def rnd64_not_NaN)
  then show "f_le MIN_ROUTE_SCORE (f_clamp (f_add s (Fin 1)) MIN_ROUTE_SCORE MAX_ROUTE_SCORE)"
    using f_clamp_range [of MAX_ROUTE_SCORE MIN_ROUTE_SCORE] min_score_value by (simp add: MAX_ROUTE_SCORE_def)
  show "f_le MIN_ROUTE_SCORE (f_max x MIN_ROUTE_SCORE)"
    using min_score_value(1) by (auto simp: f_max_def f_le_refl f_not_lt)
qed

lemma table_inv_learn:
  assumes "table_inv cap t"
  shows "table_inv cap (learn t dest hop now ttl cap)"
proof (cases "dest = hop \<or> cap = 0")
  case False
  have ok: "routes_ok cap (routes_of t dest)" using assms by (rule routes_ok_of)
  have "routes_ok (min cap (Suc cap)) (sort_and_truncate rs cap)" if "routes_ok (Suc cap) rs" for rs
    using routes_ok_sort [OF that, of cap] by simp
  moreover have "routes_ok (Suc cap) (update_first P f (routes_of t dest))"
    if "\<And>r. lr_next_hop (f r) = lr_next_hop r" "\<And>r. f_le MIN_ROUTE_SCORE (lr_score r) \<Longrightarrow> f_le MIN_ROUTE_SCORE (lr_score (f r))" for P f
    using routes_ok_update [OF routes_ok_mono [OF ok] that] by simp
  moreover have "routes_ok (Suc cap) (routes_of t dest @ [r])"
    if "\<forall>r' \<in> set (routes_of t dest). lr_next_hop r' \<noteq> lr_next_hop r" "f_le MIN_ROUTE_SCORE (lr_score r)" for r
    using ok that by (auto simp: routes_ok_def)
  ultimately show ?thesis
    using False assms score_updates(1) min_score_value(3) by (auto simp: learn_def Let_def intro!: table_inv_insert)
qed (simp add: learn_def assms)

lemma table_inv_quarantine:
  assumes "table_inv cap t"
  shows "table_inv cap (quarantine_failed_next_hop t dest hop now ttl cap)"
proof -
  define t1 where "t1 = (if \<exists>r. map_of (lt_handshake_routes t) dest = Some r \<and> hr_next_hop r = hop
        then t\<lparr> lt_handshake_routes := hm_remove dest (lt_handshake_routes t) \<rparr> else t)"
  have inv: "table_inv cap t1" using assms by (auto simp: t1_def table_inv_def)
  then have ok: "routes_ok cap (routes_of t1 dest)" by (rule routes_ok_of)
  have "routes_ok cap (take (cap - 1) (sort_and_truncate (routes_of t1 dest) cap) @ [r])"
    if "\<forall>r' \<in> set (routes_of t1 dest). lr_next_hop r' \<noteq> lr_next_hop r" "f_le MIN_ROUTE_SCORE (lr_score r)" "cap \<noteq> 0" for r
    using routes_ok_sort [OF ok, of cap] that set_sort_and_truncate [of "routes_of t1 dest" cap]
    by (fastforce simp: routes_ok_def list_all_iff take_map [symmetric] dest!: in_set_takeD)
  moreover have "routes_ok cap (update_first P f (routes_of t1 dest))"
    if "\<And>r. lr_next_hop (f r) = lr_next_hop r" "\<And>r. f_le MIN_ROUTE_SCORE (lr_score r) \<Longrightarrow> f_le MIN_ROUTE_SCORE (lr_score (f r))" for P f
    using routes_ok_update [OF ok that] .
  ultimately show ?thesis
    unfolding quarantine_failed_next_hop_def t1_def [symmetric] Let_def
    using inv score_updates(2) min_score_value(1) by (auto simp: f_le_refl intro!: table_inv_insert)
qed

section \<open>Selection\<close>

definition route_core :: "learned_route \<Rightarrow> node_addr \<times> u64 \<times> u64 \<times> f64" where
  "route_core r = (lr_next_hop r, lr_failures r, lr_expires_at_ms r, lr_score r)"

definition usable :: "u64 \<Rightarrow> (node_addr \<Rightarrow> bool) \<Rightarrow> learned_route \<Rightarrow> bool" where
  "usable now can_send r \<longleftrightarrow> now < lr_expires_at_ms r \<and> lr_failures r = 0 \<and> can_send (lr_next_hop r)"

lemma core_update: "route_core r = route_core (xs ! i) \<Longrightarrow> map route_core (xs[i := r]) = map route_core xs"
  by (cases "i < length xs") (simp_all add: map_update list_update_same_conv list_update_beyond)

lemma fold_select_step:
  "map route_core (fst (fold select_step xs (rs, sel))) = map route_core rs \<and>
   snd (fold select_step xs (rs, sel)) \<in> insert sel (fst ` set xs)"
proof (induction xs arbitrary: rs sel)
  case (Cons x xs)
  obtain rs' sel' where step: "select_step x (rs, sel) = (rs', sel')" by fastforce
  then have "map route_core rs' = map route_core rs" "sel' \<in> {sel, fst x}"
    by (auto simp: select_step_def Let_def split_beta route_core_def intro!: core_update split: if_splits)
  then show ?case using Cons [of rs' sel'] step by auto
qed simp

lemma set_sendable:
  "(i, w) \<in> set (sendable_routes powf15 can_send rs) \<longleftrightarrow>
     i < length rs \<and> lr_failures (rs ! i) = 0 \<and> can_send (lr_next_hop (rs ! i)) \<and> w = weight powf15 (rs ! i)"
  by (auto simp: sendable_routes_def in_set_enumerate_eq image_iff)

lemma sendable_Nil:
  "sendable_routes powf15 can_send rs = [] \<longleftrightarrow> (\<forall>r \<in> set rs. \<not> (lr_failures r = 0 \<and> can_send (lr_next_hop r)))"
proof -
  have "sendable_routes powf15 can_send rs = [] \<longleftrightarrow> (\<forall>i w. (i, w) \<notin> set (sendable_routes powf15 can_send rs))"
    by (cases "sendable_routes powf15 can_send rs") auto
  then show ?thesis by (auto simp: set_sendable all_set_conv_all_nth)
qed

text \<open>What a selection does to the routes of the destination, and what it returns.\<close>

lemma select_next_hop_routes:
  assumes "map_of (lt_routes t) dest = Some rs" "sendable_routes powf15 can_send (live_routes now rs) \<noteq> []"
  obtains rs' i where "select_next_hop powf15 t dest now can_send =
      (t\<lparr> lt_routes := hm_insert dest (sort_and_truncate rs' (length rs')) (lt_routes t) \<rparr>, Some (lr_next_hop (rs' ! i)))"
    and "map route_core rs' = map route_core (live_routes now rs)" "i < length rs'"
    and "lr_failures (rs' ! i) = 0" "can_send (lr_next_hop (rs' ! i))"
proof -
  let ?live = "live_routes now rs"
  let ?snd = "sendable_routes powf15 can_send ?live"
  obtain rs1 i where f: "fold select_step ?snd (?live, fst (hd ?snd)) = (rs1, i)" by fastforce
  have "map route_core rs1 = map route_core ?live" and i: "i \<in> fst ` set ?snd"
    using fold_select_step [of ?snd ?live "fst (hd ?snd)"] f assms(2) by auto
  define r where "r = (rs1 ! i)\<lparr> lr_current_weight := f_sub (lr_current_weight (rs1 ! i)) (fold (\<lambda>(_, w) s. f_add s w) ?snd (Fin 0)),
            lr_selected := saturating_add (lr_selected (rs1 ! i)) 1 \<rparr>"
  have core: "map route_core (rs1[i := r]) = map route_core ?live"
    using \<open>map route_core rs1 = map route_core ?live\<close> by (subst core_update) (simp_all add: r_def route_core_def)
  from i obtain w where "(i, w) \<in> set ?snd" by auto
  then have ok: "i < length ?live" "lr_failures (?live ! i) = 0" "can_send (lr_next_hop (?live ! i))"
    by (simp_all add: set_sendable)
  have len: "length (rs1[i := r]) = length ?live" using core by (metis length_map)
  then have "route_core (rs1[i := r] ! i) = route_core (?live ! i)" using core ok(1) by (metis nth_map)
  then have same: "lr_next_hop (rs1[i := r] ! i) = lr_next_hop (?live ! i)" "lr_failures (rs1[i := r] ! i) = lr_failures (?live ! i)"
    by (simp_all add: route_core_def)
  show thesis
  proof (rule that [of "rs1[i := r]" i])
    show "select_next_hop powf15 t dest now can_send = (t\<lparr> lt_routes := hm_insert dest
        (sort_and_truncate (rs1[i := r]) (length (rs1[i := r]))) (lt_routes t) \<rparr>, Some (lr_next_hop (rs1[i := r] ! i)))"
      using assms f by (simp add: select_next_hop_def Let_def r_def)
  qed (use core len ok same in simp_all)
qed

lemma select_next_hop_spec:
  "case snd (select_next_hop powf15 t dest now can_send) of
     None \<Rightarrow> \<not> (\<exists>r \<in> set (routes_of t dest). usable now can_send r)
   | Some h \<Rightarrow> \<exists>r \<in> set (routes_of t dest). usable now can_send r \<and> lr_next_hop r = h"
proof (cases "map_of (lt_routes t) dest")
  case None
  then show ?thesis by (simp add: select_next_hop_def routes_of_def)
next
  case (Some rs)
  show ?thesis
  proof (cases "sendable_routes powf15 can_send (live_routes now rs) = []")
    case True
    then show ?thesis
      using Some by (auto simp: select_next_hop_def routes_of_def sendable_Nil usable_def live_routes_def Let_def)
  next
    case False
    obtain rs' i where sel: "snd (select_next_hop powf15 t dest now can_send) = Some (lr_next_hop (rs' ! i))"
      and core: "map route_core rs' = map route_core (live_routes now rs)" and i: "i < length rs'"
      and ok: "lr_failures (rs' ! i) = 0" "can_send (lr_next_hop (rs' ! i))"
      using select_next_hop_routes [OF Some False] by (metis snd_conv)
    have "i < length (live_routes now rs)" using core i by (metis length_map)
    moreover from this have "route_core (live_routes now rs ! i) = route_core (rs' ! i)" using core i by (metis nth_map)
    ultimately show ?thesis
      using sel ok Some nth_mem [of i "live_routes now rs"]
      by (auto simp: routes_of_def usable_def route_core_def live_routes_def intro!: bexI [of _ "live_routes now rs ! i"])
  qed
qed

section \<open>Sequences of operations\<close>

text \<open>The route limit per destination is a configuration constant, the parameter \<open>cap\<close>.\<close>

datatype route_op =
    Learn node_addr node_addr u64 u64 | Quarantine node_addr node_addr u64 u64 | Pin node_addr node_addr u64 u64
  | SelectHandshake node_addr u64 "node_addr \<Rightarrow> bool" | ActiveHandshake node_addr u64
  | SelectNext node_addr u64 "node_addr \<Rightarrow> bool" | RecordSelected node_addr node_addr u64
  | ExploreFallback node_addr u64 u64 "node_addr \<Rightarrow> bool" | PurgeRoutes u64

fun route_step :: "(f64 \<Rightarrow> f64) \<Rightarrow> nat \<Rightarrow> learned_route_table \<Rightarrow> route_op \<Rightarrow> learned_route_table" where
  "route_step powf15 cap t (Learn d h now ttl) = learn t d h now ttl cap"
| "route_step powf15 cap t (Quarantine d h now ttl) = quarantine_failed_next_hop t d h now ttl cap"
| "route_step powf15 cap t (Pin d h now ttl) = pin_handshake_route t d h now ttl cap"
| "route_step powf15 cap t (SelectHandshake d now can) = fst (select_handshake_route t d now can)"
| "route_step powf15 cap t (ActiveHandshake d now) = fst (active_handshake_route t d now)"
| "route_step powf15 cap t (SelectNext d now can) = fst (select_next_hop powf15 t d now can)"
| "route_step powf15 cap t (RecordSelected d h now) = fst (record_selected t d h now)"
| "route_step powf15 cap t (ExploreFallback d now n can) = fst (should_explore_fallback t d now n can)"
| "route_step powf15 cap t (PurgeRoutes now) = purge_expired_routes t now"

lemma table_inv_frame [simp]:
  "table_inv cap t \<Longrightarrow> table_inv cap (t\<lparr> lt_handshake_routes := hm_remove d (lt_handshake_routes t) \<rparr>)"
  "table_inv cap t \<Longrightarrow> table_inv cap (t\<lparr> lt_handshake_routes := hm_insert d r (lt_handshake_routes t) \<rparr>)"
  "table_inv cap t \<Longrightarrow> hm_inv e \<Longrightarrow> table_inv cap (t\<lparr> lt_explored_at_selected := e \<rparr>)"
  by (simp_all add: table_inv_def)

lemma routes_ok_map_of: "table_inv cap t \<Longrightarrow> map_of (lt_routes t) d = Some rs \<Longrightarrow> routes_ok cap rs"
  using routes_ok_of [of cap t d] by (simp add: routes_of_def)

lemma table_inv_record_selected:
  assumes "table_inv cap t"
  shows "table_inv cap (fst (record_selected t d h now))"
proof (cases "map_of (lt_routes t) d")
  case (Some rs)
  then show ?thesis
    using assms routes_ok_live [OF routes_ok_map_of [OF assms Some], of now]
    by (auto simp: record_selected_def Let_def intro!: table_inv_insert routes_ok_update)
qed (simp add: record_selected_def assms)

lemma core_next_hops: "map route_core xs = map route_core ys \<Longrightarrow> map lr_next_hop xs = map lr_next_hop ys \<and> map lr_score xs = map lr_score ys"
proof -
  have "map lr_next_hop zs = map fst (map route_core zs)" "map lr_score zs = map (snd \<circ> snd \<circ> snd) (map route_core zs)" for zs
    by (simp_all add: route_core_def)
  then show "map route_core xs = map route_core ys \<Longrightarrow> map lr_next_hop xs = map lr_next_hop ys \<and> map lr_score xs = map lr_score ys"
    by metis
qed

lemma routes_ok_core: "map route_core xs = map route_core ys \<Longrightarrow> routes_ok cap ys \<Longrightarrow> routes_ok cap xs"
proof -
  assume core: "map route_core xs = map route_core ys" and ok: "routes_ok cap ys"
  have "list_all (f_le MIN_ROUTE_SCORE) (map lr_score xs)"
    using core_next_hops [OF core] ok by (simp add: routes_ok_def list.pred_map comp_def)
  then have "list_all (\<lambda>r. f_le MIN_ROUTE_SCORE (lr_score r)) xs"
    unfolding list.pred_map comp_def .
  then show "routes_ok cap xs"
    using core_next_hops [OF core] ok map_eq_imp_length_eq [OF core] by (simp add: routes_ok_def)
qed

lemma table_inv_select_next_hop:
  assumes "table_inv cap t"
  shows "table_inv cap (fst (select_next_hop powf15 t d now can))"
proof (cases "map_of (lt_routes t) d")
  case (Some rs)
  have ok: "routes_ok cap (live_routes now rs)" using routes_ok_live [OF routes_ok_map_of [OF assms Some]] .
  show ?thesis
  proof (cases "sendable_routes powf15 can (live_routes now rs) = []")
    case True
    then show ?thesis using assms Some ok by (auto simp: select_next_hop_def Let_def intro: table_inv_insert)
  next
    case False
    obtain rs' i where sel: "fst (select_next_hop powf15 t d now can) =
        t\<lparr> lt_routes := hm_insert d (sort_and_truncate rs' (length rs')) (lt_routes t) \<rparr>"
      and core: "map route_core rs' = map route_core (live_routes now rs)"
      using select_next_hop_routes [OF Some False] by (metis fst_conv)
    have "routes_ok cap (sort_and_truncate rs' (length rs'))"
      using routes_ok_mono [OF routes_ok_sort [OF routes_ok_core [OF core ok]]] by simp
    then show ?thesis using sel assms by (simp add: table_inv_insert)
  qed
qed (simp add: select_next_hop_def assms)

lemma table_inv_purge:
  assumes "table_inv cap t"
  shows "table_inv cap (purge_expired_routes t now)"
proof -
  have "hm_inv (map (\<lambda>(d, rs). (d, live_routes now rs)) (lt_routes t))"
    using assms by (simp add: table_inv_def hm_inv_def comp_def case_prod_unfold)
  then show ?thesis
    using assms by (auto simp: table_inv_def purge_expired_routes_def retain_destinations_def Let_def list_all_iff routes_ok_live)
qed

interpretation route_machine: invariant_machine "table_inv cap" "route_step powf15 cap" for cap powf15
proof
  fix t op assume inv: "table_inv cap t"
  show "table_inv cap (route_step powf15 cap t op)"
  proof (cases op)
    case (Pin d h now ttl)
    then show ?thesis using inv by (auto simp: pin_handshake_route_def Let_def table_inv_learn)
  next
    case (ExploreFallback d now n can)
    have "hm_inv (fst (should_explore (lt_explored_at_selected t) d k n))" for k
      using inv by (simp add: should_explore_def table_inv_def)
    then show ?thesis
      using inv ExploreFallback table_inv_insert [OF inv routes_ok_live [OF routes_ok_map_of [OF inv]]]
      by (auto simp: should_explore_fallback_def Let_def split_beta split: option.splits)
  qed (use inv in \<open>auto simp: select_handshake_route_def active_handshake_route_def table_inv_learn table_inv_quarantine
      table_inv_record_selected table_inv_select_next_hop table_inv_purge split: option.splits\<close>)
qed

section \<open>Quarantine\<close>

definition quarantined :: "node_addr \<Rightarrow> learned_route list \<Rightarrow> bool" where
  "quarantined h rs \<longleftrightarrow> (\<forall>r \<in> set rs. lr_next_hop r = h \<longrightarrow> lr_failures r \<noteq> 0)"

definition shunned :: "node_addr \<Rightarrow> node_addr \<Rightarrow> learned_route_table \<Rightarrow> bool" where
  "shunned d h t \<longleftrightarrow> quarantined h (routes_of t d) \<and>
     (\<forall>r. map_of (lt_handshake_routes t) d = Some r \<longrightarrow> hr_next_hop r \<noteq> h)"

fun relearns :: "node_addr \<Rightarrow> node_addr \<Rightarrow> route_op \<Rightarrow> bool" where
  "relearns d h (Learn d' h' now ttl) \<longleftrightarrow> d' = d \<and> h' = h"
| "relearns d h (Pin d' h' now ttl) \<longleftrightarrow> d' = d \<and> h' = h"
| "relearns d h _ \<longleftrightarrow> False"

lemma routes_of_insert [simp]:
  "routes_of (t\<lparr> lt_routes := hm_insert d' rs m \<rparr>) d = (if d = d' then rs else routes_of (t\<lparr> lt_routes := m \<rparr>) d)"
  by (simp add: routes_of_def hm_simps)

lemma routes_of_frame [simp]:
  "routes_of (t\<lparr> lt_handshake_routes := hs \<rparr>) d = routes_of t d"
  "routes_of (t\<lparr> lt_explored_at_selected := e \<rparr>) d = routes_of t d"
  by (simp_all add: routes_of_def)

lemma quarantined_subset: "quarantined h rs \<Longrightarrow> set rs' \<subseteq> set rs \<Longrightarrow> quarantined h rs'"
  by (auto simp: quarantined_def)

lemma quarantined_core: "map route_core rs' = map route_core rs \<Longrightarrow> quarantined h rs \<Longrightarrow> quarantined h rs'"
proof -
  assume core: "map route_core rs' = map route_core rs" and q: "quarantined h rs"
  have "list_all (\<lambda>(n, f, _). n = h \<longrightarrow> f \<noteq> 0) (map route_core rs)"
    using q by (auto simp: quarantined_def route_core_def list_all_iff)
  then have "list_all (\<lambda>(n, f, _). n = h \<longrightarrow> f \<noteq> 0) (map route_core rs')" unfolding core .
  then show "quarantined h rs'" by (auto simp: quarantined_def route_core_def list_all_iff)
qed

lemma quarantined_live: "quarantined h rs \<Longrightarrow> quarantined h (live_routes now rs)"
  by (auto simp: quarantined_def live_routes_def)

lemma quarantined_update_first:
  assumes "quarantined h rs" "\<And>r. P r \<Longrightarrow> lr_next_hop (f r) = h \<Longrightarrow> lr_failures (f r) = 0 \<Longrightarrow> lr_next_hop r = h \<and> lr_failures r = 0"
  shows "quarantined h (update_first P f rs)"
  using assms by (auto simp: quarantined_def dest!: set_update_first)

lemma saturating_succ_nonzero [simp]: "saturating_add (n :: u64) 1 \<noteq> 0"
proof
  assume "saturating_add n 1 = 0"
  then have "unat (saturating_add n 1) = 0" by simp
  then show False by (simp add: unat_saturating_add)
qed

lemma quarantined_sort [intro]: "quarantined h rs \<Longrightarrow> quarantined h (sort_and_truncate rs n)"
  using set_sort_and_truncate quarantined_subset by blast

lemma quarantined_take [intro]: "quarantined h rs \<Longrightarrow> quarantined h (take n rs)"
  using set_take_subset quarantined_subset by metis

lemma quarantined_append [simp]:
  "quarantined h (rs @ [r]) \<longleftrightarrow> quarantined h rs \<and> (lr_next_hop r = h \<longrightarrow> lr_failures r \<noteq> 0)"
  by (auto simp: quarantined_def)

lemma shunned_learn:
  assumes "shunned d h t" "\<not> (d' = d \<and> h' = h)"
  shows "shunned d h (learn t d' h' now ttl cap)"
  using assms by (auto simp: learn_def Let_def shunned_def intro!: quarantined_sort quarantined_update_first)

lemma shunned_quarantine:
  assumes "shunned d h t"
  shows "shunned d h (quarantine_failed_next_hop t d' h' now ttl cap)"
  using assms by (auto simp: quarantine_failed_next_hop_def Let_def shunned_def hm_simps
      intro!: quarantined_sort quarantined_take quarantined_update_first)

lemma shunned_quarantine_new:
  assumes "table_inv cap t" "0 < cap"
  shows "shunned d h (quarantine_failed_next_hop t d h now ttl cap)"
proof -
  have d: "distinct (map lr_next_hop (routes_of t d))" using routes_ok_of [OF assms(1)] by (simp add: routes_ok_def)
  have upd: "quarantined h (update_first (\<lambda>r. lr_next_hop r = h) f (routes_of t d))"
    if "\<And>r. lr_next_hop (f r) = lr_next_hop r" "\<And>r. lr_failures (f r) \<noteq> 0" for f
    using set_update_first_distinct [OF d, of f] that by (auto simp: quarantined_def)
  have "quarantined h (routes_of t d)" if "\<forall>r \<in> set (routes_of t d). lr_next_hop r \<noteq> h"
    using that by (simp add: quarantined_def)
  then show ?thesis
    using assms(2) upd
    by (auto simp: quarantine_failed_next_hop_def Let_def shunned_def hm_simps intro!: quarantined_take quarantined_sort)
qed

lemma shunned_live:
  assumes "shunned d h t" "map_of (lt_routes t) d' = Some rs" "d' = d \<Longrightarrow> quarantined h (live_routes now rs) \<Longrightarrow> quarantined h rs'"
  shows "shunned d h (t\<lparr> lt_routes := hm_insert d' rs' (lt_routes t) \<rparr>)"
  using assms quarantined_live [of h rs now] by (auto simp: shunned_def routes_of_def hm_simps)

lemma shunned_select_next_hop:
  assumes "shunned d h t"
  shows "shunned d h (fst (select_next_hop powf15 t d' now can))"
proof (cases "map_of (lt_routes t) d'")
  case (Some rs)
  show ?thesis
  proof (cases "sendable_routes powf15 can (live_routes now rs) = []")
    case True
    then show ?thesis using shunned_live [OF assms Some] Some by (auto simp: select_next_hop_def Let_def)
  next
    case False
    obtain rs' i where sel: "fst (select_next_hop powf15 t d' now can) =
        t\<lparr> lt_routes := hm_insert d' (sort_and_truncate rs' (length rs')) (lt_routes t) \<rparr>"
      and core: "map route_core rs' = map route_core (live_routes now rs)"
      using select_next_hop_routes [OF Some False] by (metis fst_conv)
    show ?thesis unfolding sel
      using core by (intro shunned_live [OF assms Some]) (auto intro: quarantined_core)
  qed
qed (simp add: select_next_hop_def assms)

lemma shunned_record_selected:
  assumes "shunned d h t"
  shows "shunned d h (fst (record_selected t d' h' now))"
proof (cases "map_of (lt_routes t) d'")
  case (Some rs)
  then show ?thesis
    by (auto simp: record_selected_def Let_def intro!: shunned_live [OF assms Some] quarantined_update_first)
qed (simp add: record_selected_def assms)

lemma shunned_purge:
  assumes "table_inv cap t" "shunned d h t"
  shows "shunned d h (purge_expired_routes t now)"
proof -
  have "set (routes_of (purge_expired_routes t now) d) \<subseteq> set (routes_of t d)"
  proof
    fix r assume "r \<in> set (routes_of (purge_expired_routes t now) d)"
    then obtain rs where "(d, rs) \<in> set (lt_routes t)" "r \<in> set rs"
      by (auto simp: routes_of_def purge_expired_routes_def Let_def live_routes_def split: option.splits
          dest!: map_of_SomeD map_of_SomeD [OF sym])
    then show "r \<in> set (routes_of t d)" using assms(1) by (simp add: table_inv_def hm_mem_iff routes_of_def)
  qed
  moreover have "map_of (lt_handshake_routes (purge_expired_routes t now)) d = Some r \<Longrightarrow> map_of (lt_handshake_routes t) d = Some r" for r
    using assms(1) by (auto simp: purge_expired_routes_def Let_def hm_simps table_inv_def split: option.splits if_splits)
  ultimately show ?thesis using assms(2) quarantined_subset by (auto simp: shunned_def)
qed

lemma shunned_step:
  assumes "table_inv cap t" "shunned d h t" "\<not> relearns d h op"
  shows "shunned d h (route_step powf15 cap t op)"
proof (cases op)
  case (Pin d' h' now ttl)
  then show ?thesis
    using assms(2,3) shunned_learn [OF assms(2), of d' h' now ttl cap]
    by (auto simp: pin_handshake_route_def Let_def shunned_def hm_simps)
next
  case (ExploreFallback d' now n can)
  have "shunned d h (t\<lparr> lt_routes := hm_insert d' (live_routes now rs) (lt_routes t) \<rparr>)" if "map_of (lt_routes t) d' = Some rs" for rs
    by (rule shunned_live [OF assms(2) that]) auto
  then show ?thesis
    using ExploreFallback assms(2) by (auto simp: should_explore_fallback_def Let_def split_beta shunned_def split: option.splits)
next
  case (SelectHandshake d' now can)
  have "shunned d h (t\<lparr> lt_handshake_routes := hm_remove d' (lt_handshake_routes t) \<rparr>)"
    using assms(2) by (auto simp: shunned_def hm_simps)
  then show ?thesis
    using SelectHandshake assms(2) shunned_record_selected [OF assms(2)] by (auto simp: select_handshake_route_def split: option.splits)
next
  case (ActiveHandshake d' now)
  then show ?thesis using assms(2) by (auto simp: active_handshake_route_def shunned_def hm_simps split: option.splits)
qed (use assms in \<open>auto intro: shunned_learn shunned_quarantine shunned_select_next_hop shunned_record_selected shunned_purge\<close>)

lemma shunned_run:
  "table_inv cap t \<Longrightarrow> shunned d h t \<Longrightarrow> list_all (\<lambda>op. \<not> relearns d h op) ops \<Longrightarrow> shunned d h (run (route_step powf15 cap) t ops)"
proof (induction ops arbitrary: t)
  case (Cons op ops)
  then show ?case using shunned_step [of cap t d h op] route_machine.step_inv [of cap t powf15 op] by simp
qed simp

section \<open>Properties\<close>

text \<open>In every reachable table, selection returns a next hop exactly when the destination has a live
  route without failures over which the node can send, and then the next hop of such a route; a
  destination never has more routes than the configured limit, nor two routes over one next hop.\<close>

theorem learned_route_selection:
  "let t = run (route_step powf15 cap) table_new ops in
    (case snd (select_next_hop powf15 t dest now can_send) of
       None \<Rightarrow> \<not> (\<exists>r \<in> set (routes_of t dest). usable now can_send r)
     | Some h \<Rightarrow> \<exists>r \<in> set (routes_of t dest). usable now can_send r \<and> lr_next_hop r = h) \<and>
    length (routes_of t dest) \<le> cap \<and> distinct (map lr_next_hop (routes_of t dest))"
proof -
  have "table_inv cap (run (route_step powf15 cap) table_new ops)"
    by (rule route_machine.run_inv) (simp add: table_inv_def table_new_def)
  then show ?thesis
    using select_next_hop_spec routes_ok_of by (simp add: Let_def routes_ok_def)
qed

text \<open>A next hop quarantined for a destination is chosen neither by route selection nor as a pinned
  handshake route until traffic teaches that very route again, whatever else happens to the table.\<close>

theorem quarantined_hop_not_selected:
  assumes "0 < cap" "list_all (\<lambda>op. \<not> relearns d h op) ops"
  shows "let t = run (route_step powf15 cap)
      (quarantine_failed_next_hop (run (route_step powf15 cap) table_new history) d h now ttl cap) ops in
    snd (select_next_hop powf15 t d now' can_send) \<noteq> Some h \<and> snd (select_handshake_route t d now' can_send) \<noteq> Some h"
proof -
  let ?t0 = "run (route_step powf15 cap) table_new history"
  let ?t1 = "quarantine_failed_next_hop ?t0 d h now ttl cap"
  have inv: "table_inv cap ?t0" by (rule route_machine.run_inv) (simp add: table_inv_def table_new_def)
  have sh: "shunned d h (run (route_step powf15 cap) ?t1 ops)" (is "shunned d h ?t")
    by (rule shunned_run [OF table_inv_quarantine [OF inv] shunned_quarantine_new [OF inv assms(1)] assms(2)])
  then have "snd (select_next_hop powf15 ?t d now' can_send) \<noteq> Some h"
    using select_next_hop_spec [where ?powf15.0 = powf15 and t = ?t and dest = d and now = now' and can_send = can_send] by (auto simp: shunned_def quarantined_def usable_def)
  moreover have "snd (select_handshake_route ?t d now' can_send) \<noteq> Some h"
    using sh by (auto simp: select_handshake_route_def shunned_def split: option.splits)
  ultimately show ?thesis by (simp add: Let_def)
qed

theorem quarantined_hop_not_selected_witness:
  "snd (select_next_hop id (run (route_step id 4) (quarantine_failed_next_hop
      (run (route_step id 4) table_new [Learn (NodeAddr 9) (NodeAddr 1) 10 60, Learn (NodeAddr 9) (NodeAddr 2) 11 60])
      (NodeAddr 9) (NodeAddr 1) 20 60 4) [Learn (NodeAddr 9) (NodeAddr 2) 30 60]) (NodeAddr 9) 40 (\<lambda>_. True)) \<noteq> Some (NodeAddr 1)"
  using quarantined_hop_not_selected [of 4 "NodeAddr 9" "NodeAddr 1" "[Learn (NodeAddr 9) (NodeAddr 2) 30 60]" id
      "[Learn (NodeAddr 9) (NodeAddr 1) 10 60, Learn (NodeAddr 9) (NodeAddr 2) 11 60]" 20 60 40 "\<lambda>_. True"]
  by (simp add: Let_def)

end
