(* ===== verification/Lookup_Limits.thy ===== *)
theory Lookup_Limits
  imports Identity Limiter F64 "HOL-Library.Product_Lexorder"
begin

text \<open>
  Limits on discovery (\<^verbatim>\<open>proto/lookup_limits.rs\<close>): the originator's exponential backoff, the transit
  node's limiter of forwarded lookups (an interval per ingress, origin and target, and a token bucket
  per ingress) and the target's signing budget. The clock is an argument; \<^verbatim>\<open>BTreeSet\<close> is its sorted list.
\<close>

section \<open>Backoff\<close>

definition DEFAULT_BACKOFF_BASE_SECS :: u64 where "DEFAULT_BACKOFF_BASE_SECS = 30"

definition DEFAULT_BACKOFF_MAX_SECS :: u64 where "DEFAULT_BACKOFF_MAX_SECS = 300"

definition BACKOFF_MULTIPLIER :: u64 where "BACKOFF_MULTIPLIER = 2"

record backoff_entry =
  be_suppress_until :: instant
  be_failures :: u32
  be_retry_when_reachable :: bool

text \<open>The durations of the source are whole seconds; they are kept as such.\<close>

record discovery_backoff =
  db_entries :: "(node_addr, backoff_entry) hmap"
  db_base_secs :: u64
  db_max_secs :: u64

definition backoff_with_params :: "u64 \<Rightarrow> u64 \<Rightarrow> discovery_backoff" where
  "backoff_with_params base_secs max_secs = \<lparr> db_entries = [], db_base_secs = base_secs, db_max_secs = max_secs \<rparr>"

definition backoff_new :: discovery_backoff where
  "backoff_new = backoff_with_params DEFAULT_BACKOFF_BASE_SECS DEFAULT_BACKOFF_MAX_SECS"


definition failure_count :: "discovery_backoff \<Rightarrow> node_addr \<Rightarrow> u32" where
  "failure_count b target = (case map_of (db_entries b) target of None \<Rightarrow> 0 | Some e \<Rightarrow> be_failures e)"

definition saturating_pow :: "u64 \<Rightarrow> nat \<Rightarrow> u64" where
  "saturating_pow a n = (if unat a ^ n < 2 ^ 64 then a ^ n else - 1)"

definition backoff_secs :: "discovery_backoff \<Rightarrow> u32 \<Rightarrow> u64" where
  "backoff_secs b failures = min (saturating_mul (db_base_secs b)
     (saturating_pow BACKOFF_MULTIPLIER (unat (saturating_sub failures 1)))) (db_max_secs b)"

definition record_failure_with_reachability ::
  "discovery_backoff \<Rightarrow> node_addr \<Rightarrow> bool \<Rightarrow> instant \<Rightarrow> discovery_backoff" where
  "record_failure_with_reachability b target retry_when_reachable now =
    (let failures = failure_count b target + 1 in
     b\<lparr> db_entries := hm_insert target \<lparr> be_suppress_until = now + from_secs (unat (backoff_secs b failures)),
       be_failures = failures, be_retry_when_reachable = retry_when_reachable \<rparr> (db_entries b) \<rparr>)"

definition record_failure :: "discovery_backoff \<Rightarrow> node_addr \<Rightarrow> instant \<Rightarrow> discovery_backoff" where
  "record_failure b target now = record_failure_with_reachability b target False now"

definition record_delayed_failure :: "discovery_backoff \<Rightarrow> node_addr \<Rightarrow> instant \<Rightarrow> discovery_backoff" where
  "record_delayed_failure b target now = record_failure_with_reachability b target True now"

definition retry_delayed_with_route :: "discovery_backoff \<Rightarrow> node_addr \<Rightarrow> discovery_backoff \<times> bool" where
  "retry_delayed_with_route b target = (case map_of (db_entries b) target of
     None \<Rightarrow> (b, False)
   | Some e \<Rightarrow> (b\<lparr> db_entries := hm_insert target (e\<lparr> be_retry_when_reachable := False \<rparr>) (db_entries b) \<rparr>,
       be_retry_when_reachable e))"

definition record_success :: "discovery_backoff \<Rightarrow> node_addr \<Rightarrow> discovery_backoff" where
  "record_success b target = b\<lparr> db_entries := hm_remove target (db_entries b) \<rparr>"

definition reset_all :: "discovery_backoff \<Rightarrow> discovery_backoff" where
  "reset_all b = b\<lparr> db_entries := [] \<rparr>"

section \<open>Forwarding limiter\<close>

definition DEFAULT_FORWARD_MIN_INTERVAL :: duration where "DEFAULT_FORWARD_MIN_INTERVAL = from_secs 2"

definition FORWARD_MAX_AGE :: duration where "FORWARD_MAX_AGE = from_secs 60"

definition FORWARD_CLEANUP_INTERVAL :: duration where "FORWARD_CLEANUP_INTERVAL = from_secs 5"

definition FORWARD_MAX_TARGETS :: nat where "FORWARD_MAX_TARGETS = 4096"

definition FORWARD_MAX_INGRESS_PEERS :: nat where "FORWARD_MAX_INGRESS_PEERS = 4096"

definition DEFAULT_FORWARD_BURST :: f64 where "DEFAULT_FORWARD_BURST = Fin 256"

definition DEFAULT_FORWARD_RATE :: f64 where "DEFAULT_FORWARD_RATE = Fin 32"

definition FORWARD_INGRESS_MAX_AGE :: duration where "FORWARD_INGRESS_MAX_AGE = from_secs 300"

definition as_secs_f64 :: "duration \<Rightarrow> f64" where
  "as_secs_f64 d = f_add (f_of_nat (d div 1000000000)) (f_div (f_of_nat (d mod 1000000000)) (Fin 1000000000))"

record token_bucket =
  tb_tokens :: f64
  tb_updated :: instant

datatype forward_decision = Forward | TargetInterval | TargetCapacity | IngressCapacity | IngressBudget

type_synonym forward_key = "node_addr \<times> node_addr \<times> node_addr"

record forward_limiter =
  fl_last_forwarded :: "(forward_key, instant) hmap"
  fl_forwarded_by_time :: "(instant \<times> forward_key) list"
  fl_ingress_buckets :: "(node_addr, token_bucket) hmap"
  fl_min_interval :: duration
  fl_max_age :: duration
  fl_max_targets :: nat
  fl_max_ingress_peers :: nat
  fl_ingress_burst :: f64
  fl_ingress_rate :: f64
  fl_ingress_max_age :: duration
  fl_cleanup_interval :: duration
  fl_last_cleanup :: instant

definition forward_with_interval :: "duration \<Rightarrow> instant \<Rightarrow> forward_limiter" where
  "forward_with_interval min_interval now = \<lparr> fl_last_forwarded = [], fl_forwarded_by_time = [],
     fl_ingress_buckets = [], fl_min_interval = min_interval, fl_max_age = FORWARD_MAX_AGE,
     fl_max_targets = FORWARD_MAX_TARGETS, fl_max_ingress_peers = FORWARD_MAX_INGRESS_PEERS,
     fl_ingress_burst = DEFAULT_FORWARD_BURST, fl_ingress_rate = DEFAULT_FORWARD_RATE,
     fl_ingress_max_age = FORWARD_INGRESS_MAX_AGE, fl_cleanup_interval = FORWARD_CLEANUP_INTERVAL,
     fl_last_cleanup = now \<rparr>"

definition forward_new :: "instant \<Rightarrow> forward_limiter" where
  "forward_new now = forward_with_interval DEFAULT_FORWARD_MIN_INTERVAL now"

definition forward_cleanup :: "forward_limiter \<Rightarrow> instant \<Rightarrow> forward_limiter" where
  "forward_cleanup s now =
    (let stale = filter (\<lambda>(k, t). \<not> duration_since now t < fl_max_age s) (fl_last_forwarded s) in
     s\<lparr> fl_last_forwarded := hm_retain (\<lambda>_ t. duration_since now t < fl_max_age s) (fl_last_forwarded s),
        fl_forwarded_by_time := fold (\<lambda>(k, t). remove1 (t, k)) stale (fl_forwarded_by_time s),
        fl_ingress_buckets := hm_retain (\<lambda>_ b. duration_since now (tb_updated b) < fl_ingress_max_age s) (fl_ingress_buckets s),
        fl_last_cleanup := now \<rparr>)"

definition forward_maybe_cleanup :: "forward_limiter \<Rightarrow> instant \<Rightarrow> forward_limiter" where
  "forward_maybe_cleanup s now =
    (if duration_since now (fl_last_cleanup s) < fl_cleanup_interval s then s else forward_cleanup s now)"

definition ingress_bucket :: "forward_limiter \<Rightarrow> node_addr \<Rightarrow> instant \<Rightarrow> forward_limiter \<times> token_bucket option" where
  "ingress_bucket s from now =
    (if hm_contains (fl_ingress_buckets s) from then (s, map_of (fl_ingress_buckets s) from)
     else if fl_max_ingress_peers s \<le> length (fl_ingress_buckets s) then (s, None)
     else let b = \<lparr> tb_tokens = fl_ingress_burst s, tb_updated = now \<rparr> in
       (s\<lparr> fl_ingress_buckets := hm_insert from b (fl_ingress_buckets s) \<rparr>, Some b))"

definition refill :: "token_bucket \<Rightarrow> instant \<Rightarrow> f64 \<Rightarrow> f64 \<Rightarrow> token_bucket" where
  "refill b now rate burst = \<lparr> tb_tokens = f_min (f_add (tb_tokens b)
     (f_mul (as_secs_f64 (duration_since now (tb_updated b))) rate)) burst, tb_updated = now \<rparr>"

definition set_bucket :: "forward_limiter \<Rightarrow> node_addr \<Rightarrow> token_bucket \<Rightarrow> forward_limiter" where
  "set_bucket s from b = s\<lparr> fl_ingress_buckets := hm_insert from b (fl_ingress_buckets s) \<rparr>"

text \<open>The spending part of the decision, once the interval and the capacity allow the key.\<close>

definition spend_token :: "forward_limiter \<Rightarrow> node_addr \<Rightarrow> instant \<Rightarrow> forward_limiter \<times> forward_decision" where
  "spend_token s from now = (case ingress_bucket s from now of
     (s, None) \<Rightarrow> (s, IngressCapacity)
   | (s, Some b) \<Rightarrow>
      (let b = refill b now (fl_ingress_rate s) (fl_ingress_burst s) in
       if f_lt (tb_tokens b) (Fin 1) then (set_bucket s from b, IngressBudget)
       else (set_bucket s from (b\<lparr> tb_tokens := f_sub (tb_tokens b) (Fin 1) \<rparr>), Forward)))"

text \<open>The bookkeeping of a forward: give up the slot that is reused, then remember the key.\<close>

definition reuse_slot :: "forward_limiter \<Rightarrow> (instant \<times> forward_key) option \<Rightarrow> forward_limiter" where
  "reuse_slot s reclaim = (case reclaim of None \<Rightarrow> s
     | Some (t, oldest) \<Rightarrow> s\<lparr> fl_last_forwarded := hm_remove oldest (fl_last_forwarded s),
         fl_forwarded_by_time := remove1 (t, oldest) (fl_forwarded_by_time s) \<rparr>)"

definition remember_forward :: "forward_limiter \<Rightarrow> forward_key \<Rightarrow> instant \<Rightarrow> forward_limiter" where
  "remember_forward s key now =
     s\<lparr> fl_last_forwarded := hm_insert key now (fl_last_forwarded s),
        fl_forwarded_by_time := insort_insert (now, key) (case map_of (fl_last_forwarded s) key of
            None \<Rightarrow> fl_forwarded_by_time s | Some t \<Rightarrow> remove1 (t, key) (fl_forwarded_by_time s)) \<rparr>"

text \<open>The slot to reuse when the table is full: none is needed, the oldest one, or (\<open>None\<close>) there is none.\<close>

definition reclaim_slot :: "forward_limiter \<Rightarrow> forward_key \<Rightarrow> instant \<Rightarrow> (instant \<times> forward_key) option option" where
  "reclaim_slot s key now =
    (if \<not> hm_contains (fl_last_forwarded s) key \<and> fl_max_targets s \<le> length (fl_last_forwarded s)
     then (case fl_forwarded_by_time s of [] \<Rightarrow> None
       | (t, oldest) # _ \<Rightarrow> if duration_since now t < fl_min_interval s then None else Some (Some (t, oldest)))
     else Some None)"

definition in_interval :: "forward_limiter \<Rightarrow> forward_key \<Rightarrow> instant \<Rightarrow> bool" where
  "in_interval s key now = (case map_of (fl_last_forwarded s) key of
     None \<Rightarrow> False | Some t \<Rightarrow> duration_since now t < fl_min_interval s)"

definition decision_for_origin_at ::
  "forward_limiter \<Rightarrow> forward_key \<Rightarrow> instant \<Rightarrow> forward_limiter \<times> forward_decision" where
  "decision_for_origin_at s key now =
    (let s = forward_maybe_cleanup s now in
     if in_interval s key now then (s, TargetInterval)
     else case reclaim_slot s key now of
       None \<Rightarrow> (s, TargetCapacity)
     | Some reclaim \<Rightarrow>
        (case spend_token s (fst key) now of (s, d) \<Rightarrow>
           if d = Forward then (remember_forward (reuse_slot s reclaim) key now, Forward) else (s, d)))"

definition should_forward_for_origin ::
  "forward_limiter \<Rightarrow> node_addr \<Rightarrow> node_addr \<Rightarrow> node_addr \<Rightarrow> instant \<Rightarrow> forward_limiter \<times> bool" where
  "should_forward_for_origin s from origin target now =
    (case decision_for_origin_at s (from, origin, target) now of (s', d) \<Rightarrow> (s', d = Forward))"

definition deferred_deadline :: "forward_limiter \<Rightarrow> forward_key \<Rightarrow> instant \<Rightarrow> forward_limiter \<times> instant option" where
  "deferred_deadline s key now =
    (let slot = (case map_of (fl_last_forwarded s) key of Some t \<Rightarrow> Some t
       | None \<Rightarrow> if fl_max_targets s \<le> length (fl_last_forwarded s)
           then (case fl_forwarded_by_time s of [] \<Rightarrow> None | e # _ \<Rightarrow> Some (fst e)) else None) in
     case slot of None \<Rightarrow> (s, None)
     | Some t \<Rightarrow>
        (let due = t + fl_min_interval s in
         if due \<le> now then (s, None)
         else case ingress_bucket s (fst key) now of
           (s, None) \<Rightarrow> (s, None)
         | (s, Some b) \<Rightarrow>
             (s, if f_le (Fin 1) (tb_tokens (refill b now (fl_ingress_rate s) (fl_ingress_burst s))) then Some due else None)))"

section \<open>Signing budget\<close>

definition DEFAULT_SIGN_BURST :: f64 where "DEFAULT_SIGN_BURST = Fin 256"

definition DEFAULT_SIGN_RATE :: f64 where "DEFAULT_SIGN_RATE = Fin 32"

definition SIGN_MAX_AGE :: duration where "SIGN_MAX_AGE = from_secs 300"

record sign_limiter =
  sl_buckets :: "(node_addr, token_bucket) hmap"
  sl_burst :: f64
  sl_rate :: f64

definition sign_with_params :: "f64 \<Rightarrow> f64 \<Rightarrow> sign_limiter" where
  "sign_with_params burst rate = \<lparr> sl_buckets = [], sl_burst = burst, sl_rate = rate \<rparr>"

definition sign_new :: sign_limiter where
  "sign_new = sign_with_params DEFAULT_SIGN_BURST DEFAULT_SIGN_RATE"

definition should_sign :: "sign_limiter \<Rightarrow> node_addr \<Rightarrow> instant \<Rightarrow> sign_limiter \<times> bool" where
  "should_sign s from now =
    (if f_le (sl_burst s) (Fin 0) then (s, True)
     else let b = (case map_of (sl_buckets s) from of Some b \<Rightarrow> b | None \<Rightarrow> \<lparr> tb_tokens = sl_burst s, tb_updated = now \<rparr>);
              b = refill b now (sl_rate s) (sl_burst s) in
       if f_lt (tb_tokens b) (Fin 1) then (s\<lparr> sl_buckets := hm_insert from b (sl_buckets s) \<rparr>, False)
       else (s\<lparr> sl_buckets := hm_retain (\<lambda>_ c. duration_since now (tb_updated c) < SIGN_MAX_AGE)
              (hm_insert from (b\<lparr> tb_tokens := f_sub (tb_tokens b) (Fin 1) \<rparr>) (sl_buckets s)) \<rparr>, True))"
section \<open>Backoff doubles up to its cap\<close>






section \<open>Invariant of the forwarding limiter\<close>

definition fl_inv :: "duration \<Rightarrow> forward_limiter \<Rightarrow> bool" where
  "fl_inv gap s \<longleftrightarrow> fl_max_targets s = FORWARD_MAX_TARGETS \<and> fl_max_ingress_peers s = FORWARD_MAX_INGRESS_PEERS \<and> hm_inv (fl_last_forwarded s) \<and> hm_inv (fl_ingress_buckets s) \<and>
     sorted (fl_forwarded_by_time s) \<and> distinct (fl_forwarded_by_time s) \<and>
     set (fl_forwarded_by_time s) = prod.swap ` set (fl_last_forwarded s) \<and>
     length (fl_last_forwarded s) \<le> fl_max_targets s \<and>
     length (fl_ingress_buckets s) \<le> fl_max_ingress_peers s \<and>
     fl_min_interval s = gap \<and> gap \<le> fl_max_age s"

lemma fold_remove1:
  assumes "distinct xs" "sorted xs"
  shows "distinct (fold (\<lambda>(k, t). remove1 (t, k)) ys xs)" "sorted (fold (\<lambda>(k, t). remove1 (t, k)) ys xs)"
    "set (fold (\<lambda>(k, t). remove1 (t, k)) ys xs) = set xs - prod.swap ` set ys"
  using assms by (induction ys arbitrary: xs) (auto simp: sorted_remove1)

lemma swap_diff:
  "prod.swap ` set m - prod.swap ` {x \<in> set m. case x of (k, t) \<Rightarrow> \<not> P t} = prod.swap ` set (hm_retain (\<lambda>_ t. P t) m)"
  by (auto simp: hm_simps image_iff)

lemma length_hm_retain_bound: "length m \<le> c \<Longrightarrow> length (hm_retain P m) \<le> c"
  using length_hm_retain_le le_trans by blast

lemma fl_cleanup_inv:
  assumes "fl_inv gap s"
  shows "fl_inv gap (forward_maybe_cleanup s now)"
  using assms
  by (simp add: fl_inv_def forward_maybe_cleanup_def forward_cleanup_def Let_def fold_remove1 swap_diff
      length_hm_retain_bound)

lemma fl_cleanup_memory:
  assumes "fl_inv gap s" "map_of (fl_last_forwarded s) j = Some u"
  shows "map_of (fl_last_forwarded (forward_maybe_cleanup s now)) j = Some u \<or> gap \<le> now - u"
  using assms
  by (auto simp: fl_inv_def forward_maybe_cleanup_def forward_cleanup_def Let_def hm_simps duration_since_def)

text \<open>Spending a token changes the buckets only, within their bound.\<close>

lemma spend_token_frame:
  assumes "fl_inv gap s" "spend_token s from now = (s', d)"
  obtains b where "s' = s\<lparr> fl_ingress_buckets := b \<rparr>" "fl_inv gap s'"
proof -
  define b where "b = fl_ingress_buckets s'"
  have "hm_inv (fl_ingress_buckets s') \<and> length (fl_ingress_buckets s') \<le> fl_max_ingress_peers s"
    using assms
    by (auto simp: fl_inv_def spend_token_def ingress_bucket_def set_bucket_def Let_def hm_simps hm_contains_def
        split: option.splits if_splits)
  then have len: "hm_inv b" "length b \<le> fl_max_ingress_peers s" by (simp_all add: b_def)
  have eq: "s' = s\<lparr> fl_ingress_buckets := fl_ingress_buckets s' \<rparr>"
    using assms(2)
    by (auto simp: spend_token_def ingress_bucket_def set_bucket_def Let_def split: option.splits if_splits
        intro!: forward_limiter.equality)
  have "fl_inv gap (s\<lparr> fl_ingress_buckets := b \<rparr>)" using len assms(1) by (simp add: fl_inv_def)
  then show ?thesis using that [of b] eq b_def by simp
qed

text \<open>The decision either leaves the memory alone, or admits the key after its interval; a slot it reuses
  has aged past the interval too.\<close>

lemma reclaim_slot_aged:
  assumes "fl_inv gap s" "reclaim_slot s key now = Some r"
  shows "case r of None \<Rightarrow> hm_contains (fl_last_forwarded s) key \<or> length (fl_last_forwarded s) < fl_max_targets s
    | Some (t, k) \<Rightarrow> map_of (fl_last_forwarded s) k = Some t \<and> gap \<le> now - t"
proof (cases r)
  case (Some tk)
  obtain t k where "tk = (t, k)" by (rule prod.exhaust)
  then have "(t, k) \<in> set (fl_forwarded_by_time s)" "\<not> duration_since now t < fl_min_interval s"
    using assms(2) Some by (auto simp: reclaim_slot_def split: if_splits list.splits)
  then have "(k, t) \<in> set (fl_last_forwarded s)" "gap \<le> now - t"
    using assms(1) by (auto simp: fl_inv_def duration_since_def)
  then show ?thesis using assms(1) Some \<open>tk = (t, k)\<close> by (simp add: fl_inv_def hm_mem_iff)
qed (use assms(2) in \<open>auto simp: reclaim_slot_def split: if_splits list.splits\<close>)

lemma decision_cases:
  assumes inv: "fl_inv gap s"
  obtains (refuse) b d where "decision_for_origin_at s key now = (forward_maybe_cleanup s now\<lparr> fl_ingress_buckets := b \<rparr>, d)"
      "d \<noteq> Forward" "fl_inv gap (forward_maybe_cleanup s now\<lparr> fl_ingress_buckets := b \<rparr>)"
  | (admit) b r where "fl_inv gap (forward_maybe_cleanup s now\<lparr> fl_ingress_buckets := b \<rparr>)"
      "decision_for_origin_at s key now =
         (remember_forward (reuse_slot (forward_maybe_cleanup s now\<lparr> fl_ingress_buckets := b \<rparr>) r) key now, Forward)"
      "\<not> in_interval (forward_maybe_cleanup s now) key now" "reclaim_slot (forward_maybe_cleanup s now) key now = Some r"
proof -
  let ?c = "forward_maybe_cleanup s now"
  have c: "fl_inv gap ?c" using inv by (rule fl_cleanup_inv)
  have same: "?c = ?c\<lparr> fl_ingress_buckets := fl_ingress_buckets ?c \<rparr>" by simp
  show ?thesis
  proof (cases "in_interval ?c key now \<or> reclaim_slot ?c key now = None")
    case True
    then have "\<exists>d. d \<noteq> Forward \<and> decision_for_origin_at s key now = (?c, d)"
      unfolding decision_for_origin_at_def Let_def by fastforce
    then show ?thesis using refuse [of "fl_ingress_buckets ?c"] c same by auto
  next
    case False
    then obtain r where r: "\<not> in_interval ?c key now" "reclaim_slot ?c key now = Some r" by blast
    obtain s0 d where sp: "spend_token ?c (fst key) now = (s0, d)" by fastforce
    then obtain b where b: "s0 = ?c\<lparr> fl_ingress_buckets := b \<rparr>" "fl_inv gap s0"
      using spend_token_frame [OF c] by metis
    have "decision_for_origin_at s key now = (if d = Forward then (remember_forward (reuse_slot s0 r) key now, Forward) else (s0, d))"
      using r sp by (simp add: decision_for_origin_at_def Let_def)
    then show ?thesis using admit [of b r] refuse [of b d] b r by (cases "d = Forward") simp_all
  qed
qed

lemma reuse_slot_inv:
  assumes "fl_inv gap s" "reclaim_slot s key now = Some r"
  shows "fl_inv gap (reuse_slot s r)"
    "hm_contains (fl_last_forwarded (reuse_slot s r)) key \<or>
       length (fl_last_forwarded (reuse_slot s r)) < fl_max_targets (reuse_slot s r)"
proof -
  have "fl_inv gap (reuse_slot s r) \<and> (hm_contains (fl_last_forwarded (reuse_slot s r)) key \<or>
       length (fl_last_forwarded (reuse_slot s r)) < fl_max_targets (reuse_slot s r))"
  proof (cases r)
    case (Some tk)
    obtain t k where tk: "tk = (t, k)" by (rule prod.exhaust)
    then have k: "map_of (fl_last_forwarded s) k = Some t"
      using reclaim_slot_aged [OF assms] Some by simp
    then have "Suc (length (hm_remove k (fl_last_forwarded s))) = length (fl_last_forwarded s)"
      using assms(1) by (simp add: fl_inv_def length_hm_remove)
    moreover have "prod.swap ` set (fl_last_forwarded s) - {(t, k)} = prod.swap ` set (hm_remove k (fl_last_forwarded s))"
      using assms(1) k by (auto simp: fl_inv_def hm_simps hm_mem_iff image_iff)
    ultimately show ?thesis
      using assms(1) Some tk by (auto simp: reuse_slot_def fl_inv_def sorted_remove1)
  qed (use assms reclaim_slot_aged [OF assms] in \<open>simp add: reuse_slot_def\<close>)
  then show "fl_inv gap (reuse_slot s r)"
    "hm_contains (fl_last_forwarded (reuse_slot s r)) key \<or>
       length (fl_last_forwarded (reuse_slot s r)) < fl_max_targets (reuse_slot s r)" by auto
qed

lemma remember_forward_inv:
  assumes "fl_inv gap s" "hm_contains (fl_last_forwarded s) key \<or> length (fl_last_forwarded s) < fl_max_targets s"
  shows "fl_inv gap (remember_forward s key now)"
proof -
  let ?i = "case map_of (fl_last_forwarded s) key of
    None \<Rightarrow> fl_forwarded_by_time s | Some t \<Rightarrow> remove1 (t, key) (fl_forwarded_by_time s)"
  have "sorted ?i" "distinct ?i"
    using assms(1) by (auto simp: fl_inv_def sorted_remove1 split: option.splits)
  moreover have "insert (now, key) (set ?i) = prod.swap ` set (hm_insert key now (fl_last_forwarded s))"
    using assms(1)
    by (auto simp: fl_inv_def set_hm_insert hm_mem_iff map_of_eq_None_iff image_iff split: option.splits)
  ultimately show ?thesis
    using assms by (auto simp: remember_forward_def fl_inv_def sorted_insort_insert distinct_insort_insert
        set_insort_insert hm_simps hm_contains_def)
qed
text \<open>What a forward forgets has aged.\<close>

lemma reuse_slot_memory:
  assumes "fl_inv gap s" "reclaim_slot s key now = Some r" "map_of (fl_last_forwarded s) j = Some u"
  shows "map_of (fl_last_forwarded (reuse_slot s r)) j = Some u \<or> gap \<le> now - u"
  using assms(3) reclaim_slot_aged [OF assms(1,2)]
  by (auto simp: reuse_slot_def hm_simps split: option.splits)

lemma bucket_irrelevant [simp]:
  "reclaim_slot (s\<lparr> fl_ingress_buckets := b \<rparr>) = reclaim_slot s"
  by (intro ext) (simp add: reclaim_slot_def split: list.split)

interpretation forward_limit: interval_limiter "fl_inv gap"
  "\<lambda>s k now. should_forward_for_origin s (fst k) (fst (snd k)) (snd (snd k)) now"
  "\<lambda>s. map_of (fl_last_forwarded s)" gap for gap
proof
  fix s :: forward_limiter and k j :: forward_key and t u
  assume inv: "fl_inv gap s"
  let ?f = "should_forward_for_origin s (fst k) (fst (snd k)) (snd (snd k)) t"
  have f: "?f = (fst (decision_for_origin_at s k t), snd (decision_for_origin_at s k t) = Forward)"
    by (simp add: should_forward_for_origin_def split_beta)
  show "fl_inv gap (fst ?f)"
    using inv by (rule decision_cases [of gap s k t]) (auto simp: f remember_forward_inv reuse_slot_inv)
  show "map_of (fl_last_forwarded (fst ?f)) k = Some t" if "snd ?f"
    using inv by (rule decision_cases [of gap s k t]) (use that in \<open>auto simp: f remember_forward_def hm_simps\<close>)
  show "gap \<le> t - u" if "snd ?f" "map_of (fl_last_forwarded s) k = Some u"
    using inv
  proof (rule decision_cases [of gap s k t])
    assume "\<not> in_interval (forward_maybe_cleanup s t) k t"
    then show ?thesis
      using fl_cleanup_memory [OF inv that(2), of t] fl_cleanup_inv [OF inv, of t]
      by (auto simp: in_interval_def fl_inv_def duration_since_def)
  qed (use that in \<open>simp add: f\<close>)
  show "map_of (fl_last_forwarded (fst ?f)) j = Some u \<or> gap \<le> t - u"
    if "\<not> (j = k \<and> snd ?f)" "map_of (fl_last_forwarded s) j = Some u"
    using inv
  proof (rule decision_cases [of gap s k t])
    fix b r
    let ?s = "forward_maybe_cleanup s t\<lparr> fl_ingress_buckets := b \<rparr>"
    assume s: "fl_inv gap ?s" "decision_for_origin_at s k t = (remember_forward (reuse_slot ?s r) k t, Forward)"
      "reclaim_slot (forward_maybe_cleanup s t) k t = Some r"
    then have "map_of (fl_last_forwarded (reuse_slot ?s r)) j = Some u \<or> gap \<le> t - u"
      using fl_cleanup_memory [OF inv that(2), of t] reuse_slot_memory [of gap ?s k t r j u] by auto
    then show ?thesis using that(1) s(2) by (auto simp: f remember_forward_def hm_simps)
  qed (use fl_cleanup_memory [OF inv that(2), of t] in \<open>auto simp: f\<close>)
qed

section \<open>Properties\<close>



text \<open>With a clock that does not run backwards, two forwarded lookups of one ingress peer, origin and
  target are at least the interval apart, although the limiter cleans up and reuses the slots of other
  keys; and neither the table of keys nor the table of ingress buckets grows past 4096 entries.\<close>

theorem forwarded_lookups_spaced:
  assumes "sorted (map snd evs)" "gap \<le> FORWARD_MAX_AGE"
  shows "sorted_wrt (\<lambda>u t. gap \<le> t - u) (map snd (filter (\<lambda>e. fst e = key) (admitted
      (\<lambda>s (from, origin, target) now. should_forward_for_origin s from origin target now) (forward_with_interval gap start) evs))) \<and>
    length (fl_last_forwarded (run (\<lambda>s (k, t). fst (decision_for_origin_at s k t)) (forward_with_interval gap start) checks)) \<le> 4096 \<and>
    length (fl_ingress_buckets (run (\<lambda>s (k, t). fst (decision_for_origin_at s k t)) (forward_with_interval gap start) checks)) \<le> 4096"
proof -
  let ?s = "run (\<lambda>s (k, t). fst (decision_for_origin_at s k t)) (forward_with_interval gap start) checks"
  have inv: "fl_inv gap (forward_with_interval gap start)"
    using assms(2) by (simp add: fl_inv_def forward_with_interval_def)
  have "fl_inv gap ?s"
    using forward_limit.limiter_run.run_inv [OF inv, of checks] by (simp add: should_forward_for_origin_def case_prod_unfold)
  then show ?thesis using forward_limit.admitted_spaced [OF inv assms(1)]
    by (simp add: fl_inv_def FORWARD_MAX_TARGETS_def FORWARD_MAX_INGRESS_PEERS_def case_prod_unfold)
qed

theorem forwarded_lookups_spaced_witness:
  "sorted_wrt (\<lambda>u t. from_secs 2 \<le> t - u) (map snd (filter (\<lambda>e. fst e = (NodeAddr 1, NodeAddr 2, NodeAddr 3)) (admitted
      (\<lambda>s (from, origin, target) now. should_forward_for_origin s from origin target now) (forward_with_interval (from_secs 2) 0)
      [((NodeAddr 1, NodeAddr 2, NodeAddr 3), 5), ((NodeAddr 1, NodeAddr 2, NodeAddr 3), 9)])))"
  using forwarded_lookups_spaced [of "[((NodeAddr 1, NodeAddr 2, NodeAddr 3), 5), ((NodeAddr 1, NodeAddr 2, NodeAddr 3), 9)]"
      "from_secs 2" "(NodeAddr 1, NodeAddr 2, NodeAddr 3)" 0 "[]"]
  by (simp add: from_secs_def FORWARD_MAX_AGE_def)

end
