(* ===== verification/Lookup_State.thy ===== *)
theory Lookup_State
  imports Identity Hash_Map
begin

text \<open>
  The transit state of discovery: the table of recent lookup requests with its per-peer arrival queues
  (\<^verbatim>\<open>proto/lookup_state.rs\<close>), and the choice of the peers a lookup is sent to
  (\<^verbatim>\<open>proto/lookup.rs\<close>). Indexing the table with a missing identifier panics in the source: the
  scan of a queue returns \<open>None\<close> then, and the operations that scan return an outcome.
\<close>

section \<open>Recent requests\<close>

record recent_request =
  rq_admission_generation :: u64
  rq_from_peer :: node_addr
  rq_target :: node_addr
  rq_timestamp_ms :: u64
  rq_response_forwarded :: bool
  rq_protected :: bool

definition recent_request_new :: "node_addr \<Rightarrow> node_addr \<Rightarrow> u64 \<Rightarrow> recent_request" where
  "recent_request_new from_peer target timestamp = \<lparr> rq_admission_generation = 0, rq_from_peer = from_peer,
     rq_target = target, rq_timestamp_ms = timestamp, rq_response_forwarded = False, rq_protected = False \<rparr>"

definition request_is_expired :: "recent_request \<Rightarrow> u64 \<Rightarrow> u64 \<Rightarrow> bool" where
  "request_is_expired r now expiry \<longleftrightarrow> expiry < saturating_sub now (rq_timestamp_ms r)"

record admission =
  ad_accepted :: bool
  ad_deduplicated :: bool
  ad_evicted :: bool

record request_limits =
  rl_max_entries :: nat
  rl_peer_count :: nat

datatype response_forward = Missing | AlreadyForwarded | ForwardTo node_addr

record recent_requests =
  rr_entries :: "(u64, recent_request) hmap"
  rr_oldest_timestamp_ms :: "u64 option"
  rr_last_admission_generation :: u64
  rr_by_peer :: "(node_addr, u64 list) hmap"

definition recent_requests_default :: recent_requests where
  "recent_requests_default = \<lparr> rr_entries = [], rr_oldest_timestamp_ms = None, rr_last_admission_generation = 0, rr_by_peer = [] \<rparr>"

text \<open>\<open>position(|id| !entries[id].protected)\<close> over a queue: \<open>None\<close> when an identifier is missing.\<close>

fun first_unprotected :: "(u64, recent_request) hmap \<Rightarrow> u64 list \<Rightarrow> u64 option option" where
  "first_unprotected m [] = Some None"
| "first_unprotected m (rid # ids) = (case map_of m rid of None \<Rightarrow> None
     | Some r \<Rightarrow> if rq_protected r then first_unprotected m ids else Some (Some rid))"

definition evict_oldest :: "recent_requests \<Rightarrow> node_addr \<Rightarrow> recent_requests \<times> (unit, bool) outcome" where
  "evict_oldest s peer = (case map_of (rr_by_peer s) peer of
     None \<Rightarrow> (s, Ok False)
   | Some ids \<Rightarrow> (case first_unprotected (rr_entries s) ids of
       None \<Rightarrow> (s, Panic)
     | Some None \<Rightarrow> (s, Ok False)
     | Some (Some rid) \<Rightarrow>
        (let ids = remove1 rid ids;
             by_peer = (if ids = [] then hm_remove peer (rr_by_peer s) else hm_insert peer ids (rr_by_peer s)) in
         (s\<lparr> rr_by_peer := by_peer, rr_entries := hm_remove rid (rr_entries s) \<rparr>, Ok (hm_contains (rr_entries s) rid)))))"

definition note_timestamp :: "recent_requests \<Rightarrow> u64 \<Rightarrow> recent_requests" where
  "note_timestamp s t = s\<lparr> rr_oldest_timestamp_ms := Some (case rr_oldest_timestamp_ms s of None \<Rightarrow> t | Some old \<Rightarrow> min old t) \<rparr>"

text \<open>The peer that pays for an admission: the sender over its share, or the busiest peer with a request
  that is not protected.\<close>

definition busiest_peer :: "recent_requests \<Rightarrow> (unit, node_addr option) outcome" where
  "busiest_peer s =
    (if list_ex (\<lambda>(_, ids). first_unprotected (rr_entries s) ids = None) (rr_by_peer s) then Panic
     else Ok (map_option fst (max_by_key (\<lambda>(_, ids). length ids)
       (filter (\<lambda>(_, ids). first_unprotected (rr_entries s) ids \<noteq> Some None) (rr_by_peer s)))))"

definition over_share :: "recent_requests \<Rightarrow> node_addr \<Rightarrow> request_limits \<Rightarrow> bool" where
  "over_share s from limits =
    (case map_of (rr_by_peer s) from of None \<Rightarrow> False
     | Some ids \<Rightarrow> max (rl_max_entries limits div max (rl_peer_count limits) 1) 1 \<le> length ids)"

definition make_room ::
  "recent_requests \<Rightarrow> node_addr \<Rightarrow> request_limits \<Rightarrow> recent_requests \<times> (unit, bool) outcome" where
  "make_room s from limits =
    (if over_share s from limits then evict_oldest s from
     else if rl_max_entries limits \<le> length (rr_entries s) then
       (case busiest_peer s of Ok (Some peer) \<Rightarrow> evict_oldest s peer | Ok None \<Rightarrow> (s, Ok False) | Err e \<Rightarrow> (s, Err e) | Panic \<Rightarrow> (s, Panic))
     else (s, Ok False))"

definition admit_request :: "recent_requests \<Rightarrow> u64 \<Rightarrow> node_addr \<Rightarrow> node_addr \<Rightarrow> u64 \<Rightarrow> recent_requests" where
  "admit_request s rid from target now =
    (let generation = rr_last_admission_generation s + 1;
         r = (recent_request_new from target now)\<lparr> rq_admission_generation := generation \<rparr>;
         s = note_timestamp (s\<lparr> rr_last_admission_generation := generation, rr_entries := hm_insert rid r (rr_entries s) \<rparr>) now;
         ids = (case map_of (rr_by_peer s) from of None \<Rightarrow> [] | Some ids \<Rightarrow> ids) in
     s\<lparr> rr_by_peer := hm_insert from (ids @ [rid]) (rr_by_peer s) \<rparr>)"

definition refused :: "bool \<Rightarrow> admission" where
  "refused dup = \<lparr> ad_accepted = False, ad_deduplicated = dup, ad_evicted = False \<rparr>"

definition record_request :: "recent_requests \<Rightarrow> u64 \<Rightarrow> node_addr \<Rightarrow> node_addr \<Rightarrow> u64 \<Rightarrow> request_limits \<Rightarrow>
    recent_requests \<times> (unit, admission) outcome" where
  "record_request s rid from target now limits =
    (if hm_contains (rr_entries s) rid then (s, Ok (refused True))
     else if rl_max_entries limits = 0 then (s, Ok (refused False))
     else if rr_last_admission_generation s = - 1 then (s, Ok (refused False))
     else let needs_room = (over_share s from limits \<or> rl_max_entries limits \<le> length (rr_entries s)) in
       (case make_room s from limits of
          (s, Ok evicted) \<Rightarrow>
            (if needs_room \<and> \<not> evicted then (s, Ok (refused False))
             else (admit_request s rid from target now, Ok \<lparr> ad_accepted = True, ad_deduplicated = False, ad_evicted = evicted \<rparr>))
        | (s, Err e) \<Rightarrow> (s, Err e)
        | (s, Panic) \<Rightarrow> (s, Panic)))"

definition protect :: "recent_requests \<Rightarrow> u64 \<Rightarrow> recent_requests" where
  "protect s rid = (case map_of (rr_entries s) rid of
     Some r \<Rightarrow> if rq_response_forwarded r then s
       else s\<lparr> rr_entries := hm_insert rid (r\<lparr> rq_protected := True \<rparr>) (rr_entries s) \<rparr>
   | None \<Rightarrow> s)"

definition claim_response_forward :: "recent_requests \<Rightarrow> u64 \<Rightarrow> node_addr \<Rightarrow> recent_requests \<times> response_forward" where
  "claim_response_forward s rid target = (case map_of (rr_entries s) rid of
     None \<Rightarrow> (s, Missing)
   | Some r \<Rightarrow>
       if rq_target r \<noteq> target then (s, Missing)
       else if rq_response_forwarded r then (s, AlreadyForwarded)
       else (s\<lparr> rr_entries := hm_insert rid (r\<lparr> rq_response_forwarded := True, rq_protected := False \<rparr>) (rr_entries s) \<rparr>,
             ForwardTo (rq_from_peer r)))"

definition remove_request :: "recent_requests \<Rightarrow> u64 \<Rightarrow> recent_requests \<times> recent_request option" where
  "remove_request s rid = (case map_of (rr_entries s) rid of
     None \<Rightarrow> (s, None)
   | Some r \<Rightarrow>
      (let by_peer = (case map_of (rr_by_peer s) (rq_from_peer r) of
           None \<Rightarrow> rr_by_peer s
         | Some ids \<Rightarrow>
            (let ids = filter (\<lambda>i. i \<noteq> rid) ids in
             if ids = [] then hm_remove (rq_from_peer r) (rr_by_peer s) else hm_insert (rq_from_peer r) ids (rr_by_peer s))) in
       (s\<lparr> rr_entries := hm_remove rid (rr_entries s), rr_by_peer := by_peer \<rparr>, Some r)))"

definition purge_expired :: "recent_requests \<Rightarrow> u64 \<Rightarrow> u64 \<Rightarrow> recent_requests" where
  "purge_expired s now expiry =
    (if (case rr_oldest_timestamp_ms s of None \<Rightarrow> True | Some old \<Rightarrow> saturating_sub now old \<le> expiry) then s
     else let kept = hm_retain (\<lambda>_ r. \<not> request_is_expired r now expiry) (rr_entries s);
              oldest = fold (\<lambda>(_, r) acc. Some (case acc of None \<Rightarrow> rq_timestamp_ms r | Some v \<Rightarrow> min v (rq_timestamp_ms r))) kept None;
              s' = s\<lparr> rr_entries := kept, rr_oldest_timestamp_ms := oldest \<rparr> in
       if length kept = length (rr_entries s) then s'
       else s'\<lparr> rr_by_peer := filter (\<lambda>(_, ids). ids \<noteq> []) (map (\<lambda>(p, ids). (p, filter (hm_contains kept) ids)) (rr_by_peer s)) \<rparr>)"

section \<open>Choice of peers\<close>

datatype routing_mode = Tree | ReplyLearned

record peer_candidate =
  pc_addr :: node_addr
  pc_can_send :: bool
  pc_is_healthy :: bool
  pc_is_tree_peer :: bool
  pc_may_reach_target :: bool
  pc_fallback_allowed :: bool
  pc_configured_fallback_transit :: bool

record peer_plan =
  pp_peers :: "node_addr list"
  pp_tree_match_count :: nat
  pp_used_fallback :: bool

definition forward_matches :: "node_addr \<Rightarrow> node_addr \<Rightarrow> routing_mode \<Rightarrow> peer_candidate list \<Rightarrow> node_addr list" where
  "forward_matches from target mode candidates =
     map pc_addr (filter (\<lambda>c. pc_addr c \<noteq> from \<and> pc_is_tree_peer c \<and> pc_can_send c \<and> pc_may_reach_target c \<and>
       (mode \<noteq> ReplyLearned \<or> pc_addr c \<noteq> target \<or> pc_is_healthy c)) candidates)"

definition forward_fallback ::
  "node_addr \<Rightarrow> node_addr \<Rightarrow> node_addr \<Rightarrow> node_addr list \<Rightarrow> peer_candidate list \<Rightarrow> nat \<Rightarrow> node_addr list" where
  "forward_fallback from origin target tree candidates extra_budget =
    (let fallback = filter (\<lambda>c. pc_addr c \<notin> set tree) (filter (\<lambda>c. pc_addr c \<noteq> from \<and> pc_addr c \<noteq> origin \<and>
       pc_can_send c \<and> (pc_addr c \<noteq> target \<or> pc_is_healthy c) \<and> pc_fallback_allowed c) candidates) in
     take (extra_budget - length tree) (map pc_addr (sort_key (\<lambda>c. \<not> pc_configured_fallback_transit c) fallback)))"

definition plan_forward_peers ::
  "node_addr \<Rightarrow> node_addr \<Rightarrow> node_addr \<Rightarrow> routing_mode \<Rightarrow> bool \<Rightarrow> peer_candidate list \<Rightarrow> nat \<Rightarrow> peer_plan" where
  "plan_forward_peers from origin target mode fallback_enabled candidates extra_budget =
    (let tree = forward_matches from target mode candidates;
         peers =
          (if mode = ReplyLearned \<and> fallback_enabled then tree @ forward_fallback from origin target tree candidates extra_budget
           else if tree = [] then
             map pc_addr (filter (\<lambda>c. pc_addr c \<noteq> from \<and> \<not> pc_is_tree_peer c \<and> pc_can_send c \<and> pc_may_reach_target c) candidates)
           else tree) in
     \<lparr> pp_peers = peers, pp_tree_match_count = length tree,
       pp_used_fallback = (peers \<noteq> [] \<and> (mode = ReplyLearned \<and> length tree < length peers \<or> mode \<noteq> ReplyLearned \<and> tree = [])) \<rparr>)"

definition plan_initiate_peers :: "routing_mode \<Rightarrow> bool \<Rightarrow> peer_candidate list \<Rightarrow> nat \<Rightarrow> peer_plan" where
  "plan_initiate_peers mode fallback_enabled candidates extra_budget =
    (let tree = map pc_addr (filter (\<lambda>c. pc_is_tree_peer c \<and> pc_can_send c \<and> pc_may_reach_target c) candidates);
         peers =
          (if mode = ReplyLearned \<and> fallback_enabled then
             (let fallback = filter (\<lambda>c. pc_addr c \<notin> set tree) (filter (\<lambda>c. pc_can_send c \<and> pc_fallback_allowed c) candidates) in
              tree @ take (extra_budget - length tree)
                (map pc_addr (sort_key (\<lambda>c. \<not> pc_configured_fallback_transit c) fallback)))
           else tree) in
     \<lparr> pp_peers = peers, pp_tree_match_count = length tree,
       pp_used_fallback = (mode = ReplyLearned \<and> length tree < length peers) \<rparr>)"

section \<open>Consistency of the arrival queues\<close>

definition queue :: "(node_addr, u64 list) hmap \<Rightarrow> node_addr \<Rightarrow> u64 list" where
  "queue bp p = (case map_of bp p of None \<Rightarrow> [] | Some ids \<Rightarrow> ids)"

definition set_queue :: "node_addr \<Rightarrow> u64 list \<Rightarrow> (node_addr, u64 list) hmap \<Rightarrow> (node_addr, u64 list) hmap" where
  "set_queue p ids bp = (if ids = [] then hm_remove p bp else hm_insert p ids bp)"

definition indexed :: "(u64, recent_request) hmap \<Rightarrow> (node_addr, u64 list) hmap \<Rightarrow> bool" where
  "indexed m bp \<longleftrightarrow> hm_inv m \<and> hm_inv bp \<and> (\<forall>p. map_of bp p \<noteq> Some [] \<and> distinct (queue bp p)) \<and>
     (\<forall>p i. i \<in> set (queue bp p) \<longleftrightarrow> (\<exists>r. map_of m i = Some r \<and> rq_from_peer r = p))"

lemma queue_set_queue [simp]: "queue (set_queue p ids bp) p' = (if p' = p then ids else queue bp p')"
  by (simp add: queue_def set_queue_def hm_simps)

lemma hm_inv_set_queue [simp]: "hm_inv bp \<Longrightarrow> hm_inv (set_queue p ids bp)"
  by (simp add: set_queue_def)

lemma set_queue_nonempty: "map_of (set_queue p ids bp) p' \<noteq> Some [] \<longleftrightarrow> p' = p \<or> map_of bp p' \<noteq> Some []"
  by (auto simp: set_queue_def hm_simps)

lemma indexed_remove:
  assumes "indexed m bp" "map_of m i = Some r" "p = rq_from_peer r"
  shows "indexed (hm_remove i m) (set_queue p (filter (\<lambda>j. j \<noteq> i) (queue bp p)) bp)"
  using assms by (auto simp: indexed_def set_queue_nonempty hm_simps)

lemma indexed_insert:
  assumes "indexed m bp" "map_of m i = None" "p = rq_from_peer r"
  shows "indexed (hm_insert i r m) (set_queue p (queue bp p @ [i]) bp)"
  using assms by (auto simp: indexed_def set_queue_nonempty hm_simps)

lemma indexed_update:
  assumes "indexed m bp" "map_of m i = Some r" "rq_from_peer r' = rq_from_peer r"
  shows "indexed (hm_insert i r' m) bp"
  using assms by (auto simp: indexed_def hm_simps)

lemma map_of_filter_map_ids:
  assumes "hm_inv bp"
  shows "map_of (filter (\<lambda>(_, ids). ids \<noteq> []) (map (\<lambda>(p, ids). (p, filter P ids)) bp)) p =
    (case map_of bp p of None \<Rightarrow> None | Some ids \<Rightarrow> if filter P ids = [] then None else Some (filter P ids))"
proof -
  have "map_of (map (\<lambda>(p, ids). (p, filter P ids)) bp) p = map_option (filter P) (map_of bp p)"
    by (induction bp) auto
  moreover have "distinct (map fst (map (\<lambda>(p, ids). (p, filter P ids)) bp))"
    using assms by (simp add: hm_inv_def comp_def case_prod_unfold)
  ultimately show ?thesis
    using map_of_filter_key [of "map (\<lambda>(p, ids). (p, filter P ids)) bp" "\<lambda>_ ids. ids \<noteq> []" p]
    by (simp add: case_prod_unfold split: option.splits)
qed

lemma indexed_retain:
  assumes "indexed m bp"
  shows "indexed (hm_retain P m) (filter (\<lambda>(_, ids). ids \<noteq> []) (map (\<lambda>(p, ids). (p, filter (hm_contains (hm_retain P m)) ids)) bp))"
    (is "indexed ?m ?bp")
proof -
  have bp: "hm_inv bp" "hm_inv m" using assms by (simp_all add: indexed_def)
  have q: "queue ?bp p = filter (hm_contains ?m) (queue bp p)" for p
    by (simp add: queue_def map_of_filter_map_ids [OF bp(1)] split: option.split)
  have "hm_inv ?bp"
    using bp(1) by (auto simp: hm_inv_def comp_def case_prod_unfold distinct_map_filter)
  moreover have "map_of ?bp p \<noteq> Some []" for p
    by (simp add: map_of_filter_map_ids [OF bp(1)] split: option.split)
  ultimately show ?thesis
    using assms unfolding indexed_def q
    by (auto simp: hm_contains_def hm_simps bp split: option.splits if_splits)
qed

lemma first_unprotected_cases:
  assumes "\<forall>i \<in> set ids. map_of m i \<noteq> None"
  shows "first_unprotected m ids = Some None \<and> (\<forall>i \<in> set ids. \<exists>r. map_of m i = Some r \<and> rq_protected r) \<or>
    (\<exists>i r. first_unprotected m ids = Some (Some i) \<and> i \<in> set ids \<and> map_of m i = Some r \<and> \<not> rq_protected r)"
  using assms
proof (induction ids)
  case (Cons j ids)
  obtain r where r: "map_of m j = Some r" using Cons.prems by auto
  show ?case using Cons.IH Cons.prems r by (cases "rq_protected r") auto
qed simp

text \<open>An eviction removes one request that is not protected, or does nothing and says so.\<close>

definition evicted_one :: "recent_requests \<Rightarrow> recent_requests \<Rightarrow> bool" where
  "evicted_one s s' \<longleftrightarrow> (\<exists>i r p. map_of (rr_entries s) i = Some r \<and> p = rq_from_peer r \<and> \<not> rq_protected r \<and>
     s' = s\<lparr> rr_by_peer := set_queue p (filter (\<lambda>j. j \<noteq> i) (queue (rr_by_peer s) p)) (rr_by_peer s),
            rr_entries := hm_remove i (rr_entries s) \<rparr>)"

lemma evict_oldest_cases:
  assumes "indexed (rr_entries s) (rr_by_peer s)"
  shows "evict_oldest s p = (s, Ok False) \<or> (\<exists>s'. evict_oldest s p = (s', Ok True) \<and> evicted_one s s')"
proof (cases "map_of (rr_by_peer s) p")
  case (Some ids)
  have q: "queue (rr_by_peer s) p = ids" using Some by (simp add: queue_def)
  have ids: "\<exists>r. map_of (rr_entries s) i = Some r \<and> rq_from_peer r = p" if "i \<in> set ids" for i
    using that assms q by (auto simp: indexed_def)
  have "distinct ids" using assms q unfolding indexed_def by metis
  then have r1: "remove1 i ids = filter (\<lambda>j. j \<noteq> i) ids" for i by (simp add: distinct_remove1_removeAll removeAll_filter_not_eq neq_commute)
  have "\<forall>i \<in> set ids. map_of (rr_entries s) i \<noteq> None" using ids by auto
  from first_unprotected_cases [OF this] show ?thesis
  proof (elim disjE exE conjE)
    fix i r assume i: "first_unprotected (rr_entries s) ids = Some (Some i)" "i \<in> set ids"
      "map_of (rr_entries s) i = Some r" "\<not> rq_protected r"
    then have "rq_from_peer r = p" using ids by fastforce
    let ?s = "s\<lparr> rr_by_peer := set_queue p (filter (\<lambda>j. j \<noteq> i) (queue (rr_by_peer s) p)) (rr_by_peer s),
      rr_entries := hm_remove i (rr_entries s) \<rparr>"
    have "evict_oldest s p = (?s, Ok True)"
      using i Some by (simp add: evict_oldest_def q r1 set_queue_def Let_def hm_contains_def)
    moreover have "evicted_one s ?s"
      unfolding evicted_one_def using i(3,4) \<open>rq_from_peer r = p\<close> by blast
    ultimately show ?thesis by blast
  qed (use Some in \<open>simp_all add: evict_oldest_def\<close>)
qed (simp add: evict_oldest_def)

lemma queue_known:
  assumes "indexed m bp" "(p, ids) \<in> set bp"
  shows "first_unprotected m ids \<noteq> None"
proof -
  have "map_of bp p = Some ids" using assms by (simp add: indexed_def hm_mem_iff)
  then have q: "queue bp p = ids" by (simp add: queue_def)
  have "\<exists>r. map_of m i = Some r \<and> rq_from_peer r = p" if "i \<in> set ids" for i
    using that assms(1) q unfolding indexed_def by blast
  then have "\<forall>i \<in> set ids. map_of m i \<noteq> None" by auto
  from first_unprotected_cases [OF this] show ?thesis by auto
qed

lemma make_room_cases:
  assumes "indexed (rr_entries s) (rr_by_peer s)"
  shows "make_room s from limits = (s, Ok False) \<or> (\<exists>s'. make_room s from limits = (s', Ok True) \<and> evicted_one s s')"
proof -
  have "\<not> list_ex (\<lambda>(_, ids). first_unprotected (rr_entries s) ids = None) (rr_by_peer s)"
    using queue_known [OF assms] by (auto simp: list_ex_iff)
  then have "\<exists>x. busiest_peer s = Ok x" unfolding busiest_peer_def by simp
  then obtain x where x: "busiest_peer s = Ok x" by blast
  show ?thesis
    using evict_oldest_cases [OF assms, of "from"] evict_oldest_cases [OF assms, of "the x"] x
    by (cases x) (simp_all add: make_room_def)
qed

lemma record_request_cases:
  assumes "indexed (rr_entries s) (rr_by_peer s)"
  obtains (refuse) a where "record_request s rid from target now limits = (s, Ok a)" "\<not> ad_accepted a"
  | (admit) s' a where "record_request s rid from target now limits = (admit_request s' rid from target now, Ok a)"
      "evicted_one s s' \<or> s' = s \<and> length (rr_entries s) < rl_max_entries limits"
      "map_of (rr_entries s) rid = None" "rr_last_admission_generation s \<noteq> - 1"
proof (cases "hm_contains (rr_entries s) rid \<or> rl_max_entries limits = 0 \<or> rr_last_admission_generation s = - 1")
  case True
  then have "\<exists>b. record_request s rid from target now limits = (s, Ok (refused b))"
    unfolding record_request_def by auto
  then show ?thesis using refuse by (auto simp: refused_def)
next
  case False
  then have new: "map_of (rr_entries s) rid = None" "rr_last_admission_generation s \<noteq> - 1" by (simp_all add: hm_contains_def)
  consider "make_room s from limits = (s, Ok False)" | s' where "make_room s from limits = (s', Ok True)" "evicted_one s s'"
    using make_room_cases [OF assms, of "from" limits] by blast
  then show ?thesis
  proof cases
    case 1
    show ?thesis
    proof (cases "over_share s from limits \<or> rl_max_entries limits \<le> length (rr_entries s)")
      case True
      then show ?thesis using 1 False refuse [of "refused False"] by (simp add: record_request_def refused_def)
    next
      case below: False
      then show ?thesis using 1 False new admit [of s] by (simp add: record_request_def)
    qed
  next
    case 2
    then show ?thesis using False new admit [of s'] by (simp add: record_request_def)
  qed
qed

section \<open>Invariant of the table\<close>

text \<open>How a table may change between two admissions: requests go away, and a request that stays keeps its
  generation, its time and its forwarded mark.\<close>

definition shrinks :: "(u64, recent_request) hmap \<Rightarrow> (u64, recent_request) hmap \<Rightarrow> bool" where
  "shrinks m m' \<longleftrightarrow> (\<forall>i r'. map_of m' i = Some r' \<longrightarrow> (\<exists>r. map_of m i = Some r \<and>
     rq_admission_generation r' = rq_admission_generation r \<and> rq_timestamp_ms r' = rq_timestamp_ms r \<and>
     (rq_response_forwarded r \<longrightarrow> rq_response_forwarded r')))"

definition stamped :: "(u64, recent_request) hmap \<Rightarrow> u64 option \<Rightarrow> bool" where
  "stamped m oldest \<longleftrightarrow> (\<forall>i r. map_of m i = Some r \<longrightarrow> (\<exists>t. oldest = Some t \<and> t \<le> rq_timestamp_ms r))"

definition numbered :: "(u64, recent_request) hmap \<Rightarrow> u64 \<Rightarrow> bool" where
  "numbered m g \<longleftrightarrow> (\<forall>i r. map_of m i = Some r \<longrightarrow> rq_admission_generation r \<le> g) \<and>
     (\<forall>i r j r'. map_of m i = Some r \<longrightarrow> map_of m j = Some r' \<longrightarrow>
        rq_admission_generation r = rq_admission_generation r' \<longrightarrow> i = j)"

definition rr_inv :: "recent_requests \<Rightarrow> bool" where
  "rr_inv s \<longleftrightarrow> indexed (rr_entries s) (rr_by_peer s) \<and> stamped (rr_entries s) (rr_oldest_timestamp_ms s) \<and>
     numbered (rr_entries s) (rr_last_admission_generation s)"

lemma shrinks_refl [simp]: "shrinks m m"
  by (simp add: shrinks_def)

lemma shrinks_remove [simp]: "shrinks m (hm_remove i m)"
  by (simp add: shrinks_def hm_simps)

lemma shrinks_retain: "hm_inv m \<Longrightarrow> shrinks m (hm_retain P m)"
  by (simp add: shrinks_def hm_simps split: option.split)

lemma shrinks_update:
  assumes "map_of m i = Some r" "rq_admission_generation r' = rq_admission_generation r" "rq_timestamp_ms r' = rq_timestamp_ms r"
    and "rq_response_forwarded r \<longrightarrow> rq_response_forwarded r'"
  shows "shrinks m (hm_insert i r' m)"
  using assms by (auto simp: shrinks_def hm_simps)

lemma shrinks_keeps:
  assumes "shrinks m m'"
  shows "stamped m t \<Longrightarrow> stamped m' t" and "numbered m g \<Longrightarrow> numbered m' g"
  using assms unfolding shrinks_def stamped_def numbered_def by (metis, metis)

lemma indexed_evicted: "indexed (rr_entries s) (rr_by_peer s) \<Longrightarrow> evicted_one s s' \<Longrightarrow> indexed (rr_entries s') (rr_by_peer s')"
  by (auto simp: evicted_one_def intro!: indexed_remove)

lemma rr_inv_evicted: "rr_inv s \<Longrightarrow> evicted_one s s' \<Longrightarrow> rr_inv s'"
  using indexed_evicted [of s s'] shrinks_keeps [OF shrinks_remove, of "rr_entries s"]
  by (auto simp: rr_inv_def evicted_one_def)

lemma rr_inv_admit:
  assumes "rr_inv s" "map_of (rr_entries s) rid = None" "rr_last_admission_generation s \<noteq> - 1"
  shows "rr_inv (admit_request s rid from target now)"
proof -
  let ?r = "(recent_request_new from target now)\<lparr> rq_admission_generation := rr_last_admission_generation s + 1 \<rparr>"
  let ?m = "hm_insert rid ?r (rr_entries s)"
  let ?t = "Some (case rr_oldest_timestamp_ms s of None \<Rightarrow> now | Some old \<Rightarrow> min old now)"
  have gen: "g < rr_last_admission_generation s + 1" if "g \<le> rr_last_admission_generation s" for g
    using that assms(3) by (simp add: word_less_nat_alt word_le_nat_alt unat_plus_one)
  have "admit_request s rid from target now = s\<lparr> rr_last_admission_generation := rr_last_admission_generation s + 1,
      rr_entries := ?m, rr_oldest_timestamp_ms := ?t,
      rr_by_peer := set_queue from (queue (rr_by_peer s) from @ [rid]) (rr_by_peer s) \<rparr>"
    by (simp add: admit_request_def note_timestamp_def queue_def set_queue_def Let_def)
  moreover have "indexed ?m (set_queue from (queue (rr_by_peer s) from @ [rid]) (rr_by_peer s))"
    using assms(1,2) by (intro indexed_insert) (simp_all add: rr_inv_def recent_request_new_def)
  moreover have "stamped ?m ?t"
    using assms(1) by (auto simp: rr_inv_def stamped_def hm_simps recent_request_new_def min_def split: option.split)
      (use order_trans in fastforce)+
  moreover have "numbered ?m (rr_last_admission_generation s + 1)"
    using assms(1) gen unfolding rr_inv_def numbered_def
    by (auto simp: hm_simps less_imp_le) (use less_irrefl in fastforce)+
  ultimately show ?thesis by (simp add: rr_inv_def)
qed

lemma filter_same_length: "length (filter P xs) = length xs \<Longrightarrow> filter P xs = xs"
  by (metis filter_id_conv length_filter_less nat_neq_iff)

lemma fold_oldest:
  assumes "fold (\<lambda>(_, r) acc. Some (case acc of None \<Rightarrow> rq_timestamp_ms r | Some v \<Rightarrow> min v (rq_timestamp_ms r))) xs acc = res"
  shows "\<forall>e \<in> set xs. \<exists>t. res = Some t \<and> t \<le> rq_timestamp_ms (snd e)"
    and "\<forall>v. acc = Some v \<longrightarrow> (\<exists>t. res = Some t \<and> t \<le> v)"
  using assms by (induction xs arbitrary: acc) (auto split: option.splits, fastforce+)

text \<open>The lower bound on the timestamps lets a purge return early without ever missing an expired request.\<close>

lemma purge_entries:
  assumes "rr_inv s"
  shows "rr_entries (purge_expired s now expiry) = hm_retain (\<lambda>_ r. \<not> request_is_expired r now expiry) (rr_entries s)"
proof (cases "case rr_oldest_timestamp_ms s of None \<Rightarrow> True | Some old \<Rightarrow> saturating_sub now old \<le> expiry")
  case True
  have "\<not> request_is_expired r now expiry" if r: "(i, r) \<in> set (rr_entries s)" for i r
  proof -
    obtain t where t: "rr_oldest_timestamp_ms s = Some t" "t \<le> rq_timestamp_ms r"
      using r assms hm_mem_iff [of "rr_entries s" i r] unfolding rr_inv_def stamped_def indexed_def by blast
    then show ?thesis
      using True by (auto simp: request_is_expired_def word_less_nat_alt word_le_nat_alt word_nat_simps)
  qed
  then have "filter (\<lambda>e. \<not> request_is_expired (snd e) now expiry) (rr_entries s) = rr_entries s"
    by (intro filter_True) auto
  then show ?thesis using True by (simp add: purge_expired_def hm_retain_def)
qed (simp add: purge_expired_def Let_def)

lemma rr_inv_purge:
  assumes "rr_inv s"
  shows "rr_inv (purge_expired s now expiry)"
proof (cases "case rr_oldest_timestamp_ms s of None \<Rightarrow> True | Some old \<Rightarrow> saturating_sub now old \<le> expiry")
  case False
  let ?k = "hm_retain (\<lambda>_ r. \<not> request_is_expired r now expiry) (rr_entries s)"
  let ?o = "fold (\<lambda>(_, r) acc. Some (case acc of None \<Rightarrow> rq_timestamp_ms r | Some v \<Rightarrow> min v (rq_timestamp_ms r))) ?k None"
  let ?b = "filter (\<lambda>(_, ids). ids \<noteq> []) (map (\<lambda>(p, ids). (p, filter (hm_contains ?k) ids)) (rr_by_peer s))"
  have m: "hm_inv (rr_entries s)" "indexed (rr_entries s) (rr_by_peer s)" using assms by (simp_all add: rr_inv_def indexed_def)
  have "indexed ?k ?b" by (rule indexed_retain [OF m(2)])
  moreover have "indexed ?k (rr_by_peer s)" if "length ?k = length (rr_entries s)"
    using that m(2) filter_same_length unfolding hm_retain_def by fastforce
  moreover have "stamped ?k ?o"
    using fold_oldest(1) [OF refl, of ?k None] m(1) by (auto simp: stamped_def dest!: map_of_SomeD)
  moreover have "numbered ?k (rr_last_admission_generation s)"
    using assms shrinks_keeps(2) [OF shrinks_retain [OF m(1)]] by (simp add: rr_inv_def)
  ultimately show ?thesis using False by (simp add: purge_expired_def rr_inv_def Let_def)
qed (use assms in \<open>simp add: purge_expired_def\<close>)

section \<open>The table as a machine\<close>

datatype rr_op = RecordOp u64 node_addr node_addr u64 request_limits | ProtectOp u64 | ClaimOp u64 node_addr
  | RemoveOp u64 | PurgeOp u64 u64

fun rr_step :: "recent_requests \<Rightarrow> rr_op \<Rightarrow> recent_requests" where
  "rr_step s (RecordOp rid from target now limits) = fst (record_request s rid from target now limits)"
| "rr_step s (ProtectOp rid) = protect s rid"
| "rr_step s (ClaimOp rid target) = fst (claim_response_forward s rid target)"
| "rr_step s (RemoveOp rid) = fst (remove_request s rid)"
| "rr_step s (PurgeOp now expiry) = purge_expired s now expiry"

lemma rr_inv_update:
  assumes "rr_inv s" "map_of (rr_entries s) i = Some r" "rq_from_peer r' = rq_from_peer r"
    "rq_admission_generation r' = rq_admission_generation r" "rq_timestamp_ms r' = rq_timestamp_ms r"
    and "rq_response_forwarded r \<longrightarrow> rq_response_forwarded r'"
  shows "rr_inv (s\<lparr> rr_entries := hm_insert i r' (rr_entries s) \<rparr>)"
  using assms indexed_update shrinks_keeps [OF shrinks_update [OF assms(2,4,5,6)]] by (auto simp: rr_inv_def)

lemma remove_request_eq:
  assumes "rr_inv s" "map_of (rr_entries s) i = Some r"
  shows "fst (remove_request s i) = s\<lparr> rr_entries := hm_remove i (rr_entries s),
    rr_by_peer := set_queue (rq_from_peer r) (filter (\<lambda>j. j \<noteq> i) (queue (rr_by_peer s) (rq_from_peer r))) (rr_by_peer s) \<rparr>"
proof -
  have "i \<in> set (queue (rr_by_peer s) (rq_from_peer r))"
    using assms by (auto simp: rr_inv_def indexed_def)
  then obtain ids where "map_of (rr_by_peer s) (rq_from_peer r) = Some ids"
    by (cases "map_of (rr_by_peer s) (rq_from_peer r)") (simp_all add: queue_def)
  then show ?thesis using assms(2) by (simp add: remove_request_def queue_def set_queue_def Let_def)
qed

interpretation recent_machine: invariant_machine rr_inv rr_step
proof
  fix s op assume inv: "rr_inv s"
  show "rr_inv (rr_step s op)"
  proof (cases op)
    case (RecordOp rid p target now limits)
    have "indexed (rr_entries s) (rr_by_peer s)" using inv by (simp add: rr_inv_def)
    then show ?thesis
    proof (cases rule: record_request_cases [of s rid p target now limits, consumes 1])
      case (admit s' a)
      have "rr_inv s'" "map_of (rr_entries s') rid = None" "rr_last_admission_generation s' \<noteq> - 1"
        using admit(2-4) inv rr_inv_evicted by (auto simp: evicted_one_def hm_simps)
      then show ?thesis using RecordOp admit(1) rr_inv_admit by simp
    qed (use RecordOp inv in simp)
  next
    case (ProtectOp rid)
    then show ?thesis using inv by (auto simp: protect_def split: option.split intro!: rr_inv_update)
  next
    case (ClaimOp rid target)
    then show ?thesis using inv by (auto simp: claim_response_forward_def split: option.split intro!: rr_inv_update)
  next
    case (RemoveOp rid)
    show ?thesis
    proof (cases "map_of (rr_entries s) rid")
      case None
      then show ?thesis using RemoveOp inv by (simp add: remove_request_def)
    next
      case (Some r)
      then show ?thesis using RemoveOp inv remove_request_eq [OF inv Some] shrinks_keeps [OF shrinks_remove, of "rr_entries s"]
        by (auto simp: rr_inv_def intro: indexed_remove)
    qed
  qed (use inv rr_inv_purge in simp)
qed

lemma rr_inv_default: "rr_inv recent_requests_default"
  by (simp add: rr_inv_def recent_requests_default_def indexed_def stamped_def numbered_def queue_def)

section \<open>Properties\<close>

text \<open>The generation of the request a claim forwards a response for.\<close>

fun forwarded_now :: "recent_requests \<Rightarrow> rr_op \<Rightarrow> u64 list" where
  "forwarded_now s (ClaimOp rid target) = (case snd (claim_response_forward s rid target) of
     ForwardTo _ \<Rightarrow> (case map_of (rr_entries s) rid of Some r \<Rightarrow> [rq_admission_generation r] | None \<Rightarrow> [])
   | _ \<Rightarrow> [])"
| "forwarded_now s _ = []"

fun forwards :: "recent_requests \<Rightarrow> rr_op list \<Rightarrow> u64 list" where
  "forwards s [] = []"
| "forwards s (op # ops) = forwarded_now s op @ forwards (rr_step s op) ops"

text \<open>The generations already answered are spent: they are behind the counter, and a request that still
  carries one is marked.\<close>

definition spent :: "u64 set \<Rightarrow> recent_requests \<Rightarrow> bool" where
  "spent G s \<longleftrightarrow> (\<forall>g \<in> G. g \<le> rr_last_admission_generation s) \<and>
     (\<forall>i r. map_of (rr_entries s) i = Some r \<longrightarrow> rq_admission_generation r \<in> G \<longrightarrow> rq_response_forwarded r)"

lemma spent_shrinks:
  assumes "spent G s" "shrinks (rr_entries s) (rr_entries s')" "rr_last_admission_generation s' = rr_last_admission_generation s"
  shows "spent G s'"
  using assms unfolding spent_def shrinks_def by metis

lemma spent_admit:
  assumes "spent G s" "rr_last_admission_generation s \<noteq> - 1"
  shows "spent G (admit_request s rid from target now)"
proof -
  have gen: "g < rr_last_admission_generation s + 1" if "g \<le> rr_last_admission_generation s" for g
    using that assms(2) by (simp add: word_less_nat_alt word_le_nat_alt unat_plus_one)
  have "rr_last_admission_generation s + 1 \<notin> G" using assms(1) gen less_irrefl unfolding spent_def by blast
  then show ?thesis
    using assms(1) gen
    by (auto simp: spent_def admit_request_def note_timestamp_def Let_def hm_simps less_imp_le)
qed

lemma spent_step:
  assumes "rr_inv s" "spent G s"
  shows "spent (G \<union> set (forwarded_now s op)) (rr_step s op) \<and> set (forwarded_now s op) \<inter> G = {} \<and> distinct (forwarded_now s op)"
proof (cases op)
  case (RecordOp rid p target now limits)
  have "indexed (rr_entries s) (rr_by_peer s)" using assms by (simp add: rr_inv_def)
  then have "spent G (rr_step s op)"
  proof (cases rule: record_request_cases [of s rid p target now limits, consumes 1])
    case (admit s' a)
    have "spent G s'" "rr_last_admission_generation s' \<noteq> - 1"
      using admit(2,4) assms(2) spent_shrinks [of G s s'] by (auto simp: evicted_one_def)
    then show ?thesis using RecordOp admit(1) spent_admit by simp
  qed (use RecordOp assms in simp)
  then show ?thesis using RecordOp by simp
next
  case (ProtectOp rid)
  have "shrinks (rr_entries s) (rr_entries (protect s rid))"
    by (auto simp: protect_def split: option.split intro!: shrinks_update)
  then show ?thesis using ProtectOp spent_shrinks [OF assms(2)] by (simp add: protect_def split: option.split)
next
  case (ClaimOp rid target)
  show ?thesis
  proof (cases "snd (claim_response_forward s rid target)")
    case (ForwardTo q)
    then obtain r where r: "map_of (rr_entries s) rid = Some r" "\<not> rq_response_forwarded r" "rq_target r = target"
      by (auto simp: claim_response_forward_def split: option.splits if_splits)
    have "numbered (rr_entries s) (rr_last_admission_generation s)" using assms(1) by (simp add: rr_inv_def)
    then show ?thesis
      using assms(2) r ClaimOp ForwardTo unfolding numbered_def spent_def
      by (auto simp: claim_response_forward_def hm_simps split: if_splits)
  qed (use assms ClaimOp in \<open>auto simp: claim_response_forward_def split: option.splits if_splits\<close>)
next
  case (RemoveOp rid)
  have "shrinks (rr_entries s) (rr_entries (fst (remove_request s rid)))"
    by (simp add: remove_request_def Let_def split: option.split)
  then show ?thesis using RemoveOp spent_shrinks [OF assms(2)] by (simp add: remove_request_def Let_def split: option.split)
next
  case (PurgeOp now expiry)
  have "shrinks (rr_entries s) (rr_entries (purge_expired s now expiry))"
    using assms(1) by (simp add: purge_entries shrinks_retain rr_inv_def indexed_def)
  then show ?thesis using PurgeOp spent_shrinks [OF assms(2)] by (simp add: purge_expired_def Let_def)
qed

lemma forwards_distinct: "rr_inv s \<Longrightarrow> spent G s \<Longrightarrow> distinct (forwards s ops) \<and> set (forwards s ops) \<inter> G = {}"
proof (induction ops arbitrary: s G)
  case (Cons op ops)
  have st: "spent (G \<union> set (forwarded_now s op)) (rr_step s op)" "set (forwarded_now s op) \<inter> G = {}" "distinct (forwarded_now s op)"
    using spent_step [OF Cons.prems] by auto
  have "distinct (forwards (rr_step s op) ops) \<and> set (forwards (rr_step s op) ops) \<inter> (G \<union> set (forwarded_now s op)) = {}"
    by (rule Cons.IH [OF recent_machine.step_inv [OF Cons.prems(1)] st(1)])
  then show ?case using st(2,3) by auto
qed simp

text \<open>C16: a response is forwarded back at most once for each admitted request, over every sequence of
  admissions, claims, removals, evictions and purges, and also when a request identifier is used again:
  response loops end.\<close>

theorem responses_forwarded_once: "distinct (forwards recent_requests_default ops)"
  using forwards_distinct [OF rr_inv_default, of "{}" ops] by (simp add: spent_def)

fun capacity :: "rr_op \<Rightarrow> nat" where
  "capacity (RecordOp _ _ _ _ limits) = rl_max_entries limits"
| "capacity _ = 0"

lemma step_length:
  assumes "rr_inv s"
  shows "length (rr_entries (rr_step s op)) \<le> max (length (rr_entries s)) (capacity op)"
proof (cases op)
  case (RecordOp rid p target now limits)
  have m: "indexed (rr_entries s) (rr_by_peer s)" "hm_inv (rr_entries s)" using assms by (simp_all add: rr_inv_def indexed_def)
  from m(1) show ?thesis
  proof (cases rule: record_request_cases [of s rid p target now limits, consumes 1])
    case (admit s' a)
    have "length (rr_entries (admit_request s' rid p target now)) \<le> Suc (length (rr_entries s'))"
      by (simp add: admit_request_def note_timestamp_def Let_def length_hm_insert_le)
    moreover have "Suc (length (rr_entries s')) = length (rr_entries s)" if "evicted_one s s'"
      using that m(2) by (auto simp: evicted_one_def length_hm_remove)
    ultimately show ?thesis using admit(1,2) RecordOp by auto
  qed (use RecordOp in simp)
next
  case (ProtectOp rid)
  then show ?thesis by (simp add: protect_def hm_simps split: option.split)
next
  case (ClaimOp rid target)
  then show ?thesis by (simp add: claim_response_forward_def hm_simps split: option.split)
next
  case (RemoveOp rid)
  then show ?thesis by (simp add: remove_request_def Let_def length_hm_remove_le split: option.split)
next
  case (PurgeOp now expiry)
  then show ?thesis using assms by (simp add: purge_entries length_hm_retain_le)
qed

lemma run_length: "rr_inv s \<Longrightarrow> length (rr_entries (run rr_step s ops)) \<le> max (length (rr_entries s)) (foldr max (map capacity ops) 0)"
proof (induction ops arbitrary: s)
  case (Cons op ops)
  have "length (rr_entries (run rr_step (rr_step s op) ops)) \<le> max (length (rr_entries (rr_step s op))) (foldr max (map capacity ops) 0)"
    by (rule Cons.IH [OF recent_machine.step_inv [OF Cons.prems]])
  then show ?case using step_length [OF Cons.prems, of op] by auto
qed simp

text \<open>The queues partition the table.\<close>

lemma indexed_length:
  assumes "indexed m bp"
  shows "sum_list (map (length \<circ> snd) bp) = length m"
proof -
  have inv: "hm_inv m" "hm_inv bp" using assms by (simp_all add: indexed_def)
  have q: "queue bp (fst e) = snd e" if "e \<in> set bp" for e
  proof -
    have "map_of bp (fst e) = Some (snd e)" using that inv(2) hm_mem_iff [of bp "fst e" "snd e"] by simp
    then show ?thesis by (simp add: queue_def)
  qed
  have own: "set (snd e) = {i. \<exists>r. map_of m i = Some r \<and> rq_from_peer r = fst e}" if "e \<in> set bp" for e
  proof -
    have "\<forall>i. i \<in> set (queue bp (fst e)) \<longleftrightarrow> (\<exists>r. map_of m i = Some r \<and> rq_from_peer r = fst e)"
      using assms by (simp add: indexed_def)
    then show ?thesis using q [OF that] by auto
  qed
  have d: "distinct bp" "distinct (map fst m)" "distinct (map fst bp)" using inv by (simp_all add: hm_inv_def distinct_map)
  have "length m = card (fst ` set m)" using d(2) by (metis distinct_card length_map list.set_map)
  also have "fst ` set m = (\<Union>e \<in> set bp. set (snd e))"
  proof -
    have some: "\<exists>e \<in> set bp. rq_from_peer r = fst e" if "map_of m i = Some r" for i r
    proof -
      have "\<forall>p i. i \<in> set (queue bp p) \<longleftrightarrow> (\<exists>r. map_of m i = Some r \<and> rq_from_peer r = p)"
        using assms by (simp add: indexed_def)
      then have "i \<in> set (queue bp (rq_from_peer r))" using that by auto
      then obtain ids where "(rq_from_peer r, ids) \<in> set bp"
        by (cases "map_of bp (rq_from_peer r)") (auto simp: queue_def dest: map_of_SomeD)
      then show ?thesis by force
    qed
    have dom: "i \<in> fst ` set m \<longleftrightarrow> (\<exists>r. map_of m i = Some r)" for i
      by (metis map_of_eq_None_iff not_Some_eq)
    show ?thesis
    proof (rule set_eqI)
      fix i
      show "i \<in> fst ` set m \<longleftrightarrow> i \<in> (\<Union>e \<in> set bp. set (snd e))"
      proof
        assume "i \<in> fst ` set m"
        then obtain r where r: "map_of m i = Some r" using dom by blast
        then obtain e where "e \<in> set bp" "rq_from_peer r = fst e" using some by blast
        then show "i \<in> (\<Union>e \<in> set bp. set (snd e))" using own [of e] r by blast
      next
        assume "i \<in> (\<Union>e \<in> set bp. set (snd e))"
        then obtain e where "e \<in> set bp" "i \<in> set (snd e)" by blast
        then show "i \<in> fst ` set m" using own [of e] dom [of i] by blast
      qed
    qed
  qed
  also have "card \<dots> = (\<Sum>e \<in> set bp. card (set (snd e)))"
  proof (rule card_UN_disjoint)
    show "\<forall>e \<in> set bp. \<forall>e' \<in> set bp. e \<noteq> e' \<longrightarrow> set (snd e) \<inter> set (snd e') = {}"
      using own d(3) by (auto simp: distinct_map inj_on_def) fastforce
  qed auto
  also have "\<dots> = (\<Sum>e \<in> set bp. length (snd e))"
    using assms q by (intro sum.cong refl) (metis distinct_card indexed_def)
  also have "\<dots> = sum_list (map (length \<circ> snd) bp)" using d(1) by (simp add: sum_list_distinct_conv_sum_set)
  finally show ?thesis by simp
qed

lemma record_request_keeps_protected:
  assumes "rr_inv s"
  shows "{(i, r) \<in> set (rr_entries s). rq_protected r} \<subseteq> set (rr_entries (fst (record_request s rid p target now limits)))"
proof -
  have m: "indexed (rr_entries s) (rr_by_peer s)" "hm_inv (rr_entries s)" using assms by (simp_all add: rr_inv_def indexed_def)
  from m(1) show ?thesis
  proof (cases rule: record_request_cases [of s rid p target now limits, consumes 1])
    case (admit s' a)
    have "(i, r) \<in> set (rr_entries s')" if "(i, r) \<in> set (rr_entries s)" "rq_protected r" for i r
      using that admit(2) m(2) by (auto simp: evicted_one_def hm_simps hm_mem_iff)
    moreover have "hm_inv (rr_entries s')" "map_of (rr_entries s') rid = None"
      using admit(2,3) m(2) by (auto simp: evicted_one_def hm_simps)
    ultimately show ?thesis using admit(1)
      by (auto simp: admit_request_def note_timestamp_def Let_def set_hm_insert hm_mem_iff)
  qed auto
qed

text \<open>C17: over every sequence of operations the table of recent requests stays within the largest capacity
  it was given, the queue of each peer lists, each once, exactly the requests that arrived from that peer
  (so the queues together are as long as the table and the indexing in the eviction scan never panics), and an
  admission never evicts a protected return path.\<close>

theorem recent_requests_bounded:
  "let s = run rr_step recent_requests_default ops in
     length (rr_entries s) \<le> foldr max (map capacity ops) 0 \<and>
     sum_list (map (length \<circ> snd) (rr_by_peer s)) = length (rr_entries s) \<and>
     (\<forall>q. distinct (queue (rr_by_peer s) q) \<and>
        set (queue (rr_by_peer s) q) = {i. \<exists>r. map_of (rr_entries s) i = Some r \<and> rq_from_peer r = q}) \<and>
     snd (record_request s rid p target now limits) \<noteq> Panic \<and>
     {(i, r) \<in> set (rr_entries s). rq_protected r} \<subseteq> set (rr_entries (fst (record_request s rid p target now limits)))"
proof -
  let ?s = "run rr_step recent_requests_default ops"
  have inv: "rr_inv ?s" by (rule recent_machine.run_inv [OF rr_inv_default])
  then have idx: "indexed (rr_entries ?s) (rr_by_peer ?s)" by (simp add: rr_inv_def)
  have "length (rr_entries ?s) \<le> foldr max (map capacity ops) 0"
    using run_length [OF rr_inv_default, of ops] by (simp add: recent_requests_default_def)
  moreover have "snd (record_request ?s rid p target now limits) \<noteq> Panic"
    using idx by (cases rule: record_request_cases [of ?s rid p target now limits, consumes 1]) auto
  moreover have "distinct (queue (rr_by_peer ?s) q)"
    "set (queue (rr_by_peer ?s) q) = {i. \<exists>r. map_of (rr_entries ?s) i = Some r \<and> rq_from_peer r = q}" for q
    using idx by (auto simp: indexed_def)
  ultimately show ?thesis
    using indexed_length [OF idx] record_request_keeps_protected [OF inv] by (simp add: Let_def)
qed

text \<open>Purging is exact. The early return on the oldest timestamp never delays expiry: in every reachable
  state a purge keeps precisely the requests that are not expired.\<close>

theorem purge_requests_exact:
  "rr_entries (purge_expired (run rr_step recent_requests_default ops) now expiry) =
     filter (\<lambda>(_, r). unat now - unat (rq_timestamp_ms r) \<le> unat expiry) (rr_entries (run rr_step recent_requests_default ops))"
  using purge_entries [OF recent_machine.run_inv [OF rr_inv_default], of ops now expiry]
  by (simp add: hm_retain_def request_is_expired_def case_prod_unfold word_less_nat_alt word_nat_simps not_less)

text \<open>The peers a lookup is sent on to are candidates that can be sent to, never the hop it came from;
  the tree matches come first and are complete, and the learned fallback adds only peers that are not the
  origin, within its budget.\<close>

theorem forward_plan_sound:
  "let plan = plan_forward_peers from origin target mode enabled candidates budget in
     set (pp_peers plan) \<subseteq> {pc_addr c |c. c \<in> set candidates \<and> pc_can_send c \<and> pc_addr c \<noteq> from} \<and>
     {pc_addr c |c. c \<in> set candidates \<and> pc_is_tree_peer c \<and> pc_can_send c \<and> pc_may_reach_target c \<and>
        pc_addr c \<noteq> from \<and> pc_addr c \<noteq> target} \<subseteq> set (take (pp_tree_match_count plan) (pp_peers plan)) \<and>
     length (drop (pp_tree_match_count plan) (pp_peers plan)) \<le> (if mode = ReplyLearned \<and> enabled then budget else length candidates)"
proof -
  let ?tree = "forward_matches from target mode candidates"
  let ?fb = "forward_fallback from origin target ?tree candidates budget"
  let ?other = "map pc_addr (filter (\<lambda>c. pc_addr c \<noteq> from \<and> \<not> pc_is_tree_peer c \<and> pc_can_send c \<and> pc_may_reach_target c) candidates)"
  let ?ok = "{pc_addr c |c. c \<in> set candidates \<and> pc_can_send c \<and> pc_addr c \<noteq> from}"
  have tree: "set ?tree \<subseteq> ?ok" "{pc_addr c |c. c \<in> set candidates \<and> pc_is_tree_peer c \<and> pc_can_send c \<and> pc_may_reach_target c \<and>
        pc_addr c \<noteq> from \<and> pc_addr c \<noteq> target} \<subseteq> set ?tree"
    by (auto simp: forward_matches_def)
  have fb: "set ?fb \<subseteq> ?ok" "length ?fb \<le> budget"
    by (auto simp: forward_fallback_def Let_def dest!: in_set_takeD)
  have other: "set ?other \<subseteq> ?ok" "length ?other \<le> length candidates" by auto
  consider "mode = ReplyLearned \<and> enabled" | "\<not> (mode = ReplyLearned \<and> enabled)" "?tree = []"
    | "\<not> (mode = ReplyLearned \<and> enabled)" "?tree \<noteq> []" by blast
  then show ?thesis
  proof cases
    case 1
    then have "plan_forward_peers from origin target mode enabled candidates budget =
      \<lparr> pp_peers = ?tree @ ?fb, pp_tree_match_count = length ?tree, pp_used_fallback = (?fb \<noteq> []) \<rparr>"
      by (auto simp: plan_forward_peers_def Let_def)
    then show ?thesis using tree fb 1 by simp
  next
    case 2
    then show ?thesis using tree other by (simp only: plan_forward_peers_def Let_def) simp
  next
    case 3
    then show ?thesis using tree by (simp only: plan_forward_peers_def Let_def) simp
  qed
qed

end
