(* ===== verification/Inet_Checksum.thy ===== *)
theory Inet_Checksum
  imports Fips_Prelude
begin

unbundle bit_operations_syntax

text \<open>
  The Internet checksum as \<^verbatim>\<open>upper/tcp_mss.rs\<close> and \<^verbatim>\<open>upper/icmp.rs\<close> compute it: a 32-bit
  accumulator over big-endian 16-bit chunks, folded by a carry loop and complemented. The
  reference value is \<open>ones_sum\<close>, the sum of the chunks as a natural number; the accumulator
  agrees with it below \<open>2 ^ 32\<close>, and the carry loop terminates and keeps the value modulo
  \<open>65535\<close>, so that a segment carrying the complement sums to zero modulo \<open>65535\<close>, which is
  what a receiver checks.
\<close>

section \<open>The loops\<close>

definition be16 :: "u8 \<Rightarrow> u8 \<Rightarrow> u16" where
  "be16 a b = of_be [a, b]"

fun sum_chunks :: "u32 \<Rightarrow> bytes \<Rightarrow> u32" where
  "sum_chunks s [] = s"
| "sum_chunks s [a] = s + ucast (be16 a 0)"
| "sum_chunks s (a # b # bs) = sum_chunks (s + ucast (be16 a b)) bs"

lemma unat_and_ffff: "unat (s AND 0xffff) = unat s mod 65536" for s :: u32
proof -
  have "s AND 0xffff = take_bit 16 s"
    by (simp add: take_bit_eq_mask mask_eq_exp_minus_1)
  thus ?thesis
    by (simp add: take_bit_eq_mod word_nat_simps)
qed

lemma unat_drop_16: "unat (drop_bit 16 s) = unat s div 65536" for s :: u32
  by (simp add: drop_bit_eq_div word_nat_simps)

lemma unat_carry_step: "unat ((s AND 0xffff) + drop_bit 16 s) = unat s mod 65536 + unat s div 65536"
  for s :: u32
proof -
  have "unat s < 2 ^ 32"
    using unat_less_exp [of s] by simp
  hence "unat (s AND 0xffff) + unat (drop_bit 16 s) < 2 ^ LENGTH(32)"
    by (simp add: unat_and_ffff unat_drop_16)
  thus ?thesis
    by (simp add: unat_add_exact unat_and_ffff unat_drop_16)
qed

lemma drop_16_eq_0: "drop_bit 16 s = 0 \<longleftrightarrow> unat s < 65536" for s :: u32
  by (simp add: unat_eq_0 [symmetric] unat_drop_16 div_eq_0_iff del: unat_eq_0)

function fold_carry :: "u32 \<Rightarrow> u32" where
  "fold_carry s =
     (if drop_bit 16 s \<noteq> 0 then fold_carry ((s AND 0xffff) + drop_bit 16 s) else s)"
  by auto

termination
proof (relation "measure unat")
  fix s :: u32
  assume "drop_bit 16 s \<noteq> 0"
  hence "65536 \<le> unat s"
    by (simp add: drop_16_eq_0)
  moreover have "unat s = unat s div 65536 * 65536 + unat s mod 65536"
    by simp
  ultimately have "unat s mod 65536 + unat s div 65536 < unat s"
    by linarith
  thus "((s AND 0xffff) + drop_bit 16 s, s) \<in> measure unat"
    by (simp only: in_measure unat_carry_step)
qed simp

declare fold_carry.simps [simp del]

section \<open>The reference sum\<close>

fun ones_sum :: "bytes \<Rightarrow> nat" where
  "ones_sum [] = 0"
| "ones_sum [a] = unat a * 256"
| "ones_sum (a # b # bs) = unat a * 256 + unat b + ones_sum bs"

definition pseudo_sum :: "128 word \<Rightarrow> 128 word \<Rightarrow> nat \<Rightarrow> nat \<Rightarrow> nat" where
  "pseudo_sum src dst len proto =
     ones_sum (to_be 16 src) + ones_sum (to_be 16 dst) + len div 65536 + len mod 65536 + proto"

definition checksum_ok :: "128 word \<Rightarrow> 128 word \<Rightarrow> nat \<Rightarrow> bytes \<Rightarrow> bool" where
  "checksum_ok src dst proto seg \<longleftrightarrow>
     (pseudo_sum src dst (length seg) proto + ones_sum seg) mod 65535 = 0"

lemma ones_sum_to_be_u16: "ones_sum (to_be 2 w) = unat (w :: u16)"
proof -
  have b: "to_be 2 w = [ucast (drop_bit 8 w), ucast w]"
    by (simp add: to_be_def numeral_2_eq_2)
  have h: "unat (ucast (drop_bit 8 w) :: u8) = unat w div 256"
    using unat_less_exp [of w] by (simp add: unsigned_ucast_eq take_bit_eq_mod drop_bit_eq_div
        unat_div_numeral less_mult_imp_div_less)
  have l: "unat (ucast w :: u8) = unat w mod 256"
    by (simp add: unsigned_ucast_eq take_bit_eq_mod)
  show ?thesis
    unfolding b by (simp add: h l)
qed

lemma unat_be16: "unat (be16 a b) = unat a * 256 + unat b"
proof -
  have "to_be 2 (be16 a b) = [a, b]"
    using to_be_of_be [of "[a, b]", where ?'a = 16] by (simp add: be16_def numeral_2_eq_2)
  thus ?thesis
    using ones_sum_to_be_u16 [of "be16 a b"] by simp
qed

lemma to_be_2_bytes:
  obtains a b where "to_be 2 (w :: u16) = [a, b]" and "be16 a b = w"
proof -
  obtain a b where ab: "to_be 2 w = [a, b]"
    by (auto simp: to_be_def numeral_2_eq_2)
  moreover have "be16 a b = w"
    using of_be_to_be [of 2 w] ab by (simp add: be16_def)
  ultimately show ?thesis
    using that by blast
qed

lemma ones_sum_append: "even (length xs) \<Longrightarrow> ones_sum (xs @ ys) = ones_sum xs + ones_sum ys"
  by (induction xs rule: ones_sum.induct) auto

lemma ones_sum_bound: "ones_sum bs \<le> 65535 * ((length bs + 1) div 2)"
proof (induction bs rule: ones_sum.induct)
  case (2 a)
  then show ?case
    using unat_less_exp [of a] by simp
next
  case (3 a b bs)
  then show ?case
    using unat_less_exp [of a] unat_less_exp [of b] by simp
qed simp

lemma unat_ucast_u16: "unat (ucast (w :: u16) :: u32) = unat w"
  using unat_less_exp [of w] by (simp add: unsigned_ucast_eq take_bit_eq_mod)

lemma unat_sum_chunks:
  "unat s + ones_sum bs < 2 ^ 32 \<Longrightarrow> unat (sum_chunks s bs) = unat s + ones_sum bs"
proof (induction s bs rule: sum_chunks.induct)
  case (2 s a)
  then show ?case
    by (simp add: unat_add_exact unat_ucast_u16 unat_be16)
next
  case (3 s a b bs)
  then show ?case
    by (simp add: unat_add_exact unat_ucast_u16 unat_be16)
qed simp

lemma unat_fold_carry:
  "unat (fold_carry s) < 65536 \<and> unat (fold_carry s) mod 65535 = unat s mod 65535"
proof (induction s rule: fold_carry.induct)
  case (1 s)
  have "unat s = (unat s mod 65536 + unat s div 65536) + unat s div 65536 * 65535"
    using div_mult_mod_eq [of "unat s" 65536] by linarith
  hence "(unat s mod 65536 + unat s div 65536) mod 65535 = unat s mod 65535"
    by (metis mod_mult_self1)
  then show ?case
    using 1 by (subst (1 2) fold_carry.simps) (auto simp: unat_carry_step drop_16_eq_0)
qed

lemma unat_complement_u16: "unat (NOT (w :: u16)) = 65535 - unat w"
proof -
  have "NOT w = - 1 - w"
    by (simp add: not_eq_complement)
  thus ?thesis
    using unat_sub_le [of w "- 1"] by (simp add: unat_minus_one_word_eq)
qed

lemma complement_fold_mod:
  "(unat (NOT (ucast (fold_carry s) :: u16)) + unat s) mod 65535 = 0"
proof -
  let ?f = "unat (fold_carry s)"
  have "unat (ucast (fold_carry s) :: u16) = ?f"
    using unat_fold_carry [of s] by (simp add: unsigned_ucast_eq take_bit_eq_mod)
  moreover have "(65535 - ?f + unat s) mod 65535 = (65535 - ?f + ?f) mod 65535"
    using unat_fold_carry [of s] by (metis mod_add_right_eq)
  ultimately show ?thesis
    using unat_fold_carry [of s] by (simp add: unat_complement_u16)
qed

section \<open>Addresses of an IPv6 packet\<close>

definition packet_src :: "bytes \<Rightarrow> 128 word" where
  "packet_src p = of_be (take 16 (drop 8 p))"

definition packet_dst :: "bytes \<Rightarrow> 128 word" where
  "packet_dst p = of_be (take 16 (drop 24 p))"

lemma packet_addr_bytes:
  assumes "40 \<le> length p"
  shows "to_be 16 (packet_src p) = take 16 (drop 8 p)" "to_be 16 (packet_dst p) = take 16 (drop 24 p)"
  using assms to_be_of_be [of "take 16 (drop 8 p)", where ?'a = 128]
    to_be_of_be [of "take 16 (drop 24 p)", where ?'a = 128]
  by (simp_all add: packet_src_def packet_dst_def)

end
