(* ===== verification/Tcp_Mss.thy ===== *)
theory Tcp_Mss
  imports Inet_Checksum
begin

unbundle bit_operations_syntax

text \<open>
  TCP MSS clamping (\<^verbatim>\<open>upper/tcp_mss.rs\<close>): the walk over the options of a SYN segment, the
  clamping of the MSS option in place and the recomputation of the TCP checksum. The packet is
  a byte list, returned updated; an out-of-range index or slice is \<open>Panic\<close>. The walk is
  compared with \<open>find_mss\<close>, the option grammar read off a list of option bytes.
\<close>

section \<open>Model\<close>

definition TCP_HEADER_MIN_LEN :: nat where "TCP_HEADER_MIN_LEN = 20"
definition TCP_OPT_MSS :: u8 where "TCP_OPT_MSS = 2"
definition TCP_OPT_MSS_LEN :: u8 where "TCP_OPT_MSS_LEN = 4"
definition TCP_FLAGS_OFFSET :: nat where "TCP_FLAGS_OFFSET = 13"
definition TCP_FLAG_SYN :: u8 where "TCP_FLAG_SYN = 0x02"

lemmas tcp_consts = TCP_HEADER_MIN_LEN_def TCP_OPT_MSS_def TCP_OPT_MSS_LEN_def
  TCP_FLAGS_OFFSET_def TCP_FLAG_SYN_def

definition is_tcp_syn :: "bytes \<Rightarrow> bool" where
  "is_tcp_syn tcp_header =
     (if length tcp_header < TCP_HEADER_MIN_LEN then False
      else (tcp_header ! TCP_FLAGS_OFFSET) AND TCP_FLAG_SYN \<noteq> 0)"

definition get_tcp_data_offset :: "bytes \<Rightarrow> nat" where
  "get_tcp_data_offset tcp_header =
     (if length tcp_header < TCP_HEADER_MIN_LEN then 0
      else unat (drop_bit 4 (tcp_header ! 12)) * 4)"

definition tcp_sum :: "bytes \<Rightarrow> bytes \<Rightarrow> nat \<Rightarrow> bytes \<Rightarrow> u32" where
  "tcp_sum src dst payload_len tcp_segment =
     sum_chunks (sum_chunks (sum_chunks 0 src) dst + of_nat payload_len + 6) tcp_segment"

definition recalculate_tcp_checksum :: "bytes \<Rightarrow> nat \<Rightarrow> (unit, bytes) outcome" where
  "recalculate_tcp_checksum ipv6_packet tcp_start =
     obind (store_at ipv6_packet (tcp_start + 16) 0) (\<lambda>p.
     obind (store_at p (tcp_start + 17) 0) (\<lambda>p.
     obind (slice p 8 24) (\<lambda>src.
     obind (slice p 24 40) (\<lambda>dst.
     obind (index_at p 4) (\<lambda>hi.
     obind (index_at p 5) (\<lambda>lo.
     let payload_len = unat (be16 hi lo) in
     obind (slice p tcp_start (tcp_start + payload_len)) (\<lambda>tcp_segment.
     let checksum = NOT (ucast (fold_carry (tcp_sum src dst payload_len tcp_segment))) :: u16 in
     copy_into p (tcp_start + 16) (to_be 2 checksum))))))))"

definition clamp_option :: "bytes \<Rightarrow> u16 \<Rightarrow> nat \<Rightarrow> (unit, bytes \<times> bool) outcome" where
  "clamp_option p max_mss i =
     obind (index_at p (i + 2)) (\<lambda>hi.
     obind (index_at p (i + 3)) (\<lambda>lo.
     if be16 hi lo > max_mss
     then obind (copy_into p (i + 2) (to_be 2 max_mss)) (\<lambda>p.
          obind (recalculate_tcp_checksum p 40) (\<lambda>p. Ok (p, True)))
     else Ok (p, False)))"

function clamp_loop :: "bytes \<Rightarrow> u16 \<Rightarrow> nat \<Rightarrow> nat \<Rightarrow> (unit, bytes \<times> bool) outcome" where
  "clamp_loop p max_mss options_end i =
     (if i < options_end
      then obind (index_at p i) (\<lambda>kind.
        if kind = 0 then Ok (p, False)
        else if kind = 1 then clamp_loop p max_mss options_end (i + 1)
        else if i + 1 \<ge> options_end then Ok (p, False)
        else obind (index_at p (i + 1)) (\<lambda>len.
          if unat len < 2 \<or> i + unat len > options_end then Ok (p, False)
          else if kind = TCP_OPT_MSS \<and> unat len = unat TCP_OPT_MSS_LEN
          then clamp_option p max_mss i
          else clamp_loop p max_mss options_end (i + unat len)))
      else Ok (p, False))"
  by pat_completeness auto

termination
  by (relation "measure (\<lambda>(p, m, e, i). e - i)") auto

declare clamp_loop.simps [simp del]

definition clamp_tcp_mss :: "bytes \<Rightarrow> u16 \<Rightarrow> (unit, bytes \<times> bool) outcome" where
  "clamp_tcp_mss ipv6_packet max_mss =
     (if length ipv6_packet < 40 \<or> drop_bit 4 (ipv6_packet ! 0) \<noteq> 6 then Ok (ipv6_packet, False)
      else if ipv6_packet ! 6 \<noteq> 6 then Ok (ipv6_packet, False)
      else if length ipv6_packet < 40 + TCP_HEADER_MIN_LEN then Ok (ipv6_packet, False)
      else let tcp_header = drop 40 ipv6_packet in
        if \<not> is_tcp_syn tcp_header then Ok (ipv6_packet, False)
        else let tcp_header_len = get_tcp_data_offset tcp_header in
          if tcp_header_len < TCP_HEADER_MIN_LEN \<or> tcp_header_len > length tcp_header
          then Ok (ipv6_packet, False)
          else if 40 + tcp_header_len > length ipv6_packet then Ok (ipv6_packet, False)
          else clamp_loop ipv6_packet max_mss (40 + tcp_header_len) (40 + TCP_HEADER_MIN_LEN))"

section \<open>The option grammar\<close>

function find_mss :: "bytes \<Rightarrow> nat option" where
  "find_mss [] = None"
| "find_mss [kind] = None"
| "find_mss (kind # len # opts) =
     (if kind = 0 then None
      else if kind = 1 then map_option (\<lambda>j. 1 + j) (find_mss (len # opts))
      else if unat len < 2 \<or> unat len > length opts + 2 then None
      else if kind = 2 \<and> len = 4 then Some 0
      else map_option (\<lambda>j. unat len + j) (find_mss (drop (unat len) (kind # len # opts))))"
  by pat_completeness auto

termination
  by (relation "measure length") auto

text \<open>The TCP options of a packet that reaches the walk, and the MSS it advertises.\<close>

definition tcp_options :: "bytes \<Rightarrow> bytes option" where
  "tcp_options p =
     (if 60 \<le> length p \<and> drop_bit 4 (p ! 0) = 6 \<and> p ! 6 = 6 \<and> is_tcp_syn (drop 40 p)
         \<and> 20 \<le> get_tcp_data_offset (drop 40 p)
         \<and> 40 + get_tcp_data_offset (drop 40 p) \<le> length p
      then Some (take (get_tcp_data_offset (drop 40 p) - 20) (drop 60 p)) else None)"

definition mss_offset :: "bytes \<Rightarrow> nat option" where
  "mss_offset p = Option.bind (tcp_options p) find_mss"

definition mss_at :: "bytes \<Rightarrow> nat \<Rightarrow> u16" where
  "mss_at p j = be16 (p ! (60 + j + 2)) (p ! (60 + j + 3))"

definition advertised_mss :: "bytes \<Rightarrow> u16 option" where
  "advertised_mss p = map_option (mss_at p) (mss_offset p)"

definition payload_length :: "bytes \<Rightarrow> nat" where
  "payload_length p = unat (be16 (p ! 4) (p ! 5))"

definition tcp_segment :: "bytes \<Rightarrow> bytes" where
  "tcp_segment p = take (payload_length p) (drop 40 p)"

definition tcp_checksum_ok :: "bytes \<Rightarrow> bool" where
  "tcp_checksum_ok p = checksum_ok (packet_src p) (packet_dst p) 6 (tcp_segment p)"

section \<open>The walk finds the MSS option\<close>

lemma find_mss_unfold:
  "2 \<le> length opts \<Longrightarrow> find_mss opts =
     (if opts ! 0 = 0 then None
      else if opts ! 0 = 1 then map_option (\<lambda>j. 1 + j) (find_mss (drop 1 opts))
      else if unat (opts ! 1) < 2 \<or> unat (opts ! 1) > length opts then None
      else if opts ! 0 = 2 \<and> opts ! 1 = 4 then Some 0
      else map_option (\<lambda>j. unat (opts ! 1) + j) (find_mss (drop (unat (opts ! 1)) opts)))"
  by (cases opts rule: find_mss.cases) simp_all

lemma find_mss_short: "length opts < 2 \<Longrightarrow> find_mss opts = None"
  by (cases opts rule: find_mss.cases) simp_all

lemma unat_eq_4: "unat (x :: u8) = 4 \<longleftrightarrow> x = 4"
  by (simp add: word_eq_iff_unsigned [where ?'a = nat])

definition window :: "bytes \<Rightarrow> nat \<Rightarrow> nat \<Rightarrow> bytes" where
  "window p e i = take (e - i) (drop i p)"

lemma window_simps:
  "e \<le> length p \<Longrightarrow> length (window p e i) = e - i"
  "drop n (window p e i) = window p e (i + n)"
  "e \<le> length p \<Longrightarrow> i + n < e \<Longrightarrow> window p e i ! n = p ! (i + n)"
  by (auto simp: window_def drop_take add.commute)

lemma clamp_loop_find:
  "e \<le> length p \<Longrightarrow> clamp_loop p m e i =
     (case find_mss (window p e i) of None \<Rightarrow> Ok (p, False)
      | Some j \<Rightarrow> clamp_option p m (i + j))"
proof (induction p m e i rule: clamp_loop.induct)
  case (1 p m e i)
  consider "e \<le> i" | "i + 1 = e" | "i + 1 < e" by linarith
  then show ?case
  proof cases
    case 1
    then show ?thesis
      using "1.prems" by (simp add: clamp_loop.simps [of p m e i] find_mss_short window_simps)
  next
    case 2
    then show ?thesis
      using "1.prems" by (auto simp: clamp_loop.simps [of p m e i] index_at_def
          clamp_loop.simps [of p m "Suc i" "Suc i"] find_mss_short window_simps)
  next
    case 3
    let ?k = "p ! i" and ?l = "p ! (i + 1)"
    have read: "i < e" "index_at p i = Ok ?k" "index_at p (i + 1) = Ok ?l" "\<not> e \<le> i + 1"
      using 3 "1.prems" by (simp_all add: index_at_def)
    have w: "2 \<le> length (window p e i)" "window p e i ! 0 = ?k" "window p e i ! 1 = ?l"
      "length (window p e i) = e - i"
      using 3 "1.prems" by (simp_all add: window_simps)
    have range: "unat ?l > e - i \<longleftrightarrow> i + unat ?l > e"
      using 3 by linarith
    note unf = clamp_loop.simps [of p m e i] find_mss_unfold [OF w(1)] w(2-4) read window_simps(2)
      tcp_consts unat_eq_4 range case_map_option comp_def add.assoc [symmetric]
    show ?thesis
      using "1.IH"(1) [OF read(1,2)] "1.IH"(2) [OF read(1,2) _ _ read(4,3)] "1.prems"
      by (simp add: unf del: One_nat_def split: option.split)
  qed
qed

section \<open>The recomputed checksum\<close>

lemma payload_length_less: "payload_length p < 65536"
  using unat_less_exp [of "be16 (p ! 4) (p ! 5)"] by (simp add: payload_length_def)

lemma unat_tcp_sum:
  assumes "40 \<le> length p" and "length seg < 65536"
  shows "unat (tcp_sum (take 16 (drop 8 p)) (take 16 (drop 24 p)) (length seg) seg)
         = pseudo_sum (packet_src p) (packet_dst p) (length seg) 6 + ones_sum seg"
proof -
  let ?s = "take 16 (drop 8 p)" and ?d = "take 16 (drop 24 p)"
  have b: "ones_sum ?s \<le> 524280" "ones_sum ?d \<le> 524280" "ones_sum seg \<le> 65535 * 32768"
    using assms ones_sum_bound [of ?s] ones_sum_bound [of ?d] ones_sum_bound [of seg] by auto
  have sd: "unat (sum_chunks (sum_chunks 0 ?s) ?d) = ones_sum ?s + ones_sum ?d"
    using b by (simp add: unat_sum_chunks)
  have len: "unat (of_nat (length seg) :: u32) = length seg"
    using assms by (simp add: unat_of_nat)
  have h: "unat (sum_chunks (sum_chunks 0 ?s) ?d + of_nat (length seg) + 6)
    = ones_sum ?s + ones_sum ?d + length seg + 6"
    using b assms by (simp add: unat_add_exact sd len)
  show ?thesis
    using b assms by (simp add: tcp_sum_def unat_sum_chunks h pseudo_sum_def packet_addr_bytes)
qed

lemma segment_update:
  "18 \<le> n \<Longrightarrow> 40 + n \<le> length p \<Longrightarrow>
   take n (drop 40 (p[56 := a, 57 := b])) = take 16 (drop 40 p) @ [a, b] @ take (n - 18) (drop 58 p)"
  by (rule nth_equalityI) (auto simp: nth_append nth_Cons' nth_list_update
      intro!: arg_cong [where f = "(!) p"])

lemma header_update:
  "take 16 (drop 8 (p[56 := a, 57 := b])) = take 16 (drop 8 p)"
  "take 16 (drop 24 (p[56 := a, 57 := b])) = take 16 (drop 24 p)"
  by (simp_all add: drop_update_swap take_update_swap list_update_beyond min_le_iff_disj)

lemma recalculate_tcp_checksum_exact:
  assumes "60 \<le> length p" and "40 + payload_length p \<le> length p"
  shows "\<exists>a b. recalculate_tcp_checksum p 40 = Ok (p[56 := a, 57 := b])
    \<and> (18 \<le> payload_length p \<longrightarrow> tcp_checksum_ok (p[56 := a, 57 := b]))"
proof -
  let ?z = "p[56 := 0, 57 := 0]" and ?L = "payload_length p"
  let ?seg = "take ?L (drop 40 ?z)"
  define c where "c = (NOT (ucast (fold_carry
    (tcp_sum (take 16 (drop 8 p)) (take 16 (drop 24 p)) ?L ?seg))) :: u16)"
  obtain a b where ab: "to_be 2 c = [a, b]"
    by (auto simp: to_be_def numeral_2_eq_2)
  let ?q = "p[56 := a, 57 := b]"
  have "recalculate_tcp_checksum p 40 = copy_into ?z 56 (to_be 2 c)"
    using assms unfolding c_def payload_length_def
    by (simp add: recalculate_tcp_checksum_def store_at_def slice_def index_at_def Let_def header_update)
  also have "\<dots> = Ok ?q"
    using assms by (simp add: ab copy_into_two list_update_swap [of 56 57])
  finally have r: "recalculate_tcp_checksum p 40 = Ok ?q" .
  have "tcp_checksum_ok ?q" if "18 \<le> ?L"
  proof -
    have len: "length ?seg = ?L" "payload_length ?q = ?L" "?L < 65536"
      using assms payload_length_less [of p] by (simp_all add: payload_length_def)
    have addr: "packet_src ?q = packet_src p" "packet_dst ?q = packet_dst p"
      by (simp_all add: packet_src_def packet_dst_def header_update)
    have split: "ones_sum (tcp_segment ?q) = ones_sum ?seg + unat c"
      using that assms len ones_sum_to_be_u16 [of c]
      by (simp add: tcp_segment_def segment_update ones_sum_append ab)
    show ?thesis
      using complement_fold_mod [of "tcp_sum (take 16 (drop 8 p)) (take 16 (drop 24 p)) ?L ?seg"]
        unat_tcp_sum [of p ?seg] assms len split addr
      by (simp add: tcp_checksum_ok_def checksum_ok_def tcp_segment_def c_def [symmetric] ac_simps)
  qed
  thus ?thesis
    using r by blast
qed

section \<open>Clamping\<close>

lemma find_mss_range: "find_mss opts = Some j \<Longrightarrow> j + 4 \<le> length opts"
proof (induction opts arbitrary: j rule: find_mss.induct)
  case (3 kind len opts)
  then show ?case
    by (fastforce split: if_splits)
qed simp_all

lemma drop_two_updates:
  "drop n (xs[n + k + 2 := a, n + k + 3 := b]) = (drop n xs)[k + 2 := a, k + 3 := b]"
  by (simp add: drop_update_swap)

lemma find_mss_update:
  "find_mss opts = Some j \<Longrightarrow> find_mss (opts[j + 2 := a, j + 3 := b]) = Some j"
proof (induction opts arbitrary: j rule: find_mss.induct)
  case (3 kind len opts)
  let ?o = "kind # len # opts"
  consider "kind = 2" "len = 4" "j = 0"
    | k where "kind = 1" "find_mss (len # opts) = Some k" "j = 1 + k"
    | k where "kind \<noteq> 0" "kind \<noteq> 1" "\<not> (kind = 2 \<and> len = 4)" "\<not> unat len < 2" "unat len \<le> length opts + 2"
        "find_mss (drop (unat len) ?o) = Some k" "j = unat len + k"
    using "3.prems" by (auto split: if_splits)
  then show ?case
  proof cases
    case 1
    then show ?thesis using "3.prems" by (auto split: if_splits)
  next
    case (2 k)
    have "find_mss ((len # opts)[k + 2 := a, k + 3 := b]) = Some k"
      using "3.IH"(1) 2 by simp
    then show ?thesis
      using 2 by (simp add: numeral_2_eq_2 numeral_3_eq_3)
  next
    case (3 k)
    have "find_mss ((drop (unat len) ?o)[k + 2 := a, k + 3 := b]) = Some k"
      using "3.IH"(2) 3 by simp
    hence "find_mss (drop (unat len) (?o[j + 2 := a, j + 3 := b])) = Some k"
      using 3 by (simp only: drop_two_updates)
    moreover have "?o[j + 2 := a, j + 3 := b] = kind # len # opts[j := a, Suc j := b]"
      by (simp add: numeral_2_eq_2 numeral_3_eq_3)
    ultimately show ?thesis
      using 3 by simp
  qed
qed simp_all

lemma clamp_tcp_mss_spec:
  "clamp_tcp_mss p m =
     (case mss_offset p of None \<Rightarrow> Ok (p, False) | Some j \<Rightarrow> clamp_option p m (60 + j))"
proof (cases "tcp_options p")
  case None
  then show ?thesis
    by (auto simp: clamp_tcp_mss_def tcp_options_def mss_offset_def tcp_consts Let_def split: if_splits)
next
  case (Some opts)
  hence g: "60 \<le> length p" "40 + get_tcp_data_offset (drop 40 p) \<le> length p"
    "opts = window p (40 + get_tcp_data_offset (drop 40 p)) 60"
    by (auto simp: tcp_options_def window_def split: if_splits)
  have "clamp_tcp_mss p m = clamp_loop p m (40 + get_tcp_data_offset (drop 40 p)) 60"
    using Some by (auto simp: clamp_tcp_mss_def tcp_options_def tcp_consts Let_def split: if_splits)
  thus ?thesis
    using Some g clamp_loop_find [OF g(2), of m 60] by (simp add: mss_offset_def)
qed

lemma mss_offset_range: "mss_offset p = Some j \<Longrightarrow> 60 + j + 4 \<le> length p"
  by (auto simp: mss_offset_def tcp_options_def split: bind_splits if_splits dest!: find_mss_range)

definition with_mss :: "bytes \<Rightarrow> nat \<Rightarrow> u8 \<Rightarrow> u8 \<Rightarrow> u8 \<Rightarrow> u8 \<Rightarrow> bytes" where
  "with_mss p j hi lo a b = p[60 + j + 2 := hi, 60 + j + 3 := lo, 56 := a, 57 := b]"

lemma with_mss_below: "i < 56 \<Longrightarrow> with_mss p j hi lo a b ! i = p ! i"
  by (simp add: with_mss_def)

lemma length_with_mss [simp]: "length (with_mss p j hi lo a b) = length p"
  by (simp add: with_mss_def)

lemma tcp_header_with_mss:
  "60 \<le> length p \<Longrightarrow> is_tcp_syn (drop 40 (with_mss p j hi lo a b)) = is_tcp_syn (drop 40 p)"
  "60 \<le> length p \<Longrightarrow>
   get_tcp_data_offset (drop 40 (with_mss p j hi lo a b)) = get_tcp_data_offset (drop 40 p)"
  by (simp_all add: is_tcp_syn_def get_tcp_data_offset_def tcp_consts with_mss_below)

lemma tcp_options_with_mss:
  assumes "tcp_options p = Some opts"
  shows "tcp_options (with_mss p j hi lo a b) = Some (opts[j + 2 := hi, j + 3 := lo])"
proof -
  have "drop 60 (with_mss p j hi lo a b) = (drop 60 p)[j + 2 := hi, j + 3 := lo]"
    by (simp add: with_mss_def drop_update_swap add.commute add.left_commute)
  thus ?thesis
    using assms by (auto simp: tcp_options_def tcp_header_with_mss with_mss_below take_update_swap
        split: if_splits)
qed

lemma mss_offset_with_mss:
  "mss_offset p = Some j \<Longrightarrow> mss_offset (with_mss p j hi lo a b) = Some j"
  by (auto simp del: add_2_eq_Suc' simp: mss_offset_def tcp_options_with_mss find_mss_update
      split: bind_splits)

lemma payload_length_with_mss: "payload_length (with_mss p j hi lo a b) = payload_length p"
  by (simp add: payload_length_def with_mss_below)

lemma mss_at_with_mss:
  "60 + j + 4 \<le> length p \<Longrightarrow> mss_at (with_mss p j hi lo a b) j = be16 hi lo"
  by (simp add: mss_at_def with_mss_def)

lemma clamp_option_exact:
  assumes "60 + j + 4 \<le> length p" and "40 + payload_length p \<le> length p" and "mss_at p j > m"
    and hl: "to_be 2 m = [hi, lo]"
  shows "\<exists>a b. clamp_option p m (60 + j) = Ok (with_mss p j hi lo a b, True)
    \<and> (18 \<le> payload_length p \<longrightarrow> tcp_checksum_ok (with_mss p j hi lo a b))"
proof -
  let ?p = "p[60 + j + 2 := hi, 60 + j + 3 := lo]"
  have len: "payload_length ?p = payload_length p"
    by (simp add: payload_length_def)
  then obtain a b where "recalculate_tcp_checksum ?p 40 = Ok (?p[56 := a, 57 := b])"
    and "18 \<le> payload_length p \<longrightarrow> tcp_checksum_ok (?p[56 := a, 57 := b])"
    using recalculate_tcp_checksum_exact [of ?p] assms by auto
  moreover have "copy_into p (60 + j + 2) [hi, lo] = (Ok ?p :: (unit, bytes) outcome)"
    using assms copy_into_two [of "60 + j + 2" p hi lo] by (simp add: numeral_2_eq_2 numeral_3_eq_3)
  ultimately show ?thesis
    using assms by (intro exI [of _ a] exI [of _ b])
      (simp add: clamp_option_def index_at_def mss_at_def hl with_mss_def)
qed

lemma clamp_option_unchanged:
  "60 + j + 4 \<le> length p \<Longrightarrow> \<not> mss_at p j > m \<Longrightarrow> clamp_option p m (60 + j) = Ok (p, False)"
  by (simp add: clamp_option_def index_at_def mss_at_def)

lemma clamp_needed:
  assumes "40 + payload_length p \<le> length p" and "mss_offset p = Some j" and "mss_at p j > m"
  shows "\<exists>hi lo a b. let q = with_mss p j hi lo a b in clamp_tcp_mss p m = Ok (q, True)
    \<and> advertised_mss q = Some m \<and> (18 \<le> payload_length p \<longrightarrow> tcp_checksum_ok q)"
proof -
  obtain hi lo where hl: "to_be 2 m = [hi, lo]" "be16 hi lo = m"
    by (rule to_be_2_bytes)
  have r: "60 + j + 4 \<le> length p"
    using mss_offset_range [OF assms(2)] .
  obtain a b where "clamp_option p m (60 + j) = Ok (with_mss p j hi lo a b, True)"
    "18 \<le> payload_length p \<longrightarrow> tcp_checksum_ok (with_mss p j hi lo a b)"
    using clamp_option_exact [OF r assms(1,3) hl(1)] by blast
  thus ?thesis
    using assms hl r by (intro exI [of _ hi] exI [of _ lo] exI [of _ a] exI [of _ b])
      (simp add: Let_def clamp_tcp_mss_spec advertised_mss_def mss_offset_with_mss mss_at_with_mss)
qed

lemma clamp_not_needed:
  assumes "mss_offset p = None \<or> (\<exists>j. mss_offset p = Some j \<and> \<not> mss_at p j > m)"
  shows "clamp_tcp_mss p m = Ok (p, False)"
  using assms clamp_option_unchanged mss_offset_range by (auto simp: clamp_tcp_mss_spec)

lemma with_mss_same:
  "i \<notin> {56, 57, 62 + j, 63 + j} \<Longrightarrow> with_mss p j hi lo a b ! i = p ! i"
  by (simp add: with_mss_def)

section \<open>Properties\<close>

text \<open>C27: On an IPv6 packet whose payload length does not exceed the buffer, MSS clamping never
  panics, reports a change exactly when the first MSS option of a SYN segment exceeds the limit,
  leaves the packet advertising the smaller of the two values, changes no byte outside the two
  bytes of that option and the TCP checksum. A changed segment whose length field covers the checksum
  field (at least 18 bytes, which every TCP header does) is left with a TCP checksum that a receiver accepts.\<close>

theorem clamp_tcp_mss_correct:
  assumes "40 + payload_length p \<le> length p"
  shows "\<exists>q changed. clamp_tcp_mss p m = Ok (q, changed)
    \<and> changed = (case advertised_mss p of None \<Rightarrow> False | Some v \<Rightarrow> v > m)
    \<and> advertised_mss q = map_option (min m) (advertised_mss p)
    \<and> length q = length p
    \<and> (\<forall>i. i \<notin> {56, 57} \<and> (\<forall>j. mss_offset p = Some j \<longrightarrow> i \<noteq> 62 + j \<and> i \<noteq> 63 + j) \<longrightarrow> q ! i = p ! i)
    \<and> (if changed then 18 \<le> payload_length p \<longrightarrow> tcp_checksum_ok q else q = p)"
proof (cases "\<exists>j. mss_offset p = Some j \<and> mss_at p j > m")
  case True
  then obtain j where j: "mss_offset p = Some j" "mss_at p j > m"
    by blast
  obtain hi lo a b where "clamp_tcp_mss p m = Ok (with_mss p j hi lo a b, True)"
    "advertised_mss (with_mss p j hi lo a b) = Some m"
    "18 \<le> payload_length p \<longrightarrow> tcp_checksum_ok (with_mss p j hi lo a b)"
    using clamp_needed [OF assms j] by (auto simp: Let_def)
  moreover have "advertised_mss p = Some (mss_at p j)" "min m (mss_at p j) = m"
    using j by (simp_all add: advertised_mss_def)
  ultimately show ?thesis
    using j by (intro exI [of _ "with_mss p j hi lo a b"] exI [of _ True]) (simp add: with_mss_same)
next
  case False
  hence "clamp_tcp_mss p m = Ok (p, False)"
    using clamp_not_needed by (cases "mss_offset p") auto
  moreover have "advertised_mss p = None \<or> (\<exists>v. advertised_mss p = Some v \<and> v \<le> m)"
    using False by (cases "mss_offset p") (auto simp: advertised_mss_def not_less)
  ultimately show ?thesis
    by (auto simp: min_absorb2)
qed

definition syn_packet :: "nat \<Rightarrow> bytes" where
  "syn_packet payload_len =
     [0x60, 0, 0, 0] @ to_be 2 (of_nat payload_len :: u16) @ [6, 64]
     @ replicate 16 0xfd @ replicate 16 0xfe
     @ [0, 80, 1, 187] @ replicate 8 0 @ [0x60, 2, 0xff, 0xff, 0, 0, 0, 0] @ [2, 4, 5, 180]"

theorem clamp_tcp_mss_correct_witness:
  "40 + payload_length (syn_packet 24) \<le> length (syn_packet 24)
   \<and> (\<exists>q changed. clamp_tcp_mss (syn_packet 24) 1000 = Ok (q, changed)
    \<and> changed = (case advertised_mss (syn_packet 24) of None \<Rightarrow> False | Some v \<Rightarrow> v > 1000))"
proof -
  have l: "40 + payload_length (syn_packet 24) \<le> length (syn_packet 24)"
    by code_simp
  show ?thesis
    using l clamp_tcp_mss_correct [OF l, of 1000] by blast
qed

text \<open>C28: The payload length is read from the IPv6 header and never compared with the buffer: a
  SYN packet whose length field exceeds the bytes present panics as soon as its MSS is clamped.\<close>

theorem overlong_payload_length_panics:
  assumes "mss_offset p = Some j" and "mss_at p j > m" and "length p < 40 + payload_length p"
  shows "clamp_tcp_mss p m = Panic"
proof -
  obtain hi lo where hl: "to_be 2 m = [hi, lo]"
    by (rule to_be_2_bytes)
  have r: "60 + j + 4 \<le> length p"
    using mss_offset_range [OF assms(1)] .
  have "copy_into p (60 + j + 2) [hi, lo]
      = (Ok (p[60 + j + 2 := hi, 60 + j + 3 := lo]) :: (unit, bytes) outcome)"
    using r copy_into_two [of "60 + j + 2" p hi lo] by (simp add: numeral_2_eq_2 numeral_3_eq_3)
  thus ?thesis
    using assms r by (simp add: clamp_tcp_mss_spec clamp_option_def recalculate_tcp_checksum_def
        store_at_def slice_def index_at_def mss_at_def payload_length_def hl Let_def)
qed

theorem overlong_payload_length_panics_witness:
  "length (syn_packet 25) < 40 + payload_length (syn_packet 25)
   \<and> clamp_tcp_mss (syn_packet 25) 1000 = Panic"
proof -
  have "mss_offset (syn_packet 25) = Some 0" "mss_at (syn_packet 25) 0 > 1000"
    and l: "length (syn_packet 25) < 40 + payload_length (syn_packet 25)"
    by code_simp+
  thus ?thesis
    using overlong_payload_length_panics [of "syn_packet 25" 0 1000] by blast
qed

end
