(* ===== verification/Icmpv6.thy ===== *)
theory Icmpv6
  imports Inet_Checksum
begin

unbundle bit_operations_syntax

text \<open>
  ICMPv6 error generation (\<^verbatim>\<open>upper/icmp.rs\<close>): when an error may be sent, the Destination
  Unreachable and Packet Too Big responses built by writes into a zeroed buffer, and their
  checksum. An \<open>Ipv6Addr\<close> is a 128-bit word whose octets are its big-endian bytes.
\<close>

section \<open>Model\<close>

datatype Icmpv6Type = DestinationUnreachable | PacketTooBig | TimeExceeded | ParameterProblem
  | EchoRequest | EchoReply

fun icmpv6_type_byte :: "Icmpv6Type \<Rightarrow> u8" where
  "icmpv6_type_byte DestinationUnreachable = 1"
| "icmpv6_type_byte PacketTooBig = 2"
| "icmpv6_type_byte TimeExceeded = 3"
| "icmpv6_type_byte ParameterProblem = 4"
| "icmpv6_type_byte EchoRequest = 128"
| "icmpv6_type_byte EchoReply = 129"

datatype DestUnreachableCode = NoRoute | AdminProhibited | BeyondScope | AddressUnreachable
  | PortUnreachable | SourcePolicy | RejectRoute

fun dest_unreachable_code_byte :: "DestUnreachableCode \<Rightarrow> u8" where
  "dest_unreachable_code_byte NoRoute = 0"
| "dest_unreachable_code_byte AdminProhibited = 1"
| "dest_unreachable_code_byte BeyondScope = 2"
| "dest_unreachable_code_byte AddressUnreachable = 3"
| "dest_unreachable_code_byte PortUnreachable = 4"
| "dest_unreachable_code_byte SourcePolicy = 5"
| "dest_unreachable_code_byte RejectRoute = 6"

definition IPPROTO_ICMPV6 :: u8 where "IPPROTO_ICMPV6 = 58"
definition MIN_IPV6_MTU :: nat where "MIN_IPV6_MTU = 1280"
definition IPV6_HEADER_LEN :: nat where "IPV6_HEADER_LEN = 40"
definition ICMPV6_HEADER_LEN :: nat where "ICMPV6_HEADER_LEN = 8"
definition MAX_ORIGINAL_PACKET :: nat where
  "MAX_ORIGINAL_PACKET = MIN_IPV6_MTU - IPV6_HEADER_LEN - ICMPV6_HEADER_LEN"
definition FIPS_OVERHEAD :: u16 where "FIPS_OVERHEAD = 16 + 16 + 5 + 35 + 12 + 6 + 16"
definition FIPS_IPV6_OVERHEAD :: u16 where "FIPS_IPV6_OVERHEAD = 77"

lemmas icmp_consts = IPPROTO_ICMPV6_def MIN_IPV6_MTU_def IPV6_HEADER_LEN_def
  ICMPV6_HEADER_LEN_def MAX_ORIGINAL_PACKET_def

definition effective_ipv6_mtu :: "u16 \<Rightarrow> u16" where
  "effective_ipv6_mtu transport_mtu = saturating_sub transport_mtu FIPS_IPV6_OVERHEAD"

definition is_unspecified :: "128 word \<Rightarrow> bool" where
  "is_unspecified a \<longleftrightarrow> a = 0"

definition first_octet :: "128 word \<Rightarrow> u8" where
  "first_octet a = hd (to_be 16 a)"

definition is_icmp_error :: "bytes \<Rightarrow> bool" where
  "is_icmp_error packet \<longleftrightarrow>
     packet ! 6 = IPPROTO_ICMPV6 \<and> length packet > IPV6_HEADER_LEN \<and> packet ! IPV6_HEADER_LEN < 128"

definition should_send_icmp_error :: "bytes \<Rightarrow> bool" where
  "should_send_icmp_error packet =
     (if length packet < IPV6_HEADER_LEN then False
      else if drop_bit 4 (packet ! 0) \<noteq> 6 then False
      else if is_unspecified (packet_src packet) then False
      else if first_octet (packet_src packet) = 0xff then False
      else if first_octet (packet_dst packet) = 0xff then False
      else if is_icmp_error packet then False
      else True)"

function icmp_sum_loop :: "bytes \<Rightarrow> nat \<Rightarrow> u32 \<Rightarrow> u32 \<times> nat" where
  "icmp_sum_loop m i s =
     (if i + 1 < length m
      then if i = 2 then icmp_sum_loop m (i + 2) s
           else icmp_sum_loop m (i + 2) (s + ucast (be16 (m ! i) (m ! (i + 1))))
      else (s, i))"
  by pat_completeness auto

termination
  by (relation "measure (\<lambda>(m, i, s). length m - i)") auto

declare icmp_sum_loop.simps [simp del]

definition icmp_odd_byte :: "bytes \<Rightarrow> u32 \<times> nat \<Rightarrow> u32" where
  "icmp_odd_byte m r =
     (case r of (s, i) \<Rightarrow> if i < length m then s + push_bit 8 (ucast (m ! i)) else s)"

definition icmp_pseudo_sum :: "bytes \<Rightarrow> 128 word \<Rightarrow> 128 word \<Rightarrow> u32" where
  "icmp_pseudo_sum m src dst =
     (let s = sum_chunks (sum_chunks 0 (to_be 16 src)) (to_be 16 dst);
          len = of_nat (length m) :: u32
      in s + drop_bit 16 len + (len AND 0xffff) + ucast IPPROTO_ICMPV6)"

definition icmpv6_checksum :: "bytes \<Rightarrow> 128 word \<Rightarrow> 128 word \<Rightarrow> u16" where
  "icmpv6_checksum m src dst =
     NOT (ucast (fold_carry (icmp_odd_byte m (icmp_sum_loop m 0 (icmp_pseudo_sum m src dst)))))"

definition icmp_response ::
  "bytes \<Rightarrow> Icmpv6Type \<Rightarrow> u8 \<Rightarrow> bytes \<Rightarrow> 128 word \<Rightarrow> 128 word \<Rightarrow> (unit, bytes) outcome" where
  "icmp_response original_packet ty code data our_addr dest_addr =
     (let original_len = min (length original_packet) MAX_ORIGINAL_PACKET;
          icmpv6_len = ICMPV6_HEADER_LEN + original_len;
          payload_len = of_nat icmpv6_len :: u16;
          icmp_start = IPV6_HEADER_LEN
      in obind (store_at (replicate (IPV6_HEADER_LEN + icmpv6_len) 0) 0 0x60) (\<lambda>r.
         obind (copy_into r 4 (to_be 2 payload_len)) (\<lambda>r.
         obind (store_at r 6 IPPROTO_ICMPV6) (\<lambda>r.
         obind (store_at r 7 64) (\<lambda>r.
         obind (copy_into r 8 (to_be 16 our_addr)) (\<lambda>r.
         obind (copy_into r 24 (to_be 16 dest_addr)) (\<lambda>r.
         obind (store_at r icmp_start (icmpv6_type_byte ty)) (\<lambda>r.
         obind (store_at r (icmp_start + 1) code) (\<lambda>r.
         obind (copy_into r (icmp_start + 4) data) (\<lambda>r.
         obind (copy_into r (icmp_start + ICMPV6_HEADER_LEN) (take original_len original_packet)) (\<lambda>r.
         copy_into r (icmp_start + 2)
           (to_be 2 (icmpv6_checksum (drop icmp_start r) our_addr dest_addr)))))))))))))"

definition build_dest_unreachable ::
  "bytes \<Rightarrow> DestUnreachableCode \<Rightarrow> 128 word \<Rightarrow> (unit, bytes option) outcome" where
  "build_dest_unreachable original_packet code our_addr =
     (if length original_packet < IPV6_HEADER_LEN then Ok None
      else obind (icmp_response original_packet DestinationUnreachable
        (dest_unreachable_code_byte code) [0, 0, 0, 0] our_addr (packet_src original_packet))
        (\<lambda>r. Ok (Some r)))"

definition build_packet_too_big ::
  "bytes \<Rightarrow> u32 \<Rightarrow> 128 word \<Rightarrow> (unit, bytes option) outcome" where
  "build_packet_too_big original_packet mtu our_addr =
     (if length original_packet < IPV6_HEADER_LEN then Ok None
      else if drop_bit 4 (original_packet ! 0) \<noteq> 6 then Ok None
      else if is_unspecified (packet_src original_packet)
        \<or> first_octet (packet_src original_packet) = 0xff then Ok None
      else if is_icmp_error original_packet then Ok None
      else obind (icmp_response original_packet PacketTooBig 0 (to_be 4 mtu) our_addr
        (packet_src original_packet)) (\<lambda>r. Ok (Some r)))"

section \<open>Layout of a response\<close>

definition icmp_body :: "bytes \<Rightarrow> bytes" where
  "icmp_body original = take (min (length original) 1232) original"

definition icmp_message :: "Icmpv6Type \<Rightarrow> u8 \<Rightarrow> u16 \<Rightarrow> bytes \<Rightarrow> bytes \<Rightarrow> bytes" where
  "icmp_message ty code checksum data body =
     [icmpv6_type_byte ty] @ [code] @ to_be 2 checksum @ data @ body"

definition icmp_packet :: "bytes \<Rightarrow> 128 word \<Rightarrow> 128 word \<Rightarrow> bytes" where
  "icmp_packet msg src dst =
     [0x60] @ replicate 3 0 @ to_be 2 (of_nat (length msg) :: u16) @ [58] @ [64]
     @ to_be 16 src @ to_be 16 dst @ msg"

lemma icmp_zeroes:
  "replicate (48 + n) (0 :: u8) =
     [0] @ replicate 3 0 @ replicate 2 0 @ [0] @ [0] @ replicate 16 0 @ replicate 16 0
     @ [0] @ [0] @ to_be 2 (0 :: u16) @ replicate 4 0 @ replicate n 0"
proof -
  have "to_be 2 (0 :: u16) = replicate 2 0"
    by (simp add: to_be_def numeral_2_eq_2)
  thus ?thesis
    by (simp add: replicate_add [symmetric] flip: replicate_Suc replicate_append_same)
qed

lemma icmp_response_layout:
  assumes "length data = 4"
  shows "\<exists>c. icmp_response original ty code data our dest
      = Ok (icmp_packet (icmp_message ty code c data (icmp_body original)) our dest)
    \<and> c = icmpv6_checksum (icmp_message ty code 0 data (icmp_body original)) our dest"
proof -
  have z: "replicate (IPV6_HEADER_LEN + (ICMPV6_HEADER_LEN + min (length original) MAX_ORIGINAL_PACKET)) (0 :: u8)
    = replicate (48 + length (icmp_body original)) 0"
    by (simp add: icmp_consts icmp_body_def)
  have b: "take (min (length original) MAX_ORIGINAL_PACKET) original = icmp_body original"
    by (simp add: icmp_consts icmp_body_def)
  show ?thesis
    using assms unfolding icmp_response_def Let_def z b icmp_zeroes
    by (simp add: store_at_copy copy_into_skip copy_into_here copy_into_all icmp_packet_def
        icmp_message_def icmp_consts icmp_body_def del: append_Cons)
qed

section \<open>The checksum\<close>

lemma be16_low_zero: "push_bit 8 (ucast (a :: u8)) = (ucast (be16 a 0) :: u32)"
proof -
  have "unat a < 256"
    using unat_less_exp [of a] by simp
  hence "unat (push_bit 8 (ucast a) :: u32) = unat a * 256"
    by (simp add: push_bit_eq_mult unat_word_ariths unsigned_ucast_eq take_bit_eq_mod)
  thus ?thesis
    by (simp add: word_eq_iff_unsigned [where ?'a = nat] unat_ucast_u16 unat_be16)
qed

lemma icmp_sum_tail:
  "2 < i \<Longrightarrow> icmp_odd_byte m (icmp_sum_loop m i s) = sum_chunks s (drop i m)"
proof (induction m i s rule: icmp_sum_loop.induct)
  case (1 m i s)
  consider "i + 1 < length m" | "i + 1 = length m" | "length m \<le> i" by linarith
  then show ?case
  proof cases
    case 1
    hence "drop i m = m ! i # m ! (i + 1) # drop (i + 2) m"
      by (simp add: Cons_nth_drop_Suc)
    thus ?thesis
      using "1.IH"(2) "1.prems" 1 by (simp add: icmp_sum_loop.simps [of m i s])
  next
    case 2
    hence "drop i m = [m ! i]"
      by (simp add: Cons_nth_drop_Suc [symmetric])
    thus ?thesis
      using 2 by (simp add: icmp_sum_loop.simps [of m i s] icmp_odd_byte_def be16_low_zero)
  next
    case 3
    then show ?thesis
      by (simp add: icmp_sum_loop.simps [of m i s] icmp_odd_byte_def)
  qed
qed

lemma icmp_sum_skips_checksum:
  "icmp_odd_byte (a # b # c # d # m) (icmp_sum_loop (a # b # c # d # m) 0 s)
   = sum_chunks s (a # b # 0 # 0 # m)"
proof -
  have "be16 0 0 = 0"
    by (simp add: word_eq_iff_unsigned [where ?'a = nat] unat_be16)
  moreover have "icmp_sum_loop (a # b # c # d # m) 2 t = icmp_sum_loop (a # b # c # d # m) 4 t" for t
    by (simp add: icmp_sum_loop.simps [of _ 2])
  ultimately show ?thesis
    using icmp_sum_tail [of 4 "a # b # c # d # m"]
    by (simp add: icmp_sum_loop.simps [of _ 0] numeral_2_eq_2 [symmetric])
qed

lemma unat_icmp_pseudo_sum:
  assumes "length m < 65536"
  shows "unat (icmp_pseudo_sum m src dst) = pseudo_sum src dst (length m) 58"
    and "pseudo_sum src dst (length m) 58 < 2000000"
proof -
  have b: "ones_sum (to_be 16 src) \<le> 524280" "ones_sum (to_be 16 dst) \<le> 524280"
    using ones_sum_bound [of "to_be 16 src"] ones_sum_bound [of "to_be 16 dst"] by simp_all
  have sd: "unat (sum_chunks (sum_chunks 0 (to_be 16 src)) (to_be 16 dst))
      = ones_sum (to_be 16 src) + ones_sum (to_be 16 dst)"
    using b by (simp add: unat_sum_chunks)
  have len: "unat (of_nat (length m) :: u32) = length m"
    using assms by (simp add: unat_of_nat)
  show "pseudo_sum src dst (length m) 58 < 2000000"
    using b assms by (simp add: pseudo_sum_def)
  show "unat (icmp_pseudo_sum m src dst) = pseudo_sum src dst (length m) 58"
    using b assms by (simp add: icmp_pseudo_sum_def Let_def pseudo_sum_def unat_add_exact sd
        unat_drop_16 unat_and_ffff len IPPROTO_ICMPV6_def)
qed

lemma icmp_message_checksum_ok:
  assumes "length data = 4" and "length body < 60000"
    and "c = icmpv6_checksum (icmp_message ty code 0 data body) src dst"
  shows "checksum_ok src dst 58 (icmp_message ty code c data body)"
proof -
  let ?m = "icmp_message ty code 0 data body" and ?s = "icmp_pseudo_sum"
  obtain a b where ab: "to_be 2 c = [a, b]" "be16 a b = c"
    by (rule to_be_2_bytes)
  have m: "?m = icmpv6_type_byte ty # code # 0 # 0 # data @ body"
    by (simp add: icmp_message_def to_be_def numeral_2_eq_2)
  have len: "length ?m = 8 + length body" "length (icmp_message ty code c data body) = 8 + length body"
    using assms by (simp_all add: icmp_message_def)
  have acc: "unat (sum_chunks (?s ?m src dst) ?m) = pseudo_sum src dst (length ?m) 58 + ones_sum ?m"
    using unat_icmp_pseudo_sum [of ?m src dst] len assms ones_sum_bound [of ?m]
    by (simp add: unat_sum_chunks)
  have "c = NOT (ucast (fold_carry (sum_chunks (?s ?m src dst) ?m)))"
    using assms(3) by (simp add: icmpv6_checksum_def m icmp_sum_skips_checksum)
  moreover have "ones_sum (icmp_message ty code c data body) = ones_sum ?m + unat c"
    by (simp add: icmp_message_def ones_sum_append ones_sum_to_be_u16)
  ultimately show ?thesis
    using complement_fold_mod [of "sum_chunks (?s ?m src dst) ?m"] len
    by (simp add: checksum_ok_def acc ac_simps)
qed

section \<open>Properties\<close>

lemma icmp_packet_fields:
  "length (icmp_packet msg src dst) = 40 + length msg"
  "drop 40 (icmp_packet msg src dst) = msg"
  "packet_src (icmp_packet msg src dst) = src"
  "packet_dst (icmp_packet msg src dst) = dst"
  "icmp_packet msg src dst ! 6 = 58"
  "take 2 (drop 4 (icmp_packet msg src dst)) = to_be 2 (of_nat (length msg) :: u16)"
  by (simp_all add: icmp_packet_def packet_src_def packet_dst_def of_be_to_be nth_append
      numeral_3_eq_3)

lemma icmp_packet_is_error:
  "ty = DestinationUnreachable \<or> ty = PacketTooBig \<Longrightarrow>
   is_icmp_error (icmp_packet (icmp_message ty code c data body) src dst)"
proof -
  assume "ty = DestinationUnreachable \<or> ty = PacketTooBig"
  moreover have "icmp_packet msg src dst ! 40 = msg ! 0" for msg
    by (simp add: icmp_packet_def nth_append numeral_3_eq_3)
  ultimately show ?thesis
    by (auto simp: is_icmp_error_def icmp_packet_fields icmp_consts icmp_message_def)
qed

definition icmp_reply_ok :: "bytes \<Rightarrow> Icmpv6Type \<Rightarrow> bytes \<Rightarrow> 128 word \<Rightarrow> bytes \<Rightarrow> bool" where
  "icmp_reply_ok original ty data our r \<longleftrightarrow>
     length r \<le> 1280 \<and> unat (of_be (take 2 (drop 4 r)) :: u16) = length r - 40
     \<and> packet_src r = our \<and> packet_dst r = packet_src original
     \<and> r ! 40 = icmpv6_type_byte ty \<and> take 4 (drop 44 r) = data
     \<and> drop 48 r = take 1232 original
     \<and> checksum_ok our (packet_src original) 58 (drop 40 r)
     \<and> \<not> should_send_icmp_error r"

lemma icmp_response_ok:
  assumes "length data = 4" and "ty = DestinationUnreachable \<or> ty = PacketTooBig"
  shows "\<exists>r. icmp_response original ty code data our (packet_src original) = Ok r
    \<and> icmp_reply_ok original ty data our r"
proof -
  let ?body = "icmp_body original"
  obtain c where c: "icmp_response original ty code data our (packet_src original)
      = Ok (icmp_packet (icmp_message ty code c data ?body) our (packet_src original))"
    "c = icmpv6_checksum (icmp_message ty code 0 data ?body) our (packet_src original)"
    using icmp_response_layout [OF assms(1)] by blast
  let ?m = "icmp_message ty code c data ?body"
  let ?r = "icmp_packet ?m our (packet_src original)"
  have len: "length ?m = 8 + length ?body" "length ?body \<le> 1232"
    using assms by (simp_all add: icmp_message_def icmp_body_def)
  have "checksum_ok our (packet_src original) 58 ?m"
    using icmp_message_checksum_ok [OF assms(1) _ c(2)] len by simp
  moreover have "drop 44 ?r = data @ ?body" "?r ! 40 = icmpv6_type_byte ty"
    using assms by (simp_all add: icmp_packet_def icmp_message_def nth_append numeral_3_eq_3)
  moreover have "drop 48 ?r = drop 4 (drop 44 ?r)"
    by simp
  moreover have "\<not> should_send_icmp_error ?r"
    using icmp_packet_is_error [OF assms(2)] by (simp add: should_send_icmp_error_def)
  moreover have "unat (of_nat (length ?m) :: u16) = length ?m"
    using len by (simp only: unat_of_nat) simp
  moreover have "take 1232 original = ?body"
    by (simp add: icmp_body_def min_def)
  ultimately show ?thesis
    using c(1) len assms by (simp add: icmp_reply_ok_def icmp_packet_fields of_be_to_be)
qed

text \<open>C29: Every ICMPv6 error the code builds is well formed: no write is out of range, the packet
  stays within the minimum IPv6 MTU and its payload length field matches it, it goes from the own
  address to the source of the offending packet and quotes that packet's first 1232 bytes, its
  checksum over the pseudo-header sums to zero as a receiver requires, and it is itself a packet
  no error may be sent about, so that errors are never answered with errors.\<close>

theorem icmp_errors_well_formed:
  "(\<exists>o1. build_dest_unreachable p code our = Ok o1
      \<and> (case o1 of None \<Rightarrow> length p < 40
         | Some r \<Rightarrow> icmp_reply_ok p DestinationUnreachable [0, 0, 0, 0] our r))
   \<and> (\<exists>o2. build_packet_too_big p mtu our = Ok o2
      \<and> (case o2 of None \<Rightarrow> \<not> (40 \<le> length p \<and> drop_bit 4 (p ! 0) = 6 \<and> packet_src p \<noteq> 0
           \<and> first_octet (packet_src p) \<noteq> 0xff \<and> \<not> is_icmp_error p)
         | Some r \<Rightarrow> icmp_reply_ok p PacketTooBig (to_be 4 mtu) our r))"
proof -
  obtain r1 where "icmp_response p DestinationUnreachable (dest_unreachable_code_byte code)
      [0, 0, 0, 0] our (packet_src p) = Ok r1"
    "icmp_reply_ok p DestinationUnreachable [0, 0, 0, 0] our r1"
    using icmp_response_ok [of "[0, 0, 0, 0]" DestinationUnreachable p] by auto
  moreover obtain r2 where "icmp_response p PacketTooBig 0 (to_be 4 mtu) our (packet_src p) = Ok r2"
    "icmp_reply_ok p PacketTooBig (to_be 4 mtu) our r2"
    using icmp_response_ok [of "to_be 4 mtu" PacketTooBig p] by auto
  ultimately show ?thesis
    by (auto simp: build_dest_unreachable_def build_packet_too_big_def icmp_consts is_unspecified_def)
qed

end
