(* ===== verification/Packet_Buffer.thy ===== *)
theory Packet_Buffer
  imports Fips_Prelude
begin

text \<open>
  The packet buffer of the receive and decrypt paths (\<^verbatim>\<open>transport/packet_channel.rs\<close>, struct
  \<open>PacketBuffer\<close>): a vector whose first \<open>start\<close> bytes are hidden headroom, edited in place with
  unchecked pointer copies into the spare capacity. The model keeps the whole allocation: \<open>pb_mem\<close>
  has the capacity's length, of which the first \<open>pb_used\<close> bytes are initialised. A pointer copy that
  leaves the allocation is \<open>Panic\<close>, like a safe slice operation that is out of range. How much a
  reallocation provides, and what the new spare bytes hold, is the argument \<open>alloc\<close>. The buffer
  is shown to implement a plain byte list, its visible window.
\<close>

section \<open>Model\<close>

record PacketBuffer =
  pb_mem :: bytes
  pb_used :: nat
  pb_start :: nat

definition pb_data :: "PacketBuffer \<Rightarrow> bytes" where
  "pb_data b = take (pb_used b) (pb_mem b)"

definition pb_new :: "bytes \<Rightarrow> PacketBuffer" where
  "pb_new data = \<lparr>pb_mem = data, pb_used = length data, pb_start = 0\<rparr>"

definition as_slice :: "PacketBuffer \<Rightarrow> bytes" where
  "as_slice b = drop (pb_start b) (pb_data b)"

definition pb_len :: "PacketBuffer \<Rightarrow> nat" where
  "pb_len b = pb_used b - pb_start b"

definition pb_is_empty :: "PacketBuffer \<Rightarrow> bool" where
  "pb_is_empty b \<longleftrightarrow> pb_len b = 0"

definition into_vec :: "PacketBuffer \<Rightarrow> bytes" where
  "into_vec b = (if pb_start b > 0 then drop (pb_start b) (pb_data b) else pb_data b)"

definition pb_clone :: "PacketBuffer \<Rightarrow> PacketBuffer" where
  "pb_clone b = pb_new (as_slice b)"

definition pb_eq :: "PacketBuffer \<Rightarrow> PacketBuffer \<Rightarrow> bool" where
  "pb_eq a b \<longleftrightarrow> as_slice a = as_slice b"

definition trim_front :: "PacketBuffer \<Rightarrow> nat \<Rightarrow> PacketBuffer \<times> bool" where
  "trim_front b n = (if n > pb_len b then (b, False) else (b\<lparr>pb_start := pb_start b + n\<rparr>, True))"

definition pb_truncate :: "PacketBuffer \<Rightarrow> nat \<Rightarrow> PacketBuffer" where
  "pb_truncate b n = (if n < pb_len b then b\<lparr>pb_used := pb_start b + n\<rparr> else b)"

text \<open>The vector operations the buffer uses: growing, writing into the initialised part, moving
  bytes inside it, and the two pointer copies.\<close>

definition vec_reserve :: "(nat \<Rightarrow> bytes) \<Rightarrow> PacketBuffer \<Rightarrow> nat \<Rightarrow> PacketBuffer" where
  "vec_reserve alloc b n =
     (if n \<le> length (pb_mem b) - pb_used b then b else b\<lparr>pb_mem := take (pb_used b) (pb_mem b) @ alloc n\<rparr>)"

definition vec_write :: "PacketBuffer \<Rightarrow> nat \<Rightarrow> bytes \<Rightarrow> (unit, PacketBuffer) outcome" where
  "vec_write b i vs =
     (if i + length vs \<le> pb_used b
      then obind (copy_into (pb_mem b) i vs) (\<lambda>m. Ok (b\<lparr>pb_mem := m\<rparr>)) else Panic)"

definition ptr_copy :: "PacketBuffer \<Rightarrow> nat \<Rightarrow> nat \<Rightarrow> nat \<Rightarrow> (unit, PacketBuffer) outcome" where
  "ptr_copy b src dst n =
     obind (slice (pb_mem b) src (src + n)) (\<lambda>bs.
     obind (copy_into (pb_mem b) dst bs) (\<lambda>m. Ok (b\<lparr>pb_mem := m\<rparr>)))"

definition ptr_write :: "PacketBuffer \<Rightarrow> nat \<Rightarrow> bytes \<Rightarrow> (unit, PacketBuffer) outcome" where
  "ptr_write b i vs = obind (copy_into (pb_mem b) i vs) (\<lambda>m. Ok (b\<lparr>pb_mem := m\<rparr>))"

definition vec_copy_within :: "PacketBuffer \<Rightarrow> nat \<Rightarrow> nat \<Rightarrow> nat \<Rightarrow> (unit, PacketBuffer) outcome" where
  "vec_copy_within b src src_end dst =
     (if src \<le> src_end \<and> src_end \<le> pb_used b \<and> dst \<le> pb_used b - (src_end - src)
      then ptr_copy b src dst (src_end - src) else Panic)"

definition pb_extend_from_slice :: "(nat \<Rightarrow> bytes) \<Rightarrow> PacketBuffer \<Rightarrow> bytes \<Rightarrow> (unit, PacketBuffer) outcome" where
  "pb_extend_from_slice alloc b bs =
     (let b = vec_reserve alloc b (length bs) in
      obind (ptr_write b (pb_used b) bs) (\<lambda>b. Ok (b\<lparr>pb_used := pb_used b + length bs\<rparr>)))"

fun write_parts :: "(PacketBuffer \<Rightarrow> nat \<Rightarrow> bytes \<Rightarrow> (unit, PacketBuffer) outcome) \<Rightarrow>
    PacketBuffer \<Rightarrow> nat \<Rightarrow> bytes list \<Rightarrow> (unit, PacketBuffer) outcome" where
  "write_parts write b offset [] = Ok b"
| "write_parts write b offset (part # parts) =
     obind (write b offset part) (\<lambda>b. write_parts write b (offset + length part) parts)"

definition try_prepend_slices ::
  "PacketBuffer \<Rightarrow> bytes list \<Rightarrow> nat \<Rightarrow> (unit, PacketBuffer \<times> bool) outcome" where
  "try_prepend_slices b parts reserve_tail =
     (let prefix_len = sum_list (map length parts); spare = length (pb_mem b) - pb_used b in
      if prefix_len = 0 then Ok (b, spare \<ge> reserve_tail)
      else if pb_start b \<ge> prefix_len \<and> spare \<ge> reserve_tail
      then let new_start = pb_start b - prefix_len in
           obind (write_parts vec_write b new_start parts) (\<lambda>b. Ok (b\<lparr>pb_start := new_start\<rparr>, True))
      else if spare < prefix_len + reserve_tail then Ok (b, False)
      else obind (ptr_copy b (pb_start b) (pb_start b + prefix_len) (pb_len b)) (\<lambda>b.
           obind (write_parts ptr_write b (pb_start b) parts) (\<lambda>b.
           Ok (b\<lparr>pb_used := pb_used b + prefix_len\<rparr>, True))))"

definition replace_visible_prefix ::
  "(nat \<Rightarrow> bytes) \<Rightarrow> PacketBuffer \<Rightarrow> nat \<Rightarrow> bytes \<Rightarrow> (unit, PacketBuffer \<times> bool) outcome" where
  "replace_visible_prefix alloc b remove_len prefix =
     (if remove_len > pb_len b then Ok (b, False)
      else let prefix_len = length prefix; tail_len = pb_len b - remove_len in
        if prefix_len \<ge> remove_len
        then let grow = prefix_len - remove_len in
          if grow > 0 \<and> pb_start b \<ge> grow
          then let new_start = pb_start b - grow in
            obind (vec_write b new_start prefix) (\<lambda>b. Ok (b\<lparr>pb_start := new_start\<rparr>, True))
          else
            obind (if grow > 0
              then let b = vec_reserve alloc b grow in
                   obind (ptr_copy b (pb_start b + remove_len) (pb_start b + prefix_len) tail_len)
                     (\<lambda>b. Ok (b\<lparr>pb_used := pb_used b + grow\<rparr>))
              else Ok b) (\<lambda>b.
            obind (vec_write b (pb_start b) prefix) (\<lambda>b. Ok (b, True)))
        else let shrink = remove_len - prefix_len in
          obind (if tail_len > 0
            then vec_copy_within b (pb_start b + remove_len) (pb_start b + remove_len + tail_len)
              (pb_start b + prefix_len)
            else Ok b) (\<lambda>b.
          let b = b\<lparr>pb_used := pb_used b - shrink\<rparr> in
          obind (vec_write b (pb_start b) prefix) (\<lambda>b. Ok (b, True))))"

definition pb_inv :: "PacketBuffer \<Rightarrow> bool" where
  "pb_inv b \<longleftrightarrow> pb_start b \<le> pb_used b \<and> pb_used b \<le> length (pb_mem b)"

section \<open>Writes on a split allocation\<close>

text \<open>Every buffer is \<open>hidden @ visible @ spare\<close>; the operations are computed on that shape.\<close>

definition pb_of :: "bytes \<Rightarrow> bytes \<Rightarrow> bytes \<Rightarrow> PacketBuffer" where
  "pb_of hidden vis spare =
     \<lparr>pb_mem = hidden @ vis @ spare, pb_used = length hidden + length vis, pb_start = length hidden\<rparr>"

lemma pb_of_cases:
  assumes "pb_inv b"
  obtains hidden spare where "b = pb_of hidden (as_slice b) spare"
proof
  show "b = pb_of (take (pb_start b) (pb_mem b)) (as_slice b) (drop (pb_used b) (pb_mem b))"
    using assms by (cases b) (auto simp: pb_of_def pb_inv_def as_slice_def pb_data_def drop_take
        min_def take_add [symmetric] simp flip: append_assoc)
qed

lemma pb_of_simps [simp]:
  "pb_mem (pb_of h v s) = h @ v @ s" "pb_used (pb_of h v s) = length h + length v"
  "pb_start (pb_of h v s) = length h" "pb_len (pb_of h v s) = length v"
  "as_slice (pb_of h v s) = v" "pb_inv (pb_of h v s)" "pb_data (pb_of h v s) = h @ v"
  by (simp_all add: pb_of_def pb_len_def as_slice_def pb_data_def pb_inv_def)

lemma vec_reserve_pb_of:
  assumes "n \<le> length (alloc n)"
  obtains spare where "vec_reserve alloc (pb_of h v s) n = pb_of h v spare" and "n \<le> length spare"
proof (cases "n \<le> length s")
  case True
  then show ?thesis
    using that [of s] by (simp add: vec_reserve_def)
next
  case False
  then show ?thesis
    using that [of "alloc n"] assms by (simp add: vec_reserve_def)
qed

lemma copy_into_mid:
  "length xs = length vs \<Longrightarrow> copy_into (h @ xs @ t) (length h) vs = Ok (h @ vs @ t)"
  by (simp add: copy_into_def)

lemma split_at:
  assumes "n \<le> length xs"
  obtains a b where "xs = a @ b" and "length a = n"
  using assms that [of "take n xs" "drop n xs"] by simp

lemma split_at_end:
  assumes "n \<le> length xs"
  obtains a b where "xs = a @ b" and "length b = n"
  using assms that [of "take (length xs - n) xs" "drop (length xs - n) xs"] by simp

lemma replace_in_headroom:
  assumes "length h2 + length v1 = length prefix" and "h2 \<noteq> []"
  shows "replace_visible_prefix alloc (pb_of (h1 @ h2) (v1 @ v2) s) (length v1) prefix
    = Ok (pb_of h1 (prefix @ v2) s, True)"
proof -
  have "copy_into (h1 @ (h2 @ v1) @ v2 @ s) (length h1) prefix
      = (Ok (h1 @ prefix @ v2 @ s) :: (unit, bytes) outcome)"
    using assms by (intro copy_into_mid) simp
  moreover have "length prefix - length v1 = length h2" "0 < length h2"
    using assms by auto
  ultimately show ?thesis
    using assms(1) by (simp add: replace_visible_prefix_def vec_write_def)
qed

lemma replace_same_length:
  assumes "length v1 = length prefix"
  shows "replace_visible_prefix alloc (pb_of h (v1 @ v2) s) (length v1) prefix
    = Ok (pb_of h (prefix @ v2) s, True)"
  using assms copy_into_mid [of v1 prefix h "v2 @ s", where ?'b = unit]
  by (simp add: replace_visible_prefix_def vec_write_def)

lemma replace_growing:
  assumes "length v1 < length prefix" and "length h < length prefix - length v1"
    and res: "vec_reserve alloc (pb_of h (v1 @ v2) s) (length prefix - length v1) = pb_of h (v1 @ v2) (s1 @ s2)"
    and s1: "length s1 = length prefix - length v1"
  shows "replace_visible_prefix alloc (pb_of h (v1 @ v2) s) (length v1) prefix
    = Ok (pb_of h (prefix @ v2) s2, True)"
proof -
  let ?k = "length prefix"
  define gap where "gap = take ?k (v1 @ v2 @ s1)"
  have gap: "length gap = ?k"
    using assms by (simp add: gap_def)
  have "copy_into (h @ v1 @ v2 @ s1 @ s2) (length h + ?k) v2
      = (Ok (h @ gap @ v2 @ s2) :: (unit, bytes) outcome)"
    using assms by (simp add: copy_into_def gap_def)
  moreover have "copy_into (h @ gap @ v2 @ s2) (length h) prefix
      = (Ok (h @ prefix @ v2 @ s2) :: (unit, bytes) outcome)"
    by (rule copy_into_mid) (rule gap)
  ultimately show ?thesis
    using assms by (simp add: replace_visible_prefix_def Let_def res ptr_copy_def vec_write_def
        slice_def)
qed

lemma replace_shrinking:
  assumes "length prefix < length v1"
  shows "\<exists>s'. replace_visible_prefix alloc (pb_of h (v1 @ v2) s) (length v1) prefix
    = Ok (pb_of h (prefix @ v2) s', True)"
proof -
  obtain v11 v12 where v1: "v1 = v11 @ v12" "length v11 = length prefix"
    by (rule split_at [of "length prefix" v1]) (use assms in simp)
  let ?rest = "drop (length v2) (v12 @ v2 @ s)"
  have "copy_into (h @ v11 @ v12 @ v2 @ s) (length h + length v11) v2
      = (Ok (h @ v11 @ v2 @ ?rest) :: (unit, bytes) outcome)"
    by (simp add: copy_into_def)
  moreover have "copy_into (h @ v11 @ v2 @ ?rest) (length h) prefix
      = (Ok (h @ prefix @ v2 @ ?rest) :: (unit, bytes) outcome)"
    by (rule copy_into_mid) (simp add: v1)
  moreover have "copy_into (h @ v11 @ v12 @ s) (length h) prefix
      = (Ok (h @ prefix @ v12 @ s) :: (unit, bytes) outcome)"
    by (rule copy_into_mid) (simp add: v1)
  ultimately show ?thesis
    using assms v1(2) unfolding v1(1)
    by (cases "v2 = []") (auto simp: replace_visible_prefix_def vec_copy_within_def ptr_copy_def
        vec_write_def slice_def Let_def pb_of_def pb_len_def)
qed

lemma replace_visible_prefix_exact:
  assumes "pb_inv b" and "\<And>n. n \<le> length (alloc n)" and "n \<le> length (as_slice b)"
  shows "\<exists>b'. replace_visible_prefix alloc b n prefix = Ok (b', True)
    \<and> pb_inv b' \<and> as_slice b' = prefix @ drop n (as_slice b)"
proof -
  obtain h v s where b: "b = pb_of h v s"
    using pb_of_cases [OF assms(1)] by metis
  obtain v1 v2 where v: "v = v1 @ v2" "length v1 = n"
    by (rule split_at [of n v]) (use assms(3) b in simp)
  let ?g = "length prefix - n"
  consider "length prefix < n" | "length prefix = n" | "n < length prefix" "?g \<le> length h"
    | "n < length prefix" "length h < ?g" by linarith
  hence "\<exists>h' s'. replace_visible_prefix alloc b n prefix = Ok (pb_of h' (prefix @ v2) s', True)"
  proof cases
    case 1
    then show ?thesis
      using replace_shrinking [of prefix v1] b v by blast
  next
    case 2
    then show ?thesis
      using replace_same_length [of v1 prefix] b v by metis
  next
    case 3
    obtain h1 h2 where hh: "h = h1 @ h2" "length h2 = ?g"
      by (rule split_at_end [OF 3(2)])
    hence "length h2 + length v1 = length prefix" "h2 \<noteq> []"
      using 3 v by (simp_all flip: length_greater_0_conv)
    from replace_in_headroom [OF this, of alloc h1 v2 s] show ?thesis
      unfolding b hh v(1) v(2) [symmetric] by blast
  next
    case 4
    obtain sp where sp: "vec_reserve alloc (pb_of h v s) ?g = pb_of h v sp" "?g \<le> length sp"
      by (rule vec_reserve_pb_of [OF assms(2)])
    obtain s1 s2 where "sp = s1 @ s2" "length s1 = ?g"
      by (rule split_at [OF sp(2)])
    then show ?thesis
      using replace_growing [of v1 prefix h alloc v2 s s1 s2] b v 4 sp by metis
  qed
  thus ?thesis
    using b v by auto
qed

lemma replace_visible_prefix_refused:
  "n > length (as_slice b) \<Longrightarrow> pb_inv b \<Longrightarrow> replace_visible_prefix alloc b n prefix = Ok (b, False)"
  by (auto simp: replace_visible_prefix_def pb_len_def as_slice_def pb_data_def pb_inv_def)

section \<open>Prepending\<close>

lemma write_parts_mid:
  assumes "\<And>h xs vs t. length xs = length vs \<Longrightarrow> length h + length vs \<le> L
      \<Longrightarrow> write (b\<lparr>pb_mem := h @ xs @ t\<rparr>) (length h) vs = Ok (b\<lparr>pb_mem := h @ vs @ t\<rparr>)"
    and "length xs = sum_list (map length parts)" and "length h + length xs \<le> L"
  shows "write_parts write (b\<lparr>pb_mem := h @ xs @ t\<rparr>) (length h) parts
    = Ok (b\<lparr>pb_mem := h @ concat parts @ t\<rparr>)"
  using assms(2,3)
proof (induction parts arbitrary: h xs)
  case (Cons part parts)
  obtain x1 x2 where x: "xs = x1 @ x2" "length x1 = length part"
    by (rule split_at [of "length part" xs]) (use Cons.prems in simp)
  have "write (b\<lparr>pb_mem := h @ x1 @ x2 @ t\<rparr>) (length h) part = Ok (b\<lparr>pb_mem := h @ part @ x2 @ t\<rparr>)"
    using assms(1) [of x1 part h "x2 @ t"] Cons.prems x by simp
  then show ?case
    using Cons.IH [of x2 "h @ part"] Cons.prems x by simp
qed simp

lemma try_prepend_slices_exact:
  assumes "pb_inv b"
  shows "\<exists>b' r. try_prepend_slices b parts tail = Ok (b', r) \<and> pb_inv b'
    \<and> as_slice b' = (if r then concat parts @ as_slice b else as_slice b)"
proof -
  obtain h v s where b: "b = pb_of h v s"
    using pb_of_cases [OF assms] by metis
  let ?k = "sum_list (map length parts)"
  have k: "length (concat parts) = ?k"
    by (simp add: length_concat)
  consider "?k = 0" | "0 < ?k" "?k \<le> length h" "tail \<le> length s"
    | "0 < ?k" "\<not> (?k \<le> length h \<and> tail \<le> length s)" "length s < ?k + tail"
    | "0 < ?k" "\<not> (?k \<le> length h \<and> tail \<le> length s)" "?k + tail \<le> length s" by linarith
  then show ?thesis
  proof cases
    case 1
    then show ?thesis
      using b k by (simp add: try_prepend_slices_def)
  next
    case 2
    obtain h1 h2 where h: "h = h1 @ h2" "length h2 = ?k"
      by (rule split_at_end [OF 2(2)])
    have "write_parts vec_write (b\<lparr>pb_mem := h1 @ h2 @ v @ s\<rparr>) (length h1) parts
        = Ok (b\<lparr>pb_mem := h1 @ concat parts @ v @ s\<rparr>)"
      using h 2 b by (intro write_parts_mid [where L = "pb_used b"]) (auto simp: vec_write_def copy_into_mid)
    hence "try_prepend_slices b parts tail = Ok (pb_of h1 (concat parts @ v) s, True)"
      using h 2 b k by (simp add: try_prepend_slices_def Let_def pb_of_def length_concat
          del: sum_list_eq_0_iff)
    then show ?thesis
      using b by (auto intro!: exI [of _ True])
  next
    case 3
    hence "try_prepend_slices b parts tail = Ok (b, False)"
      using b by (auto simp: try_prepend_slices_def Let_def simp del: sum_list_eq_0_iff)
    then show ?thesis
      using assms by (simp add: exI [of _ False])
  next
    case 4
    obtain s1 s2 where s: "s = s1 @ s2" "length s1 = ?k"
      by (rule split_at [of ?k s]) (use 4 in simp)
    define gap where "gap = take ?k (v @ s1)"
    have gap: "length gap = ?k"
      using s by (simp add: gap_def)
    have "copy_into (h @ v @ s1 @ s2) (length h + ?k) v
        = (Ok (h @ gap @ v @ s2) :: (unit, bytes) outcome)"
      using s by (simp add: copy_into_def gap_def)
    hence "ptr_copy b (length h) (length h + ?k) (length v) = Ok (b\<lparr>pb_mem := h @ gap @ v @ s2\<rparr>)"
      using b s by (simp add: ptr_copy_def slice_def)
    moreover have "write_parts ptr_write (b\<lparr>pb_mem := h @ gap @ v @ s2\<rparr>) (length h) parts
        = Ok (b\<lparr>pb_mem := h @ concat parts @ v @ s2\<rparr>)"
      using gap by (intro write_parts_mid [where L = "length h + ?k"]) (auto simp: ptr_write_def copy_into_mid)
    ultimately have "try_prepend_slices b parts tail = Ok (pb_of h (concat parts @ v) s2, True)"
      using s 4 b k by (auto simp: try_prepend_slices_def Let_def pb_of_def pb_len_def length_concat
          simp del: sum_list_eq_0_iff)
    then show ?thesis
      using b by (auto intro!: exI [of _ True])
  qed
qed

section \<open>The visible window as a byte list\<close>

datatype pb_op = TrimFront nat | Truncate nat | Extend bytes | Prepend "bytes list" nat
  | ReplacePrefix nat bytes

fun pb_step :: "(nat \<Rightarrow> bytes) \<Rightarrow> PacketBuffer \<Rightarrow> pb_op \<Rightarrow> (unit, PacketBuffer \<times> bool) outcome" where
  "pb_step alloc b (TrimFront n) = Ok (trim_front b n)"
| "pb_step alloc b (Truncate n) = Ok (pb_truncate b n, True)"
| "pb_step alloc b (Extend bs) = obind (pb_extend_from_slice alloc b bs) (\<lambda>b. Ok (b, True))"
| "pb_step alloc b (Prepend parts tail) = try_prepend_slices b parts tail"
| "pb_step alloc b (ReplacePrefix n prefix) = replace_visible_prefix alloc b n prefix"

fun view_step :: "bytes \<Rightarrow> pb_op \<Rightarrow> bool \<Rightarrow> bytes" where
  "view_step v op False = v"
| "view_step v (TrimFront n) True = drop n v"
| "view_step v (Truncate n) True = take n v"
| "view_step v (Extend bs) True = v @ bs"
| "view_step v (Prepend parts tail) True = concat parts @ v"
| "view_step v (ReplacePrefix n prefix) True = prefix @ drop n v"

fun accepts :: "bytes \<Rightarrow> pb_op \<Rightarrow> bool option" where
  "accepts v (TrimFront n) = Some (n \<le> length v)"
| "accepts v (ReplacePrefix n prefix) = Some (n \<le> length v)"
| "accepts v (Prepend parts tail) = None"
| "accepts v op = Some True"

lemma extend_exact:
  assumes "pb_inv b" and "\<And>n. n \<le> length (alloc n)"
  shows "\<exists>b'. pb_extend_from_slice alloc b bs = Ok b' \<and> pb_inv b' \<and> as_slice b' = as_slice b @ bs"
proof -
  obtain h v s where b: "b = pb_of h v s"
    using pb_of_cases [OF assms(1)] by metis
  obtain sp where sp: "vec_reserve alloc (pb_of h v s) (length bs) = pb_of h v sp" "length bs \<le> length sp"
    by (rule vec_reserve_pb_of [OF assms(2)])
  obtain s1 s2 where s: "sp = s1 @ s2" "length s1 = length bs"
    by (rule split_at [OF sp(2)])
  have "copy_into (h @ v @ s1 @ s2) (length h + length v) bs
      = (Ok (h @ v @ bs @ s2) :: (unit, bytes) outcome)"
    using s by (simp add: copy_into_def)
  hence "pb_extend_from_slice alloc b bs = Ok (pb_of h (v @ bs) s2)"
    using b sp s by (simp add: pb_extend_from_slice_def ptr_write_def Let_def)
  thus ?thesis
    using b by simp
qed

lemma pb_step_exact:
  assumes "pb_inv b" and "\<And>n. n \<le> length (alloc n)"
  shows "\<exists>b' r. pb_step alloc b op = Ok (b', r) \<and> pb_inv b'
    \<and> as_slice b' = view_step (as_slice b) op r
    \<and> (accepts (as_slice b) op = None \<or> accepts (as_slice b) op = Some r)"
proof (cases op)
  case (TrimFront n)
  then show ?thesis
    using assms by (auto simp: trim_front_def pb_len_def pb_inv_def as_slice_def pb_data_def add.commute)
next
  case (Truncate n)
  then show ?thesis
    using assms by (auto simp: pb_truncate_def pb_len_def pb_inv_def as_slice_def pb_data_def drop_take
        min_def)
next
  case (Extend bs)
  then show ?thesis
    using extend_exact [OF assms, of bs] by (auto intro!: exI [of _ True])
next
  case (Prepend parts tail)
  then show ?thesis
    using try_prepend_slices_exact [OF assms(1), of parts tail] by (fastforce split: if_splits)
next
  case (ReplacePrefix n prefix)
  show ?thesis
  proof (cases "n \<le> length (as_slice b)")
    case True
    then show ?thesis
      using replace_visible_prefix_exact [OF assms True, of prefix] ReplacePrefix
      by (auto intro!: exI [of _ True])
  next
    case False
    then show ?thesis
      using replace_visible_prefix_refused [of b n alloc prefix] assms(1) ReplacePrefix
      by (auto intro!: exI [of _ False])
  qed
qed

fun pb_run :: "(nat \<Rightarrow> bytes) \<Rightarrow> PacketBuffer \<Rightarrow> pb_op list \<Rightarrow> (unit, PacketBuffer \<times> bool list) outcome" where
  "pb_run alloc b [] = Ok (b, [])"
| "pb_run alloc b (op # ops) =
     obind (pb_step alloc b op) (\<lambda>(b, r). obind (pb_run alloc b ops) (\<lambda>(b, rs). Ok (b, r # rs)))"

fun view_run :: "bytes \<Rightarrow> (pb_op \<times> bool) list \<Rightarrow> bytes" where
  "view_run v [] = v"
| "view_run v ((op, r) # ops) = view_run (view_step v op r) ops"

section \<open>Properties\<close>

text \<open>C25: A packet buffer implements its visible bytes: over every sequence of trims, truncations,
  extensions, prepends and prefix replacements, whatever the spare capacity, no slice operation
  and no unchecked pointer copy leaves the initialised range or the allocation, and the visible
  bytes at the end are those of the same operations on a plain byte list, with the refused ones
  leaving it unchanged.\<close>

theorem packet_buffer_refines_bytes:
  assumes "pb_inv b" and "\<And>n. n \<le> length (alloc n)"
  shows "\<exists>b' rs. pb_run alloc b ops = Ok (b', rs) \<and> length rs = length ops
    \<and> as_slice b' = view_run (as_slice b) (zip ops rs) \<and> pb_inv b'"
  using assms(1)
proof (induction ops arbitrary: b)
  case (Cons op ops)
  obtain b1 r where "pb_step alloc b op = Ok (b1, r)" "pb_inv b1"
    "as_slice b1 = view_step (as_slice b) op r"
    using pb_step_exact [OF Cons.prems assms(2), of op] by blast
  thus ?case
    using Cons.IH [of b1] by fastforce
qed simp

theorem packet_buffer_refines_bytes_witness:
  "\<exists>b' rs. pb_run (\<lambda>n. replicate n 0) (pb_new [1, 2, 3, 4])
      [TrimFront 1, ReplacePrefix 1 [7, 8, 9], Prepend [[5], [6]] 0, Truncate 4] = Ok (b', rs)
    \<and> length rs = 4"
proof -
  let ?ops = "[TrimFront 1, ReplacePrefix 1 [7, 8, 9], Prepend [[5], [6]] 0, Truncate 4]"
  have "pb_inv (pb_new [1, 2, 3, 4])"
    by (simp add: pb_inv_def pb_new_def)
  from packet_buffer_refines_bytes [OF this, of "\<lambda>n. replicate n 0" ?ops]
  obtain b' rs where "pb_run (\<lambda>n. replicate n 0) (pb_new [1, 2, 3, 4]) ?ops = Ok (b', rs)"
    and "length rs = length ?ops"
    by (metis length_replicate order_refl)
  thus ?thesis
    by (intro exI conjI) (assumption, simp)
qed

end
