(* ===== verification/Ipv6_Shim.thy ===== *)
theory Ipv6_Shim
  imports Packet_Buffer Inet_Checksum
begin

unbundle bit_operations_syntax

text \<open>
  IPv6 header compression for the shim port (\<^verbatim>\<open>upper/ipv6_shim.rs\<close>): the allocating
  compressor and decompressor, the in-place compressor that also writes the port header, and the
  decompressor that rewrites a packet buffer.
\<close>

section \<open>Model\<close>

definition IPV6_SHIM_FORMAT_COMPRESSED :: u8 where "IPV6_SHIM_FORMAT_COMPRESSED = 0x00"
definition IPV6_SHIM_RESIDUAL_SIZE :: nat where "IPV6_SHIM_RESIDUAL_SIZE = 6"
definition IPV6_HEADER_SIZE :: nat where "IPV6_HEADER_SIZE = 40"
definition PORT_HEADER_SIZE :: nat where "PORT_HEADER_SIZE = 4"

lemmas shim_consts = IPV6_SHIM_FORMAT_COMPRESSED_def IPV6_SHIM_RESIDUAL_SIZE_def
  IPV6_HEADER_SIZE_def PORT_HEADER_SIZE_def

definition compress_ipv6 :: "bytes \<Rightarrow> bytes option" where
  "compress_ipv6 ipv6_packet =
     (if length ipv6_packet < IPV6_HEADER_SIZE \<or> drop_bit 4 (ipv6_packet ! 0) \<noteq> 6 then None
      else Some ([IPV6_SHIM_FORMAT_COMPRESSED] @ take 4 ipv6_packet
        @ [ipv6_packet ! 6] @ [ipv6_packet ! 7] @ drop IPV6_HEADER_SIZE ipv6_packet))"

definition compress_ipv6_with_port_header_in_place ::
  "bytes \<Rightarrow> u16 \<Rightarrow> u16 \<Rightarrow> (unit, bytes \<times> bool) outcome" where
  "compress_ipv6_with_port_header_in_place packet src_port dst_port =
     (if length packet < IPV6_HEADER_SIZE \<or> drop_bit 4 (packet ! 0) \<noteq> 6 then Ok (packet, False)
      else let residual_0_3 = [packet ! 0, packet ! 1, packet ! 2, packet ! 3];
               next_header = packet ! 6;
               hop_limit = packet ! 7;
               upper_payload_len = length packet - IPV6_HEADER_SIZE;
               compressed_len = PORT_HEADER_SIZE + 1 + IPV6_SHIM_RESIDUAL_SIZE + upper_payload_len
        in obind (copy_into packet 0 (to_le 2 src_port)) (\<lambda>p.
           obind (copy_into p 2 (to_le 2 dst_port)) (\<lambda>p.
           obind (store_at p 4 IPV6_SHIM_FORMAT_COMPRESSED) (\<lambda>p.
           obind (copy_into p 5 residual_0_3) (\<lambda>p.
           obind (store_at p 9 next_header) (\<lambda>p.
           obind (store_at p 10 hop_limit) (\<lambda>p.
           obind (slice_from p IPV6_HEADER_SIZE) (\<lambda>upper.
           obind (copy_into p (PORT_HEADER_SIZE + 1 + IPV6_SHIM_RESIDUAL_SIZE) upper) (\<lambda>p.
           Ok (take compressed_len p, True))))))))))"

definition shim_header :: "bytes \<Rightarrow> u16 \<Rightarrow> bytes \<Rightarrow> bytes \<Rightarrow> bytes" where
  "shim_header residual upper_len src_ipv6 dst_ipv6 =
     [(residual ! 0 AND 0x0F) OR 0x60] @ take 3 (drop 1 residual) @ to_be 2 upper_len
     @ [residual ! 4] @ [residual ! 5] @ src_ipv6 @ dst_ipv6"

definition decompress_ipv6 :: "bytes \<Rightarrow> bytes \<Rightarrow> bytes \<Rightarrow> bytes option" where
  "decompress_ipv6 shim_payload src_ipv6 dst_ipv6 =
     (if length shim_payload < 1 + IPV6_SHIM_RESIDUAL_SIZE then None
      else if shim_payload ! 0 \<noteq> IPV6_SHIM_FORMAT_COMPRESSED then None
      else let residual = take IPV6_SHIM_RESIDUAL_SIZE (drop 1 shim_payload);
               upper_payload = drop (1 + IPV6_SHIM_RESIDUAL_SIZE) shim_payload
        in Some (shim_header residual (of_nat (length upper_payload)) src_ipv6 dst_ipv6
                 @ upper_payload))"

definition decompress_ipv6_packet_buffer ::
  "(nat \<Rightarrow> bytes) \<Rightarrow> PacketBuffer \<Rightarrow> nat \<Rightarrow> bytes \<Rightarrow> bytes \<Rightarrow> (unit, PacketBuffer \<times> bool) outcome" where
  "decompress_ipv6_packet_buffer alloc packet shim_offset src_ipv6 dst_ipv6 =
     (let prefix_len = shim_offset + (1 + IPV6_SHIM_RESIDUAL_SIZE) in
      if pb_len packet < prefix_len then Ok (packet, False)
      else let visible = as_slice packet in
        if visible ! shim_offset \<noteq> IPV6_SHIM_FORMAT_COMPRESSED then Ok (packet, False)
        else let residual = take IPV6_SHIM_RESIDUAL_SIZE (drop (shim_offset + 1) visible);
                 upper_len = length visible - prefix_len in
          if upper_len \<ge> 2 ^ 16 then Ok (packet, False)
          else replace_visible_prefix alloc packet prefix_len
            (shim_header residual (of_nat upper_len) src_ipv6 dst_ipv6))"

section \<open>Round trip\<close>

lemma version_nibble: "drop_bit 4 (w :: u8) = 6 \<Longrightarrow> (w AND 0x0F) OR 0x60 = w"
proof (rule bit_word_eqI)
  fix n
  assume w: "drop_bit 4 w = 6" and "n < LENGTH(8)"
  hence "n \<in> {0, 1, 2, 3, 4, 5, 6, 7}"
    by auto
  moreover have "bit w (4 + k) = bit (6 :: u8) k" for k
    using w by (metis bit_drop_bit_eq comp_apply)
  from this [of 0] this [of 1] this [of 2] this [of 3]
  have "\<not> bit w 4" "bit w 5" "bit w 6" "\<not> bit w 7"
    by (simp_all add: bit_numeral_word_iff)
  ultimately show "bit ((w AND 0x0F) OR 0x60) n = bit w n"
    by (auto simp: bit_or_iff bit_and_iff)
qed

lemma ipv6_split:
  assumes "40 \<le> length p"
  shows "p = take 4 p @ take 2 (drop 4 p) @ [p ! 6] @ [p ! 7] @ take 16 (drop 8 p)
    @ take 16 (drop 24 p) @ drop 40 p"
proof -
  have "take 40 p = take 4 p @ take 2 (drop 4 p) @ take 2 (drop 6 p)
      @ take 16 (drop 8 p) @ take 16 (drop 24 p)"
    using take_add [of 4 36 p] take_add [of 2 34 "drop 4 p"] take_add [of 2 32 "drop 6 p"]
      take_add [of 16 16 "drop 8 p"] by simp
  moreover have "drop 6 p = p ! 6 # p ! 7 # drop 8 p"
    using assms Cons_nth_drop_Suc [of 6 p] Cons_nth_drop_Suc [of 7 p] by simp
  ultimately have "take 40 p = take 4 p @ take 2 (drop 4 p) @ [p ! 6] @ [p ! 7]
      @ take 16 (drop 8 p) @ take 16 (drop 24 p)"
    by simp
  thus ?thesis
    using append_take_drop_id [of 40 p] by simp
qed

definition with_header :: "bytes \<Rightarrow> bytes \<Rightarrow> bytes \<Rightarrow> bytes" where
  "with_header p src dst =
     take 4 p @ to_be 2 (of_nat (length p - 40) :: u16) @ [p ! 6] @ [p ! 7] @ src @ dst @ drop 40 p"

lemma with_header_eq:
  assumes "40 \<le> length p" and "length src = 16" and "length dst = 16"
  shows "with_header p src dst = p \<longleftrightarrow>
    take 2 (drop 4 p) = to_be 2 (of_nat (length p - 40) :: u16)
    \<and> src = take 16 (drop 8 p) \<and> dst = take 16 (drop 24 p)"
proof -
  have "with_header p src dst = p \<longleftrightarrow> with_header p src dst =
      take 4 p @ take 2 (drop 4 p) @ [p ! 6] @ [p ! 7] @ take 16 (drop 8 p)
      @ take 16 (drop 24 p) @ drop 40 p"
    using ipv6_split [OF assms(1)] by simp
  thus ?thesis
    using assms by (auto simp: with_header_def append_eq_append_conv)
qed

lemma shim_header_residual:
  assumes "40 \<le> length p" and "drop_bit 4 (p ! 0) = 6"
  shows "shim_header (take 4 p @ [p ! 6] @ [p ! 7]) n src dst
    = take 4 p @ to_be 2 n @ [p ! 6] @ [p ! 7] @ src @ dst"
proof -
  have "take 4 p = p ! 0 # take 3 (drop 1 p)"
    using assms Cons_nth_drop_Suc [of 0 p] by (cases p) simp_all
  thus ?thesis
    using assms by (simp add: shim_header_def version_nibble nth_append)
qed

lemma compress_Some:
  "compress_ipv6 p = Some z \<longleftrightarrow> 40 \<le> length p \<and> drop_bit 4 (p ! 0) = 6
   \<and> z = 0 # (take 4 p @ [p ! 6] @ [p ! 7]) @ drop 40 p"
  by (auto simp: compress_ipv6_def shim_consts)

lemma decompress_compress:
  assumes "compress_ipv6 p = Some z"
  shows "decompress_ipv6 z src dst = Some (with_header p src dst)"
  using assms by (auto simp: compress_Some decompress_ipv6_def shim_consts
      shim_header_residual [simplified] with_header_def)

lemma ipv6_split_writes:
  assumes "40 \<le> length p"
  obtains a b c d e f m where "p = a @ b @ c @ d @ e @ f @ m @ drop 40 p"
    and "length a = 2" "length b = 2" "length c = 1" "length d = 4" "length e = 1" "length f = 1"
    and "length m = 29"
proof
  show "p = take 2 p @ take 2 (drop 2 p) @ take 1 (drop 4 p) @ take 4 (drop 5 p) @ take 1 (drop 9 p)
    @ take 1 (drop 10 p) @ take 29 (drop 11 p) @ drop 40 p"
    using take_add [of 2 38 p] take_add [of 2 36 "drop 2 p"] take_add [of 1 35 "drop 4 p"]
      take_add [of 4 31 "drop 5 p"] take_add [of 1 30 "drop 9 p"] take_add [of 1 29 "drop 10 p"]
      append_take_drop_id [of 40 p] by simp
qed (use assms in simp_all)

lemma in_place_writes:
  fixes a b c d e f m u :: bytes
  assumes "length a = 2" "length b = 2" "length c = 1" "length d = 4" "length e = 1" "length f = 1"
    "length m = 29" "length sp = 2" "length dp = 2" "length r = 4"
  shows "obind (copy_into (a @ b @ c @ d @ e @ f @ m @ u) 0 sp) (\<lambda>p.
    obind (copy_into p 2 dp) (\<lambda>p. obind (store_at p 4 fmt) (\<lambda>p. obind (copy_into p 5 r) (\<lambda>p.
    obind (store_at p 9 nh) (\<lambda>p. obind (store_at p 10 hl) (\<lambda>p. obind (slice_from p 40) (\<lambda>upper.
    obind (copy_into p 11 upper) (\<lambda>p. Ok (take (11 + length u) p, True)))))))))
    = (Ok (sp @ dp @ [fmt] @ r @ [nh] @ [hl] @ u, True) :: (unit, bytes \<times> bool) outcome)"
proof -
  define rest where "rest = drop (length u) (m @ u)"
  have "copy_into (m @ u) 0 u = (Ok (u @ rest) :: (unit, bytes) outcome)"
    by (simp add: copy_into_def rest_def)
  thus ?thesis
    using assms by (simp add: store_at_copy copy_into_skip copy_into_here slice_from_def
        del: append_Cons)
qed

lemma in_place_equals_compress:
  "compress_ipv6_with_port_header_in_place p sp dp =
     Ok (case compress_ipv6 p of None \<Rightarrow> (p, False)
         | Some z \<Rightarrow> (to_le 2 sp @ to_le 2 dp @ z, True))"
proof (cases "40 \<le> length p \<and> drop_bit 4 (p ! 0) = 6")
  case True
  hence "40 \<le> length p" ..
  then obtain a b c d e f m where s: "p = a @ b @ c @ d @ e @ f @ m @ drop 40 p"
    and l: "length a = 2" "length b = 2" "length c = 1" "length d = 4" "length e = 1" "length f = 1"
      "length m = 29"
    by (rule ipv6_split_writes)
  have t: "take 4 p = [p ! 0, p ! 1, p ! 2, p ! 3]"
    using True by (simp add: list_eq_iff_nth_eq less_Suc_eq numeral_eq_Suc)
  have "compress_ipv6_with_port_header_in_place p sp dp =
      Ok (to_le 2 sp @ to_le 2 dp @ [0] @ [p ! 0, p ! 1, p ! 2, p ! 3] @ [p ! 6] @ [p ! 7] @ drop 40 p, True)"
    using True in_place_writes [OF l, of "to_le 2 sp" "to_le 2 dp" "[p ! 0, p ! 1, p ! 2, p ! 3]"
        "drop 40 p" 0 "p ! 6" "p ! 7"]
    unfolding s [symmetric] compress_ipv6_with_port_header_in_place_def
    by (simp add: shim_consts Let_def)
  thus ?thesis
    using True t by (simp add: compress_ipv6_def shim_consts)
next
  case False
  then show ?thesis
    by (auto simp: compress_ipv6_with_port_header_in_place_def compress_ipv6_def shim_consts)
qed

section \<open>Decompression in a packet buffer\<close>

lemma pb_len_as_slice: "pb_inv b \<Longrightarrow> pb_len b = length (as_slice b)"
  by (simp add: pb_inv_def pb_len_def as_slice_def pb_data_def)

lemma buffer_decompress:
  assumes "pb_inv b" and "\<And>n. n \<le> length (alloc n)"
    and "decompress_ipv6 (drop off (as_slice b)) src dst = Some q"
    and "length (as_slice b) < off + 7 + 65536"
  shows "\<exists>b'. decompress_ipv6_packet_buffer alloc b off src dst = Ok (b', True)
    \<and> pb_inv b' \<and> as_slice b' = q"
proof -
  let ?v = "as_slice b"
  have q: "off + 7 \<le> length ?v" "?v ! off = 0"
    "q = shim_header (take 6 (drop (off + 1) ?v)) (of_nat (length ?v - (off + 7))) src dst
       @ drop (off + 7) ?v"
    using assms(3) by (auto simp: decompress_ipv6_def shim_consts Let_def add.commute algebra_simps
        split: if_splits)
  have small: "\<not> 65536 \<le> length ?v - (off + 7)"
    using assms(4) by linarith
  have "decompress_ipv6_packet_buffer alloc b off src dst = replace_visible_prefix alloc b (off + 7)
      (shim_header (take 6 (drop (off + 1) ?v)) (of_nat (length ?v - (off + 7))) src dst)"
    using q assms(1) small by (simp add: decompress_ipv6_packet_buffer_def shim_consts Let_def
        pb_len_as_slice)
  thus ?thesis
    using replace_visible_prefix_exact [OF assms(1,2) q(1)] q(3) by simp
qed

lemma buffer_decompress_refused:
  assumes "pb_inv b" and "decompress_ipv6 (drop off (as_slice b)) src dst = None"
  shows "decompress_ipv6_packet_buffer alloc b off src dst = Ok (b, False)"
  using assms by (auto simp: decompress_ipv6_packet_buffer_def decompress_ipv6_def shim_consts Let_def
      pb_len_as_slice split: if_splits)

section \<open>Properties\<close>

text \<open>C26: The shim is lossless end to end. An IPv6 packet whose payload length field is right is
  compressed in place, behind the two port fields, to 29 bytes less; when the receiving node finds
  those bytes behind any decrypted headers in a packet buffer and decompresses at the shim offset
  with the addresses of the session, the visible bytes are the original packet again.\<close>

theorem shim_end_to_end:
  assumes "40 \<le> length p" and "drop_bit 4 (p ! 0) = 6" and "length p < 40 + 65536"
    and "take 2 (drop 4 p) = to_be 2 (of_nat (length p - 40) :: u16)"
    and "\<And>n. n \<le> length (alloc n)"
  shows "\<exists>q. compress_ipv6_with_port_header_in_place p sp dp = Ok (q, True)
    \<and> length q + 29 = length p \<and> take 4 q = to_le 2 sp @ to_le 2 dp
    \<and> (\<forall>b hdr. pb_inv b \<and> as_slice b = hdr @ q \<longrightarrow>
        (\<exists>b'. decompress_ipv6_packet_buffer alloc b (length hdr + 4)
           (take 16 (drop 8 p)) (take 16 (drop 24 p)) = Ok (b', True) \<and> as_slice b' = p))"
proof -
  let ?src = "take 16 (drop 8 p)" and ?dst = "take 16 (drop 24 p)"
  obtain z where z: "compress_ipv6 p = Some z" "length z = length p - 33"
    using assms by (auto simp: compress_ipv6_def shim_consts)
  have d: "decompress_ipv6 z ?src ?dst = Some p"
    using decompress_compress [OF z(1)] with_header_eq [of p ?src ?dst] assms by simp
  have n: "length p - 33 < 65543"
    using assms(3) by linarith
  let ?q = "to_le 2 sp @ to_le 2 dp @ z"
  have "\<exists>b'. decompress_ipv6_packet_buffer alloc b (length hdr + 4) ?src ?dst = Ok (b', True)
      \<and> as_slice b' = p" if "pb_inv b" "as_slice b = hdr @ ?q" for b hdr
    using buffer_decompress [OF that(1) assms(5), where off = "length hdr + 4" and q = p
        and src = ?src and dst = ?dst] d that z n by auto
  thus ?thesis
    using z in_place_equals_compress [of p sp dp] assms(1) by (intro exI [of _ ?q]) auto
qed

theorem shim_end_to_end_witness:
  "\<exists>q. compress_ipv6_with_port_header_in_place (0x60 # replicate 39 0) 256 256 = Ok (q, True)
    \<and> length q + 29 = length ((0x60 :: u8) # replicate 39 0)"
proof -
  let ?p = "(0x60 :: u8) # replicate 39 0"
  have "drop_bit 4 (?p ! 0) = 6" "take 2 (drop 4 ?p) = to_be 2 (of_nat (length ?p - 40) :: u16)"
    by code_simp+
  thus ?thesis
    using shim_end_to_end [of ?p "\<lambda>n. replicate n 0" 256 256] by auto
qed

text \<open>The in-place compressor of the transmit path computes exactly the port header followed by
  the allocating compressor's output, and refuses the same packets, leaving them untouched; none
  of its writes is out of range.\<close>

theorem in_place_compression_exact:
  "compress_ipv6_with_port_header_in_place p sp dp =
     Ok (case compress_ipv6 p of None \<Rightarrow> (p, False)
         | Some z \<Rightarrow> (to_le 2 sp @ to_le 2 dp @ z, True))"
  by (rule in_place_equals_compress)

end
