(* ===== verification/Fmp_Wire.thy ===== *)
theory Fmp_Wire
  imports Noise_Handshake Session_Index Wire_Control
begin

unbundle bit_operations_syntax

text \<open>
  Framing of the link layer (FMP, \<^verbatim>\<open>node/wire.rs\<close>) and the established headers of both layers
  as the dataplane reads and writes them (\<^verbatim>\<open>dataplane/wire.rs\<close>): the common prefix, the two
  handshake packets, the established FMP and FSP headers, the length check at raw ingress and the
  priority class visible from the length.
\<close>

section \<open>Model: handshake packets\<close>

definition FMP_VERSION :: u8 where "FMP_VERSION = 0"
definition PHASE_ESTABLISHED :: u8 where "PHASE_ESTABLISHED = 0x0"
definition PHASE_MSG1 :: u8 where "PHASE_MSG1 = 0x1"
definition PHASE_MSG2 :: u8 where "PHASE_MSG2 = 0x2"
definition COMMON_PREFIX_SIZE :: nat where "COMMON_PREFIX_SIZE = 4"
definition ESTABLISHED_HEADER_SIZE :: nat where "ESTABLISHED_HEADER_SIZE = 16"
definition MSG1_WIRE_SIZE :: nat where "MSG1_WIRE_SIZE = COMMON_PREFIX_SIZE + 4 + HANDSHAKE_MSG1_SIZE"
definition MSG2_WIRE_SIZE :: nat where "MSG2_WIRE_SIZE = COMMON_PREFIX_SIZE + 4 + 4 + HANDSHAKE_MSG2_SIZE"

lemmas fmp_consts = FMP_VERSION_def PHASE_ESTABLISHED_def PHASE_MSG1_def PHASE_MSG2_def
  COMMON_PREFIX_SIZE_def ESTABLISHED_HEADER_SIZE_def MSG1_WIRE_SIZE_def MSG2_WIRE_SIZE_def
  handshake_sizes

definition checked_sub :: "nat \<Rightarrow> nat \<Rightarrow> nat option" where
  "checked_sub a b = (if b \<le> a then Some (a - b) else None)"

definition try_u16 :: "nat \<Rightarrow> u16 option" where
  "try_u16 n = (if n < 2 ^ 16 then Some (of_nat n) else None)"

definition expected_payload_len :: "u8 \<Rightarrow> nat \<Rightarrow> u16 option" where
  "expected_payload_len phase frame_len =
     Option.bind
       (if phase = PHASE_ESTABLISHED then checked_sub frame_len (ESTABLISHED_HEADER_SIZE + TAG_SIZE)
        else if phase = PHASE_MSG1 \<or> phase = PHASE_MSG2 then checked_sub frame_len COMMON_PREFIX_SIZE
        else None) try_u16"

record common_prefix =
  cp_version :: u8
  cp_phase :: u8

definition common_prefix_parse :: "bytes \<Rightarrow> ('e, common_prefix option) outcome" where
  "common_prefix_parse data =
     (if length data < COMMON_PREFIX_SIZE then Ok None
      else obind (index_at data 0) (\<lambda>b. Ok (Some \<lparr>cp_version = drop_bit 4 b, cp_phase = b AND 0x0F\<rparr>)))"

definition ver_phase_byte :: "u8 \<Rightarrow> u8 \<Rightarrow> u8" where
  "ver_phase_byte version phase = push_bit 4 version OR (phase AND 0x0F)"

record msg1_header =
  m1_sender_idx :: session_index
  noise_msg1_offset :: nat

record msg2_header =
  m2_sender_idx :: session_index
  m2_receiver_idx :: session_index
  noise_msg2_offset :: nat

definition msg1_header_parse :: "bytes \<Rightarrow> ('e, msg1_header option) outcome" where
  "msg1_header_parse data =
     (if length data \<noteq> MSG1_WIRE_SIZE then Ok None
      else obind (index_at data 0) (\<lambda>b.
        let version = drop_bit 4 b; phase = b AND 0x0F in
        if version \<noteq> FMP_VERSION \<or> phase \<noteq> PHASE_MSG1 then Ok None
        else obind (index_at data 1) (\<lambda>flags.
          if flags \<noteq> 0 then Ok None
          else obind (slice data 2 4) (\<lambda>declared.
            if Some (of_le declared) \<noteq> expected_payload_len phase (length data) then Ok None
            else obind (slice data 4 8) (\<lambda>idx.
              Ok (Some \<lparr>m1_sender_idx = index_from_le_bytes idx,
                        noise_msg1_offset = COMMON_PREFIX_SIZE + 4\<rparr>))))))"

definition msg2_header_parse :: "bytes \<Rightarrow> ('e, msg2_header option) outcome" where
  "msg2_header_parse data =
     (if length data \<noteq> MSG2_WIRE_SIZE then Ok None
      else obind (index_at data 0) (\<lambda>b.
        let version = drop_bit 4 b; phase = b AND 0x0F in
        if version \<noteq> FMP_VERSION \<or> phase \<noteq> PHASE_MSG2 then Ok None
        else obind (index_at data 1) (\<lambda>flags.
          if flags \<noteq> 0 then Ok None
          else obind (slice data 2 4) (\<lambda>declared.
            if Some (of_le declared) \<noteq> expected_payload_len phase (length data) then Ok None
            else obind (slice data 4 8) (\<lambda>sidx. obind (slice data 8 12) (\<lambda>ridx.
              Ok (Some \<lparr>m2_sender_idx = index_from_le_bytes sidx,
                        m2_receiver_idx = index_from_le_bytes ridx,
                        noise_msg2_offset = COMMON_PREFIX_SIZE + 4 + 4\<rparr>)))))))"

definition build_msg1 :: "session_index \<Rightarrow> bytes \<Rightarrow> bytes" where
  "build_msg1 sender_idx noise_msg1 =
     [ver_phase_byte FMP_VERSION PHASE_MSG1] @ [0x00]
     @ to_le 2 (of_nat (4 + length noise_msg1) :: u16) @ index_to_le_bytes sender_idx @ noise_msg1"

definition build_msg2 :: "session_index \<Rightarrow> session_index \<Rightarrow> bytes \<Rightarrow> bytes" where
  "build_msg2 sender_idx receiver_idx noise_msg2 =
     [ver_phase_byte FMP_VERSION PHASE_MSG2] @ [0x00]
     @ to_le 2 (of_nat (4 + 4 + length noise_msg2) :: u16) @ index_to_le_bytes sender_idx
     @ index_to_le_bytes receiver_idx @ noise_msg2"

section \<open>Model: established headers\<close>

datatype wire_preflight_error = TooShort | WrongVersion | WrongPhase | PlaintextFsp | BadFspCoords
  | LengthMismatch

datatype wire_build_error = BuildPlaintextFsp | BuildBadFspCoords | MissingFspTimestamp

datatype packet_class = Control | Mmp | Liveness | Bulk | Background

record fmp_wire_header =
  fw_receiver_idx :: u32
  fw_counter :: u64
  fw_flags :: u8
  fw_payload_len :: u16

definition fmp_header_parse :: "bytes \<Rightarrow> (wire_preflight_error, fmp_wire_header) outcome" where
  "fmp_header_parse data =
     (if length data < ESTABLISHED_HEADER_SIZE then Err TooShort
      else obind (index_at data 0) (\<lambda>b.
        if drop_bit 4 b \<noteq> FMP_VERSION then Err WrongVersion
        else if b AND 0x0f \<noteq> PHASE_ESTABLISHED then Err WrongPhase
        else obind (slice data 4 8) (\<lambda>idx. obind (slice data 8 16) (\<lambda>ctr.
          obind (index_at data 1) (\<lambda>flags. obind (slice data 2 4) (\<lambda>declared.
            Ok \<lparr>fw_receiver_idx = of_le idx, fw_counter = of_le ctr, fw_flags = flags,
                fw_payload_len = of_le declared\<rparr>))))))"

definition fmp_parse_encrypted :: "bytes \<Rightarrow> (wire_preflight_error, fmp_wire_header) outcome" where
  "fmp_parse_encrypted data =
     obind (fmp_header_parse data) (\<lambda>header.
     obind (index_at data 0) (\<lambda>b. obind (slice data 2 4) (\<lambda>declared.
       if Some (of_le declared) \<noteq> expected_payload_len (b AND 0x0f) (length data)
       then Err LengthMismatch else Ok header)))"

definition fmp_discovery_control_payload_shape :: "nat \<Rightarrow> bool" where
  "fmp_discovery_control_payload_shape payload_len =
     list_ex (\<lambda>fixed. case checked_sub payload_len fixed of None \<Rightarrow> False
       | Some coords \<Rightarrow> coords \<ge> 16 \<and> coords mod 16 = 0) [4 + 46, 4 + 93]"

definition visible_priority_class :: "fmp_wire_header \<Rightarrow> packet_class option" where
  "visible_priority_class h =
     (let payload_len = unat (fw_payload_len h) in
      if payload_len = 4 + 1 then Some Liveness
      else if payload_len = 52 \<or> payload_len = 72 then Some Mmp
      else if fmp_discovery_control_payload_shape payload_len then Some Control
      else None)"

definition build_fmp_established_header :: "u32 \<Rightarrow> u64 \<Rightarrow> u8 \<Rightarrow> u16 \<Rightarrow> bytes" where
  "build_fmp_established_header receiver_idx counter flags payload_len =
     [push_bit 4 FMP_VERSION OR PHASE_ESTABLISHED] @ [flags] @ to_le 2 payload_len
     @ to_le 4 receiver_idx @ to_le 8 counter"

definition FSP_VERSION :: u8 where "FSP_VERSION = 0"
definition FSP_PHASE_ESTABLISHED :: u8 where "FSP_PHASE_ESTABLISHED = 0x0"
definition FSP_HEADER_SIZE :: nat where "FSP_HEADER_SIZE = 12"
definition FSP_FLAG_DIRECT_TRANSPORT :: u8 where "FSP_FLAG_DIRECT_TRANSPORT = 0x08"

lemmas fsp_consts = FSP_VERSION_def FSP_PHASE_ESTABLISHED_def FSP_HEADER_SIZE_def
  FSP_FLAG_DIRECT_TRANSPORT_def FSP_FLAG_U_def FSP_FLAG_CP_def

record fsp_wire_header =
  sw_counter :: u64
  sw_ciphertext_offset :: u16
  sw_flags :: u8

definition fsp_header_parse :: "bytes \<Rightarrow> (wire_preflight_error, fsp_wire_header) outcome" where
  "fsp_header_parse data =
     (if length data < FSP_HEADER_SIZE then Err TooShort
      else obind (index_at data 0) (\<lambda>b.
        if drop_bit 4 b \<noteq> FSP_VERSION then Err WrongVersion
        else if b AND 0x0f \<noteq> FSP_PHASE_ESTABLISHED then Err WrongPhase
        else obind (index_at data 1) (\<lambda>flags.
          if flags AND FSP_FLAG_U \<noteq> 0 then Err PlaintextFsp
          else obind (if flags AND FSP_FLAG_CP \<noteq> 0
              then obind (slice_from data FSP_HEADER_SIZE) (\<lambda>rest.
                   obind (omap_err (\<lambda>_. BadFspCoords) (parse_encrypted_coords rest))
                     (\<lambda>(_, _, coords_len). Ok (FSP_HEADER_SIZE + coords_len)))
              else Ok FSP_HEADER_SIZE) (\<lambda>offset.
            case try_u16 offset of None \<Rightarrow> Err BadFspCoords
            | Some offset \<Rightarrow> obind (slice data 4 12) (\<lambda>ctr.
                Ok \<lparr>sw_counter = of_le ctr, sw_ciphertext_offset = offset, sw_flags = flags\<rparr>)))))"

definition build_fsp_established_header :: "u64 \<Rightarrow> u8 \<Rightarrow> u16 \<Rightarrow> (wire_build_error, bytes) outcome" where
  "build_fsp_established_header counter flags payload_len =
     (if flags AND FSP_FLAG_U \<noteq> 0 then Err BuildPlaintextFsp
      else Ok ([push_bit 4 FSP_VERSION OR FSP_PHASE_ESTABLISHED] @ [flags] @ to_le 2 payload_len
               @ to_le 8 counter))"

section \<open>Properties\<close>

lemma try_u16_unat: "n < 65536 \<Longrightarrow> try_u16 n = Some (of_nat n)"
  by (simp add: try_u16_def)

lemma msg1_roundtrip:
  assumes "length noise = HANDSHAKE_MSG1_SIZE"
  shows "msg1_header_parse (build_msg1 idx noise)
      = Ok (Some \<lparr>m1_sender_idx = idx, noise_msg1_offset = 8\<rparr>)"
    and "drop 8 (build_msg1 idx noise) = noise"
  using assms by (simp_all add: msg1_header_parse_def build_msg1_def fmp_consts ver_phase_byte_def
      codec_simps index_to_le_bytes_def index_from_le_bytes_def expected_payload_len_def
      checked_sub_def try_u16_def Let_def)

lemma msg2_roundtrip:
  assumes "length noise = HANDSHAKE_MSG2_SIZE"
  shows "msg2_header_parse (build_msg2 sidx ridx noise)
      = Ok (Some \<lparr>m2_sender_idx = sidx, m2_receiver_idx = ridx, noise_msg2_offset = 12\<rparr>)"
    and "drop 12 (build_msg2 sidx ridx noise) = noise"
  using assms by (simp_all add: msg2_header_parse_def build_msg2_def fmp_consts ver_phase_byte_def
      codec_simps index_to_le_bytes_def index_from_le_bytes_def expected_payload_len_def
      checked_sub_def try_u16_def Let_def)

lemma low_nibble: "drop_bit 4 b = 0 \<Longrightarrow> b AND 0x0F = b" for b :: u8
proof -
  assume "drop_bit 4 b = 0"
  hence "take_bit 4 b = b"
    using bits_ident [of 4 b] by simp
  thus ?thesis
    by (simp add: take_bit_eq_mask mask_eq_exp_minus_1)
qed

lemma slice_split:
  assumes "slice bs i j = Ok xs"
  shows "i \<le> j" "j \<le> length bs" "drop i bs = xs @ drop j bs" "length xs = j - i"
  using assms by (auto simp: slice_def split: if_splits) (metis append_take_drop_id drop_drop le_add_diff_inverse2)

lemma index_split: "index_at bs i = Ok x \<Longrightarrow> i < length bs \<and> drop i bs = x # drop (Suc i) bs"
  by (auto simp: index_at_def Cons_nth_drop_Suc split: if_splits)

lemma le_bytes_2: "length xs = 2 \<Longrightarrow> to_le 2 (of_le xs :: u16) = xs"
  using to_le_of_le [of xs, where ?'a = 16] by simp

lemma le_bytes_4: "length xs = 4 \<Longrightarrow> to_le 4 (of_le xs :: u32) = xs"
  using to_le_of_le [of xs, where ?'a = 32] by simp

lemma le_bytes_8: "length xs = 8 \<Longrightarrow> to_le 8 (of_le xs :: u64) = xs"
  using to_le_of_le [of xs, where ?'a = 64] by simp

lemma msg1_parse_canonical:
  assumes "msg1_header_parse data = (Ok (Some h) :: ('e, _) outcome)"
  shows "\<exists>noise. length noise = HANDSHAKE_MSG1_SIZE \<and> data = build_msg1 (m1_sender_idx h) noise
    \<and> noise_msg1_offset h = 8"
proof -
  from assms obtain b declared idx where len: "length data = 114"
    and b: "index_at data 0 = (Ok b :: ('e, _) outcome)" "drop_bit 4 b = 0" "b AND 0x0F = 1"
    and f: "index_at data 1 = (Ok 0 :: ('e, _) outcome)"
    and d: "slice data 2 4 = (Ok declared :: ('e, _) outcome)" "of_le declared = (110 :: u16)"
    and i: "slice data 4 8 = (Ok idx :: ('e, _) outcome)"
    and h: "h = \<lparr>m1_sender_idx = index_from_le_bytes idx, noise_msg1_offset = 8\<rparr>"
    by (auto simp: msg1_header_parse_def fmp_consts obind_Ok Let_def expected_payload_len_def
        checked_sub_def try_u16_def split: if_splits)
  have "b = 1"
    using b low_nibble by simp
  hence "data = [1] @ [0] @ declared @ idx @ drop 8 data"
    using index_split [OF b(1)] index_split [OF f] slice_split(3) [OF d(1)] slice_split(3) [OF i]
    by (simp add: numeral_2_eq_2)
  moreover have "declared = to_le 2 (110 :: u16)" "idx = index_to_le_bytes (index_from_le_bytes idx)"
    using le_bytes_2 [of declared] le_bytes_4 [of idx] slice_split(4) [OF d(1)] slice_split(4) [OF i] d(2)
    by (simp_all add: index_to_le_bytes_def index_from_le_bytes_def)
  ultimately show ?thesis
    using h len by (intro exI [of _ "drop 8 data"])
      (simp add: build_msg1_def fmp_consts ver_phase_byte_def)
qed

lemma msg2_parse_canonical:
  assumes "msg2_header_parse data = (Ok (Some h) :: ('e, _) outcome)"
  shows "\<exists>noise. length noise = HANDSHAKE_MSG2_SIZE
    \<and> data = build_msg2 (m2_sender_idx h) (m2_receiver_idx h) noise \<and> noise_msg2_offset h = 12"
proof -
  from assms obtain b declared idx idx' where len: "length data = 69"
    and b: "index_at data 0 = (Ok b :: ('e, _) outcome)" "drop_bit 4 b = 0" "b AND 0x0F = 2"
    and f: "index_at data 1 = (Ok 0 :: ('e, _) outcome)"
    and d: "slice data 2 4 = (Ok declared :: ('e, _) outcome)" "of_le declared = (65 :: u16)"
    and i: "slice data 4 8 = (Ok idx :: ('e, _) outcome)"
    and j: "slice data 8 12 = (Ok idx' :: ('e, _) outcome)"
    and h: "h = \<lparr>m2_sender_idx = index_from_le_bytes idx, m2_receiver_idx = index_from_le_bytes idx',
      noise_msg2_offset = 12\<rparr>"
    by (auto simp: msg2_header_parse_def fmp_consts obind_Ok Let_def expected_payload_len_def
        checked_sub_def try_u16_def split: if_splits)
  have "b = 2"
    using b low_nibble by simp
  hence "data = [2] @ [0] @ declared @ idx @ idx' @ drop 12 data"
    using index_split [OF b(1)] index_split [OF f] slice_split(3) [OF d(1)] slice_split(3) [OF i]
      slice_split(3) [OF j] by (simp add: numeral_2_eq_2)
  moreover have "declared = to_le 2 (65 :: u16)" "idx = index_to_le_bytes (index_from_le_bytes idx)"
    "idx' = index_to_le_bytes (index_from_le_bytes idx')"
    using le_bytes_2 [of declared] le_bytes_4 [of idx] le_bytes_4 [of idx'] slice_split(4) [OF d(1)]
      slice_split(4) [OF i] slice_split(4) [OF j] d(2)
    by (simp_all add: index_to_le_bytes_def index_from_le_bytes_def)
  ultimately show ?thesis
    using h len by (intro exI [of _ "drop 12 data"])
      (simp add: build_msg2_def fmp_consts ver_phase_byte_def)
qed

definition fmp_frame :: "fmp_wire_header \<Rightarrow> bytes \<Rightarrow> bytes" where
  "fmp_frame h ct = build_fmp_established_header (fw_receiver_idx h) (fw_counter h) (fw_flags h)
     (fw_payload_len h) @ ct"

lemma try_u16_Some: "try_u16 n = Some w \<longleftrightarrow> n = unat w"
  using unat_less_exp [of w] by (auto simp: try_u16_def unat_of_nat)

lemma expected_established:
  "expected_payload_len 0 n = Some w \<longleftrightarrow> n = unat w + 32"
proof -
  have "expected_payload_len 0 n = (if 32 \<le> n then try_u16 (n - 32) else None)"
    by (simp add: expected_payload_len_def fmp_consts checked_sub_def)
  thus ?thesis
    by (auto simp only: try_u16_Some split: if_splits)
qed

lemma fmp_encrypted_roundtrip:
  assumes "length ct = unat (fw_payload_len h) + 16"
  shows "fmp_parse_encrypted (fmp_frame h ct) = Ok h"
proof -
  have "Some (fw_payload_len h) = expected_payload_len 0 (32 + unat (fw_payload_len h))"
    by (rule sym) (simp add: expected_established)
  thus ?thesis
    using assms by (simp add: fmp_parse_encrypted_def fmp_header_parse_def fmp_frame_def
        build_fmp_established_header_def fmp_consts codec_simps)
qed

lemma fmp_encrypted_canonical:
  assumes "fmp_parse_encrypted data = Ok h"
  shows "\<exists>ct. length ct = unat (fw_payload_len h) + 16 \<and> data = fmp_frame h ct"
proof -
  let ?ok = "\<lambda>x. Ok x :: (wire_preflight_error, _) outcome"
  from assms obtain b flags declared idx ctr where len: "16 \<le> length data"
    and b: "index_at data 0 = ?ok b" "drop_bit 4 b = 0" "b AND 0x0F = 0"
    and f: "index_at data 1 = ?ok flags"
    and d: "slice data 2 4 = ?ok declared"
    and i: "slice data 4 8 = ?ok idx"
    and c: "slice data 8 16 = ?ok ctr"
    and e: "expected_payload_len 0 (length data) = Some (of_le declared)"
    and h: "h = \<lparr>fw_receiver_idx = of_le idx, fw_counter = of_le ctr, fw_flags = flags,
      fw_payload_len = of_le declared\<rparr>"
    by (auto simp: fmp_parse_encrypted_def fmp_header_parse_def fmp_consts obind_Ok not_less
        split: if_splits)
  have "b = 0"
    using b low_nibble by simp
  hence "data = [0] @ [flags] @ declared @ idx @ ctr @ drop 16 data"
    using index_split [OF b(1)] index_split [OF f] slice_split(3) [OF d] slice_split(3) [OF i]
      slice_split(3) [OF c] by (simp add: numeral_2_eq_2)
  moreover have "declared = to_le 2 (of_le declared :: u16)" "idx = to_le 4 (of_le idx :: u32)"
    "ctr = to_le 8 (of_le ctr :: u64)"
    using le_bytes_2 le_bytes_4 le_bytes_8 slice_split(4) [OF d] slice_split(4) [OF i]
      slice_split(4) [OF c] by simp_all
  ultimately show ?thesis
    using h len e by (intro exI [of _ "drop 16 data"])
      (simp add: fmp_frame_def build_fmp_established_header_def fmp_consts expected_established)
qed

text \<open>The link-layer parsers accept exactly what the link-layer builders produce: a handshake
  packet is accepted if and only if it is the built packet for the indices it yields around a Noise
  message of the right size, and an encrypted frame passes the ingress check if and only if it is
  the built header for the fields it yields followed by exactly the declared number of ciphertext
  bytes and the tag. So header fields are unambiguous, and a truncated or padded datagram is
  dropped before any cryptography.\<close>

theorem fmp_parsers_exact:
  "(msg1_header_parse data = Ok (Some \<lparr>m1_sender_idx = i, noise_msg1_offset = n1\<rparr>) \<longleftrightarrow>
      n1 = 8 \<and> (\<exists>noise. length noise = HANDSHAKE_MSG1_SIZE \<and> data = build_msg1 i noise))
   \<and> (msg2_header_parse data = Ok (Some \<lparr>m2_sender_idx = i, m2_receiver_idx = r, noise_msg2_offset = n2\<rparr>) \<longleftrightarrow>
      n2 = 12 \<and> (\<exists>noise. length noise = HANDSHAKE_MSG2_SIZE \<and> data = build_msg2 i r noise))
   \<and> (fmp_parse_encrypted data = Ok h \<longleftrightarrow>
      (\<exists>ct. length ct = unat (fw_payload_len h) + 16 \<and> data = fmp_frame h ct))"
proof -
  have "msg1_header_parse data = Ok (Some \<lparr>m1_sender_idx = i, noise_msg1_offset = n1\<rparr>) \<longleftrightarrow>
      n1 = 8 \<and> (\<exists>noise. length noise = HANDSHAKE_MSG1_SIZE \<and> data = build_msg1 i noise)"
    using msg1_parse_canonical [of data] msg1_roundtrip(1) by fastforce
  moreover have "msg2_header_parse data = Ok (Some \<lparr>m2_sender_idx = i, m2_receiver_idx = r, noise_msg2_offset = n2\<rparr>) \<longleftrightarrow>
      n2 = 12 \<and> (\<exists>noise. length noise = HANDSHAKE_MSG2_SIZE \<and> data = build_msg2 i r noise)"
    using msg2_parse_canonical [of data] msg2_roundtrip(1) by fastforce
  moreover have "fmp_parse_encrypted data = Ok h \<longleftrightarrow>
      (\<exists>ct. length ct = unat (fw_payload_len h) + 16 \<and> data = fmp_frame h ct)"
    using fmp_encrypted_canonical [of data h] fmp_encrypted_roundtrip by blast
  ultimately show ?thesis
    by blast
qed

text \<open>The FSP established header without coordinates reads back its fields.\<close>

lemma fsp_established_roundtrip:
  assumes "flags AND FSP_FLAG_U = 0" and "flags AND FSP_FLAG_CP = 0"
  shows "\<exists>hdr. build_fsp_established_header ctr flags n = Ok hdr
    \<and> fsp_header_parse (hdr @ ct) = Ok \<lparr>sw_counter = ctr, sw_ciphertext_offset = 12, sw_flags = flags\<rparr>"
  using assms by (simp add: build_fsp_established_header_def fsp_header_parse_def fsp_consts codec_simps
      try_u16_def)

end
