(* ===== verification/Stream_Framing.thy ===== *)
theory Stream_Framing
  imports Fmp_Wire
begin

unbundle bit_operations_syntax

text \<open>
  Recovery of packet boundaries from a TCP or Tor byte stream (\<^verbatim>\<open>transport/tcp/stream.rs\<close>): the
  record length read from the four-byte prefix, the validation of an outgoing record, and the two
  readers. The reader is the list of bytes still to come, after which the stream ends; whether the
  completion deadline of a record passes is the argument \<open>expired\<close>.
\<close>

section \<open>Model\<close>

definition PREFIX_SIZE :: nat where "PREFIX_SIZE = 4"
definition FMP_ESTABLISHED_REMAINING_HEADER :: nat where "FMP_ESTABLISHED_REMAINING_HEADER = 12"
definition DIRECT_FSP_REMAINING_HEADER :: nat where
  "DIRECT_FSP_REMAINING_HEADER = FSP_HEADER_SIZE - PREFIX_SIZE"
definition AEAD_TAG_SIZE :: nat where "AEAD_TAG_SIZE = 16"
definition STREAM_MSG1_WIRE_SIZE :: nat where "STREAM_MSG1_WIRE_SIZE = 114"
definition STREAM_MSG2_WIRE_SIZE :: nat where "STREAM_MSG2_WIRE_SIZE = 69"
definition MSG1_PAYLOAD_LEN :: u16 where
  "MSG1_PAYLOAD_LEN = of_nat (STREAM_MSG1_WIRE_SIZE - PREFIX_SIZE)"
definition MSG2_PAYLOAD_LEN :: u16 where
  "MSG2_PAYLOAD_LEN = of_nat (STREAM_MSG2_WIRE_SIZE - PREFIX_SIZE)"

lemmas stream_consts = PREFIX_SIZE_def FMP_ESTABLISHED_REMAINING_HEADER_def
  DIRECT_FSP_REMAINING_HEADER_def AEAD_TAG_SIZE_def STREAM_MSG1_WIRE_SIZE_def
  STREAM_MSG2_WIRE_SIZE_def MSG1_PAYLOAD_LEN_def MSG2_PAYLOAD_LEN_def fmp_consts fsp_consts

datatype stream_error = UnknownVersion u8 | UnknownPhase u8 | PayloadTooLarge u16 u16
  | HandshakeSizeMismatch u8 u16 u16 | IoInvalidData | IoTimedOut | IoUnexpectedEof

definition remaining_header :: "u8 \<Rightarrow> nat" where
  "remaining_header flags =
     (if flags AND FSP_FLAG_DIRECT_TRANSPORT \<noteq> 0 then DIRECT_FSP_REMAINING_HEADER
      else FMP_ESTABLISHED_REMAINING_HEADER)"

definition stream_record_len :: "bytes \<Rightarrow> (stream_error, nat) outcome" where
  "stream_record_len prefix =
     obind (index_at prefix 0) (\<lambda>b. obind (index_at prefix 1) (\<lambda>flags. obind (slice prefix 2 4) (\<lambda>len.
     let version = drop_bit 4 b; phase = b AND 0x0F in
     if version \<noteq> 0 then Err (UnknownVersion version)
     else let payload_len = of_le len :: u16 in
       obind (if phase = PHASE_ESTABLISHED
         then if flags AND FSP_FLAG_DIRECT_TRANSPORT \<noteq> 0 \<and> flags AND (FSP_FLAG_CP OR FSP_FLAG_U) \<noteq> 0
              then Err IoInvalidData
              else Ok (remaining_header flags + unat payload_len + AEAD_TAG_SIZE)
         else if phase = PHASE_MSG1
         then if payload_len \<noteq> MSG1_PAYLOAD_LEN
              then Err (HandshakeSizeMismatch phase MSG1_PAYLOAD_LEN payload_len)
              else Ok (unat payload_len)
         else if phase = PHASE_MSG2
         then if payload_len \<noteq> MSG2_PAYLOAD_LEN
              then Err (HandshakeSizeMismatch phase MSG2_PAYLOAD_LEN payload_len)
              else Ok (unat payload_len)
         else Err (UnknownPhase phase)) (\<lambda>remaining. Ok (PREFIX_SIZE + remaining)))))"

definition validate_stream_record :: "bytes \<Rightarrow> (stream_error, unit) outcome" where
  "validate_stream_record data =
     (if length data < PREFIX_SIZE then Err IoInvalidData
      else obind (stream_record_len (take PREFIX_SIZE data)) (\<lambda>expected.
        if length data \<noteq> expected then Err IoInvalidData else Ok ()))"

definition read_exact :: "bytes \<Rightarrow> nat \<Rightarrow> bytes \<times> (stream_error, bytes) outcome" where
  "read_exact reader n =
     (if n \<le> length reader then (drop n reader, Ok (take n reader)) else ([], Err IoUnexpectedEof))"

definition read_body :: "bytes \<Rightarrow> nat \<Rightarrow> bytes \<Rightarrow> bytes \<times> (stream_error, bytes) outcome" where
  "read_body prefix total_len reader =
     hbind (read_exact reader (total_len - PREFIX_SIZE)) (\<lambda>reader body. (reader, Ok (prefix @ body)))"

definition mtu_check :: "bytes \<Rightarrow> u16 \<Rightarrow> (stream_error, unit) outcome" where
  "mtu_check prefix mtu =
     obind (index_at prefix 0) (\<lambda>b. obind (index_at prefix 1) (\<lambda>flags. obind (slice prefix 2 4) (\<lambda>len.
     if b AND 0x0f = PHASE_ESTABLISHED
     then let payload_len = of_le len :: u16;
              max_payload_len =
                saturating_sub mtu (of_nat (PREFIX_SIZE + remaining_header flags + AEAD_TAG_SIZE))
       in if payload_len > max_payload_len then Err (PayloadTooLarge payload_len max_payload_len)
          else Ok ()
     else Ok ())))"

definition read_fmp_packet :: "bytes \<Rightarrow> u16 \<Rightarrow> bytes \<times> (stream_error, bytes) outcome" where
  "read_fmp_packet reader mtu =
     hbind (read_exact reader PREFIX_SIZE) (\<lambda>reader prefix.
     hbind (reader, stream_record_len prefix) (\<lambda>reader total_len.
     hbind (reader, mtu_check prefix mtu) (\<lambda>reader _.
     read_body prefix total_len reader)))"

definition read_fmp_packet_with_timeout :: "bytes \<Rightarrow> bool \<Rightarrow> bytes \<times> (stream_error, bytes) outcome" where
  "read_fmp_packet_with_timeout reader expired =
     hbind (read_exact reader 1) (\<lambda>reader b0.
     if expired then (reader, Err IoTimedOut)
     else hbind (read_exact reader (PREFIX_SIZE - 1)) (\<lambda>reader bs.
       hbind (reader, stream_record_len (b0 @ bs)) (\<lambda>reader total_len.
       read_body (b0 @ bs) total_len reader)))"

section \<open>One record\<close>

lemma stream_record_len_bound: "stream_record_len prefix = Ok n \<Longrightarrow> 4 \<le> n"
  by (auto simp: stream_record_len_def obind_Ok Let_def stream_consts split: if_splits)

lemma stream_record_len_no_panic: "length prefix = 4 \<Longrightarrow> stream_record_len prefix \<noteq> Panic"
  by (auto simp: stream_record_len_def index_at_def slice_def Let_def)

lemma valid_record:
  "validate_stream_record r = Ok () \<longleftrightarrow> 4 \<le> length r \<and> stream_record_len (take 4 r) = Ok (length r)"
  by (auto simp: validate_stream_record_def PREFIX_SIZE_def obind_Ok not_less split: if_splits)

lemma read_record:
  assumes "validate_stream_record r = Ok ()"
  shows "read_fmp_packet_with_timeout (r @ t) False = (t, Ok r)"
proof -
  have r: "4 \<le> length r" "stream_record_len (take 4 r) = Ok (length r)"
    using assms by (simp_all add: valid_record)
  have p: "take 1 (r @ t) @ take 3 (drop 1 (r @ t)) = take 4 r"
    using r(1) take_add [of 1 3 "r @ t"] by simp
  have d: "drop 3 (drop 1 (r @ t)) = drop 4 r @ t"
    using r(1) by simp
  have b: "read_body (take 4 r) (length r) (drop 4 r @ t) = (t, Ok r)"
    using r(1) by (simp add: read_body_def read_exact_def stream_consts hbind_def)
  show ?thesis
    unfolding read_fmp_packet_with_timeout_def read_exact_def [of "r @ t"]
    using r p d b by (simp add: read_exact_def stream_consts hbind_def)
qed

lemma read_consumes:
  assumes "read_fmp_packet_with_timeout reader x = (rest, Ok p)"
  shows "reader = p @ rest \<and> validate_stream_record p = Ok ()"
proof -
  from assms obtain n where 0: "1 \<le> length reader" "3 \<le> length (drop 1 reader)"
    and n: "stream_record_len (take 1 reader @ take 3 (drop 1 reader)) = Ok n"
    and b: "read_body (take 1 reader @ take 3 (drop 1 reader)) n (drop 3 (drop 1 reader)) = (rest, Ok p)"
    by (auto simp: read_fmp_packet_with_timeout_def read_exact_def stream_consts hbind_def
        split: if_splits outcome.splits)
  have t: "take 1 reader @ take 3 (drop 1 reader) = take 4 reader"
    using take_add [of 1 3 reader] by simp
  have "4 \<le> n"
    using stream_record_len_bound n by blast
  moreover have "n \<le> length reader" "p = take n reader" "rest = drop n reader"
    using b 0 calculation take_add [of 4 "n - 4" reader] unfolding t
    by (auto simp: read_body_def read_exact_def stream_consts hbind_def split: if_splits)
  ultimately show ?thesis
    using n unfolding t by (simp add: valid_record min_def)
qed

function read_all :: "bytes \<Rightarrow> bytes list" where
  "read_all reader =
     (case read_fmp_packet_with_timeout reader False of
        (rest, Ok p) \<Rightarrow> p # read_all rest
      | _ \<Rightarrow> [])"
  by pat_completeness auto

termination
proof (relation "measure length")
  fix reader rest p and out :: "(stream_error, bytes) outcome"
  assume "(rest, out) = read_fmp_packet_with_timeout reader False" "out = Ok p"
  hence "reader = p @ rest" "validate_stream_record p = Ok ()"
    using read_consumes [of reader False rest p] by auto
  thus "(rest, reader) \<in> measure length"
    by (auto simp: valid_record)
qed simp

declare read_all.simps [simp del]

lemma read_all_record:
  "validate_stream_record r = Ok () \<Longrightarrow> read_all (r @ t) = r # read_all t"
  by (simp add: read_all.simps [of "r @ t"] read_record)

lemma read_all_records:
  "(\<And>r. r \<in> set rs \<Longrightarrow> validate_stream_record r = Ok ()) \<Longrightarrow> read_all (concat rs @ t) = rs @ read_all t"
  by (induction rs) (simp_all add: read_all_record)

lemma read_all_sound:
  "(\<exists>rest. reader = concat (read_all reader) @ rest)
   \<and> list_all (\<lambda>p. validate_stream_record p = Ok ()) (read_all reader)"
proof (induction reader rule: read_all.induct)
  case (1 reader)
  obtain rest out where r: "read_fmp_packet_with_timeout reader False = (rest, out)"
    by fastforce
  show ?case
  proof (cases out)
    case (Ok p)
    with r have c: "reader = p @ rest" "validate_stream_record p = Ok ()"
      using read_consumes by simp_all
    have "(\<exists>t. rest = concat (read_all rest) @ t)
        \<and> list_all (\<lambda>p. validate_stream_record p = Ok ()) (read_all rest)"
      using "1.IH" [OF r [symmetric] Ok] .
    then show ?thesis
      using c read_all_record [of p rest] by auto
  qed (use r in \<open>simp_all add: read_all.simps [of reader]\<close>)
qed

section \<open>Link packets are records\<close>

definition link_packet :: "bytes \<Rightarrow> bool" where
  "link_packet data \<longleftrightarrow>
     (case (msg1_header_parse data :: (unit, _) outcome) of Ok (Some _) \<Rightarrow> True | _ \<Rightarrow> False)
   \<or> (case (msg2_header_parse data :: (unit, _) outcome) of Ok (Some _) \<Rightarrow> True | _ \<Rightarrow> False)
   \<or> (case fmp_parse_encrypted data of
        Ok h \<Rightarrow> fw_flags h AND FSP_FLAG_DIRECT_TRANSPORT = 0 | _ \<Rightarrow> False)"

lemma msg1_record:
  "length noise = HANDSHAKE_MSG1_SIZE \<Longrightarrow> validate_stream_record (build_msg1 i noise) = Ok ()"
  by (simp add: valid_record stream_record_len_def build_msg1_def index_to_le_bytes_def stream_consts
      ver_phase_byte_def codec_simps Let_def)

lemma msg2_record:
  "length noise = HANDSHAKE_MSG2_SIZE \<Longrightarrow> validate_stream_record (build_msg2 i r noise) = Ok ()"
  by (simp add: valid_record stream_record_len_def build_msg2_def index_to_le_bytes_def stream_consts
      ver_phase_byte_def codec_simps Let_def)

lemma fmp_frame_record:
  "length ct = unat (fw_payload_len h) + 16 \<Longrightarrow> fw_flags h AND FSP_FLAG_DIRECT_TRANSPORT = 0
   \<Longrightarrow> validate_stream_record (fmp_frame h ct) = Ok ()"
  by (simp add: valid_record stream_record_len_def fmp_frame_def build_fmp_established_header_def
      stream_consts remaining_header_def codec_simps Let_def)

lemma link_packet_record: "link_packet data \<Longrightarrow> validate_stream_record data = Ok ()"
  using msg1_parse_canonical [of data] msg2_parse_canonical [of data] fmp_encrypted_canonical [of data]
    msg1_record msg2_record fmp_frame_record
  unfolding link_packet_def by (fastforce split: outcome.splits option.splits)

section \<open>Properties\<close>

text \<open>C30: A byte stream carries link packets intact: whatever sequence of packets the link-layer
  parsers accept (handshake packets and encrypted frames without the direct-transport bit) is
  written back to back, and whatever follows, the stream reader returns exactly those packets in
  order before it looks at the rest; and on any input at all it only ever returns consecutive
  pieces of the stream, each of them a valid record.\<close>

theorem stream_carries_link_packets:
  assumes "list_all link_packet ps"
  shows "read_all (concat ps @ t) = ps @ read_all t
    \<and> (\<exists>rest. t = concat (read_all t) @ rest)
    \<and> list_all (\<lambda>p. validate_stream_record p = Ok ()) (read_all t)"
  using assms read_all_records [of ps t] read_all_sound [of t] link_packet_record
  by (auto simp: list_all_iff)

theorem stream_carries_link_packets_witness:
  "list_all link_packet [build_msg1 (SessionIndex 7) (replicate 106 1), build_msg2 (SessionIndex 8) (SessionIndex 7) (replicate 57 2)]
   \<and> read_all (concat [build_msg1 (SessionIndex 7) (replicate 106 1), build_msg2 (SessionIndex 8) (SessionIndex 7) (replicate 57 2)] @ [0x16])
     = [build_msg1 (SessionIndex 7) (replicate 106 1), build_msg2 (SessionIndex 8) (SessionIndex 7) (replicate 57 2)] @ read_all [0x16]"
proof -
  have "list_all link_packet [build_msg1 (SessionIndex 7) (replicate 106 1), build_msg2 (SessionIndex 8) (SessionIndex 7) (replicate 57 2)]"
    by (simp add: link_packet_def msg1_roundtrip msg2_roundtrip handshake_sizes)
  thus ?thesis
    using stream_carries_link_packets by blast
qed

end
