(* ===== verification/Ble_Framing.thy ===== *)
theory Ble_Framing
  imports Fips_Prelude "HOL-Library.While_Combinator"
begin

text \<open>
  Packet framing over BLE byte streams (\<^verbatim>\<open>transport/ble/framing.rs\<close>): the frame encoder, the
  incremental decoder with its loop over the bytes of one push, and the framed stream that splits
  sends into writes of the platform's size and reassembles packets on receive. The decoder's loop is
  a \<open>while_option\<close>, whose value is \<open>None\<close> if it never ends. Its reference is \<open>deframe\<close>, which reads
  frames off the whole byte sequence at once.
\<close>

section \<open>Model\<close>

definition BLE_V2_MAGIC :: bytes where "BLE_V2_MAGIC = [0x46, 0x42]"
definition BLE_V2_VERSION :: u8 where "BLE_V2_VERSION = 2"
definition BLE_V2_HEADER_LEN :: nat where "BLE_V2_HEADER_LEN = 6"

lemmas ble_consts = BLE_V2_MAGIC_def BLE_V2_VERSION_def BLE_V2_HEADER_LEN_def

datatype ble_frame_error = EmptyPayload | Oversized nat nat | InvalidMagic | UnsupportedVersion u8
  | UnsupportedFlags u8

definition encode_frame :: "bytes \<Rightarrow> nat \<Rightarrow> (ble_frame_error, bytes) outcome" where
  "encode_frame payload max_payload_len =
     (if payload = [] then Err EmptyPayload
      else let effective_max = min max_payload_len 65535 in
        if length payload > effective_max then Err (Oversized (length payload) effective_max)
        else Ok (BLE_V2_MAGIC @ [BLE_V2_VERSION] @ [0] @ to_be 2 (of_nat (length payload) :: u16)
                 @ payload))"

record ble_frame_decoder =
  bd_max_payload_len :: nat
  bd_buffered :: bytes

definition decoder_new :: "nat \<Rightarrow> ble_frame_decoder" where
  "decoder_new max_payload_len =
     \<lparr>bd_max_payload_len = min max_payload_len 65535, bd_buffered = []\<rparr>"

definition validate_header :: "bytes \<Rightarrow> nat \<Rightarrow> (ble_frame_error, nat) outcome" where
  "validate_header header max_payload_len =
     obind (slice header 0 2) (\<lambda>magic.
     if magic \<noteq> BLE_V2_MAGIC then Err InvalidMagic
     else obind (index_at header 2) (\<lambda>version.
     if version \<noteq> BLE_V2_VERSION then Err (UnsupportedVersion version)
     else obind (index_at header 3) (\<lambda>flags.
     if flags \<noteq> 0 then Err (UnsupportedFlags flags)
     else obind (slice header 4 6) (\<lambda>len.
     let payload_len = unat (of_be len :: u16) in
     if payload_len = 0 then Err EmptyPayload
     else if payload_len > max_payload_len then Err (Oversized payload_len max_payload_len)
     else Ok payload_len))))"

text \<open>The state of the loop of \<open>push\<close>: the buffer, the bytes left, the packets so far, and how the
  loop was left (\<open>Broke\<close> for the break, \<open>Failed\<close> for the early return).\<close>

datatype push_exit = Running | Broke | Failed ble_frame_error | Crashed

record push_loop =
  pl_buffered :: bytes
  pl_bytes :: bytes
  pl_packets :: "bytes list"
  pl_exit :: push_exit

definition take_bytes :: "push_loop \<Rightarrow> nat \<Rightarrow> push_loop" where
  "take_bytes s needed =
     (let n = min needed (length (pl_bytes s)) in
      s\<lparr>pl_buffered := pl_buffered s @ take n (pl_bytes s), pl_bytes := drop n (pl_bytes s)\<rparr>)"

definition fill_header :: "push_loop \<Rightarrow> push_loop" where
  "fill_header s =
     (if length (pl_buffered s) < BLE_V2_HEADER_LEN
      then take_bytes s (BLE_V2_HEADER_LEN - length (pl_buffered s)) else s)"

definition fill_frame :: "nat \<Rightarrow> push_loop \<Rightarrow> push_loop" where
  "fill_frame payload_len s =
     (let frame_len = BLE_V2_HEADER_LEN + payload_len;
          needed = (frame_len + 2 ^ 64 - length (pl_buffered s)) mod 2 ^ 64;
          s = take_bytes s needed
      in if length (pl_buffered s) = frame_len
         then s\<lparr>pl_packets := pl_packets s @ [drop BLE_V2_HEADER_LEN (pl_buffered s)], pl_buffered := []\<rparr>
         else s)"

definition push_body :: "nat \<Rightarrow> push_loop \<Rightarrow> push_loop" where
  "push_body max_payload_len s =
     (let s = fill_header s in
      if length (pl_buffered s) < BLE_V2_HEADER_LEN then s\<lparr>pl_exit := Broke\<rparr>
      else case validate_header (pl_buffered s) max_payload_len of
        Ok payload_len \<Rightarrow> fill_frame payload_len s
      | Err e \<Rightarrow> s\<lparr>pl_buffered := [], pl_exit := Failed e\<rparr>
      | Panic \<Rightarrow> s\<lparr>pl_exit := Crashed\<rparr>)"

definition push_running :: "push_loop \<Rightarrow> bool" where
  "push_running s \<longleftrightarrow> pl_exit s = Running \<and> pl_bytes s \<noteq> []"

definition push_result :: "ble_frame_decoder \<Rightarrow> push_loop \<Rightarrow> ble_frame_decoder \<times> (ble_frame_error, bytes list) outcome" where
  "push_result d s =
     (d\<lparr>bd_buffered := pl_buffered s\<rparr>,
      case pl_exit s of Failed e \<Rightarrow> Err e | Crashed \<Rightarrow> Panic | _ \<Rightarrow> Ok (pl_packets s))"

definition push :: "ble_frame_decoder \<Rightarrow> bytes \<Rightarrow> (ble_frame_decoder \<times> (ble_frame_error, bytes list) outcome) option" where
  "push d bytes =
     map_option (push_result d)
       (while_option push_running (push_body (bd_max_payload_len d))
          \<lparr>pl_buffered = bd_buffered d, pl_bytes = bytes, pl_packets = [], pl_exit = Running\<rparr>)"

section \<open>The reference\<close>

function deframe :: "nat \<Rightarrow> bytes \<Rightarrow> bytes list \<times> bytes \<times> ble_frame_error option" where
  "deframe m bs =
     (if length bs < 6 then ([], bs, None)
      else case validate_header bs m of
        Ok n \<Rightarrow>
          if length bs < 6 + n then ([], bs, None)
          else (case deframe m (drop (6 + n) bs) of (ps, r, e) \<Rightarrow> (take n (drop 6 bs) # ps, r, e))
      | Err e \<Rightarrow> ([], [], Some e)
      | Panic \<Rightarrow> ([], [], None))"
  by pat_completeness auto

termination
  by (relation "measure (\<lambda>(m, bs). length bs)") auto

declare deframe.simps [simp del]

definition decoder_inv :: "nat \<Rightarrow> bytes \<Rightarrow> bool" where
  "decoder_inv m b \<longleftrightarrow>
     length b < 6 \<or> (case validate_header b m of Ok n \<Rightarrow> length b < 6 + n | _ \<Rightarrow> False)"

lemma validate_header_prefix:
  "6 \<le> length xs \<Longrightarrow> validate_header (xs @ ys) m = validate_header xs m"
  by (simp add: validate_header_def slice_def index_at_def nth_append)

lemma validate_header_range: "validate_header h m = Ok n \<Longrightarrow> 0 < n \<and> n < 65536"
  using unsigned_less [of "of_be _ :: u16", where ?'a = nat]
  by (auto simp: validate_header_def obind_Ok Let_def split: if_splits)

lemma validate_header_no_panic: "6 \<le> length h \<Longrightarrow> validate_header h m \<noteq> Panic"
  by (auto simp: validate_header_def slice_def index_at_def Let_def)

lemma deframe_partial: "decoder_inv m b \<Longrightarrow> deframe m b = ([], b, None)"
  by (auto simp: decoder_inv_def deframe.simps [of m b] split: outcome.splits)

section \<open>The loop computes the reference\<close>

definition prepend :: "bytes list \<Rightarrow> bytes list \<times> bytes \<times> ble_frame_error option \<Rightarrow> bytes list \<times> bytes \<times> ble_frame_error option" where
  "prepend ps t = (case t of (qs, r, e) \<Rightarrow> (ps @ qs, r, e))"

lemma prepend_simps [simp]:
  "prepend [] t = t" "prepend ps (prepend qs t) = prepend (ps @ qs) t"
  "prepend ps (qs, r, e) = (ps @ qs, r, e)"
  by (simp_all add: prepend_def case_prod_unfold)

lemma deframe_unfold:
  assumes "6 \<le> length bs"
  shows "validate_header bs m = Err e \<Longrightarrow> deframe m bs = ([], [], Some e)"
    and "validate_header bs m = Ok n \<Longrightarrow> 6 + n \<le> length bs \<Longrightarrow>
      deframe m bs = prepend [take n (drop 6 bs)] (deframe m (drop (6 + n) bs))"
  using assms by (simp_all add: deframe.simps [of m bs] prepend_def case_prod_unfold)

lemma fill_header_exact:
  "fill_header s =
     (if length (pl_buffered s) < 6
      then let k = min (6 - length (pl_buffered s)) (length (pl_bytes s)) in
        s\<lparr>pl_buffered := pl_buffered s @ take k (pl_bytes s), pl_bytes := drop k (pl_bytes s)\<rparr>
      else s)"
  by (simp add: fill_header_def take_bytes_def ble_consts)

lemma fill_header_facts:
  "pl_buffered (fill_header s) @ pl_bytes (fill_header s) = pl_buffered s @ pl_bytes s
   \<and> pl_exit (fill_header s) = pl_exit s \<and> pl_packets (fill_header s) = pl_packets s
   \<and> (length (pl_buffered (fill_header s)) < 6 \<longrightarrow> pl_bytes (fill_header s) = [])
   \<and> (length (pl_buffered s) < 6 \<and> pl_bytes s \<noteq> [] \<longrightarrow> length (pl_bytes (fill_header s)) < length (pl_bytes s))
   \<and> (length (pl_buffered s) < 6 \<longrightarrow> length (pl_buffered (fill_header s)) \<le> 6)
   \<and> (6 \<le> length (pl_buffered s) \<longrightarrow> fill_header s = s)"
proof (cases "length (pl_buffered s) < 6")
  case True
  then show ?thesis
    by (cases "6 - length (pl_buffered s) \<le> length (pl_bytes s)")
      (auto simp: fill_header_exact min_def Let_def simp flip: length_greater_0_conv)
qed (simp add: fill_header_exact)

lemma fill_frame_exact:
  assumes "length (pl_buffered s) < 6 + n" and "n < 65536"
  shows "fill_frame n s =
    (let all = pl_buffered s @ pl_bytes s in
     if length all < 6 + n then s\<lparr>pl_buffered := all, pl_bytes := []\<rparr>
     else s\<lparr>pl_packets := pl_packets s @ [take n (drop 6 all)], pl_buffered := [],
            pl_bytes := drop (6 + n) all\<rparr>)"
proof -
  let ?b = "pl_buffered s" and ?r = "pl_bytes s"
  let ?k = "6 + n - length ?b"
  have needed: "(6 + n + 2 ^ 64 - length ?b) mod 2 ^ 64 = ?k"
  proof -
    have "6 + n + 2 ^ 64 - length ?b = (6 + n - length ?b) + 2 ^ 64"
      using assms by simp
    hence "(6 + n + 2 ^ 64 - length ?b) mod 2 ^ 64 = (6 + n - length ?b) mod 2 ^ 64"
      by (simp only: mod_add_self2)
    also have "\<dots> = 6 + n - length ?b"
      by (rule mod_less) (use assms in simp)
    finally show ?thesis .
  qed
  have ff: "fill_frame n s = (if length (pl_buffered (take_bytes s ?k)) = 6 + n
      then (take_bytes s ?k)\<lparr>pl_packets := pl_packets (take_bytes s ?k)
        @ [drop 6 (pl_buffered (take_bytes s ?k))], pl_buffered := []\<rparr>
      else take_bytes s ?k)"
    by (simp only: fill_frame_def ble_consts Let_def needed)
  show ?thesis
  proof (cases "length (?b @ ?r) < 6 + n")
    case True
    then show ?thesis
      by (simp add: ff take_bytes_def)
  next
    case False
    hence k: "min ?k (length ?r) = ?k"
      by simp
    have "?b @ take ?k ?r = take (6 + n) (?b @ ?r)"
      using assms by simp
    hence "drop 6 (?b @ take ?k ?r) = take n (drop 6 (?b @ ?r))"
      by (simp only: drop_take) simp
    then show ?thesis
      using False assms(1) by (simp add: ff take_bytes_def k Let_def)
  qed
qed

fun loop_inv :: "nat \<Rightarrow> bytes list \<times> bytes \<times> ble_frame_error option \<Rightarrow> push_loop \<Rightarrow> bool" where
  "loop_inv m spec s =
     (case pl_exit s of
        Running \<Rightarrow> decoder_inv m (pl_buffered s)
          \<and> prepend (pl_packets s) (deframe m (pl_buffered s @ pl_bytes s)) = spec
      | Broke \<Rightarrow> decoder_inv m (pl_buffered s) \<and> pl_bytes s = []
          \<and> prepend (pl_packets s) (deframe m (pl_buffered s)) = spec
      | Failed e \<Rightarrow> pl_buffered s = [] \<and> fst (snd spec) = [] \<and> snd (snd spec) = Some e
      | Crashed \<Rightarrow> False)"

lemma decoder_inv_Nil [simp]: "decoder_inv m []"
  by (simp add: decoder_inv_def)

lemma fill_frame_step:
  assumes "6 \<le> length (pl_buffered s)" and "validate_header (pl_buffered s) m = Ok n"
    and "length (pl_buffered s) < 6 + n" and "pl_exit s = Running"
    and "prepend (pl_packets s) (deframe m (pl_buffered s @ pl_bytes s)) = spec"
  shows "loop_inv m spec (fill_frame n s)
    \<and> length (pl_bytes (fill_frame n s)) \<le> length (pl_bytes s)
    \<and> (pl_bytes s \<noteq> [] \<longrightarrow> length (pl_bytes (fill_frame n s)) < length (pl_bytes s))"
proof -
  let ?all = "pl_buffered s @ pl_bytes s"
  have n: "0 < n" "n < 65536" and h: "validate_header ?all m = Ok n"
    using validate_header_range assms(2) validate_header_prefix [OF assms(1)] by auto
  show ?thesis
  proof (cases "length ?all < 6 + n")
    case True
    then show ?thesis
      using assms n h by (simp add: fill_frame_exact decoder_inv_def)
  next
    case False
    hence "deframe m ?all = prepend [take n (drop 6 ?all)] (deframe m (drop (6 + n) ?all))"
      using h by (intro deframe_unfold(2)) auto
    then show ?thesis
      using False assms n by (auto simp: fill_frame_exact)
  qed
qed

lemma push_body_step:
  assumes inv: "loop_inv m spec s" and run: "push_running s"
  shows "loop_inv m spec (push_body m s) \<and> length (pl_bytes (push_body m s)) < length (pl_bytes s)"
proof -
  let ?b = "pl_buffered s" and ?r = "pl_bytes s"
  define s1 where "s1 = fill_header s"
  let ?b1 = "pl_buffered s1" and ?r1 = "pl_bytes s1"
  have s: "pl_exit s = Running" "?r \<noteq> []" "decoder_inv m ?b"
    "prepend (pl_packets s) (deframe m (?b @ ?r)) = spec"
    using inv run by (simp_all add: push_running_def)
  have s1: "?b1 @ ?r1 = ?b @ ?r" "pl_exit s1 = Running" "pl_packets s1 = pl_packets s"
    "length ?b1 < 6 \<Longrightarrow> ?r1 = []" "length ?b < 6 \<Longrightarrow> length ?r1 < length ?r"
    "length ?b < 6 \<Longrightarrow> length ?b1 \<le> 6" "6 \<le> length ?b \<Longrightarrow> s1 = s"
    using fill_header_facts [of s] s(1,2) unfolding s1_def by auto
  show ?thesis
  proof (cases "length ?b1 < 6")
    case True
    have "push_body m s = s1\<lparr>pl_exit := Broke\<rparr>"
      using True by (simp add: push_body_def s1_def [symmetric] ble_consts Let_def)
    moreover have "length ?b < 6"
      using True s1(7) by (cases "length ?b < 6") auto
    ultimately show ?thesis
      using s s1 True by (simp add: decoder_inv_def)
  next
    case False
    hence h: "validate_header (?b @ ?r) m = validate_header ?b1 m"
      using validate_header_prefix [of ?b1 ?r1 m] s1(1) by simp
    have len: "6 \<le> length (?b @ ?r)"
      using False arg_cong [OF s1(1), of length] by simp
    have body: "push_body m s = (case validate_header ?b1 m of Ok n \<Rightarrow> fill_frame n s1
        | Err e \<Rightarrow> s1\<lparr>pl_buffered := [], pl_exit := Failed e\<rparr> | Panic \<Rightarrow> s1\<lparr>pl_exit := Crashed\<rparr>)"
      using False by (simp add: push_body_def s1_def [symmetric] ble_consts Let_def)
    show ?thesis
    proof (cases "validate_header ?b1 m")
      case (Ok n)
      have "length ?b1 < 6 + n"
      proof (cases "length ?b < 6")
        case True
        then show ?thesis
          using s1(6) validate_header_range [OF Ok] by linarith
      next
        case False
        then show ?thesis
          using s1(7) s(3) Ok by (auto simp: decoder_inv_def)
      qed
      hence f: "loop_inv m spec (fill_frame n s1)
          \<and> length (pl_bytes (fill_frame n s1)) \<le> length ?r1
          \<and> (?r1 \<noteq> [] \<longrightarrow> length (pl_bytes (fill_frame n s1)) < length ?r1)"
        using fill_frame_step [of s1 m n spec] False Ok s s1 by simp
      have "length (pl_bytes (fill_frame n s1)) < length ?r"
        using f s1(5,7) s(2) by (cases "length ?b < 6") auto
      then show ?thesis
        using f body Ok by (simp del: loop_inv.simps)
    next
      case (Err e)
      hence "length ?b < 6"
        using s(3) s1(7) by (cases "length ?b < 6") (auto simp: decoder_inv_def)
      then show ?thesis
        using Err body s1(5) deframe_unfold(1) [OF len, of m e] h s(4) by auto
    next
      case Panic
      then show ?thesis
        using validate_header_no_panic False by force
    qed
  qed
qed

lemma push_terminates_with:
  assumes "loop_inv m spec s"
  shows "\<exists>t. while_option push_running (push_body m) s = Some t \<and> loop_inv m spec t \<and> \<not> push_running t"
proof -
  have "\<exists>t. while_option push_running (push_body m) s = Some t"
    using push_body_step assms
    by (intro measure_while_option_Some [where P = "loop_inv m spec" and f = "\<lambda>s. length (pl_bytes s)"]) blast+
  then obtain t where t: "while_option push_running (push_body m) s = Some t" ..
  moreover have "loop_inv m spec t"
    using push_body_step by (intro while_option_rule [OF _ t, where P = "loop_inv m spec"] assms) blast+
  ultimately show ?thesis
    using while_option_stop [OF t] by blast
qed

lemma push_exact:
  assumes "decoder_inv (bd_max_payload_len d) (bd_buffered d)"
  shows "push d bytes = Some
    (case deframe (bd_max_payload_len d) (bd_buffered d @ bytes) of
       (ps, r, None) \<Rightarrow> (d\<lparr>bd_buffered := r\<rparr>, Ok ps)
     | (ps, r, Some e) \<Rightarrow> (d\<lparr>bd_buffered := []\<rparr>, Err e))"
proof -
  let ?m = "bd_max_payload_len d"
  let ?s = "\<lparr>pl_buffered = bd_buffered d, pl_bytes = bytes, pl_packets = [], pl_exit = Running\<rparr>"
  obtain ps r e where spec: "deframe ?m (bd_buffered d @ bytes) = (ps, r, e)"
    by (cases "deframe ?m (bd_buffered d @ bytes)")
  have "loop_inv ?m (ps, r, e) ?s"
    using assms spec by simp
  then obtain t where t: "while_option push_running (push_body ?m) ?s = Some t"
    "loop_inv ?m (ps, r, e) t" "\<not> push_running t"
    using push_terminates_with by blast
  show ?thesis
    using t spec by (auto simp: push_def push_result_def push_running_def deframe_partial
        split: push_exit.splits option.splits)
qed

section \<open>Segmentation\<close>

lemma deframe_cases:
  obtains (Partial) "deframe m bs = ([], bs, None)" "decoder_inv m bs"
  | (Bad) e where "6 \<le> length bs" "validate_header bs m = Err e"
  | (Frame) n where "6 \<le> length bs" "validate_header bs m = Ok n" "6 + n \<le> length bs"
proof (cases "validate_header bs m")
  case Panic
  then show ?thesis
    using that(1) validate_header_no_panic [of bs m]
    by (cases "6 \<le> length bs") (auto simp: deframe.simps [of m bs] decoder_inv_def)
next
  case (Ok n)
  then show ?thesis
    using that(1,3) by (cases "6 \<le> length bs"; cases "6 + n \<le> length bs")
      (auto simp: deframe.simps [of m bs] decoder_inv_def)
next
  case (Err e)
  then show ?thesis
    using that(1,2) by (cases "6 \<le> length bs") (auto simp: deframe.simps [of m bs] decoder_inv_def)
qed

lemma deframe_inv: "deframe m bs = (ps, r, None) \<Longrightarrow> decoder_inv m r"
proof (induction m bs arbitrary: ps rule: deframe.induct)
  case (1 m bs)
  show ?case
  proof (cases rule: deframe_cases [of m bs])
    case (Frame n)
    then obtain qs where "deframe m (drop (6 + n) bs) = (qs, r, None)"
      using "1.prems" deframe_unfold(2) [OF Frame] by (auto simp: prepend_def split: prod.splits)
    then show ?thesis
      using "1.IH" [OF _ Frame(2)] Frame by simp
  qed (use "1.prems" deframe_unfold(1) in auto)
qed

lemma deframe_error_append:
  "snd (snd (deframe m xs)) = Some e \<Longrightarrow> snd (snd (deframe m (xs @ ys))) = Some e"
proof (induction m xs rule: deframe.induct)
  case (1 m xs)
  show ?case
  proof (cases rule: deframe_cases [of m xs])
    case (Frame n)
    then have "snd (snd (deframe m (drop (6 + n) xs @ ys))) = Some e"
      using "1.IH" [OF _ Frame(2)] "1.prems" deframe_unfold(2) [OF Frame]
      by (simp add: prepend_def split: prod.splits)
    then show ?thesis
      using deframe_unfold(2) [of "xs @ ys" m n] Frame
      by (simp add: validate_header_prefix prepend_def case_prod_unfold)
  next
    case (Bad x)
    then show ?thesis
      using "1.prems" deframe_unfold(1) [OF Bad] deframe_unfold(1) [of "xs @ ys" m x]
      by (simp add: validate_header_prefix)
  qed (use "1.prems" in simp)
qed

lemma deframe_append:
  "deframe m xs = (ps, r, None) \<Longrightarrow> deframe m (xs @ ys) = prepend ps (deframe m (r @ ys))"
proof (induction m xs arbitrary: ps rule: deframe.induct)
  case (1 m xs)
  show ?case
  proof (cases rule: deframe_cases [of m xs])
    case (Frame n)
    obtain qs where qs: "deframe m (drop (6 + n) xs) = (qs, r, None)" "ps = take n (drop 6 xs) # qs"
      using "1.prems" deframe_unfold(2) [OF Frame] by (auto simp: prepend_def split: prod.splits)
    have "deframe m (drop (6 + n) xs @ ys) = prepend qs (deframe m (r @ ys))"
      using "1.IH" [OF _ Frame(2)] Frame qs(1) by simp
    moreover have "deframe m (xs @ ys) = prepend [take n (drop 6 xs)] (deframe m (drop (6 + n) xs @ ys))"
      using deframe_unfold(2) [of "xs @ ys" m n] Frame by (simp add: validate_header_prefix)
    ultimately show ?thesis
      by (simp add: qs(2))
  qed (use "1.prems" deframe_unfold(1) in auto)
qed

lemma deframe_encoded:
  assumes "encode_frame p m = Ok f" and "m' = min m 65535"
  shows "deframe m' (f @ ys) = prepend [p] (deframe m' ys)"
proof -
  have p: "p \<noteq> []" "length p \<le> m'" "length p < 65536"
    and f: "f = [0x46, 0x42, 2, 0] @ to_be 2 (of_nat (length p) :: u16) @ p"
    using assms by (auto simp: encode_frame_def ble_consts Let_def split: if_splits)
  have "unat (of_nat (length p) :: u16) = length p"
    using p(3) by (simp add: unat_of_nat)
  hence "validate_header (f @ ys) m' = Ok (length p)"
    using p unfolding f
    by (simp add: validate_header_def ble_consts slice_def index_at_def of_be_to_be Let_def)
  moreover have len: "length f = 6 + length p" and "take (length p) (drop 6 (f @ ys)) = p"
    by (simp_all add: f)
  moreover have "drop (6 + length p) (f @ ys) = ys"
    by (simp add: len)
  ultimately show ?thesis
    using deframe_unfold(2) [of "f @ ys" m' "length p"] by simp
qed

lemma deframe_frames:
  assumes "list_all2 (\<lambda>p f. encode_frame p m = Ok f) ps fs" and "m' = min m 65535"
  shows "deframe m' (concat fs @ ys) = prepend ps (deframe m' ys)"
  using assms(1) by induction (simp_all add: deframe_encoded [OF _ assms(2)])

text \<open>Feeding the decoder a list of reads: the packets of all of them, or the first error.\<close>

fun feed :: "ble_frame_decoder \<Rightarrow> bytes list \<Rightarrow> (ble_frame_decoder \<times> (ble_frame_error, bytes list) outcome) option" where
  "feed d [] = Some (d, Ok [])"
| "feed d (c # cs) =
     (case push d c of
        Some (d', Ok ps) \<Rightarrow>
          (case feed d' cs of Some (d'', Ok qs) \<Rightarrow> Some (d'', Ok (ps @ qs)) | other \<Rightarrow> other)
      | other \<Rightarrow> other)"

lemma feed_exact:
  assumes "decoder_inv (bd_max_payload_len d) (bd_buffered d)"
    and "deframe (bd_max_payload_len d) (bd_buffered d @ concat cs) = (ps, r, None)"
  shows "feed d cs = Some (d\<lparr>bd_buffered := r\<rparr>, Ok ps)"
  using assms
proof (induction cs arbitrary: d ps)
  case Nil
  then show ?case
    by (simp add: deframe_partial)
next
  case (Cons c cs)
  let ?m = "bd_max_payload_len d"
  obtain qs t e where c: "deframe ?m (bd_buffered d @ c) = (qs, t, e)"
    by (cases "deframe ?m (bd_buffered d @ c)")
  have e: "e = None"
    using deframe_error_append [of ?m "bd_buffered d @ c" _ "concat cs"] Cons.prems(2) c
    by (cases e) auto
  have "prepend qs (deframe ?m (t @ concat cs)) = (ps, r, None)"
    using deframe_append [of ?m "bd_buffered d @ c" qs t "concat cs"] c e Cons.prems(2) by simp
  then obtain qs' where "deframe ?m (t @ concat cs) = (qs', r, None)" "ps = qs @ qs'"
    by (auto simp: prepend_def split: prod.splits)
  moreover have "push d c = Some (d\<lparr>bd_buffered := t\<rparr>, Ok qs)"
    using push_exact [OF Cons.prems(1), of c] c e by simp
  ultimately show ?case
    using Cons.IH [of "d\<lparr>bd_buffered := t\<rparr>" qs'] deframe_inv c e by simp
qed

section \<open>The framed stream\<close>

function chunks :: "nat \<Rightarrow> bytes \<Rightarrow> bytes list" where
  "chunks n bs = (if bs = [] \<or> n = 0 then [] else take n bs # chunks n (drop n bs))"
  by pat_completeness auto

termination
  by (relation "measure (\<lambda>(n, bs). length bs)") auto

declare chunks.simps [simp del]

definition framed_send :: "nat \<Rightarrow> u16 \<Rightarrow> bytes \<Rightarrow> (ble_frame_error, bytes list) outcome" where
  "framed_send send_mtu max_payload data =
     obind (encode_frame data (unat max_payload)) (\<lambda>encoded. Ok (chunks (max send_mtu 1) encoded))"

datatype ble_receive_error = RawRecvFailed | ClosedInFrame | BadFrame ble_frame_error
  | ReceiveBufferTooSmall nat nat | DecoderStuck

record receive_state =
  rs_decoder :: ble_frame_decoder
  rs_pending :: "bytes list"
  rs_raw_buffer_len :: nat

definition framed_new :: "u16 \<Rightarrow> nat \<Rightarrow> receive_state" where
  "framed_new max_payload recv_mtu =
     \<lparr>rs_decoder = decoder_new (unat max_payload), rs_pending = [],
      rs_raw_buffer_len = max recv_mtu BLE_V2_HEADER_LEN\<rparr>"

definition copy_packet :: "bytes \<Rightarrow> nat \<Rightarrow> (ble_receive_error, bytes) outcome" where
  "copy_packet packet output_len =
     (if length packet > output_len then Err (ReceiveBufferTooSmall (length packet) output_len)
      else Ok packet)"

text \<open>One \<open>recv\<close>: the raw reads still to come are a list, each a read of at most the buffer's size or
  a failure; past its end a raw read returns no bytes.\<close>

fun framed_recv_loop ::
  "receive_state \<Rightarrow> bytes option list \<Rightarrow> nat \<Rightarrow> receive_state \<times> bytes option list \<times> (ble_receive_error, bytes) outcome" where
  "framed_recv_loop st [] output_len =
     (st, [], if bd_buffered (rs_decoder st) \<noteq> [] then Err ClosedInFrame else Ok [])"
| "framed_recv_loop st (None # raws) output_len = (st\<lparr>rs_raw_buffer_len := 0\<rparr>, raws, Err RawRecvFailed)"
| "framed_recv_loop st (Some bytes # raws) output_len =
     (if bytes = []
      then (st, raws, if bd_buffered (rs_decoder st) \<noteq> [] then Err ClosedInFrame else Ok [])
      else case push (rs_decoder st) bytes of
        None \<Rightarrow> (st, raws, Err DecoderStuck)
      | Some (d, Err e) \<Rightarrow> (st\<lparr>rs_decoder := d, rs_raw_buffer_len := 0\<rparr>, raws, Err (BadFrame e))
      | Some (d, Panic) \<Rightarrow> (st\<lparr>rs_decoder := d\<rparr>, raws, Panic)
      | Some (d, Ok decoded) \<Rightarrow>
          (case rs_pending st @ decoded of
             packet # pending \<Rightarrow>
               (st\<lparr>rs_decoder := d, rs_pending := pending\<rparr>, raws, copy_packet packet output_len)
           | [] \<Rightarrow> framed_recv_loop (st\<lparr>rs_decoder := d, rs_pending := []\<rparr>) raws output_len))"

definition framed_recv ::
  "receive_state \<Rightarrow> bytes option list \<Rightarrow> nat \<Rightarrow> receive_state \<times> bytes option list \<times> (ble_receive_error, bytes) outcome" where
  "framed_recv st raws output_len =
     (case rs_pending st of
        packet # pending \<Rightarrow> (st\<lparr>rs_pending := pending\<rparr>, raws, copy_packet packet output_len)
      | [] \<Rightarrow> framed_recv_loop st raws output_len)"

primrec recv_times :: "nat \<Rightarrow> receive_state \<Rightarrow> bytes option list \<Rightarrow> nat \<Rightarrow> (ble_receive_error, bytes) outcome list" where
  "recv_times 0 st raws output_len = []"
| "recv_times (Suc n) st raws output_len =
     (case framed_recv st raws output_len of
        (st', raws', out) \<Rightarrow> out # recv_times n st' raws' output_len)"

section \<open>Delivery\<close>

text \<open>\<open>incoming st cs\<close>: the packets a receiver still has to hand out when the reads to come are \<open>cs\<close>.\<close>

definition incoming :: "receive_state \<Rightarrow> bytes list \<Rightarrow> bytes list \<times> bytes \<times> ble_frame_error option" where
  "incoming st cs = prepend (rs_pending st)
     (deframe (bd_max_payload_len (rs_decoder st)) (bd_buffered (rs_decoder st) @ concat cs))"

definition receiver_inv :: "receive_state \<Rightarrow> bool" where
  "receiver_inv st \<longleftrightarrow> decoder_inv (bd_max_payload_len (rs_decoder st)) (bd_buffered (rs_decoder st))"

lemma push_step_incoming:
  assumes "receiver_inv st" and "incoming st (c # cs) = (ps, r, None)"
  shows "\<exists>qs t. push (rs_decoder st) c = Some ((rs_decoder st)\<lparr>bd_buffered := t\<rparr>, Ok qs)
    \<and> receiver_inv (st\<lparr>rs_decoder := (rs_decoder st)\<lparr>bd_buffered := t\<rparr>, rs_pending := rs_pending st @ qs\<rparr>)
    \<and> incoming (st\<lparr>rs_decoder := (rs_decoder st)\<lparr>bd_buffered := t\<rparr>, rs_pending := rs_pending st @ qs\<rparr>) cs
        = (ps, r, None)"
proof -
  let ?d = "rs_decoder st" and ?m = "bd_max_payload_len (rs_decoder st)"
  let ?b = "bd_buffered (rs_decoder st)"
  obtain qs t e where c: "deframe ?m (?b @ c) = (qs, t, e)"
    by (cases "deframe ?m (?b @ c)")
  have "snd (snd (deframe ?m ((?b @ c) @ concat cs))) = None"
    using assms(2) by (simp add: incoming_def prepend_def split: prod.splits)
  hence e: "e = None"
    using deframe_error_append [of ?m "?b @ c" _ "concat cs"] c by (cases e) auto
  have "push ?d c = Some (?d\<lparr>bd_buffered := t\<rparr>, Ok qs)"
    using push_exact [of ?d c] assms(1) c e by (simp add: receiver_inv_def)
  moreover have "decoder_inv ?m t"
    using deframe_inv c e by simp
  moreover have "deframe ?m (?b @ concat (c # cs)) = prepend qs (deframe ?m (t @ concat cs))"
    using deframe_append [of ?m "?b @ c" qs t "concat cs"] c e by simp
  ultimately show ?thesis
    using assms(2) by (intro exI [of _ qs] exI [of _ t]) (simp add: incoming_def receiver_inv_def)
qed

lemma framed_recv_loop_next:
  assumes "receiver_inv st" and "rs_pending st = []" and "incoming st cs = (p # ps, r, None)"
    and "list_all (\<lambda>c. c \<noteq> []) cs" and "length p \<le> n"
  shows "\<exists>st' cs'. framed_recv_loop st (map Some cs) n = (st', map Some cs', Ok p) \<and> receiver_inv st'
    \<and> incoming st' cs' = (ps, r, None) \<and> list_all (\<lambda>c. c \<noteq> []) cs'"
  using assms
proof (induction cs arbitrary: st)
  case Nil
  then show ?case
    by (simp add: incoming_def receiver_inv_def deframe_partial)
next
  case (Cons c cs)
  obtain qs t where q: "push (rs_decoder st) c = Some ((rs_decoder st)\<lparr>bd_buffered := t\<rparr>, Ok qs)"
    "receiver_inv (st\<lparr>rs_decoder := (rs_decoder st)\<lparr>bd_buffered := t\<rparr>, rs_pending := qs\<rparr>)"
    "incoming (st\<lparr>rs_decoder := (rs_decoder st)\<lparr>bd_buffered := t\<rparr>, rs_pending := qs\<rparr>) cs = (p # ps, r, None)"
    using push_step_incoming [OF Cons.prems(1,3)] Cons.prems(2) by auto
  show ?case
  proof (cases qs)
    case Nil
    then show ?thesis
      using Cons.IH [OF q(2) _ q(3)] q(1) Cons.prems by simp
  next
    case (Cons x xs)
    hence "x = p" "incoming (st\<lparr>rs_decoder := (rs_decoder st)\<lparr>bd_buffered := t\<rparr>, rs_pending := xs\<rparr>) cs
        = (ps, r, None)"
      using q(3) by (auto simp: incoming_def prepend_def split: prod.splits)
    then show ?thesis
      using Cons q(1,2) Cons.prems by (auto simp: copy_packet_def receiver_inv_def)
  qed
qed

lemma framed_recv_next:
  assumes "receiver_inv st" and "incoming st cs = (p # ps, r, None)"
    and "list_all (\<lambda>c. c \<noteq> []) cs" and "length p \<le> n"
  shows "\<exists>st' cs'. framed_recv st (map Some cs) n = (st', map Some cs', Ok p) \<and> receiver_inv st'
    \<and> incoming st' cs' = (ps, r, None) \<and> list_all (\<lambda>c. c \<noteq> []) cs'"
proof (cases "rs_pending st")
  case Nil
  then show ?thesis
    using framed_recv_loop_next [OF assms(1) Nil assms(2-4)] by (simp add: framed_recv_def)
next
  case (Cons x xs)
  hence "x = p" "incoming (st\<lparr>rs_pending := xs\<rparr>) cs = (ps, r, None)"
    using assms(2) by (auto simp: incoming_def prepend_def split: prod.splits)
  then show ?thesis
    using Cons assms by (auto simp: framed_recv_def copy_packet_def receiver_inv_def)
qed

lemma recv_times_delivers:
  assumes "receiver_inv st" and "incoming st cs = (ps, r, None)"
    and "list_all (\<lambda>c. c \<noteq> []) cs" and "list_all (\<lambda>p. length p \<le> n) ps"
  shows "recv_times (length ps) st (map Some cs) n = map Ok ps"
  using assms
proof (induction ps arbitrary: st cs)
  case (Cons p ps)
  obtain st' cs' where "framed_recv st (map Some cs) n = (st', map Some cs', Ok p)" "receiver_inv st'"
    "incoming st' cs' = (ps, r, None)" "list_all (\<lambda>c. c \<noteq> []) cs'"
    using framed_recv_next [OF Cons.prems(1,2,3), of n] Cons.prems(4) by auto
  then show ?case
    using Cons.IH [of st' cs'] Cons.prems(4) by simp
qed simp

lemma concat_chunks: "0 < n \<Longrightarrow> concat (chunks n bs) = bs"
  by (induction n bs rule: chunks.induct) (simp add: chunks.simps [of _ "[]"], subst chunks.simps, auto)

section \<open>Properties\<close>

text \<open>C31: Whatever bytes arrive, in whatever pieces, the decoding loop of every push ends and no index
  or slice in it is out of range; a decoder fed any list of reads from its initial state returns
  either packets or an error, and it never buffers more than one incomplete frame of at most
  the configured payload size.\<close>

theorem ble_decoder_terminates:
  "\<exists>d out. feed (decoder_new m) cs = Some (d, out) \<and> out \<noteq> Panic
    \<and> bd_max_payload_len d = min m 65535 \<and> length (bd_buffered d) < 6 + max 1 (min m 65535)"
proof -
  have inv: "\<exists>d' out. feed d cs = Some (d', out) \<and> out \<noteq> Panic
      \<and> bd_max_payload_len d' = bd_max_payload_len d
      \<and> decoder_inv (bd_max_payload_len d') (bd_buffered d')"
    if "decoder_inv (bd_max_payload_len d) (bd_buffered d)" for d
    using that
  proof (induction cs arbitrary: d)
    case (Cons c cs)
    let ?m = "bd_max_payload_len d"
    obtain ps t e where c: "deframe ?m (bd_buffered d @ c) = (ps, t, e)"
      by (cases "deframe ?m (bd_buffered d @ c)")
    show ?case
    proof (cases e)
      case None
      hence "push d c = Some (d\<lparr>bd_buffered := t\<rparr>, Ok ps)" "decoder_inv ?m t"
        using push_exact [OF Cons.prems, of c] c deframe_inv by simp_all
      then show ?thesis
        using Cons.IH [of "d\<lparr>bd_buffered := t\<rparr>"] by (auto split: outcome.split)
    next
      case (Some x)
      then show ?thesis
        using push_exact [OF Cons.prems, of c] c by simp
    qed
  qed simp
  have "length b < 6 + max 1 k" if "decoder_inv k b" for k b
    using that by (auto simp: decoder_inv_def validate_header_def obind_Ok Let_def
        split: outcome.splits if_splits)
  thus ?thesis
    using inv [of "decoder_new m"] by (fastforce simp: decoder_new_def)
qed

text \<open>C32: The framed BLE stream delivers every packet exactly once, whole and in order: packets of
  admissible size that are sent back to back, cut into writes of the sender's size, and that the
  platform hands to the receiver as any other sequence of non-empty reads of the same bytes, come
  out of successive receives as the packets that were sent.\<close>

theorem ble_stream_delivers:
  assumes "list_all2 (\<lambda>p ws. framed_send send_mtu max_payload p = Ok ws) ps wss"
    and "concat reads = concat (concat wss)" and "list_all (\<lambda>c. c \<noteq> []) reads"
    and "list_all (\<lambda>p. length p \<le> n) ps"
  shows "recv_times (length ps) (framed_new max_payload recv_mtu) (map Some reads) n = map Ok ps"
proof -
  let ?m = "unat max_payload" and ?st = "framed_new max_payload recv_mtu"
  have enc: "list_all2 (\<lambda>p f. encode_frame p ?m = Ok f) ps (map concat wss)"
    using assms(1) by (auto simp: list_all2_map2 framed_send_def obind_Ok concat_chunks
        elim!: list_all2_mono)
  have "concat (concat wss) = concat (map concat wss)"
    by (induction wss) simp_all
  hence "deframe (min ?m 65535) (concat reads) = (ps, [], None)"
    using deframe_frames [OF enc refl, of "[]"] assms(2) by (simp add: deframe.simps)
  hence "incoming ?st reads = (ps, [], None)"
    by (simp add: incoming_def framed_new_def decoder_new_def)
  moreover have "receiver_inv ?st"
    by (simp add: receiver_inv_def framed_new_def decoder_new_def)
  ultimately show ?thesis
    using recv_times_delivers assms(3,4) by blast
qed

theorem ble_stream_delivers_witness:
  "list_all2 (\<lambda>p ws. framed_send 4 100 p = Ok ws) [[1, 2, 3], [9]]
     [[[0x46, 0x42, 2, 0], [0, 3, 1, 2], [3]], [[0x46, 0x42, 2, 0], [0, 1, 9]]]
   \<and> recv_times 2 (framed_new 100 20)
       (map Some [[0x46], [0x42, 2, 0, 0, 3, 1], [2, 3, 0x46, 0x42, 2], [0, 0, 1, 9]]) 50
     = map Ok [[1, 2, 3], [9]]"
proof -
  let ?ws = "[[[0x46, 0x42, 2, 0], [0, 3, 1, 2], [3]], [[0x46, 0x42, 2, 0], [0, 1, 9]]] :: bytes list list"
  let ?rs = "[[0x46], [0x42, 2, 0, 0, 3, 1], [2, 3, 0x46, 0x42, 2], [0, 0, 1, 9]] :: bytes list"
  have "to_be 2 (3 :: u16) = [0, 3]" "to_be 2 (1 :: u16) = [0, 1]"
    by code_simp+
  hence s: "list_all2 (\<lambda>p ws. framed_send 4 100 p = Ok ws) [[1, 2, 3], [9]] ?ws"
    by (simp add: framed_send_def encode_frame_def chunks.simps ble_consts Let_def)
  moreover have "concat ?rs = concat (concat ?ws)" "list_all (\<lambda>c. c \<noteq> []) ?rs"
    "list_all (\<lambda>p. length p \<le> 50) [[1, 2, 3], [9 :: u8]]"
    by simp_all
  from ble_stream_delivers [OF s this, of 20]
  have "recv_times 2 (framed_new 100 20) (map Some ?rs) 50 = map Ok [[1, 2, 3], [9]]"
    by (simp only: list.size) (simp add: numeral_2_eq_2)
  ultimately show ?thesis
    by blast
qed

end
