(* ===== verification/Mmp_Algorithms.thy ===== *)
theory Mmp_Algorithms
  imports F64
begin

text \<open>
  The estimators of the metrics protocol (\<^verbatim>\<open>proto/mmp/algorithms.rs\<close>): interarrival jitter,
  smoothed round-trip time, the dual moving average, the one-way delay trend, the expected
  transmission count and the spin bit. A signed 64-bit value is the integer it denotes; \<open>i64\<close>
  reduces the result of an addition, subtraction or shift to that range, \<open>i32\<close> is the truncating
  cast. Floating point is that of \<open>F64\<close>.
\<close>

section \<open>Signed integers\<close>

definition i64 :: "int \<Rightarrow> int" where
  "i64 x = (x + 2 ^ 63) mod 2 ^ 64 - 2 ^ 63"

definition i32 :: "int \<Rightarrow> int" where
  "i32 x = (x + 2 ^ 31) mod 2 ^ 32 - 2 ^ 31"

definition shr :: "int \<Rightarrow> nat \<Rightarrow> int" where
  "shr x k = x div 2 ^ k"

definition half_trunc :: "int \<Rightarrow> int" where
  "half_trunc x = (if 0 \<le> x then x div 2 else - ((- x) div 2))"

lemma i64_id: "- 9223372036854775808 \<le> x \<Longrightarrow> x < 9223372036854775808 \<Longrightarrow> i64 x = x"
  by (simp add: i64_def)

lemma i32_range: "- (2 ^ 31) \<le> i32 x" "i32 x < 2 ^ 31"
proof -
  have "0 \<le> (x + 2 ^ 31) mod 2 ^ 32" "(x + 2 ^ 31) mod 2 ^ 32 < 2 ^ 32"
    by simp_all
  thus "- (2 ^ 31) \<le> i32 x" "i32 x < 2 ^ 31"
    by (simp_all add: i32_def)
qed

section \<open>Jitter\<close>

record jitter_estimator =
  jitter_q4 :: int

definition jitter_new :: jitter_estimator where
  "jitter_new = \<lparr>jitter_q4 = 0\<rparr>"

definition jitter_update :: "jitter_estimator \<Rightarrow> int \<Rightarrow> jitter_estimator" where
  "jitter_update j transit_delta =
     (let abs_d = \<bar>transit_delta\<bar> in
      j\<lparr>jitter_q4 := i64 (jitter_q4 j + i64 (abs_d - shr (jitter_q4 j) 4))\<rparr>)"

definition jitter_us :: "jitter_estimator \<Rightarrow> u32" where
  "jitter_us j = of_int (shr (jitter_q4 j) 4)"

section \<open>Round-trip time\<close>

record srtt_estimator =
  srtt_us :: int
  rttvar_us :: int
  srtt_initialized :: bool

definition srtt_new :: srtt_estimator where
  "srtt_new = \<lparr>srtt_us = 0, rttvar_us = 0, srtt_initialized = False\<rparr>"

definition srtt_update :: "srtt_estimator \<Rightarrow> int \<Rightarrow> srtt_estimator" where
  "srtt_update s rtt_us =
     (if \<not> srtt_initialized s
      then \<lparr>srtt_us = rtt_us, rttvar_us = half_trunc rtt_us, srtt_initialized = True\<rparr>
      else let err = i64 \<bar>i64 (srtt_us s - rtt_us)\<bar> in
        s\<lparr>rttvar_us := i64 (i64 (rttvar_us s - shr (rttvar_us s) 2) + shr err 2),
          srtt_us := i64 (i64 (srtt_us s - shr (srtt_us s) 3) + shr rtt_us 3)\<rparr>)"

definition rto_us :: "srtt_estimator \<Rightarrow> int" where
  "rto_us s = max (i64 (srtt_us s + max (i64 (rttvar_us s * 4)) 1000000)) 1000000"

section \<open>Dual moving average\<close>

definition EWMA_SHORT_ALPHA :: f64 where "EWMA_SHORT_ALPHA = Fin (1 / 4)"
definition EWMA_LONG_ALPHA :: f64 where "EWMA_LONG_ALPHA = Fin (1 / 32)"

record dual_ewma =
  ewma_short :: f64
  ewma_long :: f64
  ewma_initialized :: bool

definition ewma_new :: dual_ewma where
  "ewma_new = \<lparr>ewma_short = Fin 0, ewma_long = Fin 0, ewma_initialized = False\<rparr>"

definition ewma_update :: "dual_ewma \<Rightarrow> f64 \<Rightarrow> dual_ewma" where
  "ewma_update e sample =
     (if \<not> ewma_initialized e
      then \<lparr>ewma_short = sample, ewma_long = sample, ewma_initialized = True\<rparr>
      else e\<lparr>ewma_short := f_add (ewma_short e) (f_mul EWMA_SHORT_ALPHA (f_sub sample (ewma_short e))),
             ewma_long := f_add (ewma_long e) (f_mul EWMA_LONG_ALPHA (f_sub sample (ewma_long e)))\<rparr>)"

section \<open>One-way delay trend\<close>

record owd_trend_detector =
  owd_samples :: "(u32 \<times> int) list"
  owd_capacity :: nat

definition owd_new :: "nat \<Rightarrow> owd_trend_detector" where
  "owd_new capacity = \<lparr>owd_samples = [], owd_capacity = capacity\<rparr>"

definition owd_clear :: "owd_trend_detector \<Rightarrow> owd_trend_detector" where
  "owd_clear d = d\<lparr>owd_samples := []\<rparr>"

definition owd_push :: "owd_trend_detector \<Rightarrow> u32 \<Rightarrow> int \<Rightarrow> owd_trend_detector" where
  "owd_push d s owd_us =
     (let kept = (if length (owd_samples d) = owd_capacity d then tl (owd_samples d) else owd_samples d)
      in d\<lparr>owd_samples := kept @ [(s, owd_us)]\<rparr>)"

definition f_of_int :: "int \<Rightarrow> f64" where
  "f_of_int x = rnd64 (of_int x)"

fun f_abs :: "f64 \<Rightarrow> f64" where
  "f_abs (Fin x) = Fin \<bar>x\<bar>"
| "f_abs NInf = PInf"
| "f_abs x = x"

definition trunc_rat :: "rat \<Rightarrow> int" where
  "trunc_rat x = (if 0 \<le> x then \<lfloor>x\<rfloor> else - \<lfloor>- x\<rfloor>)"

fun f_to_i32 :: "f64 \<Rightarrow> int" where
  "f_to_i32 (Fin x) = max (- (2 ^ 31)) (min (2 ^ 31 - 1) (trunc_rat x))"
| "f_to_i32 PInf = 2 ^ 31 - 1"
| "f_to_i32 NInf = - (2 ^ 31)"
| "f_to_i32 NaN = 0"

definition f_sum :: "f64 list \<Rightarrow> f64" where
  "f_sum xs = foldl f_add (Fin 0) xs"

definition regression_step :: "f64 \<Rightarrow> f64 \<Rightarrow> f64 \<times> f64 \<Rightarrow> u32 \<times> int \<Rightarrow> f64 \<times> f64" where
  "regression_step mean_x mean_y acc xy =
     (let dx = f_sub (f_of_nat (unat (fst xy))) mean_x;
          dy = f_sub (f_of_int (snd xy)) mean_y
      in (f_add (fst acc) (f_mul dx dy), f_add (snd acc) (f_mul dx dx)))"

definition trend_us_per_sec :: "owd_trend_detector \<Rightarrow> int" where
  "trend_us_per_sec d =
     (let n = length (owd_samples d) in
      if n < 2 then 0
      else let n_f = f_of_nat n;
               mean_x = f_div (f_sum (map (\<lambda>(s, _). f_of_nat (unat s)) (owd_samples d))) n_f;
               mean_y = f_div (f_sum (map (\<lambda>(_, y). f_of_int y) (owd_samples d))) n_f;
               (num, den) = foldl (regression_step mean_x mean_y) (Fin 0, Fin 0) (owd_samples d)
        in if f_lt (f_abs den) (Fin (1 / 2 ^ 52)) then 0
           else f_to_i32 (f_mul (f_div num den) (Fin 1000)))"

section \<open>Expected transmission count\<close>

definition compute_etx :: "f64 \<Rightarrow> f64 \<Rightarrow> f64" where
  "compute_etx d_forward d_reverse =
     (let product = f_mul d_forward d_reverse in
      if f_le product (Fin 0) then Fin 100
      else f_clamp (f_div (Fin 1) product) (Fin 1) (Fin 100))"

section \<open>Spin bit\<close>

record spin_bit_state =
  spin_is_initiator :: bool
  spin_current_value :: bool
  highest_counter_for_spin :: u64
  last_edge_time :: "instant option"

definition spin_new :: "bool \<Rightarrow> spin_bit_state" where
  "spin_new initiator =
     \<lparr>spin_is_initiator = initiator, spin_current_value = False, highest_counter_for_spin = 0,
      last_edge_time = None\<rparr>"

definition tx_bit :: "spin_bit_state \<Rightarrow> bool" where
  "tx_bit s = spin_current_value s"

definition rx_observe :: "spin_bit_state \<Rightarrow> bool \<Rightarrow> u64 \<Rightarrow> instant \<Rightarrow> spin_bit_state \<times> duration option" where
  "rx_observe s received_bit counter now =
     (if spin_is_initiator s
      then if received_bit = spin_current_value s
        then (s\<lparr>last_edge_time := Some now, spin_current_value := \<not> spin_current_value s\<rparr>,
              map_option (duration_since now) (last_edge_time s))
        else (s, None)
      else if counter > highest_counter_for_spin s
        then (s\<lparr>highest_counter_for_spin := counter, spin_current_value := received_bit\<rparr>, None)
        else (s, None))"

section \<open>Bounds of the estimators\<close>

lemma sub_div_mono: "x \<le> y \<Longrightarrow> x - x div k \<le> y - y div k" if "0 < k" for x y k :: int
proof -
  assume "x \<le> y"
  then obtain n where "y = x + int n"
    using zle_iff_zadd by blast
  moreover have "x + int n - (x + int n) div k \<ge> x - x div k"
  proof (induction n)
    case (Suc n)
    have "(x + int n + 1) div k \<le> (x + int n) div k + 1"
    proof -
      have "(x + int n + 1) div k \<le> (x + int n + k) div k"
        using that by (intro zdiv_mono1) auto
      thus ?thesis
        using that by simp
    qed
    thus ?case
      using Suc by (simp add: algebra_simps)
  qed simp
  ultimately show ?thesis
    by simp
qed

lemma jitter_step_bound:
  assumes "0 \<le> jitter_q4 j" and "jitter_q4 j \<le> 16 * B + 15" and "\<bar>d\<bar> \<le> B" and "B \<le> 2147483648"
  shows "0 \<le> jitter_q4 (jitter_update j d) \<and> jitter_q4 (jitter_update j d) \<le> 16 * B + 15
    \<and> jitter_q4 (jitter_update j d) = jitter_q4 j + \<bar>d\<bar> - jitter_q4 j div 16"
proof -
  let ?q = "jitter_q4 j"
  have m: "?q - ?q div 16 \<le> (16 * B + 15) - (16 * B + 15) div 16"
    by (rule sub_div_mono) (use assms in simp_all)
  have l: "0 \<le> ?q - ?q div 16"
    using sub_div_mono [of 16 0 ?q] assms(1) by simp
  have "?q div 16 \<le> ?q" "0 \<le> ?q div 16"
    using assms(1) l by simp_all
  hence "i64 (\<bar>d\<bar> - ?q div 16) = \<bar>d\<bar> - ?q div 16"
    using assms by (intro i64_id) linarith+
  moreover have "i64 (?q + (\<bar>d\<bar> - ?q div 16)) = ?q + (\<bar>d\<bar> - ?q div 16)"
    using assms m l by (intro i64_id) linarith+
  ultimately have "jitter_q4 (jitter_update j d) = ?q + (\<bar>d\<bar> - ?q div 16)"
    by (simp add: jitter_update_def shr_def)
  moreover have "(16 * B + 15) div 16 = B"
    by simp
  ultimately show ?thesis
    using assms m l by linarith
qed

lemma jitter_run_bound:
  assumes "list_all (\<lambda>d. \<bar>d\<bar> \<le> B) ds" and "0 \<le> B" and "B \<le> 2147483648"
  shows "0 \<le> jitter_q4 (foldl jitter_update jitter_new ds)
    \<and> jitter_q4 (foldl jitter_update jitter_new ds) \<le> 16 * B + 15"
  using assms(1)
proof (induction ds rule: rev_induct)
  case Nil
  then show ?case
    using assms(2) by (simp add: jitter_new_def)
next
  case (snoc d ds)
  then show ?case
    using jitter_step_bound [of "foldl jitter_update jitter_new ds" B d] assms(3) by simp
qed

lemma unat_jitter_us:
  assumes "0 \<le> jitter_q4 j" and "jitter_q4 j \<le> 16 * B + 15" and "B \<le> 2147483648"
  shows "int (unat (jitter_us j)) \<le> B"
proof -
  have "0 \<le> jitter_q4 j div 16" "jitter_q4 j div 16 \<le> (16 * B + 15) div 16"
    using assms by (simp_all add: zdiv_mono1)
  hence d: "0 \<le> jitter_q4 j div 16" "jitter_q4 j div 16 \<le> B"
    by simp_all
  have "uint (word_of_int (jitter_q4 j div 16) :: u32) = jitter_q4 j div 16"
    using d assms(3) by (simp add: unsigned_of_int take_bit_eq_mod)
  thus ?thesis
    using d by (simp add: jitter_us_def shr_def)
qed

lemma srtt_step_bound:
  assumes "srtt_initialized s" and "m \<le> srtt_us s" "srtt_us s \<le> M" "0 \<le> rttvar_us s" "rttvar_us s \<le> M"
    and "m \<le> r" "r \<le> M" and "0 \<le> m" "M < 1152921504606846976"
  shows "m \<le> srtt_us (srtt_update s r)" "srtt_us (srtt_update s r) \<le> M"
    "0 \<le> rttvar_us (srtt_update s r)" "rttvar_us (srtt_update s r) \<le> M"
    "srtt_initialized (srtt_update s r)"
proof -
  let ?s = "srtt_us s" and ?v = "rttvar_us s"
  have e: "i64 (?s - r) = ?s - r" "i64 \<bar>?s - r\<bar> = \<bar>?s - r\<bar>"
    using assms by (intro i64_id; linarith)+
  have s: "m - m div 8 \<le> ?s - ?s div 8" "?s - ?s div 8 \<le> M - M div 8"
    and v: "0 \<le> ?v - ?v div 4" "?v - ?v div 4 \<le> M - M div 4"
    using assms sub_div_mono [of 8 m ?s] sub_div_mono [of 8 ?s M] sub_div_mono [of 4 0 ?v]
      sub_div_mono [of 4 ?v M] by simp_all
  have r: "m div 8 \<le> r div 8" "r div 8 \<le> M div 8" "0 \<le> m div 8"
    and d: "0 \<le> \<bar>?s - r\<bar> div 4" "\<bar>?s - r\<bar> div 4 \<le> M div 4" "0 \<le> M div 4" "M div 4 \<le> M" "M div 8 \<le> M"
    using assms by (simp_all add: zdiv_mono1)
  have "i64 (?s - ?s div 8) = ?s - ?s div 8" "i64 (?v - ?v div 4) = ?v - ?v div 4"
    "i64 (?s - ?s div 8 + r div 8) = ?s - ?s div 8 + r div 8"
    "i64 (?v - ?v div 4 + \<bar>?s - r\<bar> div 4) = ?v - ?v div 4 + \<bar>?s - r\<bar> div 4"
    using assms s v r d by (intro i64_id; linarith)+
  hence u: "srtt_update s r = s\<lparr>rttvar_us := ?v - ?v div 4 + \<bar>?s - r\<bar> div 4,
      srtt_us := ?s - ?s div 8 + r div 8\<rparr>"
    using assms(1) e by (simp add: srtt_update_def shr_def Let_def)
  have b: "m \<le> ?s - ?s div 8 + r div 8" "?s - ?s div 8 + r div 8 \<le> M"
    "0 \<le> ?v - ?v div 4 + \<bar>?s - r\<bar> div 4" "?v - ?v div 4 + \<bar>?s - r\<bar> div 4 \<le> M"
    using s v r d by linarith+
  have p: "srtt_us (srtt_update s r) = ?s - ?s div 8 + r div 8"
    "rttvar_us (srtt_update s r) = ?v - ?v div 4 + \<bar>?s - r\<bar> div 4"
    "srtt_initialized (srtt_update s r) = srtt_initialized s"
    by (simp_all add: u)
  show "m \<le> srtt_us (srtt_update s r)" "srtt_us (srtt_update s r) \<le> M"
    "0 \<le> rttvar_us (srtt_update s r)" "rttvar_us (srtt_update s r) \<le> M"
    "srtt_initialized (srtt_update s r)"
    using b assms(1) by (simp_all only: p)
qed

lemma srtt_run_bound:
  assumes "rs \<noteq> []" and "list_all (\<lambda>r. m \<le> r \<and> r \<le> M) rs" and "0 \<le> m" "M < 1152921504606846976"
  shows "let s = foldl srtt_update srtt_new rs in srtt_initialized s \<and> m \<le> srtt_us s \<and> srtt_us s \<le> M
    \<and> 0 \<le> rttvar_us s \<and> rttvar_us s \<le> M"
  using assms(1,2)
proof (induction rs rule: rev_nonempty_induct)
  case (single r)
  then show ?case
    using assms(3) by (auto simp: srtt_update_def srtt_new_def half_trunc_def)
next
  case (snoc r rs)
  let ?s = "foldl srtt_update srtt_new rs"
  have "srtt_initialized ?s" "m \<le> srtt_us ?s" "srtt_us ?s \<le> M" "0 \<le> rttvar_us ?s" "rttvar_us ?s \<le> M"
    using snoc by (simp_all add: Let_def)
  from srtt_step_bound [OF this, of r] snoc.prems assms(3,4) show ?case
    by (simp add: Let_def)
qed

section \<open>Properties\<close>

text \<open>The integer estimators never leave the range of their samples and never overflow. After
  any number of round-trip samples between \<open>m\<close> and \<open>M\<close> the smoothed value lies between \<open>m\<close> and \<open>M\<close>,
  the variance between zero and \<open>M\<close>, and the retransmission timeout is at least a second and at
  least the smoothed value; after any number of transit deltas of magnitude at most \<open>B\<close> the jitter
  reported on the wire is at most \<open>B\<close>.\<close>

theorem estimators_within_samples:
  assumes "rs \<noteq> []" and "list_all (\<lambda>r. m \<le> r \<and> r \<le> M) rs" and "0 \<le> m" "M < 1152921504606846976"
    and "list_all (\<lambda>d. \<bar>d\<bar> \<le> B) ds" and "0 \<le> B" "B \<le> 2147483648"
  shows "m \<le> srtt_us (foldl srtt_update srtt_new rs) \<and> srtt_us (foldl srtt_update srtt_new rs) \<le> M
    \<and> 0 \<le> rttvar_us (foldl srtt_update srtt_new rs) \<and> rttvar_us (foldl srtt_update srtt_new rs) \<le> M
    \<and> rto_us (foldl srtt_update srtt_new rs) \<ge> max 1000000 (srtt_us (foldl srtt_update srtt_new rs))
    \<and> int (unat (jitter_us (foldl jitter_update jitter_new ds))) \<le> B"
proof -
  let ?s = "foldl srtt_update srtt_new rs"
  have s: "m \<le> srtt_us ?s" "srtt_us ?s \<le> M" "0 \<le> rttvar_us ?s" "rttvar_us ?s \<le> M"
    using srtt_run_bound [OF assms(1-4)] by (simp_all add: Let_def)
  have "i64 (rttvar_us ?s * 4) = rttvar_us ?s * 4"
    using s assms(4) by (intro i64_id) linarith+
  moreover have "i64 (srtt_us ?s + max (rttvar_us ?s * 4) 1000000) = srtt_us ?s + max (rttvar_us ?s * 4) 1000000"
    using s assms(3,4) by (intro i64_id) linarith+
  ultimately have "rto_us ?s \<ge> max 1000000 (srtt_us ?s)"
    using s by (auto simp: rto_us_def)
  thus ?thesis
    using s unat_jitter_us jitter_run_bound [OF assms(5-7)] assms(7) by blast
qed

theorem estimators_within_samples_witness:
  "1000 \<le> srtt_us (foldl srtt_update srtt_new [1000, 9000, 4000])
   \<and> srtt_us (foldl srtt_update srtt_new [1000, 9000, 4000]) \<le> 9000
   \<and> int (unat (jitter_us (foldl jitter_update jitter_new [- 50, 20, 50]))) \<le> 50"
  using estimators_within_samples [of "[1000, 9000, 4000]" 1000 9000 50 "[- 50, 20, 50]"]
  by simp

end
