(* ===== verification/Mmp_Endpoints.thy ===== *)
theory Mmp_Endpoints
  imports Mmp_Algorithms Wire_Report
begin

text \<open>
  The two ends of the metrics protocol: the gap tracker and receiver state of
  \<^verbatim>\<open>proto/mmp/receiver.rs\<close> and the sender state of \<^verbatim>\<open>proto/mmp/sender.rs\<close>, with every operation.
  Plain additions on counters wrap as in a release build.
\<close>

section \<open>Constants\<close>

definition DEFAULT_COLD_START_INTERVAL_MS :: nat where "DEFAULT_COLD_START_INTERVAL_MS = 200"
definition MIN_REPORT_INTERVAL_MS :: nat where "MIN_REPORT_INTERVAL_MS = 1000"
definition MAX_REPORT_INTERVAL_MS :: nat where "MAX_REPORT_INTERVAL_MS = 5000"
definition COLD_START_SAMPLES :: u32 where "COLD_START_SAMPLES = 5"
definition REKEY_JITTER_GRACE_SECS :: nat where "REKEY_JITTER_GRACE_SECS = 15"

lemmas interval_consts = DEFAULT_COLD_START_INTERVAL_MS_def MIN_REPORT_INTERVAL_MS_def
  MAX_REPORT_INTERVAL_MS_def COLD_START_SAMPLES_def

definition as_micros :: "duration \<Rightarrow> nat" where "as_micros d = d div 1000"
definition as_millis :: "duration \<Rightarrow> nat" where "as_millis d = d div 1000000"

fun f_to_u16 :: "f64 \<Rightarrow> u16" where
  "f_to_u16 (Fin x) = of_int (max 0 (min 65535 (trunc_rat x)))"
| "f_to_u16 PInf = 65535"
| "f_to_u16 _ = 0"

section \<open>Gap tracker\<close>

record gap_tracker =
  expected_next :: "u64 option"
  in_burst :: bool
  current_burst_len :: u16
  burst_count :: u32
  max_burst_len :: u16
  total_burst_len :: u64

definition gap_new :: gap_tracker where
  "gap_new = \<lparr>expected_next = None, in_burst = False, current_burst_len = 0, burst_count = 0,
     max_burst_len = 0, total_burst_len = 0\<rparr>"

definition finish_burst :: "gap_tracker \<Rightarrow> gap_tracker" where
  "finish_burst g =
     (if in_burst g
      then g\<lparr>max_burst_len := max (max_burst_len g) (current_burst_len g),
             total_burst_len := total_burst_len g + ucast (current_burst_len g),
             in_burst := False, current_burst_len := 0\<rparr>
      else g)"

definition enter_gap :: "gap_tracker \<Rightarrow> u64 \<Rightarrow> gap_tracker" where
  "enter_gap g gap =
     (if in_burst g
      then g\<lparr>current_burst_len := saturating_add (current_burst_len g) (ucast gap)\<rparr>
      else g\<lparr>in_burst := True, current_burst_len := ucast gap, burst_count := burst_count g + 1\<rparr>)"

definition observe :: "gap_tracker \<Rightarrow> u64 \<Rightarrow> gap_tracker \<times> u64" where
  "observe g counter =
     (case expected_next g of
        None \<Rightarrow> (g\<lparr>expected_next := Some (saturating_add counter 1)\<rparr>, 0)
      | Some expected \<Rightarrow>
          let (g, lost) =
                (if counter > expected then (enter_gap g (counter - expected), counter - expected)
                 else (if in_burst g then finish_burst g else g, 0));
              g = (if counter \<ge> expected then g\<lparr>expected_next := Some (saturating_add counter 1)\<rparr> else g)
          in (g, lost))"

definition take_interval_stats :: "gap_tracker \<Rightarrow> gap_tracker \<times> u32 \<times> u16 \<times> u16" where
  "take_interval_stats g =
     (let g = finish_burst g;
          count = burst_count g;
          mean_len =
            (if count > 0
             then f_to_u16 (f_mul (f_div (f_of_nat (unat (total_burst_len g))) (f_of_nat (unat count))) (Fin 256))
             else 0)
      in (g\<lparr>burst_count := 0, max_burst_len := 0, total_burst_len := 0\<rparr>,
          count, max_burst_len g, mean_len))"

section \<open>Receiver\<close>

record receiver_state =
  rv_cumulative_packets_recv :: u64
  rv_cumulative_bytes_recv :: u64
  rv_cumulative_reorder_count :: u64
  rv_highest_counter :: u64
  rv_interval_packets_recv :: u32
  rv_interval_bytes_recv :: u32
  rv_jitter :: jitter_estimator
  rv_owd_trend :: owd_trend_detector
  rv_owd_seq :: u32
  rv_gap_tracker :: gap_tracker
  rv_ecn_ce_count :: u32
  rv_last_sender_timestamp :: u32
  rv_last_recv_time :: "instant option"
  rv_rekey_jitter_grace_until :: "instant option"
  rv_last_report_time :: "instant option"
  rv_report_interval :: duration
  rv_interval_has_data :: bool
  rv_srtt_sample_count :: u32

definition receiver_new_with_cold_start :: "nat \<Rightarrow> nat \<Rightarrow> receiver_state" where
  "receiver_new_with_cold_start owd_window_size cold_start_ms =
     \<lparr>rv_cumulative_packets_recv = 0, rv_cumulative_bytes_recv = 0, rv_cumulative_reorder_count = 0,
      rv_highest_counter = 0, rv_interval_packets_recv = 0, rv_interval_bytes_recv = 0,
      rv_jitter = jitter_new, rv_owd_trend = owd_new owd_window_size, rv_owd_seq = 0,
      rv_gap_tracker = gap_new, rv_ecn_ce_count = 0, rv_last_sender_timestamp = 0,
      rv_last_recv_time = None, rv_rekey_jitter_grace_until = None, rv_last_report_time = None,
      rv_report_interval = from_millis cold_start_ms, rv_interval_has_data = False,
      rv_srtt_sample_count = 0\<rparr>"

definition receiver_new :: "nat \<Rightarrow> receiver_state" where
  "receiver_new owd_window_size =
     receiver_new_with_cold_start owd_window_size DEFAULT_COLD_START_INTERVAL_MS"

definition receiver_reset_for_rekey :: "receiver_state \<Rightarrow> instant \<Rightarrow> receiver_state" where
  "receiver_reset_for_rekey r now =
     r\<lparr>rv_highest_counter := 0, rv_cumulative_reorder_count := 0, rv_gap_tracker := gap_new,
       rv_interval_packets_recv := 0, rv_interval_bytes_recv := 0, rv_jitter := jitter_new,
       rv_owd_trend := owd_clear (rv_owd_trend r), rv_owd_seq := 0, rv_last_sender_timestamp := 0,
       rv_last_recv_time := None,
       rv_rekey_jitter_grace_until := Some (now + from_secs REKEY_JITTER_GRACE_SECS),
       rv_ecn_ce_count := 0, rv_interval_has_data := False\<rparr>"

definition count_frame :: "receiver_state \<Rightarrow> u64 \<Rightarrow> nat \<Rightarrow> bool \<Rightarrow> receiver_state" where
  "count_frame r counter nbytes ce_flag =
     (let r = r\<lparr>rv_interval_has_data := True,
                rv_cumulative_packets_recv := rv_cumulative_packets_recv r + 1,
                rv_cumulative_bytes_recv := rv_cumulative_bytes_recv r + of_nat nbytes,
                rv_interval_packets_recv := saturating_add (rv_interval_packets_recv r) 1,
                rv_interval_bytes_recv := saturating_add (rv_interval_bytes_recv r) (of_nat nbytes)\<rparr>;
          r = (if counter < rv_highest_counter r
               then r\<lparr>rv_cumulative_reorder_count := rv_cumulative_reorder_count r + 1\<rparr>
               else r\<lparr>rv_highest_counter := counter\<rparr>);
          r = r\<lparr>rv_gap_tracker := fst (observe (rv_gap_tracker r) counter)\<rparr>
      in if ce_flag then r\<lparr>rv_ecn_ce_count := saturating_add (rv_ecn_ce_count r) 1\<rparr> else r)"

definition track_jitter :: "receiver_state \<Rightarrow> int \<Rightarrow> instant \<Rightarrow> receiver_state" where
  "track_jitter r sender_us now =
     (if (case rv_rekey_jitter_grace_until r of Some deadline \<Rightarrow> now < deadline | None \<Rightarrow> False) then r
      else let r = r\<lparr>rv_rekey_jitter_grace_until := None\<rparr> in
        case rv_last_recv_time r of
          None \<Rightarrow> r
        | Some prev_recv \<Rightarrow>
            let recv_delta_us = i64 (int (as_micros (duration_since now prev_recv)));
                send_delta_us = i64 (sender_us - int (unat (rv_last_sender_timestamp r)) * 1000);
                transit_delta = i32 (i64 (recv_delta_us - send_delta_us))
            in r\<lparr>rv_jitter := jitter_update (rv_jitter r) transit_delta\<rparr>)"

definition track_owd :: "receiver_state \<Rightarrow> int \<Rightarrow> instant \<Rightarrow> receiver_state" where
  "track_owd r sender_us now =
     (let first_recv = (case rv_last_recv_time r of Some t \<Rightarrow> t | None \<Rightarrow> now);
          recv_offset_us = i64 (int (as_micros (duration_since now first_recv)));
          owd_us = i64 (recv_offset_us - sender_us);
          r = r\<lparr>rv_owd_seq := rv_owd_seq r + 1\<rparr>
      in r\<lparr>rv_owd_trend := owd_push (rv_owd_trend r) (rv_owd_seq r) owd_us\<rparr>)"

definition record_recv :: "receiver_state \<Rightarrow> u64 \<Rightarrow> u32 \<Rightarrow> nat \<Rightarrow> bool \<Rightarrow> instant \<Rightarrow> receiver_state" where
  "record_recv r counter sender_timestamp_ms nbytes ce_flag now =
     (let r = count_frame r counter nbytes ce_flag;
          sender_us = int (unat sender_timestamp_ms) * 1000;
          r = track_jitter r sender_us now;
          r = track_owd r sender_us now
      in r\<lparr>rv_last_sender_timestamp := sender_timestamp_ms, rv_last_recv_time := Some now\<rparr>)"

definition timestamp_echo :: "receiver_state \<Rightarrow> instant \<Rightarrow> u32 \<times> u16" where
  "timestamp_echo r now =
     (case rv_last_recv_time r of
        None \<Rightarrow> (0, 0)
      | Some t \<Rightarrow>
          let dwell_ms = as_millis (duration_since now t) in
          if dwell_ms > 65535 then (0, 65535) else (rv_last_sender_timestamp r, of_nat dwell_ms))"

definition receiver_build_report :: "receiver_state \<Rightarrow> instant \<Rightarrow> receiver_state \<times> receiver_report option" where
  "receiver_build_report r now =
     (if \<not> rv_interval_has_data r then (r, None)
      else let (g, bursts, max_burst, mean_burst) = take_interval_stats (rv_gap_tracker r);
               report = \<lparr>rr_highest_counter = rv_highest_counter r,
                 rr_cumulative_packets_recv = rv_cumulative_packets_recv r,
                 rr_cumulative_bytes_recv = rv_cumulative_bytes_recv r,
                 rr_timestamp_echo = fst (timestamp_echo r now),
                 rr_dwell_time = snd (timestamp_echo r now),
                 rr_max_burst_loss = max_burst, rr_mean_burst_loss = mean_burst,
                 rr_jitter = jitter_us (rv_jitter r), rr_ecn_ce_count = rv_ecn_ce_count r,
                 rr_owd_trend = of_int (trend_us_per_sec (rv_owd_trend r)),
                 rr_burst_loss_count = bursts,
                 rr_cumulative_reorder_count = ucast (rv_cumulative_reorder_count r),
                 rr_interval_packets_recv = rv_interval_packets_recv r,
                 rr_interval_bytes_recv = rv_interval_bytes_recv r\<rparr>
        in (r\<lparr>rv_gap_tracker := g, rv_interval_packets_recv := 0, rv_interval_bytes_recv := 0,
              rv_interval_has_data := False, rv_last_report_time := Some now\<rparr>, Some report))"

definition receiver_next_report_at :: "receiver_state \<Rightarrow> instant \<Rightarrow> instant option" where
  "receiver_next_report_at r now =
     (if \<not> rv_interval_has_data r then None
      else Some (case rv_last_report_time r of None \<Rightarrow> now | Some prev \<Rightarrow> prev + rv_report_interval r))"

definition receiver_should_send_report :: "receiver_state \<Rightarrow> instant \<Rightarrow> bool" where
  "receiver_should_send_report r now =
     (case receiver_next_report_at r now of None \<Rightarrow> False | Some due \<Rightarrow> now \<ge> due)"

text \<open>The standard library's \<^verbatim>\<open>clamp\<close> panics when its bounds are crossed.\<close>

definition clamp_nat :: "nat \<Rightarrow> nat \<Rightarrow> nat \<Rightarrow> (unit, nat) outcome" where
  "clamp_nat x lo hi = (if lo > hi then Panic else Ok (if x < lo then lo else if x > hi then hi else x))"

definition receiver_update_interval_with_bounds ::
  "receiver_state \<Rightarrow> int \<Rightarrow> nat \<Rightarrow> nat \<Rightarrow> (unit, receiver_state) outcome" where
  "receiver_update_interval_with_bounds r srtt min_ms max_ms =
     (if srtt \<le> 0 then Ok r
      else obind (clamp_nat (nat srtt div 1000) min_ms max_ms)
        (\<lambda>interval_ms. Ok (r\<lparr>rv_report_interval := from_millis interval_ms\<rparr>)))"

definition receiver_update_interval_from_srtt :: "receiver_state \<Rightarrow> int \<Rightarrow> (unit, receiver_state) outcome" where
  "receiver_update_interval_from_srtt r srtt =
     (let r = r\<lparr>rv_srtt_sample_count := saturating_add (rv_srtt_sample_count r) 1\<rparr>;
          lower = (if rv_srtt_sample_count r \<le> COLD_START_SAMPLES
                   then DEFAULT_COLD_START_INTERVAL_MS else MIN_REPORT_INTERVAL_MS)
      in receiver_update_interval_with_bounds r srtt lower MAX_REPORT_INTERVAL_MS)"

section \<open>Sender\<close>

record sender_state =
  sn_cumulative_packets_sent :: u64
  sn_cumulative_bytes_sent :: u64
  sn_interval_start_counter :: u64
  sn_interval_start_timestamp :: u32
  sn_interval_bytes_sent :: u32
  sn_last_counter :: u64
  sn_last_timestamp :: u32
  sn_interval_has_data :: bool
  sn_last_report_time :: "instant option"
  sn_report_interval :: duration
  sn_consecutive_send_failures :: u32
  sn_srtt_sample_count :: u32

definition sender_new_with_cold_start :: "nat \<Rightarrow> sender_state" where
  "sender_new_with_cold_start cold_start_ms =
     \<lparr>sn_cumulative_packets_sent = 0, sn_cumulative_bytes_sent = 0, sn_interval_start_counter = 0,
      sn_interval_start_timestamp = 0, sn_interval_bytes_sent = 0, sn_last_counter = 0,
      sn_last_timestamp = 0, sn_interval_has_data = False, sn_last_report_time = None,
      sn_report_interval = from_millis cold_start_ms, sn_consecutive_send_failures = 0,
      sn_srtt_sample_count = 0\<rparr>"

definition sender_new :: sender_state where
  "sender_new = sender_new_with_cold_start DEFAULT_COLD_START_INTERVAL_MS"

definition record_sent :: "sender_state \<Rightarrow> u64 \<Rightarrow> u32 \<Rightarrow> nat \<Rightarrow> sender_state" where
  "record_sent s counter timestamp nbytes =
     (let s = (if \<not> sn_interval_has_data s
               then s\<lparr>sn_interval_start_counter := counter, sn_interval_start_timestamp := timestamp,
                      sn_interval_has_data := True\<rparr> else s)
      in s\<lparr>sn_last_counter := counter, sn_last_timestamp := timestamp,
           sn_interval_bytes_sent := saturating_add (sn_interval_bytes_sent s) (of_nat nbytes),
           sn_cumulative_packets_sent := sn_cumulative_packets_sent s + 1,
           sn_cumulative_bytes_sent := sn_cumulative_bytes_sent s + of_nat nbytes\<rparr>)"

definition sender_build_report :: "sender_state \<Rightarrow> instant \<Rightarrow> sender_state \<times> sender_report option" where
  "sender_build_report s now =
     (if \<not> sn_interval_has_data s then (s, None)
      else (s\<lparr>sn_interval_has_data := False, sn_interval_bytes_sent := 0, sn_last_report_time := Some now\<rparr>,
            Some \<lparr>sr_interval_start_counter = sn_interval_start_counter s,
                  sr_interval_end_counter = sn_last_counter s,
                  sr_interval_start_timestamp = sn_interval_start_timestamp s,
                  sr_interval_end_timestamp = sn_last_timestamp s,
                  sr_interval_bytes_sent = sn_interval_bytes_sent s,
                  sr_cumulative_packets_sent = sn_cumulative_packets_sent s,
                  sr_cumulative_bytes_sent = sn_cumulative_bytes_sent s\<rparr>))"

definition sender_reset_for_rekey :: "sender_state \<Rightarrow> sender_state" where
  "sender_reset_for_rekey s =
     s\<lparr>sn_interval_start_counter := 0, sn_interval_start_timestamp := 0, sn_interval_bytes_sent := 0,
       sn_last_counter := 0, sn_last_timestamp := 0, sn_interval_has_data := False\<rparr>"

definition valid_pending :: "sender_state \<Rightarrow> bool" where
  "valid_pending p =
     (if sn_cumulative_packets_sent p = 0
      then \<not> sn_interval_has_data p \<and> sn_cumulative_bytes_sent p = 0
      else if sn_cumulative_packets_sent p = 1
      then sn_interval_has_data p \<and> sn_interval_start_counter p = sn_last_counter p
           \<and> sn_interval_start_timestamp p = sn_last_timestamp p
           \<and> sn_cumulative_bytes_sent p = ucast (sn_interval_bytes_sent p)
      else False)"

definition absorb_pending_sender :: "sender_state \<Rightarrow> sender_state \<Rightarrow> sender_state \<times> (sender_state, unit) outcome" where
  "absorb_pending_sender s p =
     (if sn_interval_has_data s \<or> sn_last_report_time p \<noteq> None \<or> \<not> valid_pending p then (s, Err p)
      else case checked_add (sn_cumulative_packets_sent s) (sn_cumulative_packets_sent p) of
        None \<Rightarrow> (s, Err p)
      | Some packets \<Rightarrow>
          (case checked_add (sn_cumulative_bytes_sent s) (sn_cumulative_bytes_sent p) of
             None \<Rightarrow> (s, Err p)
           | Some nbytes \<Rightarrow>
               (if sn_cumulative_packets_sent p \<noteq> 0
                then s\<lparr>sn_interval_start_counter := sn_interval_start_counter p,
                       sn_interval_start_timestamp := sn_interval_start_timestamp p,
                       sn_interval_bytes_sent := sn_interval_bytes_sent p,
                       sn_last_counter := sn_last_counter p, sn_last_timestamp := sn_last_timestamp p,
                       sn_interval_has_data := True, sn_cumulative_packets_sent := packets,
                       sn_cumulative_bytes_sent := nbytes\<rparr>
                else s, Ok ())))"

definition as_secs_f64 :: "duration \<Rightarrow> f64" where
  "as_secs_f64 d = f_add (f_of_nat (d div 10 ^ 9)) (f_div (f_of_nat (d mod 10 ^ 9)) (Fin (10 ^ 9)))"

fun from_secs_f64 :: "f64 \<Rightarrow> duration" where
  "from_secs_f64 (Fin x) = nat (round_half_even (x * 10 ^ 9))"
| "from_secs_f64 _ = 0"

definition send_failure_backoff_multiplier :: "sender_state \<Rightarrow> f64" where
  "send_failure_backoff_multiplier s =
     (if sn_consecutive_send_failures s = 0 then Fin 1
      else Fin (2 ^ unat (min (sn_consecutive_send_failures s) 5)))"

definition sender_next_report_at :: "sender_state \<Rightarrow> instant \<Rightarrow> instant option" where
  "sender_next_report_at s now =
     (if \<not> sn_interval_has_data s then None
      else Some (case sn_last_report_time s of
          None \<Rightarrow> now
        | Some prev \<Rightarrow> prev + from_secs_f64
            (f_mul (send_failure_backoff_multiplier s) (as_secs_f64 (sn_report_interval s)))))"

definition sender_should_send_report :: "sender_state \<Rightarrow> instant \<Rightarrow> bool" where
  "sender_should_send_report s now =
     (case sender_next_report_at s now of None \<Rightarrow> False | Some due \<Rightarrow> now \<ge> due)"

definition record_send_failure :: "sender_state \<Rightarrow> sender_state \<times> u32" where
  "record_send_failure s =
     (let n = sn_consecutive_send_failures s + 1 in (s\<lparr>sn_consecutive_send_failures := n\<rparr>, n))"

definition record_send_success :: "sender_state \<Rightarrow> sender_state \<times> u32" where
  "record_send_success s = (s\<lparr>sn_consecutive_send_failures := 0\<rparr>, sn_consecutive_send_failures s)"

definition sender_update_interval_with_bounds ::
  "sender_state \<Rightarrow> int \<Rightarrow> nat \<Rightarrow> nat \<Rightarrow> (unit, sender_state) outcome" where
  "sender_update_interval_with_bounds s srtt min_ms max_ms =
     (if srtt \<le> 0 then Ok s
      else let interval_us = unat (of_int (i64 (srtt * 2)) :: u64) in
        obind (clamp_nat (interval_us div 1000) min_ms max_ms)
          (\<lambda>interval_ms. Ok (s\<lparr>sn_report_interval := from_millis interval_ms\<rparr>)))"

definition sender_update_interval_from_srtt :: "sender_state \<Rightarrow> int \<Rightarrow> (unit, sender_state) outcome" where
  "sender_update_interval_from_srtt s srtt =
     (let s = s\<lparr>sn_srtt_sample_count := saturating_add (sn_srtt_sample_count s) 1\<rparr>;
          lower = (if sn_srtt_sample_count s \<le> COLD_START_SAMPLES
                   then DEFAULT_COLD_START_INTERVAL_MS else MIN_REPORT_INTERVAL_MS)
      in sender_update_interval_with_bounds s srtt lower MAX_REPORT_INTERVAL_MS)"

text \<open>The compiled-in bounds are ordered, so an update from a round-trip time never panics and leaves an
  interval within them.\<close>

lemma update_interval_from_srtt_in_range:
  "\<exists>s'. sender_update_interval_from_srtt s srtt = Ok s'
     \<and> (0 < srtt \<longrightarrow> sn_report_interval s' \<in> {from_millis DEFAULT_COLD_START_INTERVAL_MS..from_millis MAX_REPORT_INTERVAL_MS})"
  "\<exists>r'. receiver_update_interval_from_srtt r srtt = Ok r'
     \<and> (0 < srtt \<longrightarrow> rv_report_interval r' \<in> {from_millis DEFAULT_COLD_START_INTERVAL_MS..from_millis MAX_REPORT_INTERVAL_MS})"
  by (auto simp: sender_update_interval_from_srtt_def sender_update_interval_with_bounds_def
      receiver_update_interval_from_srtt_def receiver_update_interval_with_bounds_def clamp_nat_def Let_def
      DEFAULT_COLD_START_INTERVAL_MS_def MIN_REPORT_INTERVAL_MS_def MAX_REPORT_INTERVAL_MS_def from_millis_def)

section \<open>Loss accounting\<close>

definition gap_inv :: "gap_tracker \<Rightarrow> bool" where
  "gap_inv g \<longleftrightarrow> in_burst g \<or> current_burst_len g = 0"

definition missing :: "gap_tracker \<Rightarrow> nat" where
  "missing g = unat (total_burst_len g) + unat (current_burst_len g)"

lemma unat_ucast_gap: "unat (ucast (w :: u64) :: u16) = unat w mod 65536"
  by (simp add: unsigned_ucast_eq take_bit_eq_mod)

lemma unat_ucast_burst: "unat (ucast (w :: u16) :: u64) = unat w"
  using unat_less_exp [of w] by (simp add: unsigned_ucast_eq take_bit_eq_mod)

lemma missing_finish_burst:
  "gap_inv g \<Longrightarrow> missing g < 65536 \<Longrightarrow> missing (finish_burst g) = missing g \<and> gap_inv (finish_burst g)"
  by (auto simp: missing_def finish_burst_def gap_inv_def unat_ucast_burst unat_add_exact)

lemma missing_enter_gap:
  assumes "gap_inv g" and "missing g + unat gap < 65536"
  shows "missing (enter_gap g gap) = missing g + unat gap \<and> gap_inv (enter_gap g gap)"
proof -
  have "unat (ucast gap :: u16) = unat gap"
    using assms(2) by (simp add: unat_ucast_gap)
  thus ?thesis
    using assms by (auto simp: missing_def enter_gap_def gap_inv_def unat_saturating_add)
qed

lemma finish_enter_expected [simp]:
  "expected_next (finish_burst g) = expected_next g" "expected_next (enter_gap g n) = expected_next g"
  by (simp_all add: finish_burst_def enter_gap_def)

lemma missing_expected [simp]:
  "missing (g\<lparr>expected_next := e\<rparr>) = missing g" "gap_inv (g\<lparr>expected_next := e\<rparr>) = gap_inv g"
  by (simp_all add: missing_def gap_inv_def)

lemma observe_step:
  assumes "gap_inv g" and "expected_next g = Some e" and "e \<le> c" and "c \<noteq> - 1"
    and "missing g + (unat c - unat e) < 65536"
  shows "let g' = fst (observe g c) in gap_inv g' \<and> expected_next g' = Some (c + 1)
    \<and> missing g' = missing g + (unat c - unat e)"
proof -
  have next1: "saturating_add c 1 = c + 1"
    using unat_saturating_add [of c 1] unat_plus_one [OF assms(4)] unat_less_exp [of "c + 1"]
    by (simp add: word_eq_iff_unsigned [where ?'a = nat])
  show ?thesis
  proof (cases "c = e")
    case True
    then show ?thesis
      using assms missing_finish_burst [of g] next1 by (auto simp: observe_def Let_def)
  next
    case False
    hence "c > e" and u: "unat (c - e) = unat c - unat e"
      using assms(3) by (simp_all add: unat_sub_le)
    then show ?thesis
      using assms missing_enter_gap [of g "c - e"] next1 by (auto simp: observe_def Let_def)
  qed
qed

lemma increasing_length: "sorted_wrt (<) (x # xs) \<Longrightarrow> x + length xs \<le> last (x # xs)" for x :: nat
  by (induction xs arbitrary: x) fastforce+

lemma observe_all:
  assumes "gap_inv g" and "expected_next g = Some e" and "cs \<noteq> []"
    and "sorted_wrt (<) (map unat cs)" and "list_all (\<lambda>c. e \<le> c \<and> c \<noteq> - 1) cs"
    and "missing g + (unat (last cs) + 1 - unat e - length cs) < 65536"
  shows "missing (foldl (\<lambda>g c. fst (observe g c)) g cs)
    = missing g + (unat (last cs) + 1 - unat e - length cs)"
  using assms(3,1,2,4-)
proof (induction cs arbitrary: g e rule: list_nonempty_induct)
  case (single c)
  then show ?case
    using observe_step [of g e c] by (simp add: Let_def)
next
  case (cons c cs)
  let ?g = "fst (observe g c)"
  have ce: "e \<le> c" "c \<noteq> - 1" and le: "unat e \<le> unat c"
    using cons.prems(4) by (simp_all add: word_le_nat_alt)
  have len: "unat c + length cs \<le> unat (last cs)"
    using increasing_length [of "unat c" "map unat cs"] cons by (simp add: last_map)
  have g: "gap_inv ?g" "expected_next ?g = Some (c + 1)" "missing ?g = missing g + (unat c - unat e)"
    using observe_step [of g e c] cons ce len le by (simp_all add: Let_def)
  have c1: "unat (c + 1) = unat c + 1"
    using unat_plus_one [OF ce(2)] by simp
  have "c + 1 \<le> x \<and> x \<noteq> - 1" if "x \<in> set cs" for x
    using cons.prems(3,4) that by (auto simp: word_le_nat_alt c1 list_all_iff)
  hence "missing (foldl (\<lambda>g c. fst (observe g c)) ?g cs)
      = missing ?g + (unat (last cs) + 1 - unat (c + 1) - length cs)"
    using cons.IH [of ?g "c + 1"] g c1 len le cons.prems cons.hyps by (simp add: list_all_iff)
  then show ?case
    using g(3) c1 len le cons.hyps by simp
qed

text \<open>A gap is stored modulo \<open>2 ^ 16\<close>: the length of a burst of 65536 lost frames is zero.\<close>

lemma large_gap_truncated:
  "expected_next g = Some e \<Longrightarrow> e < c \<Longrightarrow> \<not> in_burst g \<Longrightarrow>
   unat (current_burst_len (fst (observe g c))) = (unat c - unat e) mod 65536"
  by (auto simp: observe_def enter_gap_def Let_def unat_ucast_gap unat_sub_le)

section \<open>Frames and reports\<close>

datatype receiver_op = Recv u64 u32 nat bool instant | BuildReport instant

fun receiver_step :: "receiver_state \<times> receiver_report list \<Rightarrow> receiver_op \<Rightarrow> receiver_state \<times> receiver_report list" where
  "receiver_step (r, reports) (Recv counter ts nbytes ce now) =
     (record_recv r counter ts nbytes ce now, reports)"
| "receiver_step (r, reports) (BuildReport now) =
     (case receiver_build_report r now of (r', None) \<Rightarrow> (r', reports) | (r', Some rep) \<Rightarrow> (r', reports @ [rep]))"

fun is_recv :: "receiver_op \<Rightarrow> bool" where
  "is_recv (Recv _ _ _ _ _) = True"
| "is_recv (BuildReport _) = False"

lemma record_recv_counts:
  "rv_cumulative_packets_recv (record_recv r c ts n ce t) = rv_cumulative_packets_recv r + 1"
  "rv_interval_packets_recv (record_recv r c ts n ce t) = saturating_add (rv_interval_packets_recv r) 1"
  "rv_highest_counter (record_recv r c ts n ce t) =
     (if c < rv_highest_counter r then rv_highest_counter r else c)"
  "rv_interval_has_data (record_recv r c ts n ce t)"
  by (simp_all add: record_recv_def count_frame_def track_jitter_def track_owd_def Let_def
      split: option.split)

lemma build_report_cases:
  obtains "\<not> rv_interval_has_data r" "receiver_build_report r t = (r, None)"
  | r' rep where "receiver_build_report r t = (r', Some rep)"
      "rr_interval_packets_recv rep = rv_interval_packets_recv r" "rv_interval_packets_recv r' = 0"
      "rr_cumulative_packets_recv rep = rv_cumulative_packets_recv r"
      "rr_highest_counter rep = rv_highest_counter r"
      "rv_cumulative_packets_recv r' = rv_cumulative_packets_recv r"
      "rv_highest_counter r' = rv_highest_counter r" "\<not> rv_interval_has_data r'"
  by (cases "rv_interval_has_data r"; cases "take_interval_stats (rv_gap_tracker r)")
    (auto simp: receiver_build_report_def)

fun report_inv :: "receiver_op list \<Rightarrow> receiver_state \<times> receiver_report list \<Rightarrow> bool" where
  "report_inv ops (r, reps) \<longleftrightarrow>
     sum_list (map (unat \<circ> rr_interval_packets_recv) reps) + unat (rv_interval_packets_recv r)
       = length (filter is_recv ops)
   \<and> unat (rv_cumulative_packets_recv r) = length (filter is_recv ops)
   \<and> sorted (map (unat \<circ> rr_highest_counter) reps @ [unat (rv_highest_counter r)])
   \<and> sorted (map (unat \<circ> rr_cumulative_packets_recv) reps @ [unat (rv_cumulative_packets_recv r)])"

lemma report_inv_step:
  assumes "report_inv ops (r, reps)" and "length ops < 4294967295"
  shows "report_inv (ops @ [op]) (receiver_step (r, reps) op)"
proof (cases op)
  case (Recv c ts n ce t)
  have len: "length (filter is_recv ops) < 4294967295"
    using assms(2) le_less_trans length_filter_le by blast
  have "unat (rv_interval_packets_recv r) < 4294967295" "unat (rv_cumulative_packets_recv r) < 4294967295"
    using assms(1) len by auto
  hence "unat (saturating_add (rv_interval_packets_recv r) 1) = unat (rv_interval_packets_recv r) + 1"
    "unat (rv_cumulative_packets_recv r + 1) = unat (rv_cumulative_packets_recv r) + 1"
    by (simp_all add: unat_saturating_add unat_add_exact)
  then show ?thesis
    using assms(1) Recv by (auto simp: record_recv_counts sorted_append word_less_nat_alt word_le_nat_alt)
next
  case (BuildReport t)
  then show ?thesis
    using assms(1) by (cases rule: build_report_cases [of r t]) (auto simp: sorted_append)
qed

section \<open>Properties\<close>

text \<open>C33: Receiver reports account for every frame exactly once. Over any sequence of received
  frames and report requests from a new receiver (fewer than \<open>2 ^ 32 - 1\<close> of them), the packet counts
  of the reports sent and of the open interval add up to the number of frames received, which is
  also the cumulative count, and the highest counter and the cumulative count never decrease from
  one report to the next.\<close>

theorem receiver_reports_account_for_frames:
  assumes "length ops < 4294967295"
  shows "report_inv ops (foldl receiver_step (receiver_new w, []) ops)"
  using assms
proof (induction ops rule: rev_induct)
  case Nil
  then show ?case
    by (simp add: receiver_new_def receiver_new_with_cold_start_def)
next
  case (snoc op ops)
  obtain r reps where "foldl receiver_step (receiver_new w, []) ops = (r, reps)"
    by fastforce
  then show ?case
    using report_inv_step [of ops r reps op] snoc by (simp del: report_inv.simps)
qed

theorem receiver_reports_account_for_frames_witness:
  "report_inv [Recv 3 10 100 False 5, Recv 7 20 100 True 9, BuildReport 10, Recv 8 30 50 False 12]
     (foldl receiver_step (receiver_new 32, [])
        [Recv 3 10 100 False 5, Recv 7 20 100 True 9, BuildReport 10, Recv 8 30 50 False 12])"
  by (rule receiver_reports_account_for_frames) simp

text \<open>The length of a loss burst is stored in sixteen bits by truncation although later extensions
  saturate: after a gap whose length is a multiple of 65536, the next report announces one burst
  whose maximum and mean lengths are zero.\<close>

theorem long_burst_reported_empty:
  assumes "unat e + 65536 * k = unat c" and "0 < k"
  shows "snd (take_interval_stats (fst (observe (gap_new\<lparr>expected_next := Some e\<rparr>) c))) = (1, 0, 0)"
proof -
  have "e < c" "unat (c - e) = 65536 * k"
    using assms by (simp_all add: word_less_nat_alt word_le_nat_alt unat_sub_le flip: assms(1))
  hence "ucast (c - e) = (0 :: u16)"
    by (simp add: word_eq_iff_unsigned [where ?'a = nat] unat_ucast_gap)
  thus ?thesis
    using \<open>e < c\<close> less_imp_le [OF \<open>e < c\<close>]
    by (simp add: observe_def enter_gap_def gap_new_def take_interval_stats_def finish_burst_def
        Let_def f_of_nat_def trunc_rat_def)
qed

theorem long_burst_reported_empty_witness:
  "snd (take_interval_stats (fst (observe (gap_new\<lparr>expected_next := Some 1\<rparr>) 65537))) = (1, 0, 0)"
  by (rule long_burst_reported_empty [of 1 1]) simp_all

end
