(* ===== verification/Mmp_Path_Mtu.thy ===== *)
theory Mmp_Path_Mtu
  imports Mmp_Endpoints
begin

text \<open>
  Path MTU tracking of a session (\<^verbatim>\<open>proto/mmp/mod.rs\<close>, struct \<open>PathMtuState\<close>): the destination's
  observation and notification, and the source's reaction to notifications.
\<close>

section \<open>Model\<close>

definition MIN_ACTIONABLE_PATH_MTU :: u16 where "MIN_ACTIONABLE_PATH_MTU = 256"

record path_mtu_state =
  pm_current_mtu :: u16
  pm_last_observed_mtu :: u16
  pm_observed_changed :: bool
  pm_last_notification_time :: "instant option"
  pm_notification_interval :: duration
  pm_consecutive_increase_count :: u8
  pm_first_increase_time :: "instant option"
  pm_pending_increase_mtu :: u16

definition path_mtu_new :: path_mtu_state where
  "path_mtu_new = \<lparr>pm_current_mtu = - 1, pm_last_observed_mtu = - 1, pm_observed_changed = False,
     pm_last_notification_time = None, pm_notification_interval = from_secs 10,
     pm_consecutive_increase_count = 0, pm_first_increase_time = None, pm_pending_increase_mtu = 0\<rparr>"

fun f_to_u64 :: "f64 \<Rightarrow> nat" where
  "f_to_u64 (Fin x) = nat (max 0 (min (2 ^ 64 - 1) (trunc_rat x)))"
| "f_to_u64 PInf = 2 ^ 64 - 1"
| "f_to_u64 _ = 0"

definition update_interval_from_srtt :: "path_mtu_state \<Rightarrow> f64 \<Rightarrow> path_mtu_state" where
  "update_interval_from_srtt p srtt_ms =
     (let five_srtt = from_millis (f_to_u64 (f_mul srtt_ms (Fin 5))) in
      p\<lparr>pm_notification_interval := max five_srtt (from_secs 10)\<rparr>)"

definition seed_source_mtu :: "path_mtu_state \<Rightarrow> u16 \<Rightarrow> path_mtu_state" where
  "seed_source_mtu p outbound_mtu =
     (if outbound_mtu < pm_current_mtu p then p\<lparr>pm_current_mtu := outbound_mtu\<rparr> else p)"

definition observe_incoming_mtu :: "path_mtu_state \<Rightarrow> u16 \<Rightarrow> path_mtu_state" where
  "observe_incoming_mtu p path_mtu =
     (if path_mtu \<noteq> pm_last_observed_mtu p
      then p\<lparr>pm_observed_changed := True, pm_last_observed_mtu := path_mtu\<rparr> else p)"

definition should_send_notification :: "path_mtu_state \<Rightarrow> instant \<Rightarrow> bool" where
  "should_send_notification p now =
     (if pm_last_observed_mtu p = - 1 then False
      else case pm_last_notification_time p of
        None \<Rightarrow> True
      | Some prev \<Rightarrow>
          if pm_observed_changed p \<and> pm_last_observed_mtu p < pm_current_mtu p then True
          else duration_since now prev \<ge> pm_notification_interval p)"

definition build_notification :: "path_mtu_state \<Rightarrow> instant \<Rightarrow> path_mtu_state \<times> u16 option" where
  "build_notification p now =
     (if pm_last_observed_mtu p = - 1 then (p, None)
      else (p\<lparr>pm_last_notification_time := Some now, pm_observed_changed := False\<rparr>,
            Some (pm_last_observed_mtu p)))"

definition track_increase :: "path_mtu_state \<Rightarrow> u16 \<Rightarrow> instant \<Rightarrow> path_mtu_state" where
  "track_increase p reported_mtu now =
     (if reported_mtu = pm_pending_increase_mtu p
      then p\<lparr>pm_consecutive_increase_count := pm_consecutive_increase_count p + 1\<rparr>
      else p\<lparr>pm_pending_increase_mtu := reported_mtu, pm_consecutive_increase_count := 1,
             pm_first_increase_time := Some now\<rparr>)"

definition apply_notification :: "path_mtu_state \<Rightarrow> u16 \<Rightarrow> instant \<Rightarrow> path_mtu_state \<times> bool" where
  "apply_notification p reported_mtu now =
     (if reported_mtu < MIN_ACTIONABLE_PATH_MTU then (p, False)
      else if reported_mtu < pm_current_mtu p
      then (p\<lparr>pm_current_mtu := reported_mtu, pm_consecutive_increase_count := 0,
              pm_first_increase_time := None\<rparr>, True)
      else if reported_mtu > pm_current_mtu p
      then let p = track_increase p reported_mtu now in
        case pm_first_increase_time p of
          Some first_time \<Rightarrow>
            if pm_consecutive_increase_count p \<ge> 3
               \<and> duration_since now first_time \<ge> pm_notification_interval p * 2
            then (p\<lparr>pm_current_mtu := reported_mtu, pm_consecutive_increase_count := 0,
                    pm_first_increase_time := None\<rparr>, True)
            else (p, False)
        | None \<Rightarrow> (p, False)
      else (p, False))"

section \<open>A raised MTU is not raised again\<close>

lemma apply_stuck:
  assumes "pm_first_increase_time p = None" and "pm_pending_increase_mtu p = m" and "pm_current_mtu p < m"
  shows "snd (apply_notification p m t) = False"
    "pm_first_increase_time (fst (apply_notification p m t)) = None"
    "pm_pending_increase_mtu (fst (apply_notification p m t)) = m"
    "pm_current_mtu (fst (apply_notification p m t)) = pm_current_mtu p"
  using assms by (auto simp: apply_notification_def track_increase_def Let_def)

definition notify_all :: "path_mtu_state \<Rightarrow> (u16 \<times> instant) list \<Rightarrow> path_mtu_state" where
  "notify_all p ns = foldl (\<lambda>p (m, t). fst (apply_notification p m t)) p ns"

lemma notify_stuck:
  "pm_first_increase_time p = None \<Longrightarrow> pm_pending_increase_mtu p = m \<Longrightarrow> pm_current_mtu p < m \<Longrightarrow>
   pm_current_mtu (notify_all p (map (\<lambda>t. (m, t)) ts)) = pm_current_mtu p"
proof (induction ts arbitrary: p)
  case (Cons t ts)
  then show ?case
    using Cons.IH [of "fst (apply_notification p m t)"] apply_stuck [OF Cons.prems, of t]
    by (simp add: notify_all_def)
qed (simp add: notify_all_def)

section \<open>Properties\<close>

text \<open>C35: After the path MTU has dropped from a value that was itself the last proposed increase, no
  number of notifications of that value raises it again, however long they go on: the decrease
  clears the time of the first notification but not the pending value, so the sequence never gets
  a start time. Documented behaviour is to accept an increase after three consecutive notifications
  spanning two intervals.\<close>

theorem path_mtu_recovery_stuck:
  assumes "low < high" and "256 \<le> low" and "pm_pending_increase_mtu p = high"
    and "pm_current_mtu p = high"
  shows "pm_current_mtu (notify_all (fst (apply_notification p low t)) (map (\<lambda>t. (high, t)) ts)) = low"
proof -
  let ?p = "fst (apply_notification p low t)"
  have "\<not> low < MIN_ACTIONABLE_PATH_MTU"
    using assms(2) by (simp add: MIN_ACTIONABLE_PATH_MTU_def not_less)
  hence "pm_current_mtu ?p = low" "pm_first_increase_time ?p = None" "pm_pending_increase_mtu ?p = high"
    using assms by (simp_all add: apply_notification_def)
  thus ?thesis
    using notify_stuck [of ?p high ts] assms(1) by simp
qed

definition recovered :: path_mtu_state where
  "recovered = notify_all path_mtu_new
     [(1400, from_secs 1), (1500, from_secs 10), (1500, from_secs 20), (1500, from_secs 30)]"

theorem path_mtu_recovery_stuck_witness:
  "pm_current_mtu recovered = 1500
   \<and> pm_current_mtu (notify_all (fst (apply_notification recovered 1400 (from_secs 40)))
        (map (\<lambda>t. (1500, t)) (map from_secs [50, 60, 70, 80, 90, 1000]))) = 1400"
proof -
  have "pm_pending_increase_mtu recovered = 1500" "pm_current_mtu recovered = 1500"
    by (simp_all add: recovered_def notify_all_def apply_notification_def track_increase_def
        path_mtu_new_def MIN_ACTIONABLE_PATH_MTU_def from_secs_def duration_since_def Let_def)
  thus ?thesis
    using path_mtu_recovery_stuck
      [of 1400 1500 recovered "from_secs 40" "map from_secs [50, 60, 70, 80, 90, 1000]"]
    by (simp add: comp_def)
qed

text \<open>The state after a history of notifications, seeds, interval updates and destination-side steps,
  with the log of the notifications applied.\<close>

datatype path_mtu_op = Notify u16 instant | Seed u16 | SetInterval f64 | ObserveMtu u16 | Build instant

fun pm_step :: "path_mtu_state \<times> (u16 \<times> instant) list \<Rightarrow> path_mtu_op \<Rightarrow> path_mtu_state \<times> (u16 \<times> instant) list" where
  "pm_step (p, hist) (Notify m t) = (fst (apply_notification p m t), (m, t) # hist)"
| "pm_step (p, hist) (Seed m) = (seed_source_mtu p m, hist)"
| "pm_step (p, hist) (SetInterval srtt) = (update_interval_from_srtt p srtt, hist)"
| "pm_step (p, hist) (ObserveMtu m) = (observe_incoming_mtu p m, hist)"
| "pm_step (p, hist) (Build t) = (fst (build_notification p t), hist)"

definition times_notified :: "u16 \<Rightarrow> (u16 \<times> instant) list \<Rightarrow> nat" where
  "times_notified m hist = length (filter (\<lambda>(m', _). m' = m) hist)"

fun pm_inv :: "path_mtu_state \<times> (u16 \<times> instant) list \<Rightarrow> bool" where
  "pm_inv (p, hist) \<longleftrightarrow>
     (case pm_first_increase_time p of None \<Rightarrow> True | Some t \<Rightarrow> (pm_pending_increase_mtu p, t) \<in> set hist)
   \<and> unat (pm_consecutive_increase_count p) \<le> times_notified (pm_pending_increase_mtu p) hist"

lemma unat_plus_one_le: "unat (w + 1) \<le> unat w + 1" for w :: "'a::len word"
  by (cases "w = - 1") (simp_all add: unat_plus_one)

lemma times_notified_Cons [simp]:
  "times_notified m ((m', t) # hist) = (if m' = m then Suc (times_notified m hist) else times_notified m hist)"
  by (simp add: times_notified_def)

lemma track_increase_inv:
  "pm_inv (p, hist) \<Longrightarrow> pm_inv (track_increase p m t, (m, t) # hist)"
  using unat_plus_one_le [of "pm_consecutive_increase_count p"]
  by (auto simp: track_increase_def split: option.splits)

lemma track_increase_pending [simp]: "pm_pending_increase_mtu (track_increase p m t) = m"
  by (simp add: track_increase_def)

lemma apply_notification_inv:
  assumes "pm_inv (p, hist)"
  shows "pm_inv (fst (apply_notification p m t), (m, t) # hist)"
proof -
  have "pm_inv (track_increase p m t, (m, t) # hist)"
    using track_increase_inv assms by blast
  moreover have "pm_inv (p, (m, t) # hist)"
    using assms by (auto split: option.splits)
  ultimately show ?thesis
    by (auto simp: apply_notification_def Let_def split: option.splits if_splits)
qed

lemma pm_inv_step: "pm_inv s \<Longrightarrow> pm_inv (pm_step s op)"
proof (cases s)
  case (Pair p hist)
  assume "pm_inv s"
  with Pair show ?thesis
    using apply_notification_inv [of p hist]
    by (cases op) (auto simp: seed_source_mtu_def update_interval_from_srtt_def Let_def
        observe_incoming_mtu_def build_notification_def split: option.splits)
qed

interpretation pmtu: invariant_machine pm_inv pm_step
  by unfold_locales (rule pm_inv_step)

lemma apply_never_above:
  "256 \<le> m \<Longrightarrow> pm_current_mtu (fst (apply_notification p m t)) \<le> m"
  by (auto simp: apply_notification_def track_increase_def MIN_ACTIONABLE_PATH_MTU_def Let_def not_less
      split: option.split)

lemma apply_raise:
  assumes "pm_inv (p, hist)" and "pm_current_mtu (fst (apply_notification p m t)) > pm_current_mtu p"
  shows "pm_current_mtu (fst (apply_notification p m t)) = m \<and> 3 \<le> times_notified m ((m, t) # hist)
    \<and> (\<exists>t0. (m, t0) \<in> set ((m, t) # hist) \<and> duration_since t t0 \<ge> 2 * pm_notification_interval p)"
proof -
  let ?q = "track_increase p m t"
  have i: "pm_notification_interval ?q = pm_notification_interval p" "pm_current_mtu ?q = pm_current_mtu p"
    by (simp_all add: track_increase_def)
  have up: "\<not> m < MIN_ACTIONABLE_PATH_MTU" "\<not> m < pm_current_mtu p" "pm_current_mtu p < m"
  proof -
    show "\<not> m < MIN_ACTIONABLE_PATH_MTU"
      using assms(2) by (cases "m < MIN_ACTIONABLE_PATH_MTU") (simp_all add: apply_notification_def)
    moreover show "\<not> m < pm_current_mtu p"
      using assms(2) calculation by (cases "m < pm_current_mtu p") (simp_all add: apply_notification_def)
    ultimately show "pm_current_mtu p < m"
      using assms(2) by (cases "pm_current_mtu p < m") (simp_all add: apply_notification_def)
  qed
  obtain t0 where t0: "pm_first_increase_time ?q = Some t0"
    using assms(2) up i(2) by (cases "pm_first_increase_time ?q") (simp_all add: apply_notification_def Let_def)
  have c: "pm_consecutive_increase_count ?q \<ge> 3 \<and> duration_since t t0 \<ge> pm_notification_interval ?q * 2"
    using assms(2) up i(2) t0
    by (cases "pm_consecutive_increase_count ?q \<ge> 3 \<and> duration_since t t0 \<ge> pm_notification_interval ?q * 2")
      (simp_all add: apply_notification_def Let_def)
  have m: "pm_current_mtu (fst (apply_notification p m t)) = m"
    using up t0 c by (simp add: apply_notification_def Let_def)
  have "pm_inv (?q, (m, t) # hist)"
    using track_increase_inv assms(1) by blast
  hence "(m, t0) \<in> set ((m, t) # hist)" "unat (pm_consecutive_increase_count ?q) \<le> times_notified m ((m, t) # hist)"
    using t0 by simp_all
  moreover have "3 \<le> unat (pm_consecutive_increase_count ?q)"
    using c by (simp add: word_le_nat_alt)
  moreover have "2 * pm_notification_interval p \<le> duration_since t t0"
    using c i(1) by (simp add: mult.commute)
  ultimately show ?thesis
    using m by (intro conjI exI [of _ t0]) linarith+
qed

text \<open>C34: The source never sends above what it was told and raises its path MTU only on sustained
  evidence. After any history from a new state, an actionable notification of \<open>m\<close> leaves the current
  MTU at most \<open>m\<close>; and if it rises, it rises to exactly \<open>m\<close>, \<open>m\<close> has been notified at least three
  times including this one, and one of those notifications lies at least two intervals back.\<close>

theorem path_mtu_conservative:
  "case run pm_step (path_mtu_new, []) ops of (p, hist) \<Rightarrow>
     (if 256 \<le> m then pm_current_mtu (fst (apply_notification p m t)) \<le> m
      else fst (apply_notification p m t) = p)
   \<and> (if pm_current_mtu (fst (apply_notification p m t)) > pm_current_mtu p
      then pm_current_mtu (fst (apply_notification p m t)) = m \<and> 3 \<le> times_notified m ((m, t) # hist)
        \<and> (\<exists>t0. (m, t0) \<in> set ((m, t) # hist) \<and> duration_since t t0 \<ge> 2 * pm_notification_interval p)
      else True)"
proof -
  obtain p hist where r: "run pm_step (path_mtu_new, []) ops = (p, hist)"
    by fastforce
  have "pm_inv (path_mtu_new, [])"
    by (simp add: path_mtu_new_def)
  hence "pm_inv (p, hist)"
    using pmtu.run_inv r by metis
  moreover have "fst (apply_notification p m t) = p" if "\<not> 256 \<le> m"
    using that by (simp add: apply_notification_def MIN_ACTIONABLE_PATH_MTU_def not_le)
  ultimately show ?thesis
    using apply_never_above [of m p t] apply_raise [of p hist m t] r by auto
qed

end
