(* ===== verification/F64_Average.thy ===== *)
theory F64_Average
  imports F64
begin

text \<open>
  Rounding facts about averages in \<^verbatim>\<open>f64\<close>: rounding is odd and monotone on all rationals and keeps
  the values it produces, a rounded value is at most twice the exact one unless that is below the
  smallest subnormal, and an exponentially weighted moving average with a weight of at most a
  quarter lies between the old value and the sample, both ends included.
\<close>

section \<open>Rounding on all rationals\<close>

lemma round_half_even_neg: "round_half_even (- r) = - round_half_even r"
proof (cases "r = of_int \<lfloor>r\<rfloor>")
  case True
  then show ?thesis
    using round_half_even_int [of "\<lfloor>r\<rfloor>"] round_half_even_int [of "- \<lfloor>r\<rfloor>"] by (metis of_int_minus)
next
  case False
  hence "of_int \<lfloor>r\<rfloor> < r"
    by (metis of_int_floor_le order_le_imp_less_or_eq)
  hence "\<lfloor>- r\<rfloor> = - \<lfloor>r\<rfloor> - 1"
    using floor_correct [of r] by (intro floor_unique) auto
  thus ?thesis
    by (auto simp: round_half_even_def Let_def)
qed

lemma rnd64_neg: "rnd64 (- x) = f_neg (rnd64 x)"
proof (cases "x = 0")
  case False
  define e where "e = max (log2_floor x - 52) (- 1074)"
  define r where "r = of_int (round_half_even (x / pow2 e)) * pow2 e"
  have "log2_floor (- x) = log2_floor x"
    by (simp add: log2_floor_def)
  moreover have "of_int (round_half_even (- x / pow2 e)) * pow2 e = - r"
    by (simp add: r_def round_half_even_neg)
  ultimately have "rnd64 (- x) = (if pow2 1024 \<le> - r then PInf else if - r \<le> - pow2 1024 then NInf else Fin (- r))"
    "rnd64 x = (if pow2 1024 \<le> r then PInf else if r \<le> - pow2 1024 then NInf else Fin r)"
    using False by (simp_all add: rnd64_def Let_def flip: e_def r_def)
  thus ?thesis
    using pow2_pos [of 1024] by simp
qed simp

lemma f_le_neg [simp]: "f_le (f_neg a) (f_neg b) \<longleftrightarrow> f_le b a"
  by (cases a; cases b) (auto simp: f_le_def f_eq_def)

lemma f_le_Fin [simp]: "f_le (Fin a) (Fin b) \<longleftrightarrow> a \<le> b"
  by (auto simp: f_le_def f_eq_def)

lemma rnd64_mono_all: "x \<le> y \<Longrightarrow> f_le (rnd64 x) (rnd64 y)"
proof (cases "0 \<le> x \<or> y \<le> 0")
  case True
  assume "x \<le> y"
  with True show ?thesis
    using rnd64_mono [of x y] rnd64_mono [of "- y" "- x"] by (auto simp: rnd64_neg)
next
  case False
  hence "f_le (rnd64 x) (rnd64 0)" "f_le (rnd64 0) (rnd64 y)"
    using rnd64_mono [of 0 y] rnd64_mono [of 0 "- x"] f_le_neg [of "Fin 0" "rnd64 x"]
    by (simp_all add: rnd64_neg)
  thus ?thesis
    using f_le_trans by blast
qed

definition representable :: "rat \<Rightarrow> bool" where
  "representable x \<longleftrightarrow> rnd64 x = Fin x"

lemma representable_neg: "representable (- x) \<longleftrightarrow> representable x"
  by (cases "rnd64 x") (auto simp: representable_def rnd64_neg)

lemma representable_int: "\<bar>m\<bar> < 2 ^ 53 \<Longrightarrow> representable (of_int m)"
  by (simp add: representable_def rnd64_of_int)

lemma representable_0 [simp]: "representable 0"
  by (simp add: representable_def)

lemma representable_1 [simp]: "representable 1"
  by (simp add: representable_def)

lemma rnd64_squeeze:
  assumes "representable a" and "representable b" and "a \<le> x" "x \<le> b"
  obtains r where "rnd64 x = Fin r" "a \<le> r" "r \<le> b"
  using rnd64_mono_all [OF assms(3)] rnd64_mono_all [OF assms(4)] assms(1,2)
  by (cases "rnd64 x") (auto simp: representable_def f_le_def f_eq_def)

lemma representable_pow2: "- 1074 \<le> q \<Longrightarrow> q \<le> 971 \<Longrightarrow> representable (pow2 q)"
  unfolding representable_def by (rule rnd64_exact [of _ 1 q]) simp_all

lemma pow2_Suc: "pow2 (q + 1) = 2 * pow2 q"
  by (simp add: pow2_add) (simp add: pow2_def)

section \<open>Rounded values are representable\<close>

lemma rval_significand:
  assumes "0 < x"
  shows "round_half_even (x / pow2 (rexp x)) \<le> 2 ^ 53"
proof -
  have "x < pow2 (log2_floor x + 1)"
    using log2_floor_bounds [of x] assms by simp
  also have "\<dots> \<le> pow2 (53 + rexp x)"
    by (rule pow2_mono) (simp add: rexp_def)
  finally have "x / pow2 (rexp x) \<le> of_int (2 ^ 53)"
    using pow2_pos [of "rexp x"] by (simp add: pow2_add pos_divide_le_eq) (simp add: pow2_def)
  thus ?thesis
    using round_half_even_mono round_half_even_int by metis
qed

lemma rval_exponent:
  assumes "0 < x" and "rval x < pow2 1024"
  shows "rexp x \<le> 971"
proof (rule ccontr)
  assume "\<not> ?thesis"
  hence e: "rexp x = log2_floor x - 52" "972 \<le> rexp x"
    by (auto simp: rexp_def split: if_splits)
  have "pow2 (52 + rexp x) \<le> x"
    using log2_floor_bounds [of x] assms(1) e(1) by simp
  hence "pow2 (52 + rexp x) \<le> rval x"
    using rval_ge [of "2 ^ 52" x] by (simp add: pow2_add) (simp add: pow2_def)
  moreover have "pow2 1024 \<le> pow2 (52 + rexp x)"
    using e(2) by (intro pow2_mono) simp
  ultimately show False
    using assms(2) by linarith
qed

lemma rval_representable:
  assumes "0 < x" and "rval x < pow2 1024"
  shows "representable (rval x)"
proof (cases "round_half_even (x / pow2 (rexp x)) = 2 ^ 53")
  case True
  hence r: "rval x = pow2 (53 + rexp x)"
    by (simp add: rval_def pow2_add) (simp add: pow2_def)
  hence "53 + rexp x < 1024"
    using assms(2) by (simp add: pow2_less_iff)
  moreover have "rval x = of_int (2 ^ 52) * pow2 (rexp x + 1)" "- 1074 \<le> rexp x"
    using True by (simp_all add: rval_def pow2_Suc rexp_def)
  ultimately show ?thesis
    unfolding representable_def by (intro rnd64_exact [of _ "2 ^ 52" "rexp x + 1"]) simp_all
next
  case False
  hence "round_half_even (x / pow2 (rexp x)) < 2 ^ 53"
    using rval_significand [OF assms(1)] by simp
  moreover have "0 \<le> round_half_even (x / pow2 (rexp x))"
    using round_half_even_mono [of 0 "x / pow2 (rexp x)"] round_half_even_int [of 0] assms(1)
      pow2_pos [of "rexp x"] by (simp add: less_imp_le)
  ultimately show ?thesis
    unfolding representable_def using rval_exponent [OF assms]
    by (intro rnd64_exact [of _ "round_half_even (x / pow2 (rexp x))" "rexp x"])
      (simp_all add: rval_def rexp_def)
qed

lemma rnd64_representable: "rnd64 x = Fin r \<Longrightarrow> representable r"
proof -
  have pos: "representable r" if "rnd64 x = Fin r" "0 \<le> x" for x r
    using that rval_representable [of x] by (cases "x = 0") (auto simp: rnd64_rval split: if_splits)
  assume "rnd64 x = Fin r"
  thus ?thesis
    using pos [of x r] pos [of "- x" "- r"] by (cases "0 \<le> x") (simp_all add: rnd64_neg representable_neg)
qed

lemma f_of_nat_representable: "f_of_nat n = Fin r \<Longrightarrow> representable r"
  by (auto simp: f_of_nat_def intro: rnd64_representable)

section \<open>Bounds on the rounding error\<close>

lemma rnd64_double:
  assumes "0 \<le> x" and "x < pow2 900"
  obtains r where "rnd64 x = Fin r" "0 \<le> r" "r \<le> max (2 * x) (pow2 (- 1074))"
proof (cases "x \<le> pow2 (- 1074)")
  case True
  then obtain r where "rnd64 x = Fin r" "0 \<le> r" "r \<le> pow2 (- 1074)"
    using rnd64_squeeze [OF representable_0 representable_pow2 [of "- 1074"], of x] assms(1) by auto
  thus ?thesis
    by (intro that) auto
next
  case False
  define k where "k = log2_floor x"
  have k: "pow2 k \<le> x" "x < pow2 (k + 1)"
    using log2_floor_bounds [of x] assms(1) False pow2_pos [of "- 1074"] by (simp_all add: k_def)
  have "pow2 k < pow2 900" "pow2 (- 1074) < pow2 (k + 1)"
    using k assms(2) False by linarith+
  hence "representable (pow2 (k + 1))"
    by (intro representable_pow2) (simp_all add: pow2_less_iff)
  then obtain r where "rnd64 x = Fin r" "0 \<le> r" "r \<le> pow2 (k + 1)"
    using rnd64_squeeze [OF representable_0, of "pow2 (k + 1)" x] k(2) assms(1) by auto
  moreover have "pow2 (k + 1) \<le> max (2 * x) (pow2 (- 1074))"
    using k(1) by (simp add: pow2_Suc)
  ultimately show ?thesis
    using that order.trans by blast
qed

lemma representable_multiple:
  assumes "representable x"
  obtains k :: int where "x = of_int k * pow2 (- 1074)"
proof -
  have "\<exists>k :: int. y = of_int k * pow2 (- 1074)" if y: "representable y" "0 < y" for y
  proof -
    have "y = rval y" "- 1074 \<le> rexp y"
      using y by (auto simp: representable_def rnd64_rval rexp_def split: if_splits)
    then obtain n where "rexp y = - 1074 + int n"
      by (metis zle_iff_zadd)
    hence "pow2 (rexp y) = pow2 (- 1074) * 2 ^ n"
      by (simp only: pow2_add pow2_nat)
    hence "rval y = of_int (round_half_even (y / pow2 (rexp y)) * 2 ^ n) * pow2 (- 1074)"
      unfolding rval_def by simp
    with \<open>y = rval y\<close> show ?thesis
      by metis
  qed
  from this [of x] this [of "- x"] assms show ?thesis
    using that representable_neg [of x] that [of 0] by (metis add.inverse_inverse linorder_neqE_linordered_idom
        mult_minus_left mult_zero_left neg_0_less_iff_less of_int_0 of_int_minus)
qed

lemma representable_gap:
  assumes "representable a" and "representable b" and "a < b"
  shows "pow2 (- 1074) \<le> b - a"
proof -
  obtain i j :: int where "a = of_int i * pow2 (- 1074)" "b = of_int j * pow2 (- 1074)"
    using representable_multiple assms(1,2) by metis
  moreover from this have "1 \<le> j - i"
    using assms(3) pow2_pos [of "- 1074"] by simp
  hence "1 * pow2 (- 1074) \<le> of_int (j - i) * pow2 (- 1074)"
    using pow2_pos [of "- 1074"] by (intro mult_right_mono) (simp_all flip: of_int_diff)
  ultimately show ?thesis
    by (simp add: algebra_simps)
qed

section \<open>Moving averages\<close>

lemma ewma_up:
  assumes "representable a" "representable b" "a \<le> b" and "b - a < pow2 900" and "0 \<le> w" "w \<le> 1 / 4"
  obtains c where "f_add (Fin a) (f_mul (Fin w) (f_sub (Fin b) (Fin a))) = Fin c" "a \<le> c" "c \<le> b"
    "representable c"
proof (cases "a = b")
  case True
  with assms(1) that show ?thesis
    by (simp add: f_sub_def representable_def)
next
  case False
  have gap: "pow2 (- 1074) \<le> b - a"
    using representable_gap assms(1-3) False by simp
  obtain d where d0: "rnd64 (b - a) = Fin d" "0 \<le> d" "d \<le> max (2 * (b - a)) (pow2 (- 1074))"
    using rnd64_double [of "b - a"] assms(3,4) by auto
  hence d: "rnd64 (b - a) = Fin d" "0 \<le> d" "d \<le> 2 * (b - a)"
    using gap assms(3) by (auto simp: max_def split: if_splits)
  have wd: "0 \<le> w * d" "w * d \<le> (b - a) / 2"
    using mult_mono [of w "1 / 4" d "2 * (b - a)"] assms(3,5,6) d by simp_all
  have "(b - a) / 2 < pow2 900"
    using assms(3,4) pow2_pos [of 900] by simp
  with wd(2) have "w * d < pow2 900"
    by (rule le_less_trans)
  then obtain p where p: "rnd64 (w * d) = Fin p" "0 \<le> p" "p \<le> max (2 * (w * d)) (pow2 (- 1074))"
    using rnd64_double [of "w * d"] wd(1) by auto
  have "p \<le> b - a"
    using p(3) wd gap by (simp add: max_def split: if_splits)
  then obtain c where c: "rnd64 (a + p) = Fin c" "a \<le> c" "c \<le> b"
    using rnd64_squeeze [OF assms(1,2), of "a + p"] p(2) by auto
  show ?thesis
    using that [of c] c rnd64_representable [OF c(1)] d(1) p(1) by (simp add: f_sub_def)
qed

lemma ewma_between:
  assumes "representable a" "representable b" and "\<bar>b - a\<bar> < pow2 900" and "0 \<le> w" "w \<le> 1 / 4"
  obtains c where "f_add (Fin a) (f_mul (Fin w) (f_sub (Fin b) (Fin a))) = Fin c"
    "min a b \<le> c" "c \<le> max a b" "representable c"
proof (cases "a \<le> b")
  case True
  with assms that show ?thesis
    by (elim ewma_up [of a b w]) (auto simp: min_def max_def)
next
  case False
  then obtain c where c: "f_add (Fin (- a)) (f_mul (Fin w) (f_sub (Fin (- b)) (Fin (- a)))) = Fin c"
    "- a \<le> c" "c \<le> - b" "representable c"
    using ewma_up [of "- a" "- b" w] assms by (auto simp: representable_neg)
  have neg: "f_neg (f_add x y) = f_add (f_neg x) (f_neg y)" "f_neg (f_mul (Fin w) x) = f_mul (Fin w) (f_neg x)"
    for x y
    by (cases x; cases y; simp flip: rnd64_neg) (cases x; simp flip: rnd64_neg add: inf_of_sign_def)
  have "f_add (Fin a) (f_mul (Fin w) (f_sub (Fin b) (Fin a)))
      = f_neg (f_add (Fin (- a)) (f_mul (Fin w) (f_sub (Fin (- b)) (Fin (- a)))))"
    using rnd64_neg [of "a - b"] by (simp add: neg f_sub_def)
  thus ?thesis
    using that [of "- c"] c False by (simp add: representable_neg min_def max_def)
qed

end
