(* ===== verification/Mmp_Metrics.thy ===== *)
theory Mmp_Metrics
  imports Mmp_Path_Mtu F64_Average
begin

text \<open>
  The derived metrics of the sender side (\<^verbatim>\<open>proto/mmp/metrics.rs\<close>, struct \<open>MmpMetrics\<close>): round-trip
  time from the echoed timestamp, delivery ratio, expected transmission count and goodput from the
  deltas of cumulative counters, and the windowed loss evidence, with every operation. The
  well-formedness \<open>metrics_ok\<close> says which range each number lies in; every operation keeps it, so no
  subtraction wraps and no NaN or infinity appears.
\<close>

section \<open>State\<close>

record mmp_metrics =
  mt_srtt :: srtt_estimator
  mt_rtt_trend :: dual_ewma
  mt_loss_trend :: dual_ewma
  mt_goodput_trend :: dual_ewma
  mt_jitter_trend :: dual_ewma
  mt_etx_trend :: dual_ewma
  mt_delivery_ratio_forward :: f64
  mt_delivery_ratio_reverse :: f64
  mt_etx :: f64
  mt_goodput_bps :: f64
  mt_prev_rr_cum_packets :: u64
  mt_prev_rr_cum_bytes :: u64
  mt_prev_rr_highest_counter :: u64
  mt_prev_rr_ecn_ce :: u32
  mt_prev_rr_reorder :: u32
  mt_prev_rr_time :: "instant option"
  mt_last_srtt_update :: "instant option"
  mt_has_prev_rr :: bool
  mt_last_forward_counter_span :: u64
  mt_last_forward_lost_packets :: u64
  mt_last_forward_loss_at :: "instant option"
  mt_forward_loss_window_span :: u64
  mt_forward_loss_window_lost :: u64
  mt_forward_loss_window_samples :: u8
  mt_prev_reverse_packets :: u64
  mt_prev_reverse_highest :: u64
  mt_has_prev_reverse :: bool

definition metrics_new :: mmp_metrics where
  "metrics_new = \<lparr>mt_srtt = srtt_new, mt_rtt_trend = ewma_new, mt_loss_trend = ewma_new,
     mt_goodput_trend = ewma_new, mt_jitter_trend = ewma_new, mt_etx_trend = ewma_new,
     mt_delivery_ratio_forward = Fin 1, mt_delivery_ratio_reverse = Fin 1, mt_etx = Fin 1,
     mt_goodput_bps = Fin 0, mt_prev_rr_cum_packets = 0, mt_prev_rr_cum_bytes = 0,
     mt_prev_rr_highest_counter = 0, mt_prev_rr_ecn_ce = 0, mt_prev_rr_reorder = 0,
     mt_prev_rr_time = None, mt_last_srtt_update = None, mt_has_prev_rr = False,
     mt_last_forward_counter_span = 0, mt_last_forward_lost_packets = 0,
     mt_last_forward_loss_at = None, mt_forward_loss_window_span = 0,
     mt_forward_loss_window_lost = 0, mt_forward_loss_window_samples = 0,
     mt_prev_reverse_packets = 0, mt_prev_reverse_highest = 0, mt_has_prev_reverse = False\<rparr>"

section \<open>Resets\<close>

definition reset_for_path_change :: "mmp_metrics \<Rightarrow> mmp_metrics" where
  "reset_for_path_change m = metrics_new"

definition reset_forward_report_baseline :: "mmp_metrics \<Rightarrow> mmp_metrics" where
  "reset_forward_report_baseline m = m\<lparr>mt_prev_rr_cum_packets := 0, mt_prev_rr_cum_bytes := 0,
     mt_prev_rr_highest_counter := 0, mt_prev_rr_ecn_ce := 0, mt_prev_rr_reorder := 0,
     mt_prev_rr_time := None, mt_has_prev_rr := False, mt_last_forward_counter_span := 0,
     mt_last_forward_lost_packets := 0, mt_last_forward_loss_at := None,
     mt_forward_loss_window_span := 0, mt_forward_loss_window_lost := 0,
     mt_forward_loss_window_samples := 0\<rparr>"

definition metrics_reset_for_rekey :: "mmp_metrics \<Rightarrow> mmp_metrics" where
  "metrics_reset_for_rekey m = (reset_forward_report_baseline m)\<lparr>mt_delivery_ratio_forward := Fin 1,
     mt_prev_reverse_packets := 0, mt_prev_reverse_highest := 0, mt_has_prev_reverse := False\<rparr>"

section \<open>Receiver reports\<close>

definition counters_regressed :: "mmp_metrics \<Rightarrow> receiver_report \<Rightarrow> bool" where
  "counters_regressed m rr \<longleftrightarrow> rr_highest_counter rr < mt_prev_rr_highest_counter m
     \<or> rr_cumulative_packets_recv rr < mt_prev_rr_cum_packets m
     \<or> rr_cumulative_bytes_recv rr < mt_prev_rr_cum_bytes m
     \<or> rr_ecn_ce_count rr < mt_prev_rr_ecn_ce m
     \<or> rr_cumulative_reorder_count rr < mt_prev_rr_reorder m"

definition duplicate_counters :: "mmp_metrics \<Rightarrow> receiver_report \<Rightarrow> bool" where
  "duplicate_counters m rr \<longleftrightarrow> rr_highest_counter rr = mt_prev_rr_highest_counter m
     \<and> rr_cumulative_packets_recv rr = mt_prev_rr_cum_packets m
     \<and> rr_cumulative_bytes_recv rr = mt_prev_rr_cum_bytes m
     \<and> rr_ecn_ce_count rr = mt_prev_rr_ecn_ce m
     \<and> rr_cumulative_reorder_count rr = mt_prev_rr_reorder m"

definition rtt_sample_ms :: "u32 \<Rightarrow> u32 \<Rightarrow> u32 \<Rightarrow> u32 option" where
  "rtt_sample_ms echo_ms dwell_ms our_timestamp_ms =
     (if unat echo_ms + unat dwell_ms < 2 ^ 32
      then let send_done_ms = echo_ms + dwell_ms in
        if send_done_ms \<le> our_timestamp_ms then Some (our_timestamp_ms - send_done_ms) else None
      else None)"

definition update_rtt :: "mmp_metrics \<Rightarrow> receiver_report \<Rightarrow> u32 \<Rightarrow> instant \<Rightarrow> mmp_metrics" where
  "update_rtt m rr our_timestamp_ms now =
     (if rr_timestamp_echo rr > 0
      then case rtt_sample_ms (rr_timestamp_echo rr) (ucast (rr_dwell_time rr)) our_timestamp_ms of
          Some rtt_ms \<Rightarrow>
            let rtt_us = int (unat (max rtt_ms 1)) * 1000 in
            m\<lparr>mt_srtt := srtt_update (mt_srtt m) rtt_us, mt_last_srtt_update := Some now,
              mt_rtt_trend := ewma_update (mt_rtt_trend m) (f_of_int rtt_us)\<rparr>
        | None \<Rightarrow> m
      else m)"

definition fwd_delivery :: "u64 \<Rightarrow> u64 \<Rightarrow> f64" where
  "fwd_delivery packets_delta counter_span =
     f_clamp (f_div (f_of_nat (unat packets_delta)) (f_of_nat (unat counter_span))) (Fin 0) (Fin 1)"

definition positive_span :: "mmp_metrics \<Rightarrow> u64 \<Rightarrow> u64 \<Rightarrow> instant \<Rightarrow> mmp_metrics" where
  "positive_span m counter_span packets_delta now =
     (let fwd = fwd_delivery packets_delta counter_span;
          loss_rate = f_sub (Fin 1) fwd;
          e = compute_etx fwd (mt_delivery_ratio_reverse m)
      in m\<lparr>mt_delivery_ratio_forward := fwd, mt_last_forward_counter_span := counter_span,
           mt_last_forward_lost_packets := saturating_sub counter_span packets_delta,
           mt_last_forward_loss_at := Some now, mt_loss_trend := ewma_update (mt_loss_trend m) loss_rate,
           mt_etx := e, mt_etx_trend := ewma_update (mt_etx_trend m) e\<rparr>)"

definition late_receipt :: "mmp_metrics \<Rightarrow> u64 \<Rightarrow> mmp_metrics" where
  "late_receipt m packets_delta =
     (let lost = saturating_sub (mt_last_forward_lost_packets m) packets_delta;
          span = mt_last_forward_counter_span m;
          fwd = f_div (f_of_nat (unat (span - lost))) (f_of_nat (unat span))
      in m\<lparr>mt_last_forward_lost_packets := lost, mt_delivery_ratio_forward := fwd,
           mt_etx := compute_etx fwd (mt_delivery_ratio_reverse m)\<rparr>)"

definition extend_loss_window :: "mmp_metrics \<Rightarrow> u64 \<Rightarrow> u64 \<Rightarrow> mmp_metrics" where
  "extend_loss_window m counter_span packets_delta =
     m\<lparr>mt_forward_loss_window_span := saturating_add (mt_forward_loss_window_span m) counter_span,
       mt_forward_loss_window_lost :=
         saturating_sub (saturating_add (mt_forward_loss_window_lost m) (saturating_sub counter_span packets_delta))
           (saturating_sub packets_delta counter_span),
       mt_forward_loss_window_samples := saturating_add (mt_forward_loss_window_samples m) 1\<rparr>"

definition update_loss :: "mmp_metrics \<Rightarrow> receiver_report \<Rightarrow> instant \<Rightarrow> mmp_metrics" where
  "update_loss m rr now =
     (if \<not> mt_has_prev_rr m then m
      else let counter_span = saturating_sub (rr_highest_counter rr) (mt_prev_rr_highest_counter m);
               packets_delta = saturating_sub (rr_cumulative_packets_recv rr) (mt_prev_rr_cum_packets m);
               m = (if counter_span > 0 then positive_span m counter_span packets_delta now
                    else if packets_delta > 0 \<and> mt_last_forward_loss_at m \<noteq> None
                    then late_receipt m packets_delta else m)
        in if counter_span > 0 \<or> packets_delta > 0 \<and> mt_forward_loss_window_span m > 0
           then extend_loss_window m counter_span packets_delta else m)"

definition update_goodput :: "mmp_metrics \<Rightarrow> receiver_report \<Rightarrow> instant \<Rightarrow> mmp_metrics" where
  "update_goodput m rr now =
     (if \<not> mt_has_prev_rr m then m
      else let bytes_delta = f_of_nat (unat (saturating_sub (rr_cumulative_bytes_recv rr) (mt_prev_rr_cum_bytes m)));
               m = m\<lparr>mt_goodput_trend := ewma_update (mt_goodput_trend m) bytes_delta\<rparr>
        in case mt_prev_rr_time m of
          None \<Rightarrow> m
        | Some prev_time \<Rightarrow>
            let secs = as_secs_f64 (duration_since now prev_time) in
            if f_lt (Fin 0) secs
            then let bps = f_div bytes_delta secs in
              m\<lparr>mt_goodput_bps := if f_eq (mt_goodput_bps m) (Fin 0) then bps
                 else f_add (mt_goodput_bps m) (f_mul (f_sub bps (mt_goodput_bps m)) (Fin (1 / 4)))\<rparr>
            else m)"

definition save_report :: "mmp_metrics \<Rightarrow> receiver_report \<Rightarrow> instant \<Rightarrow> mmp_metrics" where
  "save_report m rr now = m\<lparr>mt_prev_rr_cum_packets := rr_cumulative_packets_recv rr,
     mt_prev_rr_cum_bytes := rr_cumulative_bytes_recv rr,
     mt_prev_rr_highest_counter := rr_highest_counter rr, mt_prev_rr_ecn_ce := rr_ecn_ce_count rr,
     mt_prev_rr_reorder := rr_cumulative_reorder_count rr, mt_prev_rr_time := Some now,
     mt_has_prev_rr := True\<rparr>"

definition process_receiver_report ::
  "mmp_metrics \<Rightarrow> receiver_report \<Rightarrow> u32 \<Rightarrow> instant \<Rightarrow> mmp_metrics \<times> bool" where
  "process_receiver_report m rr our_timestamp_ms now =
     (if mt_has_prev_rr m \<and> (counters_regressed m rr \<or> duplicate_counters m rr) then (m, False)
      else let had_srtt = srtt_initialized (mt_srtt m);
               m = update_rtt m rr our_timestamp_ms now;
               m = update_loss m rr now;
               m = update_goodput m rr now;
               m = m\<lparr>mt_jitter_trend := ewma_update (mt_jitter_trend m) (f_of_nat (unat (rr_jitter rr)))\<rparr>;
               m = save_report m rr now
        in (m, \<not> had_srtt \<and> srtt_initialized (mt_srtt m)))"

definition update_reverse_delivery :: "mmp_metrics \<Rightarrow> u64 \<Rightarrow> u64 \<Rightarrow> mmp_metrics" where
  "update_reverse_delivery m our_recv_packets peer_highest =
     (let counter_span = saturating_sub peer_highest (mt_prev_reverse_highest m);
          packets_delta = saturating_sub our_recv_packets (mt_prev_reverse_packets m);
          m = (if mt_has_prev_reverse m \<and> counter_span > 0
               then let rev = fwd_delivery packets_delta counter_span;
                        e = compute_etx (mt_delivery_ratio_forward m) rev
                    in m\<lparr>mt_delivery_ratio_reverse := rev, mt_etx := e,
                         mt_etx_trend := ewma_update (mt_etx_trend m) e\<rparr>
               else m)
      in m\<lparr>mt_prev_reverse_packets := our_recv_packets, mt_prev_reverse_highest := peer_highest,
           mt_has_prev_reverse := True\<rparr>)"

section \<open>Accessors\<close>

definition srtt_ms :: "mmp_metrics \<Rightarrow> f64 option" where
  "srtt_ms m = (if srtt_initialized (mt_srtt m)
     then Some (f_div (f_of_int (srtt_us (mt_srtt m))) (Fin 1000)) else None)"

definition age_ms :: "instant option \<Rightarrow> instant \<Rightarrow> nat option" where
  "age_ms sampled_at now = map_option (\<lambda>t. min (as_millis (duration_since now t)) (2 ^ 64 - 1)) sampled_at"

definition srtt_age_ms :: "mmp_metrics \<Rightarrow> instant \<Rightarrow> nat option" where
  "srtt_age_ms m now = age_ms (mt_last_srtt_update m) now"

definition loss_rate :: "mmp_metrics \<Rightarrow> f64" where
  "loss_rate m = f_sub (Fin 1) (mt_delivery_ratio_forward m)"

definition smoothed_loss :: "mmp_metrics \<Rightarrow> f64 option" where
  "smoothed_loss m = (if ewma_initialized (mt_loss_trend m) then Some (ewma_long (mt_loss_trend m)) else None)"

definition smoothed_etx :: "mmp_metrics \<Rightarrow> f64 option" where
  "smoothed_etx m = (if ewma_initialized (mt_etx_trend m) then Some (ewma_long (mt_etx_trend m)) else None)"

definition last_forward_loss_sample :: "mmp_metrics \<Rightarrow> (u64 \<times> f64) option" where
  "last_forward_loss_sample m = map_option (\<lambda>_.
     (mt_last_forward_counter_span m,
      f_sub (Fin 1) (f_div (f_of_nat (unat (mt_last_forward_counter_span m - mt_last_forward_lost_packets m)))
        (f_of_nat (unat (mt_last_forward_counter_span m)))))) (mt_last_forward_loss_at m)"

definition last_forward_loss_age_ms :: "mmp_metrics \<Rightarrow> instant \<Rightarrow> nat option" where
  "last_forward_loss_age_ms m now = age_ms (mt_last_forward_loss_at m) now"

definition take_forward_loss_evidence :: "mmp_metrics \<Rightarrow> u64 \<Rightarrow> mmp_metrics \<times> (u64 \<times> f64) option" where
  "take_forward_loss_evidence m min_span =
     (if min_span = 0 then (m, last_forward_loss_sample m)
      else if mt_forward_loss_window_span m \<ge> min_span \<and> mt_forward_loss_window_samples m \<ge> 2
      then let span = mt_forward_loss_window_span m;
               lost = f_clamp (f_div (f_of_nat (unat (mt_forward_loss_window_lost m))) (f_of_nat (unat span)))
                 (Fin 0) (Fin 1)
        in (m\<lparr>mt_forward_loss_window_span := 0, mt_forward_loss_window_lost := 0,
              mt_forward_loss_window_samples := 0\<rparr>, Some (span, lost))
      else (m, None))"

section \<open>Ranges of floating-point values\<close>

fun f_in :: "rat \<Rightarrow> rat \<Rightarrow> f64 \<Rightarrow> bool" where
  "f_in lo hi (Fin r) \<longleftrightarrow> representable r \<and> lo \<le> r \<and> r \<le> hi"
| "f_in lo hi _ \<longleftrightarrow> False"

definition ewma_in :: "rat \<Rightarrow> rat \<Rightarrow> dual_ewma \<Rightarrow> bool" where
  "ewma_in lo hi e \<longleftrightarrow>
     (if ewma_initialized e then f_in lo hi (ewma_short e) \<and> f_in lo hi (ewma_long e) else True)"

lemma f_inE:
  assumes "f_in lo hi x"
  obtains r where "x = Fin r" "representable r" "lo \<le> r" "r \<le> hi"
  using assms by (cases x) auto

lemma f_in_rnd64:
  assumes "representable lo" "representable hi" "lo \<le> x" "x \<le> hi"
  shows "f_in lo hi (rnd64 x)"
  using rnd64_squeeze [OF assms] rnd64_representable by (metis f_in.simps(1))

lemma f_in_average:
  assumes "f_in lo hi a" "f_in lo hi b" "hi - lo < pow2 900" "0 \<le> w" "w \<le> 1 / 4"
  shows "f_in lo hi (f_add a (f_mul (Fin w) (f_sub b a)))"
proof -
  obtain x y where xy: "a = Fin x" "b = Fin y" "representable x" "representable y"
    "lo \<le> x" "x \<le> hi" "lo \<le> y" "y \<le> hi"
    using assms(1,2) by (elim f_inE)
  hence "\<bar>y - x\<bar> < pow2 900"
    using assms(3) by linarith
  from ewma_between [OF xy(3,4) this assms(4,5)] obtain c
    where "f_add (Fin x) (f_mul (Fin w) (f_sub (Fin y) (Fin x))) = Fin c" "min x y \<le> c" "c \<le> max x y"
      "representable c" .
  thus ?thesis
    using xy by auto
qed

lemma ewma_in_update:
  assumes "ewma_in lo hi e" "f_in lo hi x" "hi - lo < pow2 900"
  shows "ewma_in lo hi (ewma_update e x)"
  using assms f_in_average [of lo hi "ewma_short e" x "1 / 4"] f_in_average [of lo hi "ewma_long e" x "1 / 32"]
  by (auto simp: ewma_in_def ewma_update_def EWMA_SHORT_ALPHA_def EWMA_LONG_ALPHA_def)

lemma f_in_clamp:
  assumes "representable lo" "representable hi" "lo \<le> hi" "x \<noteq> NaN" "\<And>r. x = Fin r \<Longrightarrow> representable r"
  shows "f_in lo hi (f_clamp x (Fin lo) (Fin hi))"
  using assms by (cases x) (auto simp: f_clamp_def Let_def)

lemma f_in_of_nat:
  assumes "n \<le> 2 ^ k" "k \<le> 900"
  shows "f_in 0 (2 ^ k) (f_of_nat n)" "m \<le> n \<Longrightarrow> m < 2 ^ 53 \<Longrightarrow> f_in (of_nat m) (2 ^ k) (f_of_nat n)"
proof -
  have k: "representable (2 ^ k)" "(of_nat n :: rat) \<le> 2 ^ k"
    using representable_pow2 [of "int k"] assms pow2_nat(1) [of k] of_nat_mono [OF assms(1), where ?'a = rat]
    by simp_all
  show "f_in 0 (2 ^ k) (f_of_nat n)"
    using k f_in_rnd64 [of 0 "2 ^ k" "of_nat n"] by (simp add: f_of_nat_def)
  assume "m \<le> n" "m < 2 ^ 53"
  thus "f_in (of_nat m) (2 ^ k) (f_of_nat n)"
    using k f_in_rnd64 [of "of_nat m" "2 ^ k" "of_nat n"] representable_int [of "int m"]
    by (simp add: f_of_nat_def)
qed

lemma f_of_nat_mono: "a \<le> b \<Longrightarrow> f_le (f_of_nat a) (f_of_nat b)"
  unfolding f_of_nat_def by (rule rnd64_mono_all) simp

lemma pow2_900: "(2 :: rat) ^ 94 < pow2 900"
  using pow2_less_iff [of 94 900] pow2_nat(1) [of 94] by simp

section \<open>Ratios\<close>

lemma ratio_parts:
  assumes "0 < unat (w :: u64)"
  obtains b where "f_of_nat (unat w) = Fin b" "1 \<le> b" "b \<le> 2 ^ 64"
  using f_in_of_nat(2) [of "unat w" 64 1] assms unat_less_exp [of w] by (auto elim!: f_inE)

lemma f_in_ratio:
  assumes "a \<le> unat (w :: u64)" "0 < unat w"
  shows "f_in 0 1 (f_div (f_of_nat a) (f_of_nat (unat w)))"
proof -
  obtain b where b: "f_of_nat (unat w) = Fin b" "1 \<le> b"
    using ratio_parts assms(2) by blast
  have "f_in 0 (2 ^ 64) (f_of_nat a)"
    using assms(1) unat_less_exp [of w] by (intro f_in_of_nat(1)) simp_all
  then obtain c where c: "f_of_nat a = Fin c" "0 \<le> c"
    by (auto elim: f_inE)
  have "c \<le> b"
    using f_of_nat_mono [OF assms(1)] b c by simp
  thus ?thesis
    using b c by (simp add: f_in_rnd64)
qed

lemma f_in_fwd_delivery:
  assumes "0 < unat w"
  shows "f_in 0 1 (fwd_delivery packets w)"
proof -
  obtain b where b: "f_of_nat (unat w) = Fin b" "1 \<le> b"
    using ratio_parts assms by blast
  obtain c where c: "f_of_nat (unat packets) = Fin c" "0 \<le> c"
    using f_in_of_nat(1) [of "unat packets" 64] unat_less_exp [of packets] by (auto elim!: f_inE)
  show ?thesis
    unfolding fwd_delivery_def using b c rnd64_not_NaN rnd64_representable
    by (intro f_in_clamp) auto
qed

lemma f_in_etx:
  assumes "f_in 0 1 a" "f_in 0 1 b"
  shows "f_in 1 100 (compute_etx a b)"
proof -
  obtain x y where xy: "a = Fin x" "b = Fin y" "0 \<le> x" "x \<le> 1" "0 \<le> y" "y \<le> 1"
    using assms by (auto elim!: f_inE)
  have "f_in 0 1 (rnd64 (x * y))"
    using xy by (intro f_in_rnd64) (simp_all add: mult_le_one)
  then obtain p where p: "f_mul a b = Fin p" "0 \<le> p"
    using xy by (auto elim: f_inE)
  have "representable 100"
    using representable_int [of 100] by simp
  moreover have "f_in 1 100 (f_clamp (rnd64 (1 / p)) (Fin 1) (Fin 100))"
    using calculation rnd64_not_NaN rnd64_representable by (intro f_in_clamp) auto
  ultimately show ?thesis
    using p by (simp add: compute_etx_def Let_def)
qed

lemma f_in_complement:
  assumes "f_in 0 1 a"
  shows "f_in 0 1 (f_sub (Fin 1) a)"
  using assms by (auto elim!: f_inE simp: f_sub_def intro!: f_in_rnd64)

section \<open>Goodput\<close>

lemma as_secs_cases:
  obtains "as_secs_f64 d = PInf" | s where "as_secs_f64 d = Fin s" "s = 0 \<or> 1 / 2 ^ 30 \<le> s"
proof -
  have q: "representable (1 / 2 ^ 30)"
    using representable_pow2 [of "- 30"] by (simp add: pow2_def)
  have le: "f_le (Fin 0) (f_of_nat n)" "1 \<le> n \<Longrightarrow> f_le (Fin 1) (f_of_nat n)" for n
    using f_of_nat_mono [of 0 n] f_of_nat_mono [of 1 n] by (simp_all add: f_of_nat_def)
  have ns: "f_of_nat (d mod 10 ^ 9) = Fin (of_nat (d mod 10 ^ 9))"
    by (rule f_of_nat_exact) (rule less_trans [OF mod_less_divisor], simp_all)
  define t :: rat where "t = of_nat (d mod 10 ^ 9) / 10 ^ 9"
  have t: "0 \<le> t" "t \<le> 1" "1 \<le> d mod 10 ^ 9 \<Longrightarrow> 1 / 2 ^ 30 \<le> t"
    using of_nat_mono [of 1 "d mod 10 ^ 9", where ?'a = rat]
      of_nat_mono [OF less_imp_le [OF mod_less_divisor [of "10 ^ 9" d]], where ?'a = rat]
    by (simp_all add: t_def field_simps)
  obtain n where n: "rnd64 t = Fin n" "0 \<le> n" "n \<le> 1"
    using rnd64_squeeze [OF representable_0 representable_1 t(1,2)] by blast
  have n30: "1 \<le> d mod 10 ^ 9 \<Longrightarrow> 1 / 2 ^ 30 \<le> n"
    using rnd64_mono_all [OF t(3)] q n(1) by (simp add: representable_def)
  have sum: "as_secs_f64 d = f_add (f_of_nat (d div 10 ^ 9)) (Fin n)"
    using ns n(1) by (simp add: as_secs_f64_def t_def)
  show ?thesis
  proof (cases "f_of_nat (d div 10 ^ 9)")
    case (Fin s)
    show ?thesis
    proof (cases "d div 10 ^ 9 = 0")
      case True
      hence "as_secs_f64 d = Fin n"
        using sum rnd64_representable [OF n(1)] by (simp add: f_of_nat_def representable_def)
      moreover have "n = 0 \<or> 1 / 2 ^ 30 \<le> n"
        using n30 n(1) by (cases "d mod 10 ^ 9 = 0") (simp_all add: t_def)
      ultimately show ?thesis
        by (rule that(2))
    next
      case False
      hence "1 \<le> s + n"
        using le(2) [of "d div 10 ^ 9"] Fin n(2) by simp
      hence "f_le (Fin 1) (rnd64 (s + n))"
        using rnd64_mono_all [of 1 "s + n"] by simp
      then show ?thesis
        using sum Fin that by (cases "rnd64 (s + n)") (auto simp: f_le_def f_eq_def)
    qed
  next
    case PInf
    then show ?thesis using sum that(1) by simp
  qed (use le [of "d div 10 ^ 9"] in \<open>simp_all add: f_le_def f_eq_def\<close>)
qed

lemma f_in_rate:
  assumes "f_in 0 (2 ^ 64) x" "f_lt (Fin 0) (as_secs_f64 d)"
  shows "f_in 0 (2 ^ 94) (f_div x (as_secs_f64 d))"
proof -
  obtain y where y: "x = Fin y" "0 \<le> y" "y \<le> 2 ^ 64"
    using assms(1) by (auto elim: f_inE)
  show ?thesis
  proof (cases rule: as_secs_cases [of d])
    case (2 s)
    hence s: "1 / 2 ^ 30 \<le> s" "0 < s"
      using assms(2) by auto
    have "y / s \<le> 2 ^ 64 / (1 / 2 ^ 30)"
      using y s by (intro frac_le) simp_all
    moreover have "representable (2 ^ 94)"
      using representable_pow2 [of 94] by (simp add: pow2_def)
    ultimately show ?thesis
      using y s 2 by (simp add: f_in_rnd64)
  qed (simp add: y)
qed

section \<open>Well-formed metrics\<close>

definition srtt_ok :: "srtt_estimator \<Rightarrow> bool" where
  "srtt_ok s \<longleftrightarrow> (if srtt_initialized s
     then 1000 \<le> srtt_us s \<and> srtt_us s \<le> 4294967295000 \<and> 0 \<le> rttvar_us s \<and> rttvar_us s \<le> 4294967295000
     else True)"

definition ratios_ok :: "mmp_metrics \<Rightarrow> bool" where
  "ratios_ok m \<longleftrightarrow> f_in 0 1 (mt_delivery_ratio_forward m) \<and> f_in 0 1 (mt_delivery_ratio_reverse m)
     \<and> f_in 1 100 (mt_etx m) \<and> f_in 0 (2 ^ 94) (mt_goodput_bps m)"

definition trends_ok :: "mmp_metrics \<Rightarrow> bool" where
  "trends_ok m \<longleftrightarrow> ewma_in 1000 4294967295000 (mt_rtt_trend m) \<and> ewma_in 0 1 (mt_loss_trend m)
     \<and> ewma_in 0 (2 ^ 64) (mt_goodput_trend m) \<and> ewma_in 0 (2 ^ 32) (mt_jitter_trend m)
     \<and> ewma_in 1 100 (mt_etx_trend m)"

definition counters_ok :: "mmp_metrics \<Rightarrow> bool" where
  "counters_ok m \<longleftrightarrow> (if mt_last_forward_loss_at m = None then True
       else 0 < mt_last_forward_counter_span m
         \<and> mt_last_forward_lost_packets m \<le> mt_last_forward_counter_span m)
     \<and> mt_forward_loss_window_lost m \<le> mt_forward_loss_window_span m"

definition metrics_ok :: "mmp_metrics \<Rightarrow> bool" where
  "metrics_ok m \<longleftrightarrow> srtt_ok (mt_srtt m) \<and> ratios_ok m \<and> trends_ok m \<and> counters_ok m"

lemmas ok_defs = metrics_ok_def ratios_ok_def trends_ok_def counters_ok_def

lemma srtt_ok_update:
  assumes "srtt_ok s" "1000 \<le> r" "r \<le> 4294967295000"
  shows "srtt_ok (srtt_update s r)"
proof (cases "srtt_initialized s")
  case True
  with assms show ?thesis
    using srtt_step_bound [of s 1000 4294967295000 r] by (simp add: srtt_ok_def)
next
  case False
  with assms(2,3) show ?thesis
    by (simp add: srtt_ok_def srtt_update_def half_trunc_def)
qed

lemma metrics_ok_new: "metrics_ok metrics_new"
  by (simp add: ok_defs metrics_new_def srtt_ok_def srtt_new_def ewma_in_def ewma_new_def)

lemma metrics_ok_baseline: "metrics_ok m \<Longrightarrow> metrics_ok (reset_forward_report_baseline m)"
  by (simp add: ok_defs reset_forward_report_baseline_def)

lemma metrics_ok_rekey: "metrics_ok m \<Longrightarrow> metrics_ok (metrics_reset_for_rekey m)"
  by (simp add: ok_defs reset_forward_report_baseline_def metrics_reset_for_rekey_def)

lemma metrics_ok_rtt:
  assumes "metrics_ok m"
  shows "metrics_ok (update_rtt m rr t now)"
proof -
  have "srtt_ok (srtt_update (mt_srtt m) r)" "ewma_in 1000 4294967295000 (ewma_update (mt_rtt_trend m) (f_of_int r))"
    if "r = int (unat (max w 1)) * 1000" for w :: u32 and r
  proof -
    have "1 \<le> unat (max w 1)" "unat (max w 1) \<le> 4294967295"
      using unat_less_exp [of "max w 1"] by (auto simp: max_def word_le_nat_alt)
    hence r: "1000 \<le> r" "r \<le> 4294967295000"
      using that by linarith+
    hence "representable (of_int r)"
      by (intro representable_int) simp
    hence "f_in 1000 4294967295000 (f_of_int r)"
      using r of_int_le_iff [of 1000 r, where ?'a = rat] of_int_le_iff [of r 4294967295000, where ?'a = rat]
      by (simp add: f_of_int_def representable_def)
    moreover have "(4294967295000 :: rat) - 1000 < pow2 900"
      using pow2_900 by simp
    ultimately show "ewma_in 1000 4294967295000 (ewma_update (mt_rtt_trend m) (f_of_int r))"
      using assms ewma_in_update by (simp add: metrics_ok_def trends_ok_def)
    show "srtt_ok (srtt_update (mt_srtt m) r)"
      using assms r srtt_ok_update by (simp add: metrics_ok_def)
  qed
  thus ?thesis
    using assms by (auto simp: ok_defs update_rtt_def Let_def split: option.splits)
qed

lemma metrics_ok_positive_span:
  assumes "metrics_ok m" "0 < w"
  shows "metrics_ok (positive_span m w p now)"
proof -
  have d: "f_in 0 1 (fwd_delivery p w)"
    using assms(2) by (intro f_in_fwd_delivery) (simp add: word_less_nat_alt)
  hence e: "f_in 1 100 (compute_etx (fwd_delivery p w) (mt_delivery_ratio_reverse m))"
    using assms(1) by (intro f_in_etx) (simp_all add: ok_defs)
  have "(100 :: rat) - 1 < pow2 900" "(1 :: rat) - 0 < pow2 900"
    using pow2_900 by simp_all
  hence "ewma_in 0 1 (ewma_update (mt_loss_trend m) (f_sub (Fin 1) (fwd_delivery p w)))"
    "ewma_in 1 100 (ewma_update (mt_etx_trend m) (compute_etx (fwd_delivery p w) (mt_delivery_ratio_reverse m)))"
    using assms(1) d e f_in_complement ewma_in_update by (simp_all add: ok_defs)
  moreover have "saturating_sub w p \<le> w"
    by (simp add: word_le_nat_alt unat_saturating_sub)
  ultimately show ?thesis
    using assms d e by (simp add: ok_defs positive_span_def Let_def)
qed

lemma metrics_ok_late_receipt:
  assumes "metrics_ok m" "mt_last_forward_loss_at m \<noteq> None"
  shows "metrics_ok (late_receipt m p)"
proof -
  let ?w = "mt_last_forward_counter_span m" and ?l = "saturating_sub (mt_last_forward_lost_packets m) p"
  have w: "0 < ?w" "?l \<le> ?w"
    using assms by (auto simp: ok_defs word_le_nat_alt unat_saturating_sub)
  hence d: "f_in 0 1 (f_div (f_of_nat (unat (?w - ?l))) (f_of_nat (unat ?w)))"
    by (intro f_in_ratio) (simp_all add: unat_sub_le word_less_nat_alt)
  hence "f_in 1 100 (compute_etx (f_div (f_of_nat (unat (?w - ?l))) (f_of_nat (unat ?w))) (mt_delivery_ratio_reverse m))"
    using assms(1) by (intro f_in_etx) (simp_all add: ok_defs)
  thus ?thesis
    using assms w d by (auto simp: ok_defs late_receipt_def Let_def)
qed

lemma metrics_ok_window: "metrics_ok m \<Longrightarrow> metrics_ok (extend_loss_window m w p)"
  by (auto simp: ok_defs extend_loss_window_def word_le_nat_alt unat_saturating_add unat_saturating_sub)

lemma metrics_ok_loss: "metrics_ok m \<Longrightarrow> metrics_ok (update_loss m rr now)"
  by (auto simp: update_loss_def Let_def
      intro!: metrics_ok_window metrics_ok_positive_span metrics_ok_late_receipt)

lemma metrics_ok_goodput:
  assumes "metrics_ok m"
  shows "metrics_ok (update_goodput m rr now)"
proof -
  let ?b = "f_of_nat (unat (saturating_sub (rr_cumulative_bytes_recv rr) (mt_prev_rr_cum_bytes m)))"
  have b: "f_in 0 (2 ^ 64) ?b"
    using unat_less_exp [of "saturating_sub (rr_cumulative_bytes_recv rr) (mt_prev_rr_cum_bytes m)"]
    by (intro f_in_of_nat(1)) simp_all
  have "(2 :: rat) ^ 64 - 0 < pow2 900" and g94: "(2 :: rat) ^ 94 - 0 < pow2 900"
    using pow2_900 by simp_all
  hence t: "ewma_in 0 (2 ^ 64) (ewma_update (mt_goodput_trend m) ?b)"
    using assms b ewma_in_update by (simp add: ok_defs)
  have "f_in 0 (2 ^ 94) (f_add (mt_goodput_bps m) (f_mul (f_sub x (mt_goodput_bps m)) (Fin (1 / 4))))"
    if "f_in 0 (2 ^ 94) x" for x
  proof -
    have "f_in 0 (2 ^ 94) (mt_goodput_bps m)"
      using assms by (simp add: ok_defs)
    then obtain a g where "x = Fin a" "mt_goodput_bps m = Fin g"
      using \<open>f_in 0 (2 ^ 94) x\<close> by (elim f_inE)
    then obtain y where "f_sub x (mt_goodput_bps m) = rnd64 y"
      by (simp add: f_sub_def)
    hence "f_mul (f_sub x (mt_goodput_bps m)) (Fin (1 / 4)) = f_mul (Fin (1 / 4)) (f_sub x (mt_goodput_bps m))"
      by (cases "rnd64 y") (simp_all add: inf_of_sign_def)
    thus ?thesis
      using f_in_average [OF _ that g94, of "mt_goodput_bps m" "1 / 4"] assms by (simp add: ok_defs)
  qed
  with f_in_rate [OF b] t show ?thesis
    using assms by (auto simp: ok_defs update_goodput_def Let_def split: option.splits)
qed

lemma metrics_ok_process: "metrics_ok m \<Longrightarrow> metrics_ok (fst (process_receiver_report m rr t now))"
proof -
  have j: "ewma_in 0 (2 ^ 32) (ewma_update e (f_of_nat (unat w)))" if "ewma_in 0 (2 ^ 32) e" for w :: u32 and e
  proof -
    have "(2 :: rat) ^ 32 - 0 < pow2 900"
      using pow2_900 by simp
    moreover have "f_in 0 (2 ^ 32) (f_of_nat (unat w))"
      using unat_less_exp [of w] by (intro f_in_of_nat(1)) simp_all
    ultimately show ?thesis
      using that by (intro ewma_in_update)
  qed
  assume "metrics_ok m"
  hence "metrics_ok (update_goodput (update_loss (update_rtt m rr t now) rr now) rr now)" (is "metrics_ok ?m")
    by (intro metrics_ok_goodput metrics_ok_loss metrics_ok_rtt)
  hence "metrics_ok (save_report (?m\<lparr>mt_jitter_trend := ewma_update (mt_jitter_trend ?m) (f_of_nat (unat (rr_jitter rr)))\<rparr>) rr now)"
    using j by (simp add: ok_defs save_report_def)
  thus ?thesis
    using \<open>metrics_ok m\<close> by (simp add: process_receiver_report_def Let_def)
qed

lemma metrics_ok_reverse:
  assumes "metrics_ok m"
  shows "metrics_ok (update_reverse_delivery m p h)"
proof -
  have "metrics_ok (m\<lparr>mt_delivery_ratio_reverse := fwd_delivery q w,
      mt_etx := compute_etx (mt_delivery_ratio_forward m) (fwd_delivery q w),
      mt_etx_trend := ewma_update (mt_etx_trend m) (compute_etx (mt_delivery_ratio_forward m) (fwd_delivery q w))\<rparr>)"
    if "0 < w" for w q
  proof -
    have d: "f_in 0 1 (fwd_delivery q w)"
      using that by (intro f_in_fwd_delivery) (simp add: word_less_nat_alt)
    hence "f_in 1 100 (compute_etx (mt_delivery_ratio_forward m) (fwd_delivery q w))"
      using assms by (intro f_in_etx) (simp_all add: ok_defs)
    moreover have "(100 :: rat) - 1 < pow2 900"
      using pow2_900 by simp
    ultimately show ?thesis
      using assms d ewma_in_update by (simp add: ok_defs)
  qed
  thus ?thesis
    using assms by (simp add: update_reverse_delivery_def Let_def) (simp add: ok_defs)
qed

lemma metrics_ok_take: "metrics_ok m \<Longrightarrow> metrics_ok (fst (take_forward_loss_evidence m n))"
  by (simp add: take_forward_loss_evidence_def Let_def) (simp add: ok_defs)

datatype metrics_op = Report receiver_report u32 instant | Reverse u64 u64 | TakeEvidence u64
  | Rekey | NewBaseline | PathChange

fun metrics_step :: "mmp_metrics \<Rightarrow> metrics_op \<Rightarrow> mmp_metrics" where
  "metrics_step m (Report rr t now) = fst (process_receiver_report m rr t now)"
| "metrics_step m (Reverse p h) = update_reverse_delivery m p h"
| "metrics_step m (TakeEvidence n) = fst (take_forward_loss_evidence m n)"
| "metrics_step m Rekey = metrics_reset_for_rekey m"
| "metrics_step m NewBaseline = reset_forward_report_baseline m"
| "metrics_step m PathChange = reset_for_path_change m"

interpretation metrics_machine: invariant_machine metrics_ok metrics_step
proof
  show "metrics_ok (metrics_step m op)" if "metrics_ok m" for m op
    using that by (cases op) (simp_all add: metrics_ok_process metrics_ok_reverse metrics_ok_take
        metrics_ok_rekey metrics_ok_baseline reset_for_path_change_def metrics_ok_new)
qed

lemma evidence_in_range:
  assumes "metrics_ok m"
  shows "pred_option (\<lambda>(_, l). f_in 0 1 l) (snd (take_forward_loss_evidence m n))"
proof -
  have "f_in 0 1 (f_clamp (f_div (f_of_nat (unat (mt_forward_loss_window_lost m))) (f_of_nat (unat w))) (Fin 0) (Fin 1))"
    if "0 < w" for w :: u64
    using f_in_fwd_delivery [of w "mt_forward_loss_window_lost m"] that
    by (simp add: fwd_delivery_def word_less_nat_alt)
  moreover have "0 < mt_forward_loss_window_span m" if "n \<noteq> 0" "n \<le> mt_forward_loss_window_span m"
    using that word_gt_0 order_less_le_trans by metis
  moreover have "f_in 0 1 (f_sub (Fin 1) (f_div (f_of_nat (unat (mt_last_forward_counter_span m - mt_last_forward_lost_packets m)))
      (f_of_nat (unat (mt_last_forward_counter_span m)))))" if "mt_last_forward_loss_at m \<noteq> None"
    using assms that
    by (intro f_in_complement f_in_ratio) (auto simp: ok_defs unat_sub_le word_less_nat_alt)
  ultimately show ?thesis
    by (auto simp: take_forward_loss_evidence_def last_forward_loss_sample_def Let_def option.pred_set)
qed

section \<open>Properties\<close>

text \<open>C37: Whatever reports arrive, in whatever order and at whatever times, interleaved with reverse
  updates, rekeys, route changes and evidence queries, every derived metric stays a number of its
  range: delivery ratios and loss between 0 and 1, the expected transmission count between 1 and
  100, goodput non-negative and finite, each trend within the range of its samples, the smoothed
  round trip between a millisecond and the largest sample; the lost packets never exceed their span,
  so no subtraction wraps and no division is by zero; and the evidence handed to routing is a
  loss rate between 0 and 1.\<close>

theorem metrics_well_typed:
  "metrics_ok (run metrics_step metrics_new ops)
   \<and> f_in 0 1 (loss_rate (run metrics_step metrics_new ops))
   \<and> pred_option (\<lambda>(_, l). f_in 0 1 l) (snd (take_forward_loss_evidence (run metrics_step metrics_new ops) n))"
proof -
  have "metrics_ok (run metrics_step metrics_new ops)"
    by (rule metrics_machine.run_inv) (rule metrics_ok_new)
  thus ?thesis
    using evidence_in_range f_in_complement by (simp add: loss_rate_def ok_defs)
qed

end
