(* ===== verification/Mmp_Link.thy ===== *)
theory Mmp_Link
  imports Mmp_Metrics
begin

text \<open>
  Both ends of a measured link together: the receiver of \<open>Mmp_Endpoints\<close> produces reports, the
  metrics of \<open>Mmp_Metrics\<close> consume them. On a link that delivers every frame in order, each report is
  a clean successor of the one before (counter and packet count advance by the same positive
  amount, nothing decreases), and a sequence of clean successors leaves no loss in the metrics.
\<close>

section \<open>Clean successors\<close>

definition clean_successor :: "receiver_report \<Rightarrow> receiver_report \<Rightarrow> bool" where
  "clean_successor a b \<longleftrightarrow> rr_highest_counter a < rr_highest_counter b
     \<and> unat (rr_highest_counter b) - unat (rr_highest_counter a)
       = unat (rr_cumulative_packets_recv b) - unat (rr_cumulative_packets_recv a)
     \<and> rr_cumulative_packets_recv a \<le> rr_cumulative_packets_recv b
     \<and> rr_cumulative_bytes_recv a \<le> rr_cumulative_bytes_recv b
     \<and> rr_ecn_ce_count a \<le> rr_ecn_ce_count b
     \<and> rr_cumulative_reorder_count a = rr_cumulative_reorder_count b"

section \<open>The receiver of a lossless link\<close>

fun frame_counters :: "receiver_op list \<Rightarrow> u64 list" where
  "frame_counters [] = []"
| "frame_counters (Recv c _ _ _ _ # ops) = c # frame_counters ops"
| "frame_counters (BuildReport _ # ops) = frame_counters ops"

fun frame_bytes :: "receiver_op \<Rightarrow> nat" where
  "frame_bytes (Recv _ _ n _ _) = n"
| "frame_bytes (BuildReport _) = 0"

lemma frame_counters_append [simp]: "frame_counters (xs @ ys) = frame_counters xs @ frame_counters ys"
  by (induction xs rule: frame_counters.induct) simp_all

lemma length_frame_counters: "length (frame_counters ops) \<le> length ops"
  by (induction ops rule: frame_counters.induct) simp_all

definition in_order :: "u64 \<Rightarrow> receiver_op list \<Rightarrow> bool" where
  "in_order c0 ops \<longleftrightarrow>
     frame_counters ops = map (\<lambda>i. c0 + of_nat i) [0..<length (frame_counters ops)]
   \<and> unat c0 + length ops < 2 ^ 64 \<and> sum_list (map frame_bytes ops) < 2 ^ 64"

text \<open>The state of the receiver after \<open>n\<close> frames of \<open>nb\<close> bytes, and the last report in it.\<close>

fun follows :: "receiver_report \<Rightarrow> receiver_state \<Rightarrow> bool" where
  "follows l r \<longleftrightarrow> unat (rr_highest_counter l) + unat (rv_cumulative_packets_recv r)
       = unat (rv_highest_counter r) + unat (rr_cumulative_packets_recv l)
     \<and> unat (rr_cumulative_packets_recv l) + (if rv_interval_has_data r then 1 else 0)
       \<le> unat (rv_cumulative_packets_recv r)
     \<and> rr_cumulative_bytes_recv l \<le> rv_cumulative_bytes_recv r
     \<and> rr_ecn_ce_count l \<le> rv_ecn_ce_count r \<and> rr_cumulative_reorder_count l = 0"

definition lossless :: "u64 \<Rightarrow> nat \<Rightarrow> nat \<Rightarrow> receiver_state \<times> receiver_report list \<Rightarrow> bool" where
  "lossless c0 n nb s \<longleftrightarrow>
     (let (r, reps) = s in
      unat (rv_cumulative_packets_recv r) = n \<and> unat (rv_cumulative_bytes_recv r) = nb
      \<and> rv_cumulative_reorder_count r = 0
      \<and> (if n = 0 then rv_highest_counter r = 0 \<and> \<not> rv_interval_has_data r \<and> reps = []
         else unat (rv_highest_counter r) + 1 = unat c0 + n)
      \<and> successively clean_successor reps \<and> (if reps = [] then True else follows (last reps) r))"

lemma record_recv_fields:
  "rv_cumulative_bytes_recv (record_recv r c ts k ce t) = rv_cumulative_bytes_recv r + of_nat k"
  "rv_cumulative_reorder_count (record_recv r c ts k ce t) =
     (if c < rv_highest_counter r then rv_cumulative_reorder_count r + 1 else rv_cumulative_reorder_count r)"
  "rv_ecn_ce_count (record_recv r c ts k ce t) =
     (if ce then saturating_add (rv_ecn_ce_count r) 1 else rv_ecn_ce_count r)"
  by (simp_all add: record_recv_def count_frame_def track_jitter_def track_owd_def Let_def
      split: option.split)

lemma saturating_add_ge: "a \<le> saturating_add a b" for a b :: "'a::len word"
proof -
  have "unat a \<le> 2 ^ LENGTH('a) - 1"
    using unat_less_exp [of a] by linarith
  thus ?thesis
    by (simp add: word_le_nat_alt unat_saturating_add)
qed

lemma lossless_recv:
  assumes "lossless c0 n nb (r, reps)" "unat c = unat c0 + n" "n < 2 ^ 64 - 1" "nb + k < 2 ^ 64"
  shows "lossless c0 (Suc n) (nb + k) (record_recv r c ts k ce t, reps)"
proof -
  let ?r = "record_recv r c ts k ce t"
  have n: "unat (rv_cumulative_packets_recv r) = n" "unat (rv_cumulative_bytes_recv r) = nb"
    using assms(1) by (simp_all add: lossless_def)
  have in_seq: "\<not> c < rv_highest_counter r"
    using assms(1,2) by (cases "n = 0") (simp_all add: lossless_def word_less_nat_alt)
  have cnt: "unat (rv_cumulative_packets_recv ?r) = Suc n"
    using n assms(3) by (simp add: record_recv_counts unat_add_exact)
  have ku: "unat (of_nat k :: u64) = k"
    using assms(4) by (simp add: unat_of_nat)
  have nbt: "unat (rv_cumulative_bytes_recv ?r) = nb + k"
    using n ku assms(4) by (simp add: record_recv_fields unat_add_exact)
  have hi: "rv_highest_counter ?r = c" "rv_cumulative_reorder_count ?r = rv_cumulative_reorder_count r"
    "rv_ecn_ce_count r \<le> rv_ecn_ce_count ?r" "rv_interval_has_data ?r"
    using in_seq by (simp_all add: record_recv_counts record_recv_fields saturating_add_ge)
  have "follows (last reps) ?r" if "reps \<noteq> []"
    using assms(1,2) that cnt nbt hi n
    by (auto simp: lossless_def word_le_nat_alt split: if_splits)
  thus ?thesis
    using assms(1,2) cnt nbt hi by (auto simp: lossless_def)
qed

lemma successively_snoc:
  "successively P (xs @ [y]) \<longleftrightarrow> successively P xs \<and> (if xs = [] then True else P (last xs) y)"
  by (auto simp: successively_append_iff)

lemma lossless_report:
  assumes "lossless c0 n nb (r, reps)"
  shows "lossless c0 n nb (receiver_step (r, reps) (BuildReport t))"
proof (cases "rv_interval_has_data r")
  case False
  then show ?thesis
    using assms by (simp add: receiver_build_report_def)
next
  case True
  obtain r' rep where b: "receiver_build_report r t = (r', Some rep)"
    and rep: "rr_highest_counter rep = rv_highest_counter r"
      "rr_cumulative_packets_recv rep = rv_cumulative_packets_recv r"
      "rr_cumulative_bytes_recv rep = rv_cumulative_bytes_recv r"
      "rr_ecn_ce_count rep = rv_ecn_ce_count r" "rr_cumulative_reorder_count rep = 0"
    and r': "rv_highest_counter r' = rv_highest_counter r"
      "rv_cumulative_packets_recv r' = rv_cumulative_packets_recv r"
      "rv_cumulative_bytes_recv r' = rv_cumulative_bytes_recv r"
      "rv_ecn_ce_count r' = rv_ecn_ce_count r" "rv_cumulative_reorder_count r' = 0" "\<not> rv_interval_has_data r'"
    using True assms
    by (cases "take_interval_stats (rv_gap_tracker r)") (auto simp: receiver_build_report_def lossless_def)
  have "clean_successor (last reps) rep" if "reps \<noteq> []"
    using assms that rep True
    by (auto simp: lossless_def clean_successor_def word_less_nat_alt word_le_nat_alt split: if_splits)
  thus ?thesis
    using assms b rep r' True by (auto simp: lossless_def successively_snoc split: if_splits)
qed

lemma lossless_run:
  assumes "in_order c0 ops"
  shows "lossless c0 (length (frame_counters ops)) (sum_list (map frame_bytes ops))
    (foldl receiver_step (receiver_new w, []) ops)"
  using assms
proof (induction ops rule: rev_induct)
  case Nil
  then show ?case
    by (simp add: lossless_def receiver_new_def receiver_new_with_cold_start_def)
next
  case (snoc op ops)
  obtain r reps where s: "foldl receiver_step (receiver_new w, []) ops = (r, reps)"
    by fastforce
  have len: "length (frame_counters ops) \<le> length ops"
    by (rule length_frame_counters)
  show ?case
  proof (cases op)
    case (Recv c ts k ce t)
    let ?n = "length (frame_counters ops)"
    have eq: "frame_counters ops @ [c] = map (\<lambda>i. c0 + of_nat i) [0..<Suc ?n]"
      and b: "unat c0 + Suc (length ops) < 2 ^ 64" "sum_list (map frame_bytes ops) + k < 2 ^ 64"
      using snoc.prems Recv by (simp_all add: in_order_def)
    have "frame_counters ops = map (\<lambda>i. c0 + of_nat i) [0..<?n]" "c = c0 + of_nat ?n"
      using eq by simp_all
    moreover from this have "unat c = unat c0 + ?n"
      using b len by (simp add: unat_add_exact unat_of_nat)
    moreover have "in_order c0 ops"
      using calculation(1) b by (simp add: in_order_def)
    ultimately show ?thesis
      using snoc.IH s Recv b len lossless_recv [of c0 ?n _ r reps c k ts ce t] by simp
  next
    case (BuildReport t)
    hence "in_order c0 ops"
      using snoc.prems by (simp add: in_order_def)
    thus ?thesis
      using snoc.IH s BuildReport lossless_report by simp
  qed
qed

section \<open>Metrics of clean reports\<close>

fun deliver :: "mmp_metrics \<Rightarrow> receiver_report \<times> u32 \<times> instant \<Rightarrow> mmp_metrics" where
  "deliver m (rr, t, now) = fst (process_receiver_report m rr t now)"

fun no_loss :: "mmp_metrics \<Rightarrow> bool" where
  "no_loss m \<longleftrightarrow> mt_delivery_ratio_forward m = Fin 1 \<and> mt_delivery_ratio_reverse m = Fin 1 \<and> mt_etx m = Fin 1
     \<and> mt_last_forward_lost_packets m = 0 \<and> mt_forward_loss_window_lost m = 0"

fun baseline :: "mmp_metrics \<Rightarrow> receiver_report \<Rightarrow> bool" where
  "baseline m rr \<longleftrightarrow> mt_has_prev_rr m \<and> mt_prev_rr_highest_counter m = rr_highest_counter rr
     \<and> mt_prev_rr_cum_packets m = rr_cumulative_packets_recv rr
     \<and> mt_prev_rr_cum_bytes m = rr_cumulative_bytes_recv rr
     \<and> mt_prev_rr_ecn_ce m = rr_ecn_ce_count rr \<and> mt_prev_rr_reorder m = rr_cumulative_reorder_count rr"

lemma fwd_delivery_all:
  assumes "0 < unat w"
  shows "fwd_delivery w w = Fin 1"
proof -
  obtain b where "f_of_nat (unat w) = Fin b" "1 \<le> b"
    using ratio_parts assms by blast
  thus ?thesis
    by (simp add: fwd_delivery_def f_clamp_def)
qed

lemma no_loss_rtt_goodput [simp]:
  "no_loss (update_rtt m rr t now) = no_loss m" "no_loss (update_goodput m rr now) = no_loss m"
  "mt_has_prev_rr (update_rtt m rr t now) = mt_has_prev_rr m"
  "mt_prev_rr_highest_counter (update_rtt m rr t now) = mt_prev_rr_highest_counter m"
  "mt_prev_rr_cum_packets (update_rtt m rr t now) = mt_prev_rr_cum_packets m"
  by (simp_all add: update_rtt_def update_goodput_def Let_def split: option.split)

lemma no_loss_update:
  assumes "no_loss m" "baseline m a" "clean_successor a b"
  shows "no_loss (update_loss (update_rtt m b t now) b now)"
proof -
  let ?w = "saturating_sub (rr_highest_counter b) (rr_highest_counter a)"
  let ?p = "saturating_sub (rr_cumulative_packets_recv b) (rr_cumulative_packets_recv a)"
  have w: "0 < ?w" "?p = ?w"
    using assms(3) unfolding clean_successor_def word_less_nat_alt
    by (auto simp: unat_saturating_sub word_eq_iff_unsigned [where ?'a = nat])
  have z: "saturating_sub ?w ?w = 0" "saturating_add (0 :: u64) 0 = 0" "saturating_sub (0 :: u64) 0 = 0"
    by (simp_all add: word_eq_iff_unsigned [where ?'a = nat] unat_saturating_sub unat_saturating_add)
  have d: "fwd_delivery ?w ?w = Fin 1"
    using w(1) by (intro fwd_delivery_all) (simp add: word_less_nat_alt)
  have e: "compute_etx (Fin 1) (Fin 1) = Fin 1"
    by (simp add: compute_etx_def Let_def f_clamp_def f_le_def f_eq_def)
  have "no_loss (update_rtt m b t now)"
    using assms(1) by (simp del: no_loss.simps)
  thus ?thesis
    using assms(2) w d e z
    by (simp add: update_loss_def positive_span_def extend_loss_window_def Let_def del: no_loss_rtt_goodput(1))
qed

lemma process_clean:
  assumes "no_loss m" "baseline m a" "clean_successor a b"
  shows "no_loss (deliver m (b, t, now)) \<and> baseline (deliver m (b, t, now)) b"
proof -
  have acc: "\<not> counters_regressed m b" "\<not> duplicate_counters m b"
    using assms(2,3) by (auto simp: counters_regressed_def duplicate_counters_def clean_successor_def)
  have "no_loss (update_goodput (update_loss (update_rtt m b t now) b now) b now)"
    using no_loss_update [OF assms] by (simp del: no_loss.simps)
  thus ?thesis
    using acc by (simp add: process_receiver_report_def save_report_def Let_def)
qed

lemma process_first:
  "no_loss (deliver metrics_new (a, t, now)) \<and> baseline (deliver metrics_new (a, t, now)) a"
proof -
  have "no_loss (update_goodput (update_loss (update_rtt metrics_new a t now) a now) a now)"
    by (simp add: update_loss_def metrics_new_def del: no_loss.simps) simp
  thus ?thesis
    by (simp add: process_receiver_report_def save_report_def metrics_new_def Let_def)
qed

lemma process_all_clean:
  assumes "successively clean_successor (map fst ds)" "ds \<noteq> []"
  shows "no_loss (foldl deliver metrics_new ds) \<and> baseline (foldl deliver metrics_new ds) (fst (last ds))"
  using assms(2,1)
proof (induction ds rule: rev_nonempty_induct)
  case (single d)
  then show ?case
    using process_first by (cases d) (simp del: no_loss.simps baseline.simps deliver.simps)
next
  case (snoc d ds)
  have "successively clean_successor (map fst ds)" "clean_successor (fst (last ds)) (fst d)"
    using snoc by (simp_all add: successively_snoc last_map)
  with snoc.IH show ?case
    using process_clean [of "foldl deliver metrics_new ds" "fst (last ds)" "fst d"]
    by (cases d) (simp del: no_loss.simps baseline.simps deliver.simps)
qed

section \<open>Properties\<close>

text \<open>C36: A link that loses nothing measures as loss-free. Whatever frames arrive with consecutive
  counters from any first counter, whenever reports are requested in between, and whenever the
  sender processes the resulting reports in order, the sender accepts every one of them (the last
  one is its baseline), the forward delivery ratio and the expected transmission count are exactly
  one and no lost packet is recorded, neither for the last interval nor in the loss window.\<close>

theorem lossless_link_shows_no_loss:
  assumes "in_order c0 ops"
    and "map fst ds = snd (foldl receiver_step (receiver_new w, []) ops)" and "ds \<noteq> []"
  shows "no_loss (foldl deliver metrics_new ds) \<and> baseline (foldl deliver metrics_new ds) (fst (last ds))"
proof (rule process_all_clean [OF _ assms(3)])
  obtain r reps where s: "foldl receiver_step (receiver_new w, []) ops = (r, reps)"
    by fastforce
  show "successively clean_successor (map fst ds)"
    using lossless_run [OF assms(1), of w] assms(2) s by (simp add: lossless_def)
qed

definition demo_ops :: "receiver_op list" where
  "demo_ops = [Recv 5 10 100 False 1, Recv 6 20 100 True 2, BuildReport 3, Recv 7 30 50 False 4, BuildReport 5]"

theorem lossless_link_shows_no_loss_witness:
  "no_loss (foldl deliver metrics_new (map (\<lambda>rr. (rr, 0, 9)) (snd (foldl receiver_step (receiver_new 32, []) demo_ops))))
   \<and> length (snd (foldl receiver_step (receiver_new 32, []) demo_ops)) = 2"
proof -
  let ?reps = "snd (foldl receiver_step (receiver_new 32, []) demo_ops)"
  let ?ds = "map (\<lambda>rr. (rr, 0 :: u32, 9 :: instant)) ?reps"
  have two: "length ?reps = 2"
    by (simp add: demo_ops_def receiver_build_report_def record_recv_counts Let_def split: prod.split)
  have "in_order 5 demo_ops"
    by (simp add: in_order_def demo_ops_def upt_rec)
  moreover have "map fst ?ds = ?reps"
    by (simp add: comp_def)
  moreover have "?ds \<noteq> []"
    using two by auto
  ultimately have "no_loss (foldl deliver metrics_new ?ds) \<and> baseline (foldl deliver metrics_new ?ds) (fst (last ?ds))"
    by (rule lossless_link_shows_no_loss)
  thus ?thesis
    using two by blast
qed

end
