(* ===== verification/Mmp_State.thy ===== *)
theory Mmp_State
  imports Mmp_Link Wire_Link
begin

text \<open>
  The per-link and per-session state of the metrics protocol (\<^verbatim>\<open>proto/mmp/mod.rs\<close>, structs
  \<open>MmpPeerState\<close> and \<open>MmpSessionState\<close>): construction, rekey cutover, log pacing, and the rules that
  say which messages schedule a report. The rules are acyclic: a message leads to at most one
  sender report and one receiver report, and reports about reports stop there.
\<close>

section \<open>Modes and configuration\<close>

datatype mmp_mode = Full | Lightweight | Minimal

record mmp_config =
  mc_mode :: mmp_mode
  mc_log_interval_secs :: u64
  mc_owd_window_size :: nat

definition DEFAULT_LOG_INTERVAL_SECS :: u64 where "DEFAULT_LOG_INTERVAL_SECS = 30"
definition DEFAULT_OWD_WINDOW_SIZE :: nat where "DEFAULT_OWD_WINDOW_SIZE = 32"
definition SESSION_COLD_START_INTERVAL_MS :: nat where "SESSION_COLD_START_INTERVAL_MS = 1000"

definition mmp_config_default :: mmp_config where
  "mmp_config_default = \<lparr>mc_mode = Full, mc_log_interval_secs = DEFAULT_LOG_INTERVAL_SECS,
     mc_owd_window_size = DEFAULT_OWD_WINDOW_SIZE\<rparr>"

section \<open>Link state\<close>

record mmp_peer_state =
  mp_sender :: sender_state
  mp_receiver :: receiver_state
  mp_metrics :: mmp_metrics
  mp_spin_bit :: spin_bit_state
  mp_sender_report_pending :: bool
  mp_receiver_report_pending :: bool
  mp_mode :: mmp_mode
  mp_log_interval :: duration
  mp_last_log_time :: "instant option"

definition mmp_peer_new :: "mmp_config \<Rightarrow> bool \<Rightarrow> mmp_peer_state" where
  "mmp_peer_new cfg is_initiator = \<lparr>mp_sender = sender_new,
     mp_receiver = receiver_new (mc_owd_window_size cfg), mp_metrics = metrics_new,
     mp_spin_bit = spin_new is_initiator, mp_sender_report_pending = False,
     mp_receiver_report_pending = False, mp_mode = mc_mode cfg,
     mp_log_interval = from_secs (unat (mc_log_interval_secs cfg)), mp_last_log_time = None\<rparr>"

definition mmp_peer_reset_for_rekey :: "mmp_peer_state \<Rightarrow> instant \<Rightarrow> mmp_peer_state" where
  "mmp_peer_reset_for_rekey p now = p\<lparr>mp_sender := sender_reset_for_rekey (mp_sender p),
     mp_receiver := receiver_reset_for_rekey (mp_receiver p) now,
     mp_metrics := metrics_reset_for_rekey (mp_metrics p),
     mp_sender_report_pending := False, mp_receiver_report_pending := False\<rparr>"

definition needs_sender_report :: "mmp_peer_state \<Rightarrow> bool" where
  "needs_sender_report p \<longleftrightarrow> mp_sender_report_pending p \<or> \<not> srtt_initialized (mt_srtt (mp_metrics p))"

definition log_due :: "instant option \<Rightarrow> duration \<Rightarrow> instant \<Rightarrow> bool" where
  "log_due last_log_time log_interval now = (case last_log_time of
     None \<Rightarrow> True | Some prev \<Rightarrow> duration_since now prev \<ge> log_interval)"

definition mmp_peer_should_log :: "mmp_peer_state \<Rightarrow> instant \<Rightarrow> bool" where
  "mmp_peer_should_log p now = log_due (mp_last_log_time p) (mp_log_interval p) now"

definition mmp_peer_mark_logged :: "mmp_peer_state \<Rightarrow> instant \<Rightarrow> mmp_peer_state" where
  "mmp_peer_mark_logged p now = p\<lparr>mp_last_log_time := Some now\<rparr>"

section \<open>Which messages schedule reports\<close>

definition link_message_elicits_sender_report :: "u8 option \<Rightarrow> bool" where
  "link_message_elicits_sender_report msg_type = (case msg_type of
     None \<Rightarrow> False
   | Some kind \<Rightarrow> link_from_byte kind \<noteq> Some SenderReportT \<and> link_from_byte kind \<noteq> Some ReceiverReportT)"

definition link_message_elicits_receiver_report :: "u8 option \<Rightarrow> bool" where
  "link_message_elicits_receiver_report msg_type = (case msg_type of
     None \<Rightarrow> False | Some kind \<Rightarrow> link_from_byte kind \<noteq> Some ReceiverReportT)"

section \<open>Session state\<close>

record mmp_session_state =
  ms_sender :: sender_state
  ms_receiver :: receiver_state
  ms_sender_report_pending :: bool
  ms_receiver_report_pending :: bool
  ms_metrics :: mmp_metrics
  ms_spin_bit :: spin_bit_state
  ms_mode :: mmp_mode
  ms_log_interval :: duration
  ms_last_log_time :: "instant option"
  ms_path_mtu :: path_mtu_state

definition mmp_session_new :: "mmp_config \<Rightarrow> bool \<Rightarrow> mmp_session_state" where
  "mmp_session_new cfg is_initiator =
     \<lparr>ms_sender = sender_new_with_cold_start SESSION_COLD_START_INTERVAL_MS,
      ms_receiver = receiver_new_with_cold_start (mc_owd_window_size cfg) SESSION_COLD_START_INTERVAL_MS,
      ms_sender_report_pending = False, ms_receiver_report_pending = False,
      ms_metrics = metrics_new, ms_spin_bit = spin_new is_initiator, ms_mode = mc_mode cfg,
      ms_log_interval = from_secs (unat (mc_log_interval_secs cfg)), ms_last_log_time = None,
      ms_path_mtu = path_mtu_new\<rparr>"

definition reset_sender_for_rekey :: "mmp_session_state \<Rightarrow> mmp_session_state" where
  "reset_sender_for_rekey s = s\<lparr>ms_sender := sender_reset_for_rekey (ms_sender s),
     ms_metrics := metrics_reset_for_rekey (ms_metrics s), ms_sender_report_pending := False\<rparr>"

definition reset_receiver_for_rekey :: "mmp_session_state \<Rightarrow> instant \<Rightarrow> mmp_session_state" where
  "reset_receiver_for_rekey s now = s\<lparr>ms_receiver := receiver_reset_for_rekey (ms_receiver s) now,
     ms_spin_bit := spin_new (spin_is_initiator (ms_spin_bit s)), ms_receiver_report_pending := False\<rparr>"

definition mmp_session_reset_for_rekey :: "mmp_session_state \<Rightarrow> instant \<Rightarrow> mmp_session_state" where
  "mmp_session_reset_for_rekey s now = reset_receiver_for_rekey (reset_sender_for_rekey s) now"

definition mmp_session_should_log :: "mmp_session_state \<Rightarrow> instant \<Rightarrow> bool" where
  "mmp_session_should_log s now = log_due (ms_last_log_time s) (ms_log_interval s) now"

definition mmp_session_mark_logged :: "mmp_session_state \<Rightarrow> instant \<Rightarrow> mmp_session_state" where
  "mmp_session_mark_logged s now = s\<lparr>ms_last_log_time := Some now\<rparr>"

section \<open>Reports do not perpetuate reports\<close>

text \<open>\<open>leads_to a b\<close>: a message whose first byte is \<open>a\<close> schedules one whose first byte is \<open>b\<close>, at the node
  that sent it (a sender report) or at the node that received it (a receiver report).\<close>

inductive leads_to :: "u8 \<Rightarrow> u8 \<Rightarrow> bool" where
  sent: "link_message_elicits_sender_report (Some a) \<Longrightarrow> leads_to a (link_to_byte SenderReportT)"
| received: "link_message_elicits_receiver_report (Some a) \<Longrightarrow> leads_to a (link_to_byte ReceiverReportT)"

inductive_cases leads_toE: "leads_to a b"

lemma report_kinds: "link_from_byte 1 = Some SenderReportT" "link_from_byte 2 = Some ReceiverReportT"
  by (simp_all add: link_from_byte_def)

lemma leads_to_cases:
  "leads_to a b \<Longrightarrow> (b = 1 \<and> a \<noteq> 1 \<and> a \<noteq> 2) \<or> (b = 2 \<and> a \<noteq> 2)"
  by (elim leads_toE) (auto simp: link_message_elicits_sender_report_def
      link_message_elicits_receiver_report_def report_kinds)

lemma elicited_chain_short: "successively leads_to ms \<Longrightarrow> length ms \<le> 3"
proof (rule ccontr)
  assume c: "successively leads_to ms" and "\<not> length ms \<le> 3"
  hence "4 \<le> length ms"
    by simp
  then obtain a b c' d rest where "ms = a # b # c' # d # rest"
    by (metis Suc_le_length_iff eval_nat_numeral(3) numeral_2_eq_2 numeral_eq_Suc pred_numeral_simps(2,3) semiring_norm(26,27))
  with c have "leads_to a b" "leads_to b c'" "leads_to c' d"
    by simp_all
  thus False
    using leads_to_cases by blast
qed

lemma rekey_keeps_metrics:
  "metrics_ok (mp_metrics p) \<Longrightarrow> metrics_ok (mp_metrics (mmp_peer_reset_for_rekey p now))"
  "metrics_ok (ms_metrics s) \<Longrightarrow> metrics_ok (ms_metrics (mmp_session_reset_for_rekey s now))"
  by (simp_all add: mmp_peer_reset_for_rekey_def mmp_session_reset_for_rekey_def
      reset_sender_for_rekey_def reset_receiver_for_rekey_def metrics_ok_rekey)

end
