(* ===== verification/Metering.thy ===== *)
theory Metering
  imports Hash_Map
begin

text \<open>
  The contract token buckets share. A metered machine takes operations at instants; some of them are
  admissions that cost credit. Credit is read at an instant: it never exceeds the capacity, it
  accrues at most at the given rate, and an operation leaves at most the credit it found less the cost
  of an admission. Then the admissions of any window are bounded by one burst plus the rate times the
  length of the window, whatever other operations lie in between. The virtual-address pool of the
  gateway and the per-peer budget of error signals are interpretations.
\<close>

fun admissions :: "('s \<Rightarrow> 'op \<Rightarrow> instant \<Rightarrow> 's \<times> bool) \<Rightarrow> 's \<Rightarrow> ('op \<times> instant) list \<Rightarrow> nat" where
  "admissions step s [] = 0"
| "admissions step s ((op, t) # ops) =
     (case step s op t of (s', b) \<Rightarrow> (if b then 1 else 0) + admissions step s' ops)"

definition final_state :: "('s \<Rightarrow> 'op \<Rightarrow> instant \<Rightarrow> 's \<times> bool) \<Rightarrow> 's \<Rightarrow> ('op \<times> instant) list \<Rightarrow> 's" where
  "final_state step s ops = run (\<lambda>s e. fst (step s (fst e) (snd e))) s ops"

locale meter =
  fixes inv :: "'s \<Rightarrow> bool" and step :: "'s \<Rightarrow> 'op \<Rightarrow> instant \<Rightarrow> 's \<times> bool"
    and credit :: "'s \<Rightarrow> instant \<Rightarrow> nat" and cap rate cost :: nat
  assumes inv_step: "inv s \<Longrightarrow> inv (fst (step s op t))"
    and credit_cap: "inv s \<Longrightarrow> credit s t \<le> cap"
    and credit_accrues: "inv s \<Longrightarrow> t \<le> u \<Longrightarrow> credit s u \<le> credit s t + rate * (u - t)"
    and credit_spent: "inv s \<Longrightarrow> credit (fst (step s op t)) t + (if snd (step s op t) then cost else 0) \<le> credit s t"
begin

lemma admissions_credit:
  assumes "inv s" "sorted (map snd ops)" "\<forall>e \<in> set ops. t0 \<le> snd e \<and> snd e \<le> t1" "t0 \<le> t1"
  shows "cost * admissions step s ops \<le> credit s t0 + rate * (t1 - t0)"
  using assms
proof (induction ops arbitrary: s t0)
  case (Cons e ops)
  obtain op t where e: "e = (op, t)" by fastforce
  obtain s' b where s': "step s op t = (s', b)" by fastforce
  have t: "t0 \<le> t" "t \<le> t1"
    using Cons.prems(3) e by auto
  have "cost * admissions step s' ops \<le> credit s' t + rate * (t1 - t)"
    using Cons.prems e t s' inv_step [OF Cons.prems(1), of op t] by (intro Cons.IH) auto
  moreover have "credit s' t + (if b then cost else 0) \<le> credit s t"
    using credit_spent [OF Cons.prems(1), of op t] s' by simp
  moreover have "credit s t \<le> credit s t0 + rate * (t - t0)"
    using credit_accrues Cons.prems(1) t(1) by blast
  moreover have "rate * (t - t0) + rate * (t1 - t) = rate * (t1 - t0)"
    using t by (simp flip: distrib_left)
  ultimately show ?case
    using e s' by (simp add: distrib_left split: if_splits)
qed simp

text \<open>The bound for a window anywhere in a history: what came before does not matter.\<close>

lemma window_bounded:
  assumes "inv s" "sorted (map snd ops)" "\<forall>e \<in> set ops. t0 \<le> snd e \<and> snd e \<le> t1" "t0 \<le> t1"
  shows "cost * admissions step (final_state step s before) ops \<le> cap + rate * (t1 - t0)"
proof -
  have inv: "inv (final_state step s before)"
    using assms(1) unfolding final_state_def by (induction before arbitrary: s) (auto intro: inv_step)
  show ?thesis
    using admissions_credit [OF inv assms(2-4)] credit_cap [OF inv, of t0] by linarith
qed

end

sublocale meter \<subseteq> meter_run: invariant_machine inv "\<lambda>s e. fst (step s (fst e) (snd e))"
  by unfold_locales (rule inv_step)

end
