(* ===== verification/Error_Emission.thy ===== *)
theory Error_Emission
  imports Rate_Limit Metering
begin

text \<open>
  Emission of routing errors at transit nodes: the token bucket per authenticated link peer
  (\<^verbatim>\<open>node/peer_error_budget.rs\<close>) and the gate of \<^verbatim>\<open>node/handlers/forwarding.rs\<close> that asks the peer's
  budget, then the limiter per destination of \<open>Rate_Limit\<close>, and spends the peer's token only when both
  admit. The clock is an argument.
\<close>

section \<open>The budget of a peer\<close>

definition PEER_ERROR_RATE_PER_SEC :: u32 where "PEER_ERROR_RATE_PER_SEC = 20"
definition PEER_ERROR_BURST :: u32 where "PEER_ERROR_BURST = 50"
definition MILLI :: u64 where "MILLI = 1000"
definition SWEEP_INTERVAL :: duration where "SWEEP_INTERVAL = from_secs 30"

record error_bucket =
  eb_milli_tokens :: u64
  eb_last_refill :: instant

record peer_error_budget =
  pb_buckets :: "(node_addr, error_bucket) hmap"
  pb_milli_per_ms :: u64
  pb_capacity :: u64
  pb_last_sweep :: instant

definition budget_with_rate :: "u32 \<Rightarrow> u32 \<Rightarrow> instant \<Rightarrow> peer_error_budget" where
  "budget_with_rate per_sec burst now =
     \<lparr>pb_buckets = [], pb_milli_per_ms = ucast per_sec, pb_capacity = ucast burst * MILLI,
      pb_last_sweep = now\<rparr>"

definition budget_new :: "instant \<Rightarrow> peer_error_budget" where
  "budget_new now = budget_with_rate PEER_ERROR_RATE_PER_SEC PEER_ERROR_BURST now"

definition elapsed_ms :: "instant \<Rightarrow> instant \<Rightarrow> u64" where
  "elapsed_ms now prev = of_nat (min (duration_since now prev div 1000000) (2 ^ 64 - 1))"

definition refill_bucket :: "u64 \<Rightarrow> u64 \<Rightarrow> error_bucket \<Rightarrow> instant \<Rightarrow> error_bucket" where
  "refill_bucket capacity milli_per_ms b now =
     (let e = elapsed_ms now (eb_last_refill b) in
      if e > 0
      then \<lparr>eb_milli_tokens = min (saturating_add (eb_milli_tokens b) (saturating_mul e milli_per_ms)) capacity,
            eb_last_refill = now\<rparr>
      else b)"

definition budget_refill :: "peer_error_budget \<Rightarrow> node_addr \<Rightarrow> instant \<Rightarrow> peer_error_budget" where
  "budget_refill s peer now =
     (let b = (case map_of (pb_buckets s) peer of
                 Some b \<Rightarrow> b | None \<Rightarrow> \<lparr>eb_milli_tokens = pb_capacity s, eb_last_refill = now\<rparr>)
      in s\<lparr>pb_buckets := hm_insert peer (refill_bucket (pb_capacity s) (pb_milli_per_ms s) b now) (pb_buckets s)\<rparr>)"

definition has_token :: "peer_error_budget \<Rightarrow> node_addr \<Rightarrow> instant \<Rightarrow> peer_error_budget \<times> bool" where
  "has_token s peer now =
     (let s = budget_refill s peer now in
      (s, case map_of (pb_buckets s) peer of Some b \<Rightarrow> eb_milli_tokens b \<ge> MILLI | None \<Rightarrow> False))"

definition sweep :: "peer_error_budget \<Rightarrow> instant \<Rightarrow> peer_error_budget" where
  "sweep s now =
     (if duration_since now (pb_last_sweep s) < SWEEP_INTERVAL then s
      else s\<lparr>pb_last_sweep := now,
             pb_buckets := hm_retain (\<lambda>_ b. saturating_add (eb_milli_tokens b)
                 (saturating_mul (elapsed_ms now (eb_last_refill b)) (pb_milli_per_ms s)) < pb_capacity s)
               (pb_buckets s)\<rparr>)"

definition commit :: "peer_error_budget \<Rightarrow> node_addr \<Rightarrow> instant \<Rightarrow> peer_error_budget" where
  "commit s peer now =
     (let s = budget_refill s peer now;
          s = (case map_of (pb_buckets s) peer of
                 Some b \<Rightarrow> s\<lparr>pb_buckets := hm_insert peer
                   (b\<lparr>eb_milli_tokens := saturating_sub (eb_milli_tokens b) MILLI\<rparr>) (pb_buckets s)\<rparr>
               | None \<Rightarrow> s)
      in sweep s now)"

section \<open>The gate\<close>

record emission_gate =
  eg_budget :: peer_error_budget
  eg_limiter :: error_limiter

definition admit_error_emission :: "emission_gate \<Rightarrow> node_addr \<times> node_addr \<Rightarrow> instant \<Rightarrow> emission_gate \<times> bool" where
  "admit_error_emission g fd now =
     (case fd of (from, dest) \<Rightarrow>
      case has_token (eg_budget g) from now of (b, ok) \<Rightarrow>
        let g = g\<lparr>eg_budget := b\<rparr> in
        if \<not> ok then (g, False)
        else case el_check (eg_limiter g) dest now of (l, verdict) \<Rightarrow>
          let g = g\<lparr>eg_limiter := l\<rparr> in
          if verdict = Suppress then (g, False)
          else (g\<lparr>eg_budget := commit (eg_budget g) from now\<rparr>, True))"

section \<open>Credit\<close>

text \<open>The credit of a bucket is counted in millionths of a thousandth of a token, so that elapsed
  nanoseconds count without rounding. The code rounds elapsed time down to milliseconds but keeps
  the remainder while it is below one: a full bucket can hold up to a millisecond of credit beyond
  its capacity.\<close>

definition bucket_credit :: "u64 \<Rightarrow> u64 \<Rightarrow> error_bucket \<Rightarrow> instant \<Rightarrow> nat" where
  "bucket_credit capacity milli_per_ms b t =
     min ((unat capacity + unat milli_per_ms) * 1000000)
       (unat (eb_milli_tokens b) * 1000000 + unat milli_per_ms * duration_since t (eb_last_refill b))"

definition peer_credit :: "node_addr \<Rightarrow> peer_error_budget \<Rightarrow> instant \<Rightarrow> nat" where
  "peer_credit p s t = (case map_of (pb_buckets s) p of
     None \<Rightarrow> unat (pb_capacity s) * 1000000
   | Some b \<Rightarrow> bucket_credit (pb_capacity s) (pb_milli_per_ms s) b t)"

definition budget_inv :: "u64 \<Rightarrow> u64 \<Rightarrow> peer_error_budget \<Rightarrow> bool" where
  "budget_inv capacity milli_per_ms s \<longleftrightarrow>
     hm_inv (pb_buckets s) \<and> pb_capacity s = capacity \<and> pb_milli_per_ms s = milli_per_ms
   \<and> (\<forall>p b. map_of (pb_buckets s) p = Some b \<longrightarrow> eb_milli_tokens b \<le> capacity)"

lemma elapsed_ms_le: "unat (elapsed_ms now t) * 1000000 \<le> duration_since now t"
proof -
  have "unat (elapsed_ms now t) \<le> duration_since now t div 1000000"
    by (simp add: elapsed_ms_def unat_of_nat)
  thus ?thesis
    using div_times_less_eq_dividend [of "duration_since now t" 1000000] mult_le_mono1 order.trans by blast
qed

lemma elapsed_ms_zero: "\<not> 0 < elapsed_ms now t \<Longrightarrow> duration_since now t < 1000000"
proof -
  have "unat (elapsed_ms now t) = min (duration_since now t div 1000000) (2 ^ 64 - 1)"
    by (simp add: elapsed_ms_def unat_of_nat min_def)
  moreover assume "\<not> 0 < elapsed_ms now t"
  ultimately show ?thesis
    by (simp add: word_less_nat_alt min_def div_eq_0_iff split: if_splits)
qed

lemma accrued_le:
  "unat (saturating_add a (saturating_mul (elapsed_ms now t) r)) * 1000000
     \<le> unat a * 1000000 + unat r * duration_since now t"
proof -
  have "unat (saturating_add a (saturating_mul (elapsed_ms now t) r)) \<le> unat a + unat (elapsed_ms now t) * unat r"
    by (simp add: unat_saturating_add unat_saturating_mul)
  hence "unat (saturating_add a (saturating_mul (elapsed_ms now t) r)) * 1000000
      \<le> (unat a + unat (elapsed_ms now t) * unat r) * 1000000"
    by (rule mult_le_mono1)
  also have "\<dots> = unat a * 1000000 + unat r * (unat (elapsed_ms now t) * 1000000)"
    by (simp add: algebra_simps)
  also have "\<dots> \<le> unat a * 1000000 + unat r * duration_since now t"
    using elapsed_ms_le by (intro add_left_mono mult_le_mono2)
  finally show ?thesis .
qed

lemma unat_min_word: "unat (min x c) \<le> unat x" "unat (min x c) \<le> unat c" for x c :: "'a::len word"
  by (simp_all add: min_def word_le_nat_alt)

text \<open>After a refill at \<open>t\<close> less than a millisecond is unaccounted, so the cap on the credit is slack.\<close>

lemma refilled_bucket:
  fixes c r :: u64 and b :: error_bucket and t :: instant
  assumes "eb_milli_tokens b \<le> c"
  defines "b' \<equiv> refill_bucket c r b t"
  shows "eb_milli_tokens b' \<le> c" "refill_bucket c r b' t = b'"
    "bucket_credit c r b' t = unat (eb_milli_tokens b') * 1000000 + unat r * duration_since t (eb_last_refill b')"
    "bucket_credit c r b' t \<le> bucket_credit c r b t"
    "duration_since t (eb_last_refill b') < 1000000"
proof -
  have z: "duration_since t t = 0" "\<not> 0 < elapsed_ms t t"
    by (simp_all add: duration_since_def elapsed_ms_def)
  show le: "eb_milli_tokens b' \<le> c" and small: "duration_since t (eb_last_refill b') < 1000000"
    and "refill_bucket c r b' t = b'"
    using assms(1) z elapsed_ms_zero [of t "eb_last_refill b"] by (auto simp: b'_def refill_bucket_def Let_def)
  have "unat r * duration_since t (eb_last_refill b') \<le> unat r * 1000000"
    using small by (intro mult_le_mono2) simp
  moreover have "unat (eb_milli_tokens b') * 1000000 \<le> unat c * 1000000"
    using le by (simp add: word_le_nat_alt)
  ultimately show eq: "bucket_credit c r b' t
      = unat (eb_milli_tokens b') * 1000000 + unat r * duration_since t (eb_last_refill b')"
    unfolding bucket_credit_def distrib_right by (intro min.absorb2 add_mono)
  show "bucket_credit c r b' t \<le> bucket_credit c r b t"
  proof (cases "0 < elapsed_ms t (eb_last_refill b)")
    case True
    let ?x = "saturating_add (eb_milli_tokens b) (saturating_mul (elapsed_ms t (eb_last_refill b)) r)"
    have "bucket_credit c r b' t = unat (min ?x c) * 1000000"
      using eq True z by (simp add: b'_def refill_bucket_def Let_def)
    moreover have "unat (min ?x c) * 1000000 \<le> unat ?x * 1000000" "unat (min ?x c) * 1000000 \<le> unat c * 1000000"
      using unat_min_word mult_le_mono1 by blast+
    ultimately show ?thesis
      using accrued_le [of "eb_milli_tokens b" t "eb_last_refill b" r]
      by (simp add: bucket_credit_def distrib_right)
  qed (simp add: b'_def refill_bucket_def)
qed

lemma full_bucket_credit: "bucket_credit c r \<lparr>eb_milli_tokens = c, eb_last_refill = t\<rparr> t = unat c * 1000000"
  by (simp add: bucket_credit_def duration_since_def)

lemma budget_refill_peer:
  assumes "budget_inv c r s"
  obtains b where "eb_milli_tokens b \<le> c" "refill_bucket c r b t = b"
    "budget_refill s q t = s\<lparr>pb_buckets := hm_insert q b (pb_buckets s)\<rparr>"
    "budget_inv c r (budget_refill s q t)" "bucket_credit c r b t \<le> peer_credit q s t"
    "bucket_credit c r b t = unat (eb_milli_tokens b) * 1000000 + unat r * duration_since t (eb_last_refill b)"
proof -
  define b0 where "b0 = (case map_of (pb_buckets s) q of
      Some b \<Rightarrow> b | None \<Rightarrow> \<lparr>eb_milli_tokens = c, eb_last_refill = t\<rparr>)"
  have b0: "eb_milli_tokens b0 \<le> c" "bucket_credit c r b0 t = peer_credit q s t"
    using assms full_bucket_credit [of c r t]
    by (auto simp: b0_def budget_inv_def peer_credit_def split: option.splits)
  have eq: "budget_refill s q t = s\<lparr>pb_buckets := hm_insert q (refill_bucket c r b0 t) (pb_buckets s)\<rparr>"
    using assms by (simp add: budget_refill_def budget_inv_def b0_def Let_def cong: option.case_cong)
  show thesis
    using that [of "refill_bucket c r b0 t"] refilled_bucket [OF b0(1), where r = r and t = t] b0(2) eq assms
    by (auto simp: budget_inv_def hm_simps split: if_splits)
qed

lemma sweep_peer:
  assumes "budget_inv c r s"
  shows "budget_inv c r (sweep s t)" "peer_credit p (sweep s t) t \<le> peer_credit p s t"
proof -
  show "budget_inv c r (sweep s t)"
    using assms by (auto simp: budget_inv_def sweep_def hm_simps split: option.splits if_splits)
  have "unat c * 1000000 \<le> bucket_credit c r b t"
    if "\<not> saturating_add (eb_milli_tokens b) (saturating_mul (elapsed_ms t (eb_last_refill b)) r) < c" for b
  proof -
    have "unat c * 1000000 \<le> unat (saturating_add (eb_milli_tokens b) (saturating_mul (elapsed_ms t (eb_last_refill b)) r)) * 1000000"
      using that by (intro mult_le_mono1) (simp add: not_less word_le_nat_alt)
    thus ?thesis
      using accrued_le [of "eb_milli_tokens b" t "eb_last_refill b" r]
      by (simp add: bucket_credit_def distrib_right)
  qed
  thus "peer_credit p (sweep s t) t \<le> peer_credit p s t"
    using assms by (auto simp: budget_inv_def peer_credit_def sweep_def hm_simps split: option.splits)
qed

lemma peer_credit_insert:
  "peer_credit p (s\<lparr>pb_buckets := hm_insert q b (pb_buckets s)\<rparr>) t =
     (if p = q then bucket_credit (pb_capacity s) (pb_milli_per_ms s) b t else peer_credit p s t)"
  by (simp add: peer_credit_def hm_simps split: option.split)

lemma has_token_peer:
  assumes "budget_inv c r s"
  shows "budget_inv c r (fst (has_token s q t))" "peer_credit p (fst (has_token s q t)) t \<le> peer_credit p s t"
proof -
  obtain b where b: "budget_refill s q t = s\<lparr>pb_buckets := hm_insert q b (pb_buckets s)\<rparr>"
    "budget_inv c r (budget_refill s q t)" "bucket_credit c r b t \<le> peer_credit q s t"
    using budget_refill_peer [OF assms, of t q] by blast
  show "budget_inv c r (fst (has_token s q t))"
    using b(2) by (simp add: has_token_def Let_def)
  show "peer_credit p (fst (has_token s q t)) t \<le> peer_credit p s t"
    using b(1,3) assms by (simp add: has_token_def Let_def peer_credit_insert budget_inv_def)
qed

lemma commit_peer:
  assumes "budget_inv c r s" "snd (has_token s q t)"
  shows "budget_inv c r (commit (fst (has_token s q t)) q t)"
    "peer_credit p (commit (fst (has_token s q t)) q t) t + (if p = q then 1000000000 else 0) \<le> peer_credit p s t"
proof -
  obtain b where b: "eb_milli_tokens b \<le> c" "refill_bucket c r b t = b"
    "budget_refill s q t = s\<lparr>pb_buckets := hm_insert q b (pb_buckets s)\<rparr>"
    "budget_inv c r (budget_refill s q t)" "bucket_credit c r b t \<le> peer_credit q s t"
    "bucket_credit c r b t = unat (eb_milli_tokens b) * 1000000 + unat r * duration_since t (eb_last_refill b)"
    using budget_refill_peer [OF assms(1), of t q] .
  have cr: "pb_capacity s = c" "pb_milli_per_ms s = r"
    using assms(1) by (simp_all add: budget_inv_def)
  have ge: "MILLI \<le> eb_milli_tokens b"
    using assms(2) b(3) by (simp add: has_token_def Let_def hm_simps)
  define b' where "b' = b\<lparr>eb_milli_tokens := saturating_sub (eb_milli_tokens b) MILLI\<rparr>"
  define s' where "s' = s\<lparr>pb_buckets := hm_insert q b' (hm_insert q b (hm_insert q b (pb_buckets s)))\<rparr>"
  have c': "commit (fst (has_token s q t)) q t = sweep s' t"
    using b(2,3) cr by (simp add: commit_def has_token_def budget_refill_def Let_def hm_simps s'_def b'_def)
  have m: "unat (eb_milli_tokens b') + 1000 = unat (eb_milli_tokens b)"
    using ge by (simp add: b'_def unat_saturating_sub MILLI_def word_le_nat_alt)
  have i: "budget_inv c r s'"
    using b(1,4) m assms(1) by (auto simp: budget_inv_def s'_def b(3) hm_simps word_le_nat_alt split: if_splits)
  have "bucket_credit c r b' t + 1000000000 \<le> bucket_credit c r b t"
    using m b(6) by (simp add: b'_def bucket_credit_def) 
  hence "peer_credit p s' t + (if p = q then 1000000000 else 0) \<le> peer_credit p s t"
    using b(5) cr by (auto simp: s'_def peer_credit_def hm_simps split: option.splits)
  thus "peer_credit p (commit (fst (has_token s q t)) q t) t + (if p = q then 1000000000 else 0) \<le> peer_credit p s t"
    using sweep_peer(2) [OF i, of p t] c' by simp
  show "budget_inv c r (commit (fst (has_token s q t)) q t)"
    using sweep_peer(1) [OF i] c' by simp
qed

text \<open>The gate with the emissions that count against peer \<open>p\<close>.\<close>

definition charged_to :: "node_addr \<Rightarrow> emission_gate \<Rightarrow> node_addr \<times> node_addr \<Rightarrow> instant \<Rightarrow> emission_gate \<times> bool" where
  "charged_to p g fd t = (case admit_error_emission g fd t of (g', sent) \<Rightarrow> (g', fst fd = p \<and> sent))"

lemma gate_step:
  obtains "eg_budget (fst (charged_to p g (q, d) t)) = fst (has_token (eg_budget g) q t)"
    "\<not> snd (charged_to p g (q, d) t)"
  | "snd (has_token (eg_budget g) q t)" "snd (charged_to p g (q, d) t) = (p = q)"
    "eg_budget (fst (charged_to p g (q, d) t)) = commit (fst (has_token (eg_budget g) q t)) q t"
  by (cases "has_token (eg_budget g) q t"; cases "el_check (eg_limiter g) d t";
      cases "snd (el_check (eg_limiter g) d t) = Suppress"; cases "snd (has_token (eg_budget g) q t)")
    (auto simp: charged_to_def admit_error_emission_def Let_def)

interpretation error_meter: meter "\<lambda>g. budget_inv c r (eg_budget g)" "charged_to p"
  "\<lambda>g. peer_credit p (eg_budget g)" "(unat c + unat r) * 1000000" "unat r" 1000000000
  for c r :: u64 and p :: node_addr
proof
  fix g :: emission_gate and fd :: "node_addr \<times> node_addr" and t u :: instant
  assume inv: "budget_inv c r (eg_budget g)"
  obtain q d where fd: "fd = (q, d)" by fastforce
  show "budget_inv c r (eg_budget (fst (charged_to p g fd t)))"
    using has_token_peer(1) [OF inv, of q t] commit_peer(1) [OF inv, of q t] fd
    by (cases rule: gate_step [of p g q d t]) simp_all
  show "peer_credit p (eg_budget (fst (charged_to p g fd t))) t + (if snd (charged_to p g fd t) then 1000000000 else 0)
      \<le> peer_credit p (eg_budget g) t"
    using has_token_peer(2) [OF inv, of p q t] commit_peer(2) [OF inv, of q t p] fd
    by (cases rule: gate_step [of p g q d t]) simp_all
  show "peer_credit p (eg_budget g) t \<le> (unat c + unat r) * 1000000"
    using inv by (auto simp: peer_credit_def budget_inv_def bucket_credit_def split: option.split)
  show "peer_credit p (eg_budget g) u \<le> peer_credit p (eg_budget g) t + unat r * (u - t)" if "t \<le> u"
  proof -
    have le: "unat r * duration_since u l \<le> unat r * duration_since t l + unat r * (u - t)" for l
      unfolding distrib_left [symmetric] using that by (intro mult_le_mono2) (simp add: duration_since_def)
    have "bucket_credit c r b u \<le> bucket_credit c r b t + unat r * (u - t)" for b
      unfolding bucket_credit_def using le [of "eb_last_refill b"] by linarith
    thus ?thesis
      using inv by (auto simp: peer_credit_def budget_inv_def split: option.split)
  qed
qed

section \<open>Properties\<close>

text \<open>C38: Whatever datagrams a link peer sends, with whatever minted sources and destinations, and
  whatever the other peers do meanwhile, the routing errors it induces in any window of time are at
  most a burst of fifty plus twenty per second of the window (plus a fiftieth of an error from the
  rounding to milliseconds); the history before the window does not matter.\<close>

theorem induced_errors_bounded:
  assumes "eg_budget g = budget_new start" and "t0 \<le> t1"
    and "sorted (map snd ops)" "list_all (\<lambda>(_, t). t0 \<le> t \<and> t \<le> t1) ops"
  shows "1000000000 * admissions (charged_to p) (final_state (charged_to p) g before) ops
    \<le> 50020 * 1000000 + 20 * (t1 - t0)"
proof -
  have "budget_inv 50000 20 (eg_budget g)"
    using assms(1) by (simp add: budget_inv_def budget_new_def budget_with_rate_def PEER_ERROR_BURST_def
        PEER_ERROR_RATE_PER_SEC_def MILLI_def)
  moreover have "\<forall>e \<in> set ops. t0 \<le> snd e \<and> snd e \<le> t1"
    using assms(4) by (auto simp: list_all_iff)
  ultimately show ?thesis
    using error_meter.window_bounded [of 50000 20 g ops t0 t1 p before] assms(2,3) by simp
qed

definition demo_gate :: emission_gate where
  "demo_gate = \<lparr>eg_budget = budget_new 0, eg_limiter = error_limiter_new 0\<rparr>"

theorem induced_errors_bounded_witness:
  "1000000000 * admissions (charged_to (NodeAddr 7)) (final_state (charged_to (NodeAddr 7)) demo_gate [])
     [((NodeAddr 7, NodeAddr 1), 5), ((NodeAddr 7, NodeAddr 2), 6), ((NodeAddr 8, NodeAddr 3), 7)]
   \<le> 50020 * 1000000 + 20 * (10 - 5 :: nat)"
  by (rule induced_errors_bounded [of _ 0]) (simp_all add: demo_gate_def)

end
