(* ===== verification/Address_Pool.thy ===== *)
theory Address_Pool
  imports Rate_Limit Metering
begin

text \<open>
  The virtual-address pool of the gateway (\<^verbatim>\<open>gateway/pool.rs\<close>): allocation of virtual IPv6 addresses to
  mesh nodes under a ceiling and a token bucket, the periodic tick that ages mappings through the
  states allocated, active and draining, and reclamation. The clock is an argument and a conntrack
  snapshot is the function that counts the sessions of an address. Addresses are never lost or
  handed out twice, and a mapping is reclaimed only after it has been idle for its whole TTL and
  grace period.
\<close>

section \<open>Token bucket\<close>

definition NANOS :: nat where "NANOS = 1000000000"

text \<open>\<^verbatim>\<open>u128\<close> values are natural numbers with the saturation written out.\<close>

definition sat128 :: "nat \<Rightarrow> nat" where
  "sat128 n = min n (2 ^ 128 - 1)"

record bucket =
  bk_level :: nat
  bk_capacity :: nat
  bk_rate :: nat
  bk_last :: "instant option"

definition bucket_new :: "u32 \<Rightarrow> u32 \<Rightarrow> bucket" where
  "bucket_new capacity rate = \<lparr>bk_level = unat capacity * NANOS, bk_capacity = unat capacity * NANOS,
     bk_rate = unat rate, bk_last = None\<rparr>"

definition bucket_refill :: "bucket \<Rightarrow> instant \<Rightarrow> bucket" where
  "bucket_refill b now =
     (let b = (case bk_last b of
                 Some prev \<Rightarrow> b\<lparr>bk_level := min (sat128 (bk_level b + sat128 (duration_since now prev * bk_rate b)))
                   (bk_capacity b)\<rparr>
               | None \<Rightarrow> b)
      in b\<lparr>bk_last := Some (case bk_last b of Some prev \<Rightarrow> max prev now | None \<Rightarrow> now)\<rparr>)"

definition bucket_has_token :: "bucket \<Rightarrow> bool" where
  "bucket_has_token b \<longleftrightarrow> bk_level b \<ge> NANOS"

definition bucket_take :: "bucket \<Rightarrow> bucket" where
  "bucket_take b = b\<lparr>bk_level := bk_level b - NANOS\<rparr>"

section \<open>Mappings\<close>

definition MAPPING_CEILING :: nat where "MAPPING_CEILING = 1000"
definition MAPPING_BURST :: u32 where "MAPPING_BURST = 50"
definition MAPPING_RATE :: u32 where "MAPPING_RATE = 10"

datatype pool_error = InvalidCidr string | Exhausted nat | InvalidPrefix | AtCeiling nat | RateLimited

datatype mapping_state = Allocated | Active | Draining

record virtual_ip_mapping =
  vm_node_addr :: node_addr
  vm_virtual_ip :: ipv6_addr
  vm_mesh_addr :: ipv6_addr
  vm_dns_name :: string
  vm_state :: mapping_state
  vm_created :: instant
  vm_last_referenced :: instant
  vm_drain_start :: "instant option"
  vm_session_count :: u32

datatype pool_event = MappingCreated ipv6_addr ipv6_addr | MappingRemoved ipv6_addr ipv6_addr

record pool_status =
  ps_total :: nat
  ps_allocated :: nat
  ps_active :: nat
  ps_draining :: nat
  ps_free :: nat

record virtual_ip_pool =
  vp_available :: "ipv6_addr list"
  vp_mappings :: "(node_addr, virtual_ip_mapping) hmap"
  vp_reverse :: "(ipv6_addr, node_addr) hmap"
  vp_ttl_secs :: u64
  vp_grace_secs :: u64
  vp_total :: nat
  vp_ceiling :: nat
  vp_bucket :: bucket

type_synonym conntrack_snapshot = "(ipv6_addr, u32) hmap"

definition sessions_for :: "conntrack_snapshot \<Rightarrow> ipv6_addr \<Rightarrow> u32" where
  "sessions_for c ip = (case map_of c ip of Some n \<Rightarrow> n | None \<Rightarrow> 0)"

section \<open>Operations\<close>

definition pool_addrs :: "ipv6_addr \<Rightarrow> nat \<Rightarrow> ipv6_addr list" where
  "pool_addrs base prefix_len =
     (let host_bits = 128 - prefix_len;
          max_addrs = (if host_bits > 16 then 2 ^ 16 else 2 ^ host_bits)
      in map (\<lambda>i. base + of_nat i) [1..<max_addrs])"

text \<open>The argument is the outcome of \<^verbatim>\<open>parse_ipv6_cidr\<close>: a base address and a prefix length, or an error.\<close>

definition pool_with_limits ::
  "(pool_error, ipv6_addr \<times> nat) outcome \<Rightarrow> u64 \<Rightarrow> u64 \<Rightarrow> nat \<Rightarrow> u32 \<Rightarrow> u32
     \<Rightarrow> (pool_error, virtual_ip_pool) outcome" where
  "pool_with_limits parsed ttl_secs grace_secs ceiling burst rate =
     obind parsed (\<lambda>(base, prefix_len).
      if prefix_len = 0 \<or> prefix_len > 128 then Err InvalidPrefix
      else Ok \<lparr>vp_available = pool_addrs base prefix_len, vp_mappings = [], vp_reverse = [],
        vp_ttl_secs = ttl_secs, vp_grace_secs = grace_secs, vp_total = length (pool_addrs base prefix_len),
        vp_ceiling = ceiling, vp_bucket = bucket_new burst rate\<rparr>)"

definition pool_new ::
  "(pool_error, ipv6_addr \<times> nat) outcome \<Rightarrow> u64 \<Rightarrow> u64 \<Rightarrow> (pool_error, virtual_ip_pool) outcome" where
  "pool_new parsed ttl_secs grace_secs =
     pool_with_limits parsed ttl_secs grace_secs MAPPING_CEILING MAPPING_BURST MAPPING_RATE"

definition refresh_mapping :: "virtual_ip_mapping \<Rightarrow> instant \<Rightarrow> virtual_ip_mapping" where
  "refresh_mapping m now =
     (let m = m\<lparr>vm_last_referenced := now\<rparr> in
      if vm_state m = Draining then m\<lparr>vm_state := Allocated, vm_drain_start := None\<rparr> else m)"

definition refresh_at :: "virtual_ip_pool \<Rightarrow> node_addr \<Rightarrow> instant \<Rightarrow> virtual_ip_pool \<times> bool" where
  "refresh_at p node now = (case map_of (vp_mappings p) node of
     Some m \<Rightarrow> (p\<lparr>vp_mappings := hm_insert node (refresh_mapping m now) (vp_mappings p)\<rparr>, True)
   | None \<Rightarrow> (p, False))"

definition allocate_at ::
  "virtual_ip_pool \<Rightarrow> node_addr \<Rightarrow> ipv6_addr \<Rightarrow> string \<Rightarrow> instant
     \<Rightarrow> virtual_ip_pool \<times> (pool_error, ipv6_addr \<times> bool) outcome" where
  "allocate_at p node mesh_addr dns_name now =
     (case refresh_at p node now of (p, present) \<Rightarrow>
      case (present, map_of (vp_mappings p) node) of
        (True, Some m) \<Rightarrow> (p, Ok (vm_virtual_ip m, False))
      | _ \<Rightarrow>
        if length (vp_mappings p) \<ge> vp_ceiling p then (p, Err (AtCeiling (length (vp_mappings p))))
        else
          let p = p\<lparr>vp_bucket := bucket_refill (vp_bucket p) now\<rparr> in
          if \<not> bucket_has_token (vp_bucket p) then (p, Err RateLimited)
          else case vp_available p of
              [] \<Rightarrow> (p, Err (Exhausted (length (vp_mappings p))))
            | virtual_ip # rest \<Rightarrow>
                let m = \<lparr>vm_node_addr = node, vm_virtual_ip = virtual_ip, vm_mesh_addr = mesh_addr,
                      vm_dns_name = dns_name, vm_state = Allocated, vm_created = now,
                      vm_last_referenced = now, vm_drain_start = None, vm_session_count = 0\<rparr>
                in (p\<lparr>vp_available := rest, vp_bucket := bucket_take (vp_bucket p),
                      vp_mappings := hm_insert node m (vp_mappings p),
                      vp_reverse := hm_insert virtual_ip node (vp_reverse p)\<rparr>, Ok (virtual_ip, True)))"

definition age_mapping ::
  "duration \<Rightarrow> duration \<Rightarrow> instant \<Rightarrow> conntrack_snapshot \<Rightarrow> virtual_ip_mapping \<Rightarrow> virtual_ip_mapping \<times> bool" where
  "age_mapping ttl grace now conntrack m =
     (let sessions = sessions_for conntrack (vm_virtual_ip m);
          m = m\<lparr>vm_session_count := sessions\<rparr>;
          m = (if sessions > 0 then m\<lparr>vm_last_referenced := now\<rparr> else m)
      in case vm_state m of
        Allocated \<Rightarrow>
          if sessions > 0 then (m\<lparr>vm_state := Active\<rparr>, False)
          else if duration_since now (vm_last_referenced m) > ttl
          then (m\<lparr>vm_state := Draining, vm_drain_start := Some now\<rparr>, False)
          else (m, False)
      | Active \<Rightarrow>
          if duration_since now (vm_last_referenced m) > ttl
          then (m\<lparr>vm_state := Draining, vm_drain_start := Some now\<rparr>, False)
          else (m, False)
      | Draining \<Rightarrow>
          if sessions > 0 then (m\<lparr>vm_state := Active, vm_drain_start := None\<rparr>, False)
          else (m, case vm_drain_start m of
                 Some drain_start \<Rightarrow> duration_since now drain_start > grace | None \<Rightarrow> False))"

definition reclaim :: "virtual_ip_pool \<times> pool_event list \<Rightarrow> node_addr \<Rightarrow> virtual_ip_pool \<times> pool_event list" where
  "reclaim pe node = (case pe of (p, events) \<Rightarrow>
     case map_of (vp_mappings p) node of
       None \<Rightarrow> (p, events)
     | Some m \<Rightarrow>
         (p\<lparr>vp_mappings := hm_remove node (vp_mappings p),
            vp_reverse := hm_remove (vm_virtual_ip m) (vp_reverse p),
            vp_available := vp_available p @ [vm_virtual_ip m]\<rparr>,
          events @ [MappingRemoved (vm_virtual_ip m) (vm_mesh_addr m)]))"

definition tick :: "virtual_ip_pool \<Rightarrow> instant \<Rightarrow> conntrack_snapshot option \<Rightarrow> virtual_ip_pool \<times> pool_event list" where
  "tick p now conntrack = (case conntrack of
     None \<Rightarrow> (p, [])
   | Some c \<Rightarrow>
       let ttl = from_secs (unat (vp_ttl_secs p)); grace = from_secs (unat (vp_grace_secs p));
           to_free = map fst (filter (\<lambda>(_, m). snd (age_mapping ttl grace now c m)) (vp_mappings p));
           p = p\<lparr>vp_mappings := map (\<lambda>(k, m). (k, fst (age_mapping ttl grace now c m))) (vp_mappings p)\<rparr>
       in foldl reclaim (p, []) to_free)"

definition status :: "virtual_ip_pool \<Rightarrow> pool_status" where
  "status p = (let states = map (vm_state \<circ> snd) (vp_mappings p) in
     \<lparr>ps_total = vp_total p, ps_allocated = count_list states Allocated, ps_active = count_list states Active,
      ps_draining = count_list states Draining, ps_free = length (vp_available p)\<rparr>)"

definition lookup_virtual_ip :: "virtual_ip_pool \<Rightarrow> ipv6_addr \<Rightarrow> virtual_ip_mapping option" where
  "lookup_virtual_ip p ip = Option.bind (map_of (vp_reverse p) ip) (map_of (vp_mappings p))"

record mapping_info_entry =
  mi_virtual_ip :: ipv6_addr
  mi_mesh_addr :: ipv6_addr
  mi_node_addr :: node_addr
  mi_dns_name :: string
  mi_state :: mapping_state
  mi_session_count :: u32
  mi_age_secs :: nat
  mi_last_ref_secs :: nat

definition mapping_info :: "virtual_ip_pool \<Rightarrow> instant \<Rightarrow> mapping_info_entry list" where
  "mapping_info p now = map (\<lambda>(_, m). \<lparr>mi_virtual_ip = vm_virtual_ip m, mi_mesh_addr = vm_mesh_addr m,
     mi_node_addr = vm_node_addr m, mi_dns_name = vm_dns_name m, mi_state = vm_state m,
     mi_session_count = vm_session_count m,
     mi_age_secs = duration_since now (vm_created m) div NANOS,
     mi_last_ref_secs = duration_since now (vm_last_referenced m) div NANOS\<rparr>) (vp_mappings p)"

section \<open>Reading conntrack\<close>

text \<open>
  The two queriers are arguments. An error carries its kind, of which only an absent file is told
  apart, and its message.
\<close>

datatype io_error_kind = NotFound | OtherKind nat

record io_error =
  io_kind :: io_error_kind
  io_message :: string

datatype conntrack_source = Proc | Netlink

record conntrack_unreadable =
  cu_proc :: io_error
  cu_netlink :: "io_error option"

definition into_error :: "conntrack_unreadable \<Rightarrow> io_error" where
  "into_error u = (case cu_netlink u of
     Some netlink \<Rightarrow> \<lparr>io_kind = io_kind netlink,
       io_message = ''proc: '' @ io_message (cu_proc u) @ ''; netlink: '' @ io_message netlink\<rparr>
   | None \<Rightarrow> cu_proc u)"

definition conntrack_read ::
  "(io_error, conntrack_snapshot) outcome \<Rightarrow> (io_error, conntrack_snapshot) outcome
     \<Rightarrow> (conntrack_unreadable, conntrack_source \<times> conntrack_snapshot) outcome" where
  "conntrack_read proc netlink = (case proc of
     Ok snapshot \<Rightarrow> Ok (Proc, snapshot)
   | Err e \<Rightarrow>
       if io_kind e = NotFound then
         (case netlink of
            Ok snapshot \<Rightarrow> Ok (Netlink, snapshot)
          | Err e' \<Rightarrow> Err \<lparr>cu_proc = e, cu_netlink = Some e'\<rparr>
          | Panic \<Rightarrow> Panic)
       else Err \<lparr>cu_proc = e, cu_netlink = None\<rparr>
   | Panic \<Rightarrow> Panic)"

definition conntrack_snapshot_read ::
  "(io_error, conntrack_snapshot) outcome \<Rightarrow> (io_error, conntrack_snapshot) outcome
     \<Rightarrow> (io_error, conntrack_snapshot) outcome" where
  "conntrack_snapshot_read proc netlink = (case conntrack_read proc netlink of
     Ok (_, snapshot) \<Rightarrow> Ok snapshot | Err u \<Rightarrow> Err (into_error u) | Panic \<Rightarrow> Panic)"

datatype read_report = Changed | Repeated

record conntrack_read_log =
  cl_last :: "io_error_kind option option"

definition observe :: "conntrack_read_log \<Rightarrow> io_error_kind option \<Rightarrow> conntrack_read_log \<times> read_report" where
  "observe l result = (l\<lparr>cl_last := Some result\<rparr>, if cl_last l = Some result then Repeated else Changed)"

section \<open>Admission rate\<close>

datatype pool_op = Allocate node_addr ipv6_addr string | Refresh node_addr | Tick "conntrack_snapshot option"

definition pool_step :: "virtual_ip_pool \<Rightarrow> pool_op \<Rightarrow> instant \<Rightarrow> virtual_ip_pool \<times> bool" where
  "pool_step p op now = (case op of
     Allocate node mesh name \<Rightarrow>
       (case allocate_at p node mesh name now of (p', r) \<Rightarrow>
         (p', case r of Ok (_, fresh) \<Rightarrow> fresh | _ \<Rightarrow> False))
   | Refresh node \<Rightarrow> (fst (refresh_at p node now), False)
   | Tick c \<Rightarrow> (fst (tick p now c), False))"

definition bucket_ok :: "u32 \<Rightarrow> u32 \<Rightarrow> bucket \<Rightarrow> bool" where
  "bucket_ok burst rate b \<longleftrightarrow> bk_level b \<le> bk_capacity b \<and> bk_capacity b = unat burst * NANOS \<and> bk_rate b = unat rate"

definition bucket_credit :: "bucket \<Rightarrow> instant \<Rightarrow> nat" where
  "bucket_credit b t = bk_level (bucket_refill b t)"

lemma bucket_capacity_fits: "unat (burst :: u32) * NANOS < 2 ^ 128"
proof -
  have "unat burst \<le> 2 ^ 32" using unat_less_exp [of burst] by simp
  then have "unat burst * NANOS \<le> 2 ^ 32 * 2 ^ 30"
    by (intro mult_le_mono) (simp_all add: NANOS_def)
  then show ?thesis by simp
qed

lemma bucket_credit_eq:
  "bucket_ok burst rate b \<Longrightarrow> bucket_credit b t = (case bk_last b of
     None \<Rightarrow> bk_level b | Some u \<Rightarrow> min (bk_level b + (t - u) * unat rate) (unat burst * NANOS))"
  using bucket_capacity_fits [of burst]
  by (auto simp: bucket_credit_def bucket_refill_def bucket_ok_def sat128_def duration_since_def
      Let_def min_def split: option.splits)

lemma bucket_ok_refill [simp]: "bucket_ok burst rate b \<Longrightarrow> bucket_ok burst rate (bucket_refill b t)"
  by (auto simp: bucket_refill_def bucket_ok_def Let_def split: option.splits)

lemma bucket_ok_take [simp]: "bucket_ok burst rate b \<Longrightarrow> bucket_ok burst rate (bucket_take b)"
  by (auto simp: bucket_take_def bucket_ok_def)

lemma bucket_refill_credit: "bucket_ok burst rate b \<Longrightarrow> bucket_credit (bucket_refill b t) t = bucket_credit b t"
  by (subst bucket_credit_eq [OF bucket_ok_refill], assumption)
     (auto simp: bucket_refill_def bucket_ok_def bucket_credit_def Let_def split: option.splits)

lemma bucket_take_credit:
  "bucket_ok burst rate b \<Longrightarrow> bucket_has_token (bucket_refill b t) \<Longrightarrow>
     bucket_credit (bucket_take (bucket_refill b t)) t + NANOS = bucket_credit b t"
  by (subst bucket_credit_eq [OF bucket_ok_take [OF bucket_ok_refill]], assumption)
     (auto simp: bucket_refill_def bucket_ok_def bucket_credit_def bucket_take_def bucket_has_token_def Let_def
        split: option.splits)

lemma bucket_credit_cap: "bucket_ok burst rate b \<Longrightarrow> bucket_credit b t \<le> unat burst * NANOS"
  by (simp add: bucket_credit_eq split: option.splits) (simp add: bucket_ok_def)

lemma bucket_credit_accrues:
  assumes "bucket_ok burst rate b" "t \<le> u"
  shows "bucket_credit b u \<le> bucket_credit b t + unat rate * (u - t)"
proof (cases "bk_last b")
  case (Some l)
  have "u - l \<le> (t - l) + (u - t)" by simp
  then have "(u - l) * unat rate \<le> ((t - l) + (u - t)) * unat rate" by (rule mult_le_mono1)
  then have "(u - l) * unat rate \<le> (t - l) * unat rate + unat rate * (u - t)"
    by (simp only: distrib_right mult.commute [of "unat rate"])
  then show ?thesis
    unfolding bucket_credit_eq [OF assms(1)] Some option.case by linarith
qed (use assms in \<open>simp add: bucket_credit_eq\<close>)

lemma refresh_bucket [simp]: "vp_bucket (fst (refresh_at p node t)) = vp_bucket p"
  by (simp add: refresh_at_def split: option.splits)

lemma reclaim_bucket: "vp_bucket (fst (foldl reclaim pe ns)) = vp_bucket (fst pe)"
  by (induction ns arbitrary: pe) (auto simp: reclaim_def split: prod.splits option.splits)

lemma tick_bucket [simp]: "vp_bucket (fst (tick p t c)) = vp_bucket p"
  by (simp add: tick_def reclaim_bucket Let_def split: option.splits)

lemma allocate_bucket:
  "vp_bucket (fst (allocate_at p node mesh name t)) \<in>
     {vp_bucket p, bucket_refill (vp_bucket p) t} \<and> \<not> snd (pool_step p (Allocate node mesh name) t) \<or>
   vp_bucket (fst (allocate_at p node mesh name t)) = bucket_take (bucket_refill (vp_bucket p) t) \<and>
   bucket_has_token (bucket_refill (vp_bucket p) t) \<and> snd (pool_step p (Allocate node mesh name) t)"
  by (auto simp: allocate_at_def pool_step_def refresh_at_def Let_def hm_simps split: option.splits list.splits)

interpretation pool_meter: meter "\<lambda>p. bucket_ok burst rate (vp_bucket p)" pool_step
  "\<lambda>p. bucket_credit (vp_bucket p)" "unat burst * NANOS" "unat rate" NANOS for burst rate :: u32
proof
  fix p :: virtual_ip_pool and t op
  assume ok: "bucket_ok burst rate (vp_bucket p)"
  show "bucket_ok burst rate (vp_bucket (fst (pool_step p op t)))"
  proof (cases op)
    case (Allocate n m d)
    then show ?thesis using allocate_bucket [of p n m d t] ok by (auto simp: pool_step_def split: prod.splits)
  qed (use ok in \<open>simp_all add: pool_step_def\<close>)
  show "bucket_credit (vp_bucket (fst (pool_step p op t))) t + (if snd (pool_step p op t) then NANOS else 0)
      \<le> bucket_credit (vp_bucket p) t"
  proof (cases op)
    case (Allocate n m d)
    have "fst (pool_step p op t) = fst (allocate_at p n m d t)"
      by (simp add: Allocate pool_step_def split: prod.splits)
    then show ?thesis
      using allocate_bucket [of p n m d t] ok Allocate by (auto simp: bucket_take_credit bucket_refill_credit)
  qed (simp_all add: pool_step_def)
qed (simp_all add: bucket_credit_cap bucket_credit_accrues)

section \<open>Conservation of addresses\<close>

definition mapping_ok :: "u64 \<Rightarrow> virtual_ip_mapping \<Rightarrow> bool" where
  "mapping_ok ttl m \<longleftrightarrow> (vm_state m = Draining) = (vm_drain_start m \<noteq> None) \<and>
     (case vm_drain_start m of Some d \<Rightarrow> vm_last_referenced m + from_secs (unat ttl) < d | None \<Rightarrow> True)"

definition linked :: "u64 \<Rightarrow> (node_addr, virtual_ip_mapping) hmap \<Rightarrow> (ipv6_addr, node_addr) hmap \<Rightarrow> bool" where
  "linked ttl maps rmap \<longleftrightarrow> hm_inv maps \<and> hm_inv rmap \<and>
     (\<forall>n m. map_of maps n = Some m \<longrightarrow> vm_node_addr m = n \<and> map_of rmap (vm_virtual_ip m) = Some n \<and> mapping_ok ttl m) \<and>
     (\<forall>ip n. map_of rmap ip = Some n \<longrightarrow> (\<exists>m. map_of maps n = Some m \<and> vm_virtual_ip m = ip))"

definition pool_inv :: "ipv6_addr list \<Rightarrow> nat \<Rightarrow> u64 \<Rightarrow> u64 \<Rightarrow> virtual_ip_pool \<Rightarrow> bool" where
  "pool_inv addrs ceiling ttl grace p \<longleftrightarrow> linked ttl (vp_mappings p) (vp_reverse p) \<and>
     mset (vp_available p) + mset (map (vm_virtual_ip \<circ> snd) (vp_mappings p)) = mset addrs \<and>
     length (vp_mappings p) \<le> ceiling \<and> vp_ceiling p = ceiling \<and> vp_ttl_secs p = ttl \<and>
     vp_grace_secs p = grace \<and> vp_total p = length addrs"

lemma linkedD:
  assumes "linked ttl maps rmap"
  shows "hm_inv maps" "map_of maps n = Some m \<Longrightarrow> map_of rmap (vm_virtual_ip m) = Some n"
    "map_of maps n = Some m \<Longrightarrow> mapping_ok ttl m"
    "map_of rmap ip = Some n \<Longrightarrow> \<exists>m. map_of maps n = Some m \<and> vm_virtual_ip m = ip"
  using assms by (simp_all add: linked_def)

lemma linkedI:
  assumes "hm_inv maps" "hm_inv rmap"
    and "\<And>n m. map_of maps n = Some m \<Longrightarrow>
      vm_node_addr m = n \<and> map_of rmap (vm_virtual_ip m) = Some n \<and> mapping_ok ttl m"
    and "\<And>ip n. map_of rmap ip = Some n \<Longrightarrow> \<exists>m. map_of maps n = Some m \<and> vm_virtual_ip m = ip"
  shows "linked ttl maps rmap"
  using assms by (simp add: linked_def)

lemma linked_values:
  assumes l: "linked ttl maps rmap"
    and "\<And>m. mapping_ok ttl m \<Longrightarrow> mapping_ok ttl (f m)"
    and "\<And>m. vm_node_addr (f m) = vm_node_addr m" "\<And>m. vm_virtual_ip (f m) = vm_virtual_ip m"
  shows "linked ttl (map (\<lambda>(k, m). (k, f m)) maps) rmap"
proof (rule linkedI)
  show "hm_inv (map (\<lambda>(k, m). (k, f m)) maps)"
    using l by (simp add: linked_def hm_inv_def comp_def case_prod_unfold)
next
  fix n m assume "map_of (map (\<lambda>(k, m). (k, f m)) maps) n = Some m"
  then obtain m0 where "map_of maps n = Some m0" "m = f m0" by (auto simp: map_of_map_values)
  then show "vm_node_addr m = n \<and> map_of rmap (vm_virtual_ip m) = Some n \<and> mapping_ok ttl m"
    using assms linkedD [OF l] by (simp add: linked_def)
next
  fix ip n assume "map_of rmap ip = Some n"
  then show "\<exists>m. map_of (map (\<lambda>(k, m). (k, f m)) maps) n = Some m \<and> vm_virtual_ip m = ip"
    using linkedD(4) [OF l, of ip n] assms(4) by (auto simp: map_of_map_values)
qed (use l in \<open>simp add: linked_def\<close>)

lemma linked_update:
  assumes l: "linked ttl maps rmap" and m: "map_of maps n = Some m" and m': "mapping_ok ttl m'"
    "vm_node_addr m' = vm_node_addr m" "vm_virtual_ip m' = vm_virtual_ip m"
  shows "linked ttl (hm_insert n m' maps) rmap"
proof (rule linkedI)
  fix ip k assume "map_of rmap ip = Some k"
  then show "\<exists>m. map_of (hm_insert n m' maps) k = Some m \<and> vm_virtual_ip m = ip"
    using linkedD(4) [OF l, of ip k] m m'(3) by (auto simp: hm_simps)
qed (use l m m' in \<open>auto simp: linked_def hm_simps split: if_splits\<close>)

lemma linked_remove:
  assumes l: "linked ttl maps rmap" and m: "map_of maps n = Some m"
  shows "linked ttl (hm_remove n maps) (hm_remove (vm_virtual_ip m) rmap)"
proof (rule linkedI)
  fix ip k assume "map_of (hm_remove (vm_virtual_ip m) rmap) ip = Some k"
  then show "\<exists>m. map_of (hm_remove n maps) k = Some m \<and> vm_virtual_ip m = ip"
    using linkedD(4) [OF l, of ip k] m by (auto simp: hm_simps split: if_splits)
next
  fix k m' assume k: "map_of (hm_remove n maps) k = Some m'"
  then have "map_of maps k = Some m'" "k \<noteq> n" by (auto simp: hm_simps split: if_splits)
  moreover from this have "vm_virtual_ip m' \<noteq> vm_virtual_ip m"
    using linkedD(2) [OF l m] linkedD(2) [OF l, of k m'] by auto
  ultimately show "vm_node_addr m' = k \<and> map_of (hm_remove (vm_virtual_ip m) rmap) (vm_virtual_ip m') = Some k \<and>
      mapping_ok ttl m'"
    using l by (simp add: linked_def hm_simps)
qed (use l in \<open>simp_all add: linked_def\<close>)

lemma linked_bind:
  assumes l: "linked ttl maps rmap" and new: "map_of maps n = None" "map_of rmap (vm_virtual_ip m) = None"
    and m: "vm_node_addr m = n" "mapping_ok ttl m"
  shows "linked ttl (hm_insert n m maps) (hm_insert (vm_virtual_ip m) n rmap)"
proof (rule linkedI)
  fix ip k assume "map_of (hm_insert (vm_virtual_ip m) n rmap) ip = Some k"
  then show "\<exists>m'. map_of (hm_insert n m maps) k = Some m' \<and> vm_virtual_ip m' = ip"
    using linkedD(4) [OF l, of ip k] new(1) by (auto simp: hm_simps split: if_splits)
next
  fix k m' assume k: "map_of (hm_insert n m maps) k = Some m'"
  show "vm_node_addr m' = k \<and> map_of (hm_insert (vm_virtual_ip m) n rmap) (vm_virtual_ip m') = Some k \<and>
      mapping_ok ttl m'"
  proof (cases "k = n")
    case True
    then show ?thesis using k m by (simp add: hm_simps)
  next
    case False
    then have "map_of maps k = Some m'" using k by (simp add: hm_simps)
    moreover from this have "vm_virtual_ip m' \<noteq> vm_virtual_ip m"
      using linkedD(2) [OF l, of k m'] new(2) by auto
    ultimately show ?thesis using l by (simp add: linked_def hm_simps)
  qed
qed (use l in \<open>simp_all add: linked_def\<close>)

lemma distinct_pool_addrs: "distinct (pool_addrs base len)"
proof -
  have "inj_on (\<lambda>i. base + of_nat i) {1..<(if 128 - len > 16 then 2 ^ 16 else 2 ^ (128 - len))}"
    (is "inj_on _ ?I")
  proof (rule inj_onI)
    fix i j assume ij: "i \<in> ?I" "j \<in> ?I" "base + of_nat i = base + of_nat j"
    have "?I \<subseteq> {..<2 ^ 16}" by (auto simp del: power_numeral intro: less_le_trans [OF _ power_increasing])
    with ij(1,2) have "i < 2 ^ 16" "j < 2 ^ 16" by blast+
    moreover have "(of_nat i :: ipv6_addr) = of_nat j" using ij(3) by simp
    ultimately show "i = j" by (simp add: word_of_nat_eq_iff take_bit_nat_eq_self)
  qed
  then show ?thesis by (simp add: pool_addrs_def distinct_map Let_def)
qed

lemma pool_inv_initial:
  "pool_with_limits (Ok (base, len)) ttl grace ceiling burst rate = Ok p \<Longrightarrow>
     pool_inv (pool_addrs base len) ceiling ttl grace p \<and> bucket_ok burst rate (vp_bucket p)"
  by (auto simp: pool_with_limits_def pool_inv_def linked_def bucket_ok_def bucket_new_def split: if_splits)

lemma mapping_ok_refresh [simp]: "mapping_ok ttl m \<Longrightarrow> mapping_ok ttl (refresh_mapping m t)"
  by (auto simp: mapping_ok_def refresh_mapping_def Let_def split: option.splits)

lemma refresh_mapping_same [simp]:
  "vm_node_addr (refresh_mapping m t) = vm_node_addr m" "vm_virtual_ip (refresh_mapping m t) = vm_virtual_ip m"
  by (simp_all add: refresh_mapping_def Let_def)

lemma mapping_ok_age [simp]:
  "mapping_ok ttl m \<Longrightarrow> mapping_ok ttl (fst (age_mapping (from_secs (unat ttl)) grace t c m))"
  by (auto simp: mapping_ok_def age_mapping_def Let_def duration_since_def split: option.splits mapping_state.splits)

lemma age_mapping_same [simp]:
  "vm_node_addr (fst (age_mapping ttl grace t c m)) = vm_node_addr m"
  "vm_virtual_ip (fst (age_mapping ttl grace t c m)) = vm_virtual_ip m"
  "vm_mesh_addr (fst (age_mapping ttl grace t c m)) = vm_mesh_addr m"
  by (auto simp: age_mapping_def Let_def split: mapping_state.splits)

lemma pool_inv_refresh: "pool_inv addrs ceil ttl grace p \<Longrightarrow> pool_inv addrs ceil ttl grace (fst (refresh_at p n t))"
proof (cases "map_of (vp_mappings p) n")
  case (Some m)
  assume inv: "pool_inv addrs ceil ttl grace p"
  then have l: "linked ttl (vp_mappings p) (vp_reverse p)" by (simp add: pool_inv_def)
  have "map (vm_virtual_ip \<circ> snd) (hm_insert n (refresh_mapping m t) (vp_mappings p)) =
      map (vm_virtual_ip \<circ> snd) (vp_mappings p)"
    by (rule map_hm_insert_same [OF linkedD(1) [OF l] Some]) simp
  moreover have "length (hm_insert n (refresh_mapping m t) (vp_mappings p)) = length (vp_mappings p)"
    using linkedD(1) [OF l] Some by (simp add: hm_simps)
  moreover have "linked ttl (hm_insert n (refresh_mapping m t) (vp_mappings p)) (vp_reverse p)"
    using linked_update [OF l Some] linkedD(3) [OF l Some] by simp
  ultimately show ?thesis
    using inv by (simp add: pool_inv_def refresh_at_def Some del: mset_map)
qed (simp add: refresh_at_def)

lemma pool_inv_reclaim:
  assumes "pool_inv addrs ceil ttl grace p"
  shows "pool_inv addrs ceil ttl grace (fst (reclaim (p, ev) n))"
proof (cases "map_of (vp_mappings p) n")
  case (Some m)
  have l: "linked ttl (vp_mappings p) (vp_reverse p)" using assms by (simp add: pool_inv_def)
  have "mset (map (vm_virtual_ip \<circ> snd) (vp_mappings p)) =
      add_mset (vm_virtual_ip m) (mset (map (vm_virtual_ip \<circ> snd) (hm_remove n (vp_mappings p))))"
    using mset_hm_remove [OF linkedD(1) [OF l] Some] by simp
  moreover have "length (hm_remove n (vp_mappings p)) \<le> ceil"
    using length_hm_remove_le [of n "vp_mappings p"] assms by (simp add: pool_inv_def)
  ultimately show ?thesis
    using assms linked_remove [OF l Some] by (simp add: pool_inv_def reclaim_def Some del: mset_map)
qed (simp add: reclaim_def assms)

lemma pool_inv_reclaims:
  "pool_inv addrs ceil ttl grace (fst pe) \<Longrightarrow> pool_inv addrs ceil ttl grace (fst (foldl reclaim pe ns))"
  by (induction ns arbitrary: pe) (simp, metis foldl_Cons pool_inv_reclaim prod.collapse)

definition to_free :: "virtual_ip_pool \<Rightarrow> instant \<Rightarrow> conntrack_snapshot \<Rightarrow> node_addr list" where
  "to_free p now c = map fst (filter (\<lambda>(_, m). snd (age_mapping (from_secs (unat (vp_ttl_secs p)))
     (from_secs (unat (vp_grace_secs p))) now c m)) (vp_mappings p))"

definition aged :: "virtual_ip_pool \<Rightarrow> instant \<Rightarrow> conntrack_snapshot \<Rightarrow> virtual_ip_pool" where
  "aged p now c = p\<lparr>vp_mappings := map (\<lambda>(k, m). (k, fst (age_mapping (from_secs (unat (vp_ttl_secs p)))
     (from_secs (unat (vp_grace_secs p))) now c m))) (vp_mappings p)\<rparr>"

lemma tick_Some: "tick p now (Some c) = foldl reclaim (aged p now c, []) (to_free p now c)"
  by (simp add: tick_def aged_def to_free_def Let_def)

lemma pool_inv_aged: "pool_inv addrs ceil ttl grace p \<Longrightarrow> pool_inv addrs ceil ttl grace (aged p t c)"
  by (simp add: pool_inv_def aged_def linked_values comp_def case_prod_unfold
      linked_values [where f = "\<lambda>m. fst (age_mapping a b t c m)" for a b, unfolded case_prod_unfold])

lemma pool_inv_tick: "pool_inv addrs ceil ttl grace p \<Longrightarrow> pool_inv addrs ceil ttl grace (fst (tick p t c))"
proof (cases c)
  case (Some d)
  assume "pool_inv addrs ceil ttl grace p"
  then show ?thesis by (simp add: Some tick_Some pool_inv_reclaims pool_inv_aged)
qed (simp add: tick_def)

lemma pool_inv_bucket [simp]: "pool_inv addrs ceil ttl grace (p\<lparr>vp_bucket := b\<rparr>) = pool_inv addrs ceil ttl grace p"
  by (simp add: pool_inv_def)

lemma pool_inv_bind:
  assumes inv: "pool_inv addrs ceil ttl grace p" and dist: "distinct addrs"
    and new: "map_of (vp_mappings p) n = None" and room: "length (vp_mappings p) < ceil"
    and ip: "vp_available p = ip # rest"
    and m: "vm_node_addr m = n" "vm_virtual_ip m = ip" "mapping_ok ttl m"
  shows "pool_inv addrs ceil ttl grace (p\<lparr>vp_available := rest, vp_bucket := b,
    vp_mappings := hm_insert n m (vp_mappings p), vp_reverse := hm_insert ip n (vp_reverse p)\<rparr>)"
proof -
  have l: "linked ttl (vp_mappings p) (vp_reverse p)" using inv by (simp add: pool_inv_def)
  have "mset (ip # rest @ map (vm_virtual_ip \<circ> snd) (vp_mappings p)) = mset addrs"
    using inv ip by (simp add: pool_inv_def)
  then have d: "distinct (ip # rest @ map (vm_virtual_ip \<circ> snd) (vp_mappings p))"
    using dist mset_eq_imp_distinct_iff by blast
  have "map_of (vp_reverse p) ip = None"
  proof (rule ccontr)
    assume "map_of (vp_reverse p) ip \<noteq> None"
    then obtain k m' where "map_of (vp_mappings p) k = Some m'" "vm_virtual_ip m' = ip"
      using linkedD(4) [OF l, of ip] by blast
    then have "ip \<in> set (map (vm_virtual_ip \<circ> snd) (vp_mappings p))"
      using map_of_SomeD [of "vp_mappings p" k m'] by force
    with d show False by simp
  qed
  then have "linked ttl (hm_insert n m (vp_mappings p)) (hm_insert ip n (vp_reverse p))"
    using linked_bind [OF l new, of m] m by simp
  moreover have "mset (map (vm_virtual_ip \<circ> snd) (hm_insert n m (vp_mappings p))) =
      add_mset ip (mset (map (vm_virtual_ip \<circ> snd) (vp_mappings p)))"
    using mset_hm_insert_new [OF new, of m] m(2) by simp
  moreover have "length (hm_insert n m (vp_mappings p)) \<le> ceil"
    using room length_hm_insert_le [of n m "vp_mappings p"] by simp
  ultimately show ?thesis
    using inv ip by (simp add: pool_inv_def del: mset_map)
qed

lemma refresh_absent: "map_of (vp_mappings p) n = None \<Longrightarrow> refresh_at p n t = (p, False)"
  by (simp add: refresh_at_def)

lemma pool_inv_allocate:
  assumes inv: "pool_inv addrs ceil ttl grace p" and dist: "distinct addrs"
  shows "pool_inv addrs ceil ttl grace (fst (allocate_at p n mesh name t))"
proof (cases "map_of (vp_mappings p) n")
  case None
  have ceil: "vp_ceiling p = ceil" using inv by (simp add: pool_inv_def)
  show ?thesis
    using inv None ceil pool_inv_bind [OF inv dist None]
    by (auto simp: allocate_at_def refresh_absent Let_def mapping_ok_def split: list.splits)
next
  case (Some m)
  then show ?thesis
    using pool_inv_refresh [OF inv, of n t]
    by (simp add: allocate_at_def refresh_at_def hm_simps)
qed

lemma pool_inv_step:
  assumes "pool_inv addrs ceil ttl grace p" "distinct addrs"
  shows "pool_inv addrs ceil ttl grace (fst (pool_step p op t))"
proof (cases op)
  case (Allocate n m d)
  then show ?thesis
    using pool_inv_allocate [OF assms, of n m d t] by (auto simp: pool_step_def split: prod.splits)
qed (simp_all add: pool_step_def pool_inv_refresh pool_inv_tick assms)

interpretation pool_machine: invariant_machine "\<lambda>p. pool_inv addrs ceil ttl grace p \<and> distinct addrs"
  "\<lambda>p e. fst (pool_step p (fst e) (snd e))" for addrs ceil ttl grace
  by unfold_locales (simp add: pool_inv_step)

lemma pool_inv_reachable:
  assumes "pool_with_limits (Ok (base, len)) ttl grace ceil burst rate = Ok p"
  shows "pool_inv (pool_addrs base len) ceil ttl grace (final_state pool_step p ops)"
  using pool_machine.run_inv [of "pool_addrs base len" ceil ttl grace p ops] pool_inv_initial [OF assms]
    distinct_pool_addrs [of base len] by (simp add: final_state_def)

lemma count_states: "count_list (map (vm_state \<circ> snd) ms) Allocated + count_list (map (vm_state \<circ> snd) ms) Active +
    count_list (map (vm_state \<circ> snd) ms) Draining = length ms"
proof (induction ms)
  case (Cons a ms)
  then show ?case by (cases "vm_state (snd a)") simp_all
qed simp

lemma pool_inv_addrs:
  assumes "pool_inv addrs ceil ttl grace p" "distinct addrs"
  shows "distinct (vp_available p @ map (vm_virtual_ip \<circ> snd) (vp_mappings p))"
    and "set (vp_available p @ map (vm_virtual_ip \<circ> snd) (vp_mappings p)) = set addrs"
    and "ps_total (status p) = ps_allocated (status p) + ps_active (status p) + ps_draining (status p) + ps_free (status p)"
proof -
  have m: "mset (vp_available p @ map (vm_virtual_ip \<circ> snd) (vp_mappings p)) = mset addrs"
    using assms(1) by (simp add: pool_inv_def)
  show "distinct (vp_available p @ map (vm_virtual_ip \<circ> snd) (vp_mappings p))"
    using mset_eq_imp_distinct_iff [OF m] assms(2) by simp
  show "set (vp_available p @ map (vm_virtual_ip \<circ> snd) (vp_mappings p)) = set addrs"
    by (rule mset_eq_setD [OF m])
  have "length (vp_available p) + length (vp_mappings p) = length addrs"
    using mset_eq_length [OF m] by simp
  then show "ps_total (status p) = ps_allocated (status p) + ps_active (status p) + ps_draining (status p) + ps_free (status p)"
    using assms(1) count_states [of "vp_mappings p"] by (simp add: pool_inv_def status_def Let_def)
qed

lemma lookup_mapping:
  assumes "pool_inv addrs ceil ttl grace p"
  shows "lookup_virtual_ip p ip = Some m \<longleftrightarrow> (\<exists>n. map_of (vp_mappings p) n = Some m \<and> vm_virtual_ip m = ip)"
proof -
  have l: "linked ttl (vp_mappings p) (vp_reverse p)" using assms by (simp add: pool_inv_def)
  show ?thesis
  proof
    assume "lookup_virtual_ip p ip = Some m"
    then obtain n where n: "map_of (vp_reverse p) ip = Some n" "map_of (vp_mappings p) n = Some m"
      by (auto simp: lookup_virtual_ip_def bind_eq_Some_conv)
    then show "\<exists>n. map_of (vp_mappings p) n = Some m \<and> vm_virtual_ip m = ip"
      using linkedD(4) [OF l n(1)] by auto
  next
    assume "\<exists>n. map_of (vp_mappings p) n = Some m \<and> vm_virtual_ip m = ip"
    then show "lookup_virtual_ip p ip = Some m"
      using linkedD(2) [OF l] by (auto simp: lookup_virtual_ip_def)
  qed
qed

lemma lookup_iff:
  assumes "pool_inv addrs ceil ttl grace p"
  shows "lookup_virtual_ip p ip = Some m \<longleftrightarrow> (m \<in> snd ` set (vp_mappings p) \<and> vm_virtual_ip m = ip)"
proof -
  have "hm_inv (vp_mappings p)" using assms by (simp add: pool_inv_def linked_def)
  from hm_mem_iff [OF this] have "m \<in> snd ` set (vp_mappings p) \<longleftrightarrow> (\<exists>n. map_of (vp_mappings p) n = Some m)"
    by force
  then show ?thesis unfolding lookup_mapping [OF assms] by blast
qed

text \<open>C39: Addresses of the pool are neither lost nor handed out twice. After any sequence of allocations,
  refreshes and ticks, the free list together with the addresses bound to nodes has no duplicate and is
  exactly the set the pool started with, no more mappings are live than the ceiling allows, looking an
  address up finds exactly the mapping that carries it, and the counts the status reports add up to the
  size of the pool.\<close>

theorem pool_addresses_conserved:
  fixes ops :: "(pool_op \<times> instant) list"
  assumes "pool_with_limits (Ok (base, len)) ttl grace ceil burst rate = Ok p0"
  defines "p \<equiv> final_state pool_step p0 ops"
  shows "distinct (vp_available p @ map (vm_virtual_ip \<circ> snd) (vp_mappings p))
    \<and> set (vp_available p @ map (vm_virtual_ip \<circ> snd) (vp_mappings p)) = set (pool_addrs base len)
    \<and> length (vp_mappings p) \<le> ceil
    \<and> (\<forall>ip m. lookup_virtual_ip p ip = Some m \<longleftrightarrow> m \<in> snd ` set (vp_mappings p) \<and> vm_virtual_ip m = ip)
    \<and> ps_total (status p) = ps_allocated (status p) + ps_active (status p) + ps_draining (status p) + ps_free (status p)"
proof -
  have "pool_inv (pool_addrs base len) ceil ttl grace p"
    unfolding p_def by (rule pool_inv_reachable [OF assms(1)])
  then show ?thesis
    using pool_inv_addrs [OF _ distinct_pool_addrs] lookup_iff by (simp add: pool_inv_def)
qed

definition example_pool :: virtual_ip_pool where
  "example_pool = \<lparr>vp_available = [0xfd010000000000000000000000000001, 0xfd010000000000000000000000000002,
       0xfd010000000000000000000000000003], vp_mappings = [], vp_reverse = [],
     vp_ttl_secs = 60, vp_grace_secs = 30, vp_total = 3, vp_ceiling = 2, vp_bucket = bucket_new 50 10\<rparr>"

definition example_ops :: "(pool_op \<times> instant) list" where
  "example_ops = [(Allocate (NodeAddr 7) 70 ''a'', 0), (Allocate (NodeAddr 8) 80 ''b'', 0),
     (Tick (Some [(0xfd010000000000000000000000000002, 1)]), from_secs 61)]"

lemmas pool_eval = pool_step_def allocate_at_def refresh_at_def tick_def age_mapping_def sessions_for_def
  bucket_new_def bucket_refill_def bucket_has_token_def bucket_take_def sat128_def NANOS_def from_secs_def
  duration_since_def hm_insert_def reclaim_def Let_def

lemma example_pool_limits:
  "pool_with_limits (Ok (0xfd010000000000000000000000000000, 126)) 60 30 2 50 10 = Ok example_pool"
  by (simp add: pool_with_limits_def example_pool_def pool_addrs_def upt_rec)

theorem pool_addresses_conserved_witness:
  "set (vp_available (final_state pool_step example_pool example_ops) @
      map (vm_virtual_ip \<circ> snd) (vp_mappings (final_state pool_step example_pool example_ops))) =
     set (pool_addrs 0xfd010000000000000000000000000000 126)
   \<and> length (vp_mappings (final_state pool_step example_pool example_ops)) = 2"
proof
  show "set (vp_available (final_state pool_step example_pool example_ops) @
      map (vm_virtual_ip \<circ> snd) (vp_mappings (final_state pool_step example_pool example_ops))) =
     set (pool_addrs 0xfd010000000000000000000000000000 126)"
    using pool_addresses_conserved [OF example_pool_limits, of example_ops] by blast
  show "length (vp_mappings (final_state pool_step example_pool example_ops)) = 2"
    by (simp add: final_state_def example_ops_def example_pool_def pool_eval)
qed

section \<open>Reclamation\<close>

definition removal :: "virtual_ip_pool \<Rightarrow> node_addr \<Rightarrow> pool_event list" where
  "removal p n = (case map_of (vp_mappings p) n of
     Some m \<Rightarrow> [MappingRemoved (vm_virtual_ip m) (vm_mesh_addr m)] | None \<Rightarrow> [])"

lemma reclaim_other: "k \<noteq> n \<Longrightarrow> map_of (vp_mappings (fst (reclaim pe n))) k = map_of (vp_mappings (fst pe)) k"
  by (cases pe) (simp add: reclaim_def hm_simps split: option.splits)

lemma reclaim_self: "map_of (vp_mappings (fst (reclaim pe n))) n = None"
  by (cases pe) (simp add: reclaim_def hm_simps split: option.splits)

lemma reclaim_event: "snd (reclaim pe n) = snd pe @ removal (fst pe) n"
  by (cases pe) (simp add: reclaim_def removal_def split: option.splits)

lemma reclaims_mappings:
  "map_of (vp_mappings (fst (foldl reclaim pe ns))) k = (if k \<in> set ns then None else map_of (vp_mappings (fst pe)) k)"
proof (induction ns rule: rev_induct)
  case (snoc n ns)
  then show ?case by (cases "k = n") (simp_all add: reclaim_self reclaim_other)
qed simp

lemma reclaims_events:
  "distinct ns \<Longrightarrow> snd (foldl reclaim pe ns) = snd pe @ concat (map (removal (fst pe)) ns)"
proof (induction ns rule: rev_induct)
  case (snoc n ns)
  then have "removal (fst (foldl reclaim pe ns)) n = removal (fst pe) n"
    by (simp add: removal_def reclaims_mappings)
  with snoc show ?case by (simp add: reclaim_event)
qed simp

lemma age_mapping_frees:
  "snd (age_mapping ttl grace now c m) \<longleftrightarrow> vm_state m = Draining \<and> sessions_for c (vm_virtual_ip m) = 0 \<and>
     (\<exists>d. vm_drain_start m = Some d \<and> d + grace < now)"
  by (auto simp: age_mapping_def Let_def duration_since_def word_gt_0
      split: mapping_state.splits option.splits)

lemma age_mapping_in_use:
  "sessions_for c (vm_virtual_ip m) > 0 \<Longrightarrow> vm_state (fst (age_mapping ttl grace now c m)) = Active \<and>
     \<not> snd (age_mapping ttl grace now c m)"
  by (auto simp: age_mapping_def Let_def duration_since_def split: mapping_state.splits)

lemma map_of_aged:
  "map_of (vp_mappings (aged p now c)) n = map_option (\<lambda>m. fst (age_mapping (from_secs (unat (vp_ttl_secs p)))
     (from_secs (unat (vp_grace_secs p))) now c m)) (map_of (vp_mappings p) n)"
  by (simp add: aged_def map_of_map_values)

lemma to_free_iff:
  assumes "hm_inv (vp_mappings p)"
  shows "n \<in> set (to_free p now c) \<longleftrightarrow> (\<exists>m. map_of (vp_mappings p) n = Some m \<and>
    snd (age_mapping (from_secs (unat (vp_ttl_secs p))) (from_secs (unat (vp_grace_secs p))) now c m))"
  using hm_mem_iff [OF assms] by (force simp: to_free_def)

lemma distinct_to_free: "hm_inv (vp_mappings p) \<Longrightarrow> distinct (to_free p now c)"
  by (simp add: to_free_def hm_inv_def distinct_map_filter)

lemma tick_mappings:
  assumes "pool_inv addrs ceil ttl grace p"
  shows "map_of (vp_mappings (fst (tick p now (Some c)))) n =
    (case map_of (vp_mappings p) n of None \<Rightarrow> None
     | Some m \<Rightarrow> (case age_mapping (from_secs (unat ttl)) (from_secs (unat grace)) now c m of
         (m', freed) \<Rightarrow> if freed then None else Some m'))"
proof -
  have "hm_inv (vp_mappings p)" "vp_ttl_secs p = ttl" "vp_grace_secs p = grace"
    using assms by (simp_all add: pool_inv_def linked_def)
  then show ?thesis
    by (auto simp: tick_Some reclaims_mappings map_of_aged to_free_iff split: option.splits prod.splits)
qed

lemma tick_events:
  assumes "pool_inv addrs ceil ttl grace p"
  shows "MappingRemoved ip mesh \<in> set (snd (tick p now (Some c))) \<longleftrightarrow>
    (\<exists>n m. map_of (vp_mappings p) n = Some m \<and> vm_virtual_ip m = ip \<and> vm_mesh_addr m = mesh \<and>
      snd (age_mapping (from_secs (unat ttl)) (from_secs (unat grace)) now c m))"
proof -
  have inv: "hm_inv (vp_mappings p)" "vp_ttl_secs p = ttl" "vp_grace_secs p = grace"
    using assms by (simp_all add: pool_inv_def linked_def)
  have "set (snd (tick p now (Some c))) = (\<Union>n \<in> set (to_free p now c). set (removal (aged p now c) n))"
    by (simp add: tick_Some reclaims_events [OF distinct_to_free [OF inv(1)]])
  moreover have "MappingRemoved ip mesh \<in> set (removal (aged p now c) n) \<longleftrightarrow>
      (\<exists>m. map_of (vp_mappings p) n = Some m \<and> vm_virtual_ip m = ip \<and> vm_mesh_addr m = mesh)" for n
    by (cases "map_of (vp_mappings p) n") (auto simp: removal_def map_of_aged)
  ultimately have "MappingRemoved ip mesh \<in> set (snd (tick p now (Some c))) \<longleftrightarrow>
      (\<exists>n \<in> set (to_free p now c). \<exists>m. map_of (vp_mappings p) n = Some m \<and> vm_virtual_ip m = ip \<and> vm_mesh_addr m = mesh)"
    by simp
  then show ?thesis
    unfolding Bex_def to_free_iff [OF inv(1)] inv(2,3) by (metis option.inject)
qed

lemma reclaimed_idle:
  assumes "mapping_ok ttl m" "snd (age_mapping (from_secs (unat ttl)) (from_secs (unat grace)) now c m)"
  shows "sessions_for c (vm_virtual_ip m) = 0 \<and>
    vm_last_referenced m + from_secs (unat ttl) + from_secs (unat grace) < now"
  using assms by (auto simp: mapping_ok_def age_mapping_frees)

lemma tick_lookup_freed:
  assumes inv: "pool_inv addrs ceil ttl grace p" and m: "map_of (vp_mappings p) n = Some m"
    and freed: "snd (age_mapping (from_secs (unat ttl)) (from_secs (unat grace)) now c m)"
  shows "lookup_virtual_ip (fst (tick p now (Some c))) (vm_virtual_ip m) = None"
proof (rule ccontr)
  have l: "linked ttl (vp_mappings p) (vp_reverse p)" using inv by (simp add: pool_inv_def)
  assume "lookup_virtual_ip (fst (tick p now (Some c))) (vm_virtual_ip m) \<noteq> None"
  then obtain k m' where k: "map_of (vp_mappings (fst (tick p now (Some c)))) k = Some m'" "vm_virtual_ip m' = vm_virtual_ip m"
    using lookup_mapping [OF pool_inv_tick [OF inv]] by blast
  then obtain m0 where m0: "map_of (vp_mappings p) k = Some m0"
      "m' = fst (age_mapping (from_secs (unat ttl)) (from_secs (unat grace)) now c m0)"
      "\<not> snd (age_mapping (from_secs (unat ttl)) (from_secs (unat grace)) now c m0)"
    by (auto simp: tick_mappings [OF inv] split: option.splits prod.splits if_splits)
  then have "k = n"
    using linkedD(2) [OF l m] linkedD(2) [OF l m0(1)] k(2) by simp
  then show False using m0 m freed by simp
qed

text \<open>C40: A tick of the pool takes an address away only from a node that has been idle for the whole TTL
  and then the whole grace period. An address reported as removed was bound before the tick, the
  snapshot shows no session to it, its last reference is more than TTL plus grace ago, and it is free
  afterwards. A mapping whose address has a session survives, bound to the same node and active,
  whatever state it was in, and without a readable conntrack table nothing changes.\<close>

theorem tick_reclaims_only_idle:
  fixes ops :: "(pool_op \<times> instant) list"
  assumes "pool_with_limits (Ok (base, len)) ttl grace ceil burst rate = Ok p0"
  defines "p \<equiv> final_state pool_step p0 ops"
  shows "(MappingRemoved ip mesh \<in> set (snd (tick p now (Some c))) \<longrightarrow>
      (\<exists>m. lookup_virtual_ip p ip = Some m \<and> vm_mesh_addr m = mesh \<and> sessions_for c ip = 0
        \<and> vm_last_referenced m + from_secs (unat ttl) + from_secs (unat grace) < now)
      \<and> lookup_virtual_ip (fst (tick p now (Some c))) ip = None)
    \<and> (lookup_virtual_ip p ip = Some m \<and> sessions_for c ip > 0 \<longrightarrow>
      (\<exists>m'. lookup_virtual_ip (fst (tick p now (Some c))) ip = Some m'
        \<and> vm_node_addr m' = vm_node_addr m \<and> vm_state m' = Active))
    \<and> tick p now None = (p, [])"
proof (intro conjI impI)
  have inv: "pool_inv (pool_addrs base len) ceil ttl grace p"
    unfolding p_def by (rule pool_inv_reachable [OF assms(1)])
  then have l: "linked ttl (vp_mappings p) (vp_reverse p)" by (simp add: pool_inv_def)
  show "tick p now None = (p, [])" by (simp add: tick_def)
  {
    assume "MappingRemoved ip mesh \<in> set (snd (tick p now (Some c)))"
    then obtain n m where n: "map_of (vp_mappings p) n = Some m" "vm_virtual_ip m = ip" "vm_mesh_addr m = mesh"
        "snd (age_mapping (from_secs (unat ttl)) (from_secs (unat grace)) now c m)"
      unfolding tick_events [OF inv] by blast
    show "\<exists>m. lookup_virtual_ip p ip = Some m \<and> vm_mesh_addr m = mesh \<and> sessions_for c ip = 0
        \<and> vm_last_referenced m + from_secs (unat ttl) + from_secs (unat grace) < now"
      using n lookup_mapping [OF inv] reclaimed_idle [OF linkedD(3) [OF l n(1)] n(4)] by blast
    show "lookup_virtual_ip (fst (tick p now (Some c))) ip = None"
      using tick_lookup_freed [OF inv n(1,4)] n(2) by simp
  }
  assume "lookup_virtual_ip p ip = Some m \<and> sessions_for c ip > 0"
  then obtain n where n: "map_of (vp_mappings p) n = Some m" "vm_virtual_ip m = ip" "sessions_for c ip > 0"
    using lookup_mapping [OF inv] by blast
  let ?m = "fst (age_mapping (from_secs (unat ttl)) (from_secs (unat grace)) now c m)"
  have "map_of (vp_mappings (fst (tick p now (Some c)))) n = Some ?m"
    using n age_mapping_in_use [of c m] by (simp add: tick_mappings [OF inv] case_prod_unfold)
  moreover have "vm_virtual_ip ?m = ip" using n(2) by simp
  ultimately have "lookup_virtual_ip (fst (tick p now (Some c))) ip = Some ?m"
    using lookup_mapping [OF pool_inv_tick [OF inv]] by blast
  then show "\<exists>m'. lookup_virtual_ip (fst (tick p now (Some c))) ip = Some m'
        \<and> vm_node_addr m' = vm_node_addr m \<and> vm_state m' = Active"
    using age_mapping_in_use [of c m] n by simp
qed

definition example_sessions :: conntrack_snapshot where
  "example_sessions = [(0xfd010000000000000000000000000002, 1)]"

lemma example_tick:
  "snd (tick (final_state pool_step example_pool example_ops) (from_secs 92) (Some example_sessions)) =
     [MappingRemoved 0xfd010000000000000000000000000001 70]
   \<and> lookup_virtual_ip (final_state pool_step example_pool example_ops) 0xfd010000000000000000000000000002 \<noteq> None"
  by (simp add: final_state_def example_ops_def example_pool_def example_sessions_def lookup_virtual_ip_def pool_eval)

theorem tick_reclaims_only_idle_witness:
  "lookup_virtual_ip (fst (tick (final_state pool_step example_pool example_ops) (from_secs 92) (Some example_sessions)))
     0xfd010000000000000000000000000001 = None
   \<and> lookup_virtual_ip (fst (tick (final_state pool_step example_pool example_ops) (from_secs 92) (Some example_sessions)))
     0xfd010000000000000000000000000002 \<noteq> None"
proof
  show "lookup_virtual_ip (fst (tick (final_state pool_step example_pool example_ops) (from_secs 92) (Some example_sessions)))
     0xfd010000000000000000000000000001 = None"
    using tick_reclaims_only_idle [OF example_pool_limits, where ip = "0xfd010000000000000000000000000001" and mesh = 70 and
        ops = example_ops and now = "from_secs 92" and c = example_sessions] example_tick by simp
  obtain m where "lookup_virtual_ip (final_state pool_step example_pool example_ops)
      0xfd010000000000000000000000000002 = Some m"
    using example_tick by blast
  then show "lookup_virtual_ip (fst (tick (final_state pool_step example_pool example_ops) (from_secs 92) (Some example_sessions)))
     0xfd010000000000000000000000000002 \<noteq> None"
    using tick_reclaims_only_idle [OF example_pool_limits, where ip = "0xfd010000000000000000000000000002" and mesh = 70 and
        ops = example_ops and now = "from_secs 92" and c = example_sessions and m = m] by (auto simp: example_sessions_def sessions_for_def)
qed

text \<open>New mappings are admitted at the configured rate. In every window of a history of a pool with the
  compiled-in limits, whatever ticks and refreshes lie in between, at most 50 plus 10 per second of
  the window are created.\<close>

theorem new_mappings_bounded:
  assumes "pool_new (Ok (base, len)) ttl grace = Ok p" "sorted (map snd ops)"
    "\<forall>e \<in> set ops. t0 \<le> snd e \<and> snd e \<le> t1" "t0 \<le> t1"
  shows "admissions pool_step (final_state pool_step p before) ops \<le> 50 + 10 * (t1 - t0) div NANOS"
proof -
  have "bucket_ok 50 10 (vp_bucket p)"
    using assms(1) pool_inv_initial by (auto simp: pool_new_def MAPPING_BURST_def MAPPING_RATE_def)
  from pool_meter.window_bounded [OF this assms(2-4), of before]
  have "NANOS * admissions pool_step (final_state pool_step p before) ops \<le> 50 * NANOS + 10 * (t1 - t0)"
    by simp
  then have "admissions pool_step (final_state pool_step p before) ops \<le> (50 * NANOS + 10 * (t1 - t0)) div NANOS"
    by (simp add: less_eq_div_iff_mult_less_eq NANOS_def mult.commute)
  then show ?thesis by (simp add: NANOS_def)
qed

theorem new_mappings_bounded_witness:
  "admissions pool_step (final_state pool_step \<lparr>vp_available = [2], vp_mappings = [], vp_reverse = [], vp_ttl_secs = 60,
       vp_grace_secs = 30, vp_total = 1, vp_ceiling = 1000, vp_bucket = bucket_new 50 10\<rparr> [])
     [(Allocate (NodeAddr 7) 70 ''a'', 5), (Allocate (NodeAddr 8) 80 ''b'', 6)] \<le> 50 + 10 * (9 - 5) div NANOS"
  by (rule new_mappings_bounded [of 1 127 60 30])
    (simp_all add: pool_new_def pool_with_limits_def pool_addrs_def MAPPING_CEILING_def MAPPING_BURST_def
      MAPPING_RATE_def upt_rec)

end
