(* ===== verification/Active_Peer.thy ===== *)
theory Active_Peer
  imports Noise_Handshake Session_Index Tree_Coordinate Bloom_Filter Hash_Map
begin

text \<open>
  An authenticated peer (\<^verbatim>\<open>peer/active.rs\<close> and \<^verbatim>\<open>peer/active/rekey.rs\<close>): its link and addresses, the Noise session
  in use with the indices that name it on the wire, the session a completed rekey leaves pending, the
  session that drains after a cutover, the handshake of a rekey in progress, and the peer's position
  in the tree and filter. The clock and the jitter of the rekey timer are arguments; public keys,
  secrets and cipher keys are type parameters as in the handshake.
\<close>

datatype transport_id = TransportId u32
datatype link_id = LinkId u64
type_synonym transport_addr = bytes

datatype connectivity_state = Connected | Stale | Reconnecting | Disconnected

definition state_can_send :: "connectivity_state \<Rightarrow> bool" where
  "state_can_send c \<longleftrightarrow> c = Connected \<or> c = Stale"

definition state_is_terminal :: "connectivity_state \<Rightarrow> bool" where
  "state_is_terminal c \<longleftrightarrow> c = Disconnected"

definition state_is_healthy :: "connectivity_state \<Rightarrow> bool" where
  "state_is_healthy c \<longleftrightarrow> c = Connected"

section \<open>Link statistics\<close>

record link_stats =
  ls_packets_sent :: u64
  ls_packets_recv :: u64
  ls_bytes_sent :: u64
  ls_bytes_recv :: u64
  ls_last_recv_ms :: u64

definition link_stats_new :: link_stats where
  "link_stats_new = \<lparr>ls_packets_sent = 0, ls_packets_recv = 0, ls_bytes_sent = 0, ls_bytes_recv = 0,
     ls_last_recv_ms = 0\<rparr>"

definition stats_record_sent :: "link_stats \<Rightarrow> nat \<Rightarrow> link_stats" where
  "stats_record_sent s n = s\<lparr>ls_packets_sent := ls_packets_sent s + 1, ls_bytes_sent := ls_bytes_sent s + of_nat n\<rparr>"

definition stats_record_sent_batch :: "link_stats \<Rightarrow> nat \<Rightarrow> nat \<Rightarrow> link_stats" where
  "stats_record_sent_batch s packets n =
     s\<lparr>ls_packets_sent := ls_packets_sent s + of_nat packets, ls_bytes_sent := ls_bytes_sent s + of_nat n\<rparr>"

definition stats_record_recv :: "link_stats \<Rightarrow> nat \<Rightarrow> u64 \<Rightarrow> link_stats" where
  "stats_record_recv s n timestamp_ms = s\<lparr>ls_packets_recv := ls_packets_recv s + 1,
     ls_bytes_recv := ls_bytes_recv s + of_nat n, ls_last_recv_ms := timestamp_ms\<rparr>"

definition time_since_recv :: "link_stats \<Rightarrow> u64 \<Rightarrow> u64" where
  "time_since_recv s now_ms = (if ls_last_recv_ms s = 0 then - 1 else saturating_sub now_ms (ls_last_recv_ms s))"

section \<open>The peer\<close>

record ('s, 'p, 'k) active_peer =
  ap_node_addr :: node_addr
  ap_pubkey :: 'p
  ap_link_id :: link_id
  ap_connectivity :: connectivity_state
  ap_noise_session :: "'k noise_session option"
  ap_our_index :: "session_index option"
  ap_their_index :: "session_index option"
  ap_transport_id :: "transport_id option"
  ap_current_addr :: "transport_addr option"
  ap_preferred_send_addr :: "transport_addr option"
  ap_client_only_supported :: bool
  ap_client_support_sent :: bool
  ap_client_only :: bool
  ap_routing_role_sequence :: "u64 option"
  ap_declaration :: "parent_declaration option"
  ap_ancestry :: "tree_coordinate option"
  ap_tree_announce_min_interval_ms :: u64
  ap_last_tree_announce_sent_ms :: u64
  ap_pending_tree_announce :: bool
  ap_inbound_filter :: "bloom_filter option"
  ap_filter_sequence :: u64
  ap_filter_received_at :: u64
  ap_pending_filter_update :: bool
  ap_session_start :: instant
  ap_pending_fmp_timestamp_origin :: "instant option"
  ap_session_generation :: u64
  ap_link_stats :: link_stats
  ap_authenticated_at :: u64
  ap_last_seen :: u64
  ap_last_transit_demand_ms :: "u64 option"
  ap_remote_epoch :: "bytes option"
  ap_fmp_mmp_is_initiator :: bool
  ap_last_heartbeat_sent :: "instant option"
  ap_handshake_msg2 :: "(bytes \<times> u64) option"
  ap_replay_suppressed_count :: u32
  ap_consecutive_decrypt_failures :: u32
  ap_session_established_at :: instant
  ap_rekey_jitter_secs :: int
  ap_current_k_bit :: bool
  ap_previous_session :: "'k noise_session option"
  ap_previous_k_bit :: "bool option"
  ap_previous_our_index :: "session_index option"
  ap_previous_transport_id :: "transport_id option"
  ap_drain_started :: "instant option"
  ap_pending_new_session :: "'k noise_session option"
  ap_pending_our_index :: "session_index option"
  ap_pending_their_index :: "session_index option"
  ap_pending_rekey_initiator :: bool
  ap_pending_rekey_completed_at :: "instant option"
  ap_rekey_in_progress :: bool
  ap_last_rekey_dampening_at :: "instant option"
  ap_rekey_handshake :: "('s, 'p, 'k) handshake_state option"
  ap_rekey_our_index :: "session_index option"
  ap_rekey_msg1 :: "bytes option"
  ap_rekey_msg1_next_resend :: u64
  ap_rekey_msg1_resend_count :: u32

definition peer_new ::
  "node_addr \<Rightarrow> 'p \<Rightarrow> link_id \<Rightarrow> u64 \<Rightarrow> instant \<Rightarrow> int \<Rightarrow> ('s, 'p, 'k) active_peer" where
  "peer_new addr pubkey link authenticated_at now jitter = \<lparr>ap_node_addr = addr, ap_pubkey = pubkey, ap_link_id = link,
     ap_connectivity = Connected, ap_noise_session = None, ap_our_index = None, ap_their_index = None,
     ap_transport_id = None, ap_current_addr = None, ap_preferred_send_addr = None, ap_client_only_supported = False,
     ap_client_support_sent = False, ap_client_only = False, ap_routing_role_sequence = None,
     ap_declaration = None, ap_ancestry = None, ap_tree_announce_min_interval_ms = 500,
     ap_last_tree_announce_sent_ms = 0, ap_pending_tree_announce = False, ap_inbound_filter = None,
     ap_filter_sequence = 0, ap_filter_received_at = 0, ap_pending_filter_update = True, ap_session_start = now,
     ap_pending_fmp_timestamp_origin = None, ap_session_generation = max authenticated_at 1,
     ap_link_stats = link_stats_new, ap_authenticated_at = authenticated_at, ap_last_seen = authenticated_at,
     ap_last_transit_demand_ms = None, ap_remote_epoch = None, ap_fmp_mmp_is_initiator = False,
     ap_last_heartbeat_sent = None, ap_handshake_msg2 = None, ap_replay_suppressed_count = 0,
     ap_consecutive_decrypt_failures = 0, ap_session_established_at = now, ap_rekey_jitter_secs = jitter,
     ap_current_k_bit = False, ap_previous_session = None, ap_previous_k_bit = None, ap_previous_our_index = None,
     ap_previous_transport_id = None, ap_drain_started = None, ap_pending_new_session = None,
     ap_pending_our_index = None, ap_pending_their_index = None, ap_pending_rekey_initiator = False,
     ap_pending_rekey_completed_at = None, ap_rekey_in_progress = False, ap_last_rekey_dampening_at = None,
     ap_rekey_handshake = None, ap_rekey_our_index = None, ap_rekey_msg1 = None, ap_rekey_msg1_next_resend = 0,
     ap_rekey_msg1_resend_count = 0\<rparr>"

record 'k active_peer_session =
  aps_session :: "'k noise_session"
  aps_our_index :: session_index
  aps_their_index :: session_index
  aps_transport_id :: transport_id
  aps_current_addr :: transport_addr
  aps_link_stats :: link_stats
  aps_is_initiator :: bool
  aps_remote_epoch :: "bytes option"

definition peer_with_stats ::
  "node_addr \<Rightarrow> 'p \<Rightarrow> link_id \<Rightarrow> u64 \<Rightarrow> link_stats \<Rightarrow> instant \<Rightarrow> int \<Rightarrow> ('s, 'p, 'k) active_peer" where
  "peer_with_stats addr pubkey link authenticated_at stats now jitter =
     (peer_new addr pubkey link authenticated_at now jitter)\<lparr>ap_link_stats := stats\<rparr>"

definition peer_with_session ::
  "node_addr \<Rightarrow> 'p \<Rightarrow> link_id \<Rightarrow> u64 \<Rightarrow> 'k active_peer_session \<Rightarrow> instant \<Rightarrow> int \<Rightarrow> ('s, 'p, 'k) active_peer" where
  "peer_with_session addr pubkey link authenticated_at s now jitter =
     (peer_new addr pubkey link authenticated_at now jitter)\<lparr>ap_noise_session := Some (aps_session s),
       ap_our_index := Some (aps_our_index s), ap_their_index := Some (aps_their_index s),
       ap_transport_id := Some (aps_transport_id s), ap_current_addr := Some (aps_current_addr s),
       ap_link_stats := aps_link_stats s, ap_remote_epoch := aps_remote_epoch s,
       ap_fmp_mmp_is_initiator := aps_is_initiator s\<rparr>"

type_synonym ('s, 'p, 'k) peer = "('s, 'p, 'k) active_peer"

section \<open>Session and path\<close>

definition peer_can_send :: "('s, 'p, 'k) peer \<Rightarrow> bool" where
  "peer_can_send p = state_can_send (ap_connectivity p)"

definition is_healthy :: "('s, 'p, 'k) peer \<Rightarrow> bool" where
  "is_healthy p = state_is_healthy (ap_connectivity p)"

definition is_disconnected :: "('s, 'p, 'k) peer \<Rightarrow> bool" where
  "is_disconnected p = state_is_terminal (ap_connectivity p)"

definition has_session :: "('s, 'p, 'k) peer \<Rightarrow> bool" where
  "has_session p \<longleftrightarrow> ap_noise_session p \<noteq> None"

definition set_their_index :: "('s, 'p, 'k) peer \<Rightarrow> session_index \<Rightarrow> ('s, 'p, 'k) peer" where
  "set_their_index p i = p\<lparr>ap_their_index := Some i\<rparr>"

definition send_addr :: "('s, 'p, 'k) peer \<Rightarrow> transport_addr option" where
  "send_addr p = (case ap_preferred_send_addr p of Some a \<Rightarrow> Some a | None \<Rightarrow> ap_current_addr p)"

definition set_preferred_send_addr :: "('s, 'p, 'k) peer \<Rightarrow> transport_addr \<Rightarrow> ('s, 'p, 'k) peer \<times> bool" where
  "set_preferred_send_addr p a =
     (if ap_preferred_send_addr p = Some a then (p, False) else (p\<lparr>ap_preferred_send_addr := Some a\<rparr>, True))"

definition clear_preferred_send_addr :: "('s, 'p, 'k) peer \<Rightarrow> ('s, 'p, 'k) peer \<times> bool" where
  "clear_preferred_send_addr p = (p\<lparr>ap_preferred_send_addr := None\<rparr>, ap_preferred_send_addr p \<noteq> None)"

definition set_current_addr :: "('s, 'p, 'k) peer \<Rightarrow> transport_id \<Rightarrow> transport_addr \<Rightarrow> ('s, 'p, 'k) peer \<times> bool" where
  "set_current_addr p tid a =
     (if ap_transport_id p = Some tid \<and> ap_current_addr p = Some a then (p, False)
      else (p\<lparr>ap_transport_id := Some tid, ap_current_addr := Some a\<rparr>, True))"

definition set_handshake_msg2 :: "('s, 'p, 'k) peer \<Rightarrow> bytes \<Rightarrow> u64 \<Rightarrow> ('s, 'p, 'k) peer" where
  "set_handshake_msg2 p msg2 generated_at = p\<lparr>ap_handshake_msg2 := Some (msg2, generated_at)\<rparr>"

definition clear_handshake_msg2 :: "('s, 'p, 'k) peer \<Rightarrow> ('s, 'p, 'k) peer" where
  "clear_handshake_msg2 p = p\<lparr>ap_handshake_msg2 := None\<rparr>"

definition increment_replay_suppressed :: "('s, 'p, 'k) peer \<Rightarrow> ('s, 'p, 'k) peer \<times> u32" where
  "increment_replay_suppressed p =
     (p\<lparr>ap_replay_suppressed_count := ap_replay_suppressed_count p + 1\<rparr>, ap_replay_suppressed_count p + 1)"

definition reset_replay_suppressed :: "('s, 'p, 'k) peer \<Rightarrow> ('s, 'p, 'k) peer \<times> u32" where
  "reset_replay_suppressed p = (p\<lparr>ap_replay_suppressed_count := 0\<rparr>, ap_replay_suppressed_count p)"

definition increment_decrypt_failures :: "('s, 'p, 'k) peer \<Rightarrow> ('s, 'p, 'k) peer \<times> u32" where
  "increment_decrypt_failures p = (p\<lparr>ap_consecutive_decrypt_failures := ap_consecutive_decrypt_failures p + 1\<rparr>,
     ap_consecutive_decrypt_failures p + 1)"

definition reset_decrypt_failures :: "('s, 'p, 'k) peer \<Rightarrow> ('s, 'p, 'k) peer" where
  "reset_decrypt_failures p = p\<lparr>ap_consecutive_decrypt_failures := 0\<rparr>"

definition set_remote_epoch :: "('s, 'p, 'k) peer \<Rightarrow> bytes option \<Rightarrow> ('s, 'p, 'k) peer" where
  "set_remote_epoch p e = p\<lparr>ap_remote_epoch := e\<rparr>"

section \<open>Filter, tree and liveness\<close>

definition has_tree_position :: "('s, 'p, 'k) peer \<Rightarrow> bool" where
  "has_tree_position p \<longleftrightarrow> ap_declaration p \<noteq> None \<and> ap_ancestry p \<noteq> None"

definition filter_is_stale :: "('s, 'p, 'k) peer \<Rightarrow> u64 \<Rightarrow> u64 \<Rightarrow> bool" where
  "filter_is_stale p now_ms threshold_ms \<longleftrightarrow>
     (if ap_filter_received_at p = 0 then True else saturating_sub now_ms (ap_filter_received_at p) > threshold_ms)"

definition may_reach :: "(bytes \<Rightarrow> bytes) \<Rightarrow> ('s, 'p, 'k) peer \<Rightarrow> node_addr \<Rightarrow> bool" where
  "may_reach sha p n = (case ap_inbound_filter p of Some f \<Rightarrow> bloom_contains sha f n | None \<Rightarrow> False)"

definition record_transit_demand :: "('s, 'p, 'k) peer \<Rightarrow> u64 \<Rightarrow> ('s, 'p, 'k) peer" where
  "record_transit_demand p now_ms =
     p\<lparr>ap_last_transit_demand_ms := Some (max (case ap_last_transit_demand_ms p of Some t \<Rightarrow> t | None \<Rightarrow> 0) now_ms)\<rparr>"

definition has_recent_transit_demand :: "('s, 'p, 'k) peer \<Rightarrow> u64 \<Rightarrow> u64 \<Rightarrow> bool" where
  "has_recent_transit_demand p now_ms idle_ms = (case ap_last_transit_demand_ms p of
     Some t \<Rightarrow> saturating_sub now_ms t \<le> idle_ms | None \<Rightarrow> False)"

definition idle_time :: "('s, 'p, 'k) peer \<Rightarrow> u64 \<Rightarrow> u64" where
  "idle_time p now_ms = saturating_sub now_ms (ap_last_seen p)"

definition connection_duration :: "('s, 'p, 'k) peer \<Rightarrow> u64 \<Rightarrow> u64" where
  "connection_duration p now_ms = saturating_sub now_ms (ap_authenticated_at p)"

definition session_elapsed_ms :: "('s, 'p, 'k) peer \<Rightarrow> instant \<Rightarrow> u32" where
  "session_elapsed_ms p now = of_nat (duration_since now
     (case ap_pending_fmp_timestamp_origin p of Some t \<Rightarrow> t | None \<Rightarrow> ap_session_start p) div 1000000)"

definition adopt_pending_fmp_timestamp_origin :: "('s, 'p, 'k) peer \<Rightarrow> instant \<Rightarrow> ('s, 'p, 'k) peer" where
  "adopt_pending_fmp_timestamp_origin p t = p\<lparr>ap_pending_fmp_timestamp_origin := Some t\<rparr>"

definition mark_heartbeat_sent :: "('s, 'p, 'k) peer \<Rightarrow> instant \<Rightarrow> ('s, 'p, 'k) peer" where
  "mark_heartbeat_sent p now = p\<lparr>ap_last_heartbeat_sent := Some now\<rparr>"

definition request_heartbeat :: "('s, 'p, 'k) peer \<Rightarrow> ('s, 'p, 'k) peer" where
  "request_heartbeat p = p\<lparr>ap_last_heartbeat_sent := None\<rparr>"

definition touch :: "('s, 'p, 'k) peer \<Rightarrow> u64 \<Rightarrow> ('s, 'p, 'k) peer" where
  "touch p now_ms = (let p = p\<lparr>ap_last_seen := now_ms\<rparr> in
     if ap_connectivity p = Stale then p\<lparr>ap_connectivity := Connected\<rparr> else p)"

definition mark_stale :: "('s, 'p, 'k) peer \<Rightarrow> ('s, 'p, 'k) peer" where
  "mark_stale p = (if ap_connectivity p = Connected then p\<lparr>ap_connectivity := Stale\<rparr> else p)"

definition mark_reconnecting :: "('s, 'p, 'k) peer \<Rightarrow> ('s, 'p, 'k) peer" where
  "mark_reconnecting p = p\<lparr>ap_connectivity := Reconnecting\<rparr>"

definition mark_disconnected :: "('s, 'p, 'k) peer \<Rightarrow> ('s, 'p, 'k) peer" where
  "mark_disconnected p = p\<lparr>ap_connectivity := Disconnected\<rparr>"

definition mark_connected :: "('s, 'p, 'k) peer \<Rightarrow> u64 \<Rightarrow> ('s, 'p, 'k) peer" where
  "mark_connected p now_ms = p\<lparr>ap_connectivity := Connected, ap_last_seen := now_ms\<rparr>"

definition set_link_id :: "('s, 'p, 'k) peer \<Rightarrow> link_id \<Rightarrow> ('s, 'p, 'k) peer" where
  "set_link_id p l = p\<lparr>ap_link_id := l\<rparr>"

definition update_tree_position ::
  "('s, 'p, 'k) peer \<Rightarrow> parent_declaration \<Rightarrow> tree_coordinate \<Rightarrow> ('s, 'p, 'k) peer" where
  "update_tree_position p d c = p\<lparr>ap_declaration := Some d, ap_ancestry := Some c\<rparr>"

definition clear_tree_position :: "('s, 'p, 'k) peer \<Rightarrow> ('s, 'p, 'k) peer" where
  "clear_tree_position p = p\<lparr>ap_declaration := None, ap_ancestry := None\<rparr>"

definition can_send_tree_announce :: "('s, 'p, 'k) peer \<Rightarrow> u64 \<Rightarrow> bool" where
  "can_send_tree_announce p now_ms \<longleftrightarrow>
     saturating_sub now_ms (ap_last_tree_announce_sent_ms p) \<ge> ap_tree_announce_min_interval_ms p"

definition record_tree_announce_sent :: "('s, 'p, 'k) peer \<Rightarrow> u64 \<Rightarrow> ('s, 'p, 'k) peer" where
  "record_tree_announce_sent p now_ms = p\<lparr>ap_last_tree_announce_sent_ms := now_ms, ap_pending_tree_announce := False\<rparr>"

definition mark_tree_announce_pending :: "('s, 'p, 'k) peer \<Rightarrow> ('s, 'p, 'k) peer" where
  "mark_tree_announce_pending p = p\<lparr>ap_pending_tree_announce := True\<rparr>"

definition pending_tree_announce_due_ms :: "('s, 'p, 'k) peer \<Rightarrow> u64 \<Rightarrow> u64 option" where
  "pending_tree_announce_due_ms p now_ms =
     (if \<not> ap_pending_tree_announce p then None
      else if can_send_tree_announce p now_ms then Some now_ms
      else if unat (ap_last_tree_announce_sent_ms p) + unat (ap_tree_announce_min_interval_ms p) < 2 ^ 64
      then Some (ap_last_tree_announce_sent_ms p + ap_tree_announce_min_interval_ms p) else None)"

definition update_filter :: "('s, 'p, 'k) peer \<Rightarrow> bloom_filter \<Rightarrow> u64 \<Rightarrow> u64 \<Rightarrow> ('s, 'p, 'k) peer" where
  "update_filter p f seq now_ms = p\<lparr>ap_inbound_filter := Some f, ap_filter_sequence := seq,
     ap_filter_received_at := now_ms, ap_last_seen := now_ms\<rparr>"

definition set_tree_announce_min_interval_ms :: "('s, 'p, 'k) peer \<Rightarrow> u64 \<Rightarrow> ('s, 'p, 'k) peer" where
  "set_tree_announce_min_interval_ms p ms = p\<lparr>ap_tree_announce_min_interval_ms := ms\<rparr>"

definition clear_filter :: "('s, 'p, 'k) peer \<Rightarrow> ('s, 'p, 'k) peer" where
  "clear_filter p = p\<lparr>ap_inbound_filter := None, ap_filter_sequence := 0, ap_filter_received_at := 0\<rparr>"

definition mark_filter_update_needed :: "('s, 'p, 'k) peer \<Rightarrow> ('s, 'p, 'k) peer" where
  "mark_filter_update_needed p = p\<lparr>ap_pending_filter_update := True\<rparr>"

definition clear_filter_update_needed :: "('s, 'p, 'k) peer \<Rightarrow> ('s, 'p, 'k) peer" where
  "clear_filter_update_needed p = p\<lparr>ap_pending_filter_update := False\<rparr>"

section \<open>Rekeying\<close>

definition set_rekey_in_progress :: "('s, 'p, 'k) peer \<Rightarrow> ('s, 'p, 'k) peer" where
  "set_rekey_in_progress p = p\<lparr>ap_rekey_in_progress := True\<rparr>"

definition is_rekey_dampened :: "('s, 'p, 'k) peer \<Rightarrow> u64 \<Rightarrow> instant \<Rightarrow> bool" where
  "is_rekey_dampened p dampening_secs now = (case ap_last_rekey_dampening_at p of
     Some t \<Rightarrow> duration_since now t div 1000000000 < unat dampening_secs | None \<Rightarrow> False)"

definition record_peer_rekey :: "('s, 'p, 'k) peer \<Rightarrow> instant \<Rightarrow> ('s, 'p, 'k) peer" where
  "record_peer_rekey p now = p\<lparr>ap_last_rekey_dampening_at := Some now\<rparr>"

definition unconfirmed_rekey_expired :: "('s, 'p, 'k) peer \<Rightarrow> instant \<Rightarrow> duration \<Rightarrow> bool" where
  "unconfirmed_rekey_expired p now timeout \<longleftrightarrow> \<not> ap_pending_rekey_initiator p \<and> ap_pending_new_session p \<noteq> None \<and>
     (case ap_pending_rekey_completed_at p of Some t \<Rightarrow> duration_since now t \<ge> timeout | None \<Rightarrow> False)"

definition pending_rekey_cutover_due :: "('s, 'p, 'k) peer \<Rightarrow> duration \<Rightarrow> instant \<Rightarrow> bool" where
  "pending_rekey_cutover_due p delay now \<longleftrightarrow> ap_pending_rekey_initiator p \<and>
     (case ap_pending_rekey_completed_at p of Some t \<Rightarrow> duration_since now t \<ge> delay | None \<Rightarrow> False)"

definition set_pending_session ::
  "('s, 'p, 'k) peer \<Rightarrow> 'k noise_session \<Rightarrow> session_index \<Rightarrow> session_index \<Rightarrow> bool \<Rightarrow> instant \<Rightarrow> ('s, 'p, 'k) peer" where
  "set_pending_session p session our their initiated_by_local now =
     p\<lparr>ap_pending_new_session := Some session, ap_pending_our_index := Some our, ap_pending_their_index := Some their,
       ap_pending_rekey_initiator := initiated_by_local, ap_pending_rekey_completed_at := Some now,
       ap_rekey_in_progress := False, ap_rekey_our_index := None, ap_rekey_handshake := None, ap_rekey_msg1 := None,
       ap_rekey_msg1_next_resend := 0, ap_rekey_msg1_resend_count := 0\<rparr>"

definition next_generation :: "u64 \<Rightarrow> u64" where
  "next_generation g = max (g + 1) 1"

definition confirm_pending_session ::
  "('s, 'p, 'k) peer \<Rightarrow> bool \<Rightarrow> instant \<Rightarrow> int \<Rightarrow> ('s, 'p, 'k) peer \<times> session_index option" where
  "confirm_pending_session p received_k_bit now jitter = (case ap_pending_new_session p of
     None \<Rightarrow> (p, None)
   | Some session \<Rightarrow>
       (p\<lparr>ap_pending_new_session := None, ap_pending_our_index := None, ap_pending_their_index := None,
          ap_previous_session := ap_noise_session p, ap_previous_k_bit := Some (ap_current_k_bit p),
          ap_previous_our_index := ap_our_index p, ap_previous_transport_id := ap_transport_id p,
          ap_drain_started := Some now, ap_noise_session := Some session,
          ap_our_index := ap_pending_our_index p, ap_their_index := ap_pending_their_index p,
          ap_pending_rekey_initiator := False, ap_pending_rekey_completed_at := None,
          ap_current_k_bit := received_k_bit, ap_session_established_at := now, ap_session_start := now,
          ap_pending_fmp_timestamp_origin := None, ap_session_generation := next_generation (ap_session_generation p),
          ap_rekey_in_progress := False, ap_rekey_msg1_resend_count := 0, ap_rekey_jitter_secs := jitter,
          ap_last_rekey_dampening_at := Some now, ap_last_heartbeat_sent := None,
          ap_replay_suppressed_count := 0\<rparr>, ap_our_index p))"

definition cutover_to_new_session ::
  "('s, 'p, 'k) peer \<Rightarrow> instant \<Rightarrow> int \<Rightarrow> ('s, 'p, 'k) peer \<times> session_index option" where
  "cutover_to_new_session p now jitter = confirm_pending_session p (\<not> ap_current_k_bit p) now jitter"

definition handle_peer_kbit_flip ::
  "('s, 'p, 'k) peer \<Rightarrow> instant \<Rightarrow> int \<Rightarrow> ('s, 'p, 'k) peer \<times> session_index option" where
  "handle_peer_kbit_flip p now jitter = confirm_pending_session p (\<not> ap_current_k_bit p) now jitter"

definition drain_expired :: "('s, 'p, 'k) peer \<Rightarrow> u64 \<Rightarrow> instant \<Rightarrow> bool" where
  "drain_expired p drain_secs now = (case ap_drain_started p of
     Some t \<Rightarrow> duration_since now t div 1000000000 \<ge> unat drain_secs | None \<Rightarrow> False)"

definition is_draining :: "('s, 'p, 'k) peer \<Rightarrow> bool" where
  "is_draining p \<longleftrightarrow> ap_drain_started p \<noteq> None"

definition complete_drain :: "('s, 'p, 'k) peer \<Rightarrow> ('s, 'p, 'k) peer \<times> session_index option" where
  "complete_drain p = (p\<lparr>ap_previous_session := None, ap_previous_k_bit := None, ap_drain_started := None,
     ap_previous_transport_id := None, ap_previous_our_index := None\<rparr>, ap_previous_our_index p)"

definition abandon_rekey :: "('s, 'p, 'k) peer \<Rightarrow> ('s, 'p, 'k) peer \<times> session_index option" where
  "abandon_rekey p =
     (p\<lparr>ap_rekey_handshake := None, ap_rekey_msg1 := None, ap_rekey_msg1_next_resend := 0,
        ap_rekey_msg1_resend_count := 0, ap_rekey_in_progress := False, ap_pending_new_session := None,
        ap_pending_their_index := None, ap_pending_rekey_initiator := False, ap_pending_rekey_completed_at := None,
        ap_rekey_our_index := None, ap_pending_our_index := None\<rparr>,
      case ap_rekey_our_index p of Some i \<Rightarrow> Some i | None \<Rightarrow> ap_pending_our_index p)"

definition set_rekey_state ::
  "('s, 'p, 'k) peer \<Rightarrow> ('s, 'p, 'k) handshake_state \<Rightarrow> session_index \<Rightarrow> bytes \<Rightarrow> u64 \<Rightarrow> ('s, 'p, 'k) peer" where
  "set_rekey_state p hs our_index wire_msg1 next_resend_ms =
     p\<lparr>ap_rekey_handshake := Some hs, ap_rekey_our_index := Some our_index, ap_rekey_msg1 := Some wire_msg1,
       ap_rekey_msg1_next_resend := next_resend_ms, ap_rekey_msg1_resend_count := 0, ap_rekey_in_progress := True\<rparr>"

text \<open>The handshake state is taken out of the peer and put back only when the message is rejected.\<close>

definition complete_rekey_msg2 ::
  "('s, 'p) curve \<Rightarrow> 'k aead \<Rightarrow> ('s, 'p, 'k) peer \<Rightarrow> bytes
     \<Rightarrow> ('s, 'p, 'k) peer \<times> (noise_error, 'k noise_session \<times> bytes option) outcome" where
  "complete_rekey_msg2 C A p msg2 = (case ap_rekey_handshake p of
     None \<Rightarrow> (p, Err (WrongState ''rekey handshake in progress'' ''no handshake state''))
   | Some hs \<Rightarrow>
       let p = p\<lparr>ap_rekey_handshake := None\<rparr> in
       (case try_read_message_2 C A hs msg2 of
          (hs, Err e) \<Rightarrow> (p\<lparr>ap_rekey_handshake := Some hs\<rparr>, Err e)
        | (hs, Panic) \<Rightarrow> (p, Panic)
        | (hs, Ok _) \<Rightarrow>
            (case into_session C A hs of
               Err e \<Rightarrow> (p, Err e)
             | Panic \<Rightarrow> (p, Panic)
             | Ok session \<Rightarrow>
                 (p\<lparr>ap_rekey_msg1 := None, ap_rekey_msg1_next_resend := 0, ap_rekey_msg1_resend_count := 0\<rparr>,
                  Ok (session, hs_remote_epoch hs)))))"

definition has_rekey_handshake :: "('s, 'p, 'k) peer \<Rightarrow> bool" where
  "has_rekey_handshake p \<longleftrightarrow> ap_rekey_handshake p \<noteq> None"

definition needs_msg1_resend :: "('s, 'p, 'k) peer \<Rightarrow> u64 \<Rightarrow> bool" where
  "needs_msg1_resend p now_ms \<longleftrightarrow>
     ap_rekey_in_progress p \<and> ap_rekey_msg1 p \<noteq> None \<and> now_ms \<ge> ap_rekey_msg1_next_resend p"

definition set_msg1_next_resend :: "('s, 'p, 'k) peer \<Rightarrow> u64 \<Rightarrow> ('s, 'p, 'k) peer" where
  "set_msg1_next_resend p next_ms = p\<lparr>ap_rekey_msg1_next_resend := next_ms\<rparr>"

definition record_rekey_msg1_resend :: "('s, 'p, 'k) peer \<Rightarrow> u64 \<Rightarrow> ('s, 'p, 'k) peer" where
  "record_rekey_msg1_resend p next_ms = p\<lparr>ap_rekey_msg1_resend_count := saturating_add (ap_rekey_msg1_resend_count p) 1,
     ap_rekey_msg1_next_resend := next_ms\<rparr>"

definition option_and :: "'a option \<Rightarrow> 'b option \<Rightarrow> 'b option" where
  "option_and a b = (case a of Some _ \<Rightarrow> b | None \<Rightarrow> None)"

text \<open>Replacement of the whole session; the Noise session is taken only when its index is kept for draining.\<close>

definition replace_session ::
  "('s, 'p, 'k) peer \<Rightarrow> 'k noise_session \<Rightarrow> session_index \<Rightarrow> session_index \<Rightarrow> instant \<Rightarrow> int
     \<Rightarrow> ('s, 'p, 'k) peer \<times> session_index option" where
  "replace_session p session our their now jitter =
     (let p = fst (abandon_rekey p);
          p = clear_handshake_msg2 p;
          p = fst (reset_replay_suppressed p);
          old = ap_our_index p;
          prev = (case old of Some i \<Rightarrow> (if i \<noteq> our then Some i else None) | None \<Rightarrow> None)
      in (p\<lparr>ap_previous_our_index := prev, ap_previous_session := option_and prev (ap_noise_session p),
            ap_previous_k_bit := map_option (\<lambda>_. ap_current_k_bit p) prev, ap_current_k_bit := False,
            ap_previous_transport_id := option_and prev (ap_transport_id p),
            ap_drain_started := map_option (\<lambda>_. now) prev, ap_noise_session := Some session,
            ap_our_index := Some our, ap_their_index := Some their, ap_session_established_at := now,
            ap_session_start := now, ap_pending_fmp_timestamp_origin := None,
            ap_session_generation := next_generation (ap_session_generation p), ap_rekey_in_progress := False,
            ap_rekey_msg1_resend_count := 0, ap_rekey_jitter_secs := jitter, ap_last_heartbeat_sent := None\<rparr>, old))"

section \<open>The indices a peer holds\<close>

definition opt_list :: "'a option \<Rightarrow> 'a list" where
  "opt_list r = (case r of Some i \<Rightarrow> [i] | None \<Rightarrow> [])"

lemma opt_list_simps [simp]: "opt_list None = []" "opt_list (Some i) = [i]"
  by (simp_all add: opt_list_def)

definition held_indices :: "('s, 'p, 'k) peer \<Rightarrow> session_index list" where
  "held_indices p = opt_list (ap_our_index p) @ opt_list (ap_rekey_our_index p) @
     opt_list (ap_pending_our_index p) @ opt_list (ap_previous_our_index p)"

text \<open>
  What the callers keep true of a peer with a session: it has an index and a transport, a rekey index
  exactly while a rekey is in progress, a pending index exactly with a pending session, never both a
  rekey in progress and a pending session, and a draining index exactly while it drains.
\<close>

definition peer_ok :: "('s, 'p, 'k) peer \<Rightarrow> bool" where
  "peer_ok p \<longleftrightarrow> ap_noise_session p \<noteq> None \<and> ap_our_index p \<noteq> None \<and> ap_transport_id p \<noteq> None \<and>
     (ap_rekey_our_index p \<noteq> None \<longleftrightarrow> ap_rekey_in_progress p) \<and>
     (ap_pending_our_index p \<noteq> None \<longleftrightarrow> ap_pending_new_session p \<noteq> None) \<and>
     \<not> (ap_rekey_in_progress p \<and> ap_pending_new_session p \<noteq> None) \<and>
     (ap_drain_started p \<noteq> None \<longleftrightarrow> ap_previous_our_index p \<noteq> None) \<and> ap_session_generation p \<noteq> 0"

lemma max_one_nonzero [simp]: "max g (1 :: u64) \<noteq> 0"
proof
  assume "max g (1 :: u64) = 0"
  then have "(1 :: u64) \<le> 0" by (metis max.cobounded2)
  then show False by simp
qed

lemma next_generation_nonzero [simp]: "next_generation g \<noteq> 0"
  by (simp add: next_generation_def)

lemma peer_ok_with_session [simp]: "peer_ok (peer_with_session addr pk link t s now jitter)"
  by (simp add: peer_ok_def peer_with_session_def peer_new_def)

lemma held_with_session [simp]: "held_indices (peer_with_session addr pk link t s now jitter) = [aps_our_index s]"
  by (simp add: held_indices_def peer_with_session_def peer_new_def)

lemma set_rekey_state_indices:
  assumes "peer_ok p" "\<not> ap_rekey_in_progress p" "ap_pending_new_session p = None"
  shows "peer_ok (set_rekey_state p hs i m t) \<and>
    mset (held_indices (set_rekey_state p hs i m t)) = add_mset i (mset (held_indices p))"
  using assms by (simp add: peer_ok_def set_rekey_state_def held_indices_def)

lemma abandon_rekey_indices:
  assumes "peer_ok p"
  shows "peer_ok (fst (abandon_rekey p)) \<and> mset (held_indices p) =
    mset (opt_list (snd (abandon_rekey p))) + mset (held_indices (fst (abandon_rekey p)))"
  using assms by (auto simp: peer_ok_def abandon_rekey_def held_indices_def split: option.splits)

lemma confirm_pending_indices:
  assumes "peer_ok p" "ap_pending_new_session p \<noteq> None"
  shows "peer_ok (fst (confirm_pending_session p k now jitter)) \<and> snd (confirm_pending_session p k now jitter) \<noteq> None \<and>
    mset (held_indices p) = mset (opt_list (ap_previous_our_index p)) +
      mset (held_indices (fst (confirm_pending_session p k now jitter)))"
  using assms by (auto simp: peer_ok_def confirm_pending_session_def held_indices_def split: option.splits)

lemma complete_drain_indices:
  assumes "peer_ok p"
  shows "peer_ok (fst (complete_drain p)) \<and> mset (held_indices p) =
    mset (opt_list (snd (complete_drain p))) + mset (held_indices (fst (complete_drain p)))"
  using assms by (auto simp: peer_ok_def complete_drain_def held_indices_def split: option.splits)

lemma set_pending_initiator_indices:
  assumes "peer_ok p" "ap_rekey_our_index p = Some i"
  shows "peer_ok (set_pending_session p s i their b now) \<and>
    mset (held_indices (set_pending_session p s i their b now)) = mset (held_indices p)"
  using assms by (auto simp: peer_ok_def set_pending_session_def held_indices_def)

lemma set_pending_responder_indices:
  assumes "peer_ok p" "ap_rekey_our_index p = None" "ap_pending_our_index p = None"
  shows "peer_ok (set_pending_session p s i their b now) \<and>
    mset (held_indices (set_pending_session p s i their b now)) = add_mset i (mset (held_indices p))"
  using assms by (auto simp: peer_ok_def set_pending_session_def held_indices_def)

lemma replace_session_indices:
  assumes "peer_ok p" "i \<notin> set (held_indices p)"
  shows "peer_ok (fst (replace_session p s i their now jitter)) \<and>
    held_indices (fst (replace_session p s i their now jitter)) = i # opt_list (ap_our_index p)"
  using assms by (auto simp: peer_ok_def replace_session_def held_indices_def abandon_rekey_def clear_handshake_msg2_def
      reset_replay_suppressed_def Let_def option_and_def split: option.splits)

lemma complete_rekey_msg2_indices:
  assumes "peer_ok p"
  shows "peer_ok (fst (complete_rekey_msg2 C A p msg2)) \<and>
    held_indices (fst (complete_rekey_msg2 C A p msg2)) = held_indices p \<and>
    ap_rekey_our_index (fst (complete_rekey_msg2 C A p msg2)) = ap_rekey_our_index p \<and>
    ap_transport_id (fst (complete_rekey_msg2 C A p msg2)) = ap_transport_id p"
  using assms by (auto simp: peer_ok_def complete_rekey_msg2_def held_indices_def Let_def
      split: option.splits outcome.splits prod.splits)

end
