(* ===== verification/Peer_Registry.thy ===== *)
theory Peer_Registry
  imports Active_Peer
begin

text \<open>
  The table of active peers with the dispatch from receiver indices to peers (\<^verbatim>\<open>node/peer_lifecycle.rs\<close> and the
  types of \<^verbatim>\<open>node/peer_runtime.rs\<close>). Connections that are still in their handshake are kept elsewhere
  and are not part of this state.
\<close>

type_synonym index_key = "transport_id \<times> u32"

datatype peer_session_index_kind = Current | Rekey | Pending | Previous

record peer_session_index =
  psi_kind :: peer_session_index_kind
  psi_key :: index_key
  psi_index :: session_index

record registered_peer_session_index =
  rpi_session_index :: peer_session_index
  rpi_previous_owner :: "node_addr option"

record ('s, 'p, 'k) peer_registry =
  pr_peers :: "(node_addr, ('s, 'p, 'k) peer) hmap"
  pr_by_session_index :: "(index_key, node_addr) hmap"

type_synonym ('s, 'p, 'k) registry = "('s, 'p, 'k) peer_registry"

definition registry_new :: "('s, 'p, 'k) registry" where
  "registry_new = \<lparr>pr_peers = [], pr_by_session_index = []\<rparr>"

definition get_peer :: "('s, 'p, 'k) registry \<Rightarrow> node_addr \<Rightarrow> ('s, 'p, 'k) peer option" where
  "get_peer r n = map_of (pr_peers r) n"

definition put_peer :: "('s, 'p, 'k) registry \<Rightarrow> node_addr \<Rightarrow> ('s, 'p, 'k) peer \<Rightarrow> ('s, 'p, 'k) registry" where
  "put_peer r n p = r\<lparr>pr_peers := hm_insert n p (pr_peers r)\<rparr>"

section \<open>Index dispatch\<close>

definition insert_session_index ::
  "('s, 'p, 'k) registry \<Rightarrow> index_key \<Rightarrow> node_addr \<Rightarrow> ('s, 'p, 'k) registry \<times> node_addr option" where
  "insert_session_index r ik n =
     (r\<lparr>pr_by_session_index := hm_insert ik n (pr_by_session_index r)\<rparr>, map_of (pr_by_session_index r) ik)"

definition peer_has_any_index :: "('s, 'p, 'k) registry \<Rightarrow> node_addr \<Rightarrow> bool" where
  "peer_has_any_index r n \<longleftrightarrow> n \<in> snd ` set (pr_by_session_index r)"

definition remove_session_index_with_owner_state ::
  "('s, 'p, 'k) registry \<Rightarrow> index_key \<Rightarrow> ('s, 'p, 'k) registry \<times> (node_addr \<times> bool) option" where
  "remove_session_index_with_owner_state r ik = (case map_of (pr_by_session_index r) ik of
     None \<Rightarrow> (r, None)
   | Some owner \<Rightarrow>
       let r = r\<lparr>pr_by_session_index := hm_remove ik (pr_by_session_index r)\<rparr> in (r, Some (owner, peer_has_any_index r owner)))"

definition lookup_session_index :: "('s, 'p, 'k) registry \<Rightarrow> index_key \<Rightarrow> node_addr option" where
  "lookup_session_index r ik = map_of (pr_by_session_index r) ik"

section \<open>The indices of a peer\<close>

definition active_peer_current_session_index :: "('s, 'p, 'k) peer \<Rightarrow> peer_session_index option" where
  "active_peer_current_session_index p = (case (ap_transport_id p, ap_our_index p) of
     (Some tid, Some i) \<Rightarrow> Some \<lparr>psi_kind = Current, psi_key = (tid, as_u32 i), psi_index = i\<rparr>
   | _ \<Rightarrow> None)"

definition push_index ::
  "peer_session_index_kind \<Rightarrow> transport_id \<Rightarrow> session_index option \<Rightarrow> peer_session_index list \<Rightarrow> peer_session_index list" where
  "push_index kind tid index acc = (case index of
     None \<Rightarrow> acc
   | Some i \<Rightarrow>
       let ik = (tid, as_u32 i) in
       if ik \<in> psi_key ` set acc then acc
       else acc @ [\<lparr>psi_kind = kind, psi_key = ik, psi_index = i\<rparr>])"

definition active_peer_session_indices :: "('s, 'p, 'k) peer \<Rightarrow> peer_session_index list" where
  "active_peer_session_indices p = (case ap_transport_id p of
     None \<Rightarrow> []
   | Some tid \<Rightarrow>
       push_index Previous (case ap_previous_transport_id p of Some t \<Rightarrow> t | None \<Rightarrow> tid) (ap_previous_our_index p)
         (push_index Pending tid (ap_pending_our_index p)
           (push_index Rekey tid (ap_rekey_our_index p) (opt_list (active_peer_current_session_index p)))))"

section \<open>Operations\<close>

definition insert_with_current_session_index ::
  "('s, 'p, 'k) registry \<Rightarrow> node_addr \<Rightarrow> ('s, 'p, 'k) peer
     \<Rightarrow> ('s, 'p, 'k) registry \<times> ('s, 'p, 'k) peer option \<times> registered_peer_session_index option" where
  "insert_with_current_session_index r n p =
     (let previous = get_peer r n; r = put_peer r n p in
      case active_peer_current_session_index p of
        None \<Rightarrow> (r, previous, None)
      | Some si \<Rightarrow>
          (case insert_session_index r (psi_key si) n of
             (r, owner) \<Rightarrow> (r, previous, Some \<lparr>rpi_session_index = si, rpi_previous_owner = owner\<rparr>)))"

datatype current_session_index_registration =
    MissingActivePeer
  | MissingTransportId
  | MissingLocalIndex
  | AlreadyRegistered peer_session_index
  | Repaired registered_peer_session_index

definition ensure_current_session_index_registered ::
  "('s, 'p, 'k) registry \<Rightarrow> node_addr \<Rightarrow> ('s, 'p, 'k) registry \<times> current_session_index_registration" where
  "ensure_current_session_index_registered r n = (case get_peer r n of
     None \<Rightarrow> (r, MissingActivePeer)
   | Some p \<Rightarrow> (case ap_transport_id p of
       None \<Rightarrow> (r, MissingTransportId)
     | Some tid \<Rightarrow> (case ap_our_index p of
         None \<Rightarrow> (r, MissingLocalIndex)
       | Some i \<Rightarrow>
           let si = \<lparr>psi_kind = Current, psi_key = (tid, as_u32 i), psi_index = i\<rparr> in
           if lookup_session_index r (psi_key si) = Some n then (r, AlreadyRegistered si)
           else case insert_session_index r (psi_key si) n of
               (r, owner) \<Rightarrow> (r, Repaired \<lparr>rpi_session_index = si, rpi_previous_owner = owner\<rparr>))))"

definition retire_index ::
  "node_addr \<Rightarrow> peer_session_index list \<Rightarrow> ('s, 'p, 'k) registry \<times> peer_session_index list \<Rightarrow> peer_session_index
     \<Rightarrow> ('s, 'p, 'k) registry \<times> peer_session_index list" where
  "retire_index n retained rs old = (case rs of (r, retired) \<Rightarrow>
     (if psi_key old \<notin> psi_key ` set retained \<and> lookup_session_index r (psi_key old) = Some n
      then fst (remove_session_index_with_owner_state r (psi_key old)) else r,
      if psi_index old \<notin> psi_index ` set retained \<and> psi_index old \<notin> psi_index ` set retired
      then retired @ [old] else retired))"

definition retire_superseded_session_indices ::
  "('s, 'p, 'k) registry \<Rightarrow> node_addr \<Rightarrow> peer_session_index list \<Rightarrow> peer_session_index list
     \<Rightarrow> ('s, 'p, 'k) registry \<times> peer_session_index list" where
  "retire_superseded_session_indices r n old retained = foldl (retire_index n retained) (r, []) old"

definition confirm_pending_peer_session ::
  "('s, 'p, 'k) registry \<Rightarrow> node_addr \<Rightarrow> bool \<Rightarrow> instant \<Rightarrow> int
     \<Rightarrow> ('s, 'p, 'k) registry \<times> peer_session_index list option" where
  "confirm_pending_peer_session r n received_k_bit now jitter = (case get_peer r n of
     None \<Rightarrow> (r, None)
   | Some p \<Rightarrow>
       (case confirm_pending_session p received_k_bit now jitter of
          (p', None) \<Rightarrow> (put_peer r n p', None)
        | (p', Some _) \<Rightarrow>
            (case retire_superseded_session_indices (put_peer r n p') n
                (active_peer_session_indices p) (active_peer_session_indices p') of
               (r, retired) \<Rightarrow> (r, Some retired))))"

definition install_pending_rekey_session_and_index ::
  "('s, 'p, 'k) registry \<Rightarrow> node_addr \<Rightarrow> 'k noise_session \<Rightarrow> session_index \<Rightarrow> session_index \<Rightarrow> bool \<Rightarrow> bytes option
     \<Rightarrow> instant \<Rightarrow> ('s, 'p, 'k) registry \<times> registered_peer_session_index option" where
  "install_pending_rekey_session_and_index r n session our their initiated_by_local new_epoch now = (case get_peer r n of
     None \<Rightarrow> (r, None)
   | Some p \<Rightarrow> (case ap_transport_id p of
       None \<Rightarrow> (r, None)
     | Some tid \<Rightarrow>
         let si = \<lparr>psi_kind = Pending, psi_key = (tid, as_u32 our), psi_index = our\<rparr>;
             p = (if new_epoch \<noteq> None then set_remote_epoch p new_epoch else p);
             p = set_pending_session p session our their initiated_by_local now;
             p = (if \<not> initiated_by_local then record_peer_rekey p now else p)
         in case insert_session_index (put_peer r n p) (psi_key si) n of
             (r, owner) \<Rightarrow> (r, Some \<lparr>rpi_session_index = si, rpi_previous_owner = owner\<rparr>)))"

record 'k session_replacement =
  sr_session :: "'k noise_session"
  sr_our_index :: session_index
  sr_their_index :: session_index
  sr_link_id :: link_id
  sr_transport_id :: transport_id
  sr_addr :: transport_addr
  sr_is_initiator :: bool
  sr_remote_epoch_update :: "bytes option"
  sr_connected_at_ms :: u64

record replaced_session =
  rs_old_link_id :: link_id
  rs_old_session_index :: "peer_session_index option"
  rs_retired_session_indices :: "peer_session_index list"
  rs_new_session_index :: registered_peer_session_index
  rs_replay_suppressed_count :: u32

definition adopt_session ::
  "('s, 'p, 'k) peer \<Rightarrow> 'k session_replacement \<Rightarrow> instant \<Rightarrow> int \<Rightarrow> ('s, 'p, 'k) peer" where
  "adopt_session p x now jitter =
     (let p = fst (replace_session p (sr_session x) (sr_our_index x) (sr_their_index x) now jitter);
          p = set_link_id p (sr_link_id x);
          p = fst (set_current_addr p (sr_transport_id x) (sr_addr x));
          p = fst (clear_preferred_send_addr p);
          p = p\<lparr>ap_fmp_mmp_is_initiator := sr_is_initiator x\<rparr>;
          p = (if sr_remote_epoch_update x \<noteq> None then set_remote_epoch p (sr_remote_epoch_update x) else p)
      in mark_connected p (sr_connected_at_ms x))"

definition replace_current_session_and_path ::
  "('s, 'p, 'k) registry \<Rightarrow> node_addr \<Rightarrow> 'k session_replacement \<Rightarrow> instant \<Rightarrow> int
     \<Rightarrow> ('s, 'p, 'k) registry \<times> replaced_session option" where
  "replace_current_session_and_path r n x now jitter = (case get_peer r n of
     None \<Rightarrow> (r, None)
   | Some p \<Rightarrow>
       let si = \<lparr>psi_kind = Current, psi_key = (sr_transport_id x, as_u32 (sr_our_index x)), psi_index = sr_our_index x\<rparr>;
           p' = adopt_session p x now jitter
       in case retire_superseded_session_indices (put_peer r n p') n
              (active_peer_session_indices p) (active_peer_session_indices p') of
            (r, retired) \<Rightarrow> (case insert_session_index r (psi_key si) n of
              (r, owner) \<Rightarrow> (r, Some \<lparr>rs_old_link_id = ap_link_id p,
                rs_old_session_index = (case active_peer_current_session_index p of
                   Some old \<Rightarrow> if psi_key old \<noteq> psi_key si then Some old else None | None \<Rightarrow> None),
                rs_retired_session_indices = retired,
                rs_new_session_index = \<lparr>rpi_session_index = si, rpi_previous_owner = owner\<rparr>,
                rs_replay_suppressed_count = ap_replay_suppressed_count p\<rparr>)))"

definition record_authenticated_fmp_receive ::
  "('s, 'p, 'k) registry \<Rightarrow> node_addr \<Rightarrow> transport_id \<Rightarrow> transport_addr \<Rightarrow> nat \<Rightarrow> u64 \<Rightarrow> bool \<Rightarrow> bool
     \<Rightarrow> ('s, 'p, 'k) registry \<times> (bool \<times> bool \<times> bool) option" where
  "record_authenticated_fmp_receive r n tid addr packet_len timestamp_ms liveness_allowed path_allowed =
     (case get_peer r n of
        None \<Rightarrow> (r, None)
      | Some p \<Rightarrow>
          let p = reset_decrypt_failures p;
              (p, changed) = (if path_allowed then set_current_addr p tid addr else (p, False));
              p = (if liveness_allowed
                   then touch (p\<lparr>ap_link_stats := stats_record_recv (ap_link_stats p) packet_len timestamp_ms\<rparr>) timestamp_ms
                   else p)
          in (put_peer r n p, Some (changed, path_allowed, liveness_allowed)))"

definition record_fmp_send_bookkeeping :: "('s, 'p, 'k) registry \<Rightarrow> node_addr \<Rightarrow> nat \<Rightarrow> ('s, 'p, 'k) registry \<times> bool" where
  "record_fmp_send_bookkeeping r n bytes_sent = (case get_peer r n of
     None \<Rightarrow> (r, False)
   | Some p \<Rightarrow> (put_peer r n (p\<lparr>ap_link_stats := stats_record_sent (ap_link_stats p) bytes_sent\<rparr>), True))"

definition mark_link_dead_direct_path :: "('s, 'p, 'k) registry \<Rightarrow> node_addr \<Rightarrow> ('s, 'p, 'k) registry \<times> link_id option" where
  "mark_link_dead_direct_path r n = (case get_peer r n of
     None \<Rightarrow> (r, None)
   | Some p \<Rightarrow> (put_peer r n (mark_stale p), Some (ap_link_id p)))"

definition registry_remove ::
  "('s, 'p, 'k) registry \<Rightarrow> node_addr \<Rightarrow> ('s, 'p, 'k) registry \<times> ('s, 'p, 'k) peer option" where
  "registry_remove r n = (r\<lparr>pr_peers := hm_remove n (pr_peers r)\<rparr>, get_peer r n)"

definition remove_with_session_indices ::
  "('s, 'p, 'k) registry \<Rightarrow> node_addr \<Rightarrow> ('s, 'p, 'k) registry \<times> (('s, 'p, 'k) peer \<times> peer_session_index list) option" where
  "remove_with_session_indices r n = (case get_peer r n of
     None \<Rightarrow> (r, None)
   | Some p \<Rightarrow> (r\<lparr>pr_peers := hm_remove n (pr_peers r)\<rparr>, Some (p, active_peer_session_indices p)))"

end
