(* ===== verification/Peer_Rekey.thy ===== *)
theory Peer_Rekey
  imports Peer_Registry Fmp_Wire
begin

text \<open>
  Rotation of link keys (\<^verbatim>\<open>node/handlers/rekey.rs\<close>, \<^verbatim>\<open>node/handlers/rekey/recovery.rs\<close>, the rekey branches of
  \<^verbatim>\<open>node/handlers/handshake.rs\<close> and \<^verbatim>\<open>node/handlers/handshake/msg2.rs\<close>, the cutover of
  \<^verbatim>\<open>node/dataplane_pending.rs\<close>, the failure counter of \<^verbatim>\<open>node/handlers/encrypted.rs\<close> and the release of indices
  when a peer is removed). The state is the peer table, the index allocator and the table of handshakes that
  await their second message; clocks, random draws, whether a send succeeds and what the data plane answers
  are arguments. The promotion of an authenticated connection (\<^verbatim>\<open>node/handlers/handshake/promotion.rs\<close>) is
  here with every branch that touches indices; the arbitration between connections reads transports and the data plane and
  is an argument. Session indices are accounted for in \<open>Rekey_Accounting\<close>.
\<close>

definition FMP_DRAIN_WINDOW_SECS :: u64 where "FMP_DRAIN_WINDOW_SECS = 10"
definition REKEY_DAMPENING_SECS :: u64 where "REKEY_DAMPENING_SECS = 30"
definition FMP_CUTOVER_DELAY_MS :: nat where "FMP_CUTOVER_DELAY_MS = 250"
definition DECRYPT_FAILURE_THRESHOLD :: u32 where "DECRYPT_FAILURE_THRESHOLD = 4"

record ('s, 'p, 'k) rekey_node =
  rn_reg :: "('s, 'p, 'k) registry"
  rn_alloc :: index_allocator
  rn_pending_outbound :: "(index_key, link_id) hmap"
  rn_node_addr :: node_addr
  rn_static :: 's
  rn_startup_epoch :: bytes
  rn_rekey_enabled :: bool
  rn_after_secs :: u64
  rn_after_messages :: u64
  rn_handshake_timeout_secs :: u64
  rn_resend_interval_ms :: u64
  rn_max_resends :: u32

type_synonym ('s, 'p, 'k) node = "('s, 'p, 'k) rekey_node"

section \<open>Releasing indices\<close>

definition node_get :: "('s, 'p, 'k) node \<Rightarrow> node_addr \<Rightarrow> ('s, 'p, 'k) peer option" where
  "node_get s n = get_peer (rn_reg s) n"

definition node_put :: "('s, 'p, 'k) node \<Rightarrow> node_addr \<Rightarrow> ('s, 'p, 'k) peer \<Rightarrow> ('s, 'p, 'k) node" where
  "node_put s n p = s\<lparr>rn_reg := put_peer (rn_reg s) n p\<rparr>"

definition free_index :: "('s, 'p, 'k) node \<Rightarrow> session_index \<Rightarrow> ('s, 'p, 'k) node" where
  "free_index s i = s\<lparr>rn_alloc := fst (free (rn_alloc s) i)\<rparr>"

definition deregister_session_index :: "('s, 'p, 'k) node \<Rightarrow> index_key \<Rightarrow> ('s, 'p, 'k) node" where
  "deregister_session_index s ik = s\<lparr>rn_reg := fst (remove_session_index_with_owner_state (rn_reg s) ik)\<rparr>"

definition forget_outbound :: "('s, 'p, 'k) node \<Rightarrow> index_key \<Rightarrow> ('s, 'p, 'k) node" where
  "forget_outbound s ik = s\<lparr>rn_pending_outbound := hm_remove ik (rn_pending_outbound s)\<rparr>"

definition free_retired_peer_session_indices :: "('s, 'p, 'k) node \<Rightarrow> peer_session_index list \<Rightarrow> ('s, 'p, 'k) node" where
  "free_retired_peer_session_indices s retired =
     foldl (\<lambda>s x. free_index (forget_outbound s (psi_key x)) (psi_index x)) s retired"

definition abandon_fmp_rekey_for_peer :: "('s, 'p, 'k) node \<Rightarrow> node_addr \<Rightarrow> ('s, 'p, 'k) node \<times> bool" where
  "abandon_fmp_rekey_for_peer s n = (case node_get s n of
     None \<Rightarrow> (s, False)
   | Some p \<Rightarrow>
       (case abandon_rekey (clear_handshake_msg2 p) of
          (p', None) \<Rightarrow> (node_put s n p', False)
        | (p', Some i) \<Rightarrow>
            let s = node_put s n p';
                s = (case ap_transport_id p of
                       Some tid \<Rightarrow> deregister_session_index (forget_outbound s (tid, as_u32 i)) (tid, as_u32 i)
                     | None \<Rightarrow> s)
            in (free_index s i, True)))"

definition expire_unconfirmed_fmp_rekeys :: "('s, 'p, 'k) node \<Rightarrow> instant \<Rightarrow> ('s, 'p, 'k) node" where
  "expire_unconfirmed_fmp_rekeys s now =
     (let timeout = from_secs (unat (rn_handshake_timeout_secs s));
          expired = map fst (filter (\<lambda>(_, p). unconfirmed_rekey_expired p now timeout) (pr_peers (rn_reg s)))
      in foldl (\<lambda>s n. fst (abandon_fmp_rekey_for_peer s n)) s expired)"

definition retire_fmp_rekey_drain_for_dead_path :: "('s, 'p, 'k) node \<Rightarrow> node_addr \<Rightarrow> ('s, 'p, 'k) node \<times> bool" where
  "retire_fmp_rekey_drain_for_dead_path s n = (case node_get s n of
     None \<Rightarrow> (s, False)
   | Some p \<Rightarrow>
       let transport = (case ap_previous_transport_id p of Some t \<Rightarrow> Some t | None \<Rightarrow> ap_transport_id p) in
       (case complete_drain p of
          (p', None) \<Rightarrow> (node_put s n p', False)
        | (p', Some i) \<Rightarrow>
            let s = node_put s n p';
                s = (case transport of Some tid \<Rightarrow> deregister_session_index s (tid, as_u32 i) | None \<Rightarrow> s)
            in (free_index s i, True)))"

section \<open>Initiation\<close>

text \<open>What one initiation meets: a connection already in progress on the path, the random draws of the
  allocator, the random bytes of the handshake and whether the transport takes the message.\<close>

record initiation_env =
  ie_connecting :: bool
  ie_draws :: "nat \<Rightarrow> u32"
  ie_random :: bytes
  ie_send_ok :: bool
  ie_now_ms :: u64

text \<open>The handshake writes its first message with both the static key and the epoch set, so that message
  either is produced or fails with an error.\<close>

definition initiate_rekey ::
  "('s, 'p) curve \<Rightarrow> 'k aead \<Rightarrow> initiation_env \<Rightarrow> ('s, 'p, 'k) node \<Rightarrow> node_addr \<Rightarrow> ('s, 'p, 'k) node \<times> bool" where
  "initiate_rekey C A env s n = (case node_get s n of
     None \<Rightarrow> (s, False)
   | Some p \<Rightarrow> (case (ap_transport_id p, ap_current_addr p) of
       (Some tid, Some _) \<Rightarrow>
         if ie_connecting env then (s, False)
         else (case allocate (ie_draws env) (rn_alloc s) of
             (alloc, Ok i) \<Rightarrow>
               let s = s\<lparr>rn_alloc := alloc\<rparr>;
                   hs = set_local_epoch (new_initiator C (rn_static s) (ap_pubkey p)) (rn_startup_epoch s)
               in (case write_message_1 C A hs (ie_random env) of
                  (hs, Ok noise_msg1) \<Rightarrow>
                    let s = node_put s n (set_rekey_state p hs i (build_msg1 i noise_msg1) (ie_now_ms env + rn_resend_interval_ms s));
                        s = s\<lparr>rn_pending_outbound := hm_insert (tid, as_u32 i) (ap_link_id p) (rn_pending_outbound s)\<rparr>
                    in if ie_send_ok env then (s, True) else (fst (abandon_fmp_rekey_for_peer s n), False)
                | (_, _) \<Rightarrow> (free_index s i, False))
           | (alloc, _) \<Rightarrow> (s\<lparr>rn_alloc := alloc\<rparr>, False))
     | _ \<Rightarrow> (s, False)))"

definition saturating_add_signed :: "u64 \<Rightarrow> int \<Rightarrow> u64" where
  "saturating_add_signed a j = word_of_int (max 0 (min (uint a + j) (2 ^ 64 - 1)))"

definition current_send_counter :: "'k noise_session \<Rightarrow> u64" where
  "current_send_counter s = send_counter s"

datatype rekey_plan = Cutover | Plan bool bool

text \<open>The decision for one peer: a cutover alone, or whether its drain ends and whether a rekey starts.\<close>

definition plan_peer :: "u64 \<Rightarrow> u64 \<Rightarrow> instant \<Rightarrow> ('s, 'p, 'k) peer \<Rightarrow> rekey_plan" where
  "plan_peer after_secs after_messages now p =
     (if \<not> has_session p then Plan False False
      else if ap_pending_new_session p \<noteq> None \<and> \<not> ap_rekey_in_progress p
        \<and> pending_rekey_cutover_due p (from_millis FMP_CUTOVER_DELAY_MS) now then Cutover
      else
        let drain = is_draining p \<and> drain_expired p FMP_DRAIN_WINDOW_SECS now in
        if \<not> is_healthy p then Plan drain False
        else if ap_rekey_in_progress p \<or> ap_pending_new_session p \<noteq> None \<or> is_draining p
          \<or> is_rekey_dampened p REKEY_DAMPENING_SECS now then Plan drain False
        else
          let elapsed = duration_since now (ap_session_established_at p) div 1000000000;
              counter = (case ap_noise_session p of Some x \<Rightarrow> current_send_counter x | None \<Rightarrow> 0)
          in Plan drain (elapsed \<ge> unat (saturating_add_signed after_secs (ap_rekey_jitter_secs p)) \<or> counter \<ge> after_messages))"

definition plan_fmp_rekey_tick ::
  "('s, 'p, 'k) registry \<Rightarrow> u64 \<Rightarrow> u64 \<Rightarrow> instant \<Rightarrow> node_addr list \<times> node_addr list \<times> node_addr list" where
  "plan_fmp_rekey_tick r after_secs after_messages now =
     (let plans = map (\<lambda>(n, p). (n, plan_peer after_secs after_messages now p)) (pr_peers r) in
      (map fst (filter (\<lambda>(_, d). d = Cutover) plans),
       map fst (filter (\<lambda>(_, d). case d of Plan drain _ \<Rightarrow> drain | Cutover \<Rightarrow> False) plans),
       map fst (filter (\<lambda>(_, d). case d of Plan _ initiate \<Rightarrow> initiate | Cutover \<Rightarrow> False) plans)))"

section \<open>The tick\<close>

definition cutover_due_fmp_rekey ::
  "('s, 'p, 'k) registry \<Rightarrow> node_addr \<Rightarrow> instant \<Rightarrow> int \<Rightarrow> ('s, 'p, 'k) registry \<times> peer_session_index list option" where
  "cutover_due_fmp_rekey r n now jitter = (case get_peer r n of
     None \<Rightarrow> (r, None)
   | Some p \<Rightarrow>
       if ap_pending_new_session p = None \<or> ap_rekey_in_progress p
         \<or> \<not> pending_rekey_cutover_due p (from_millis FMP_CUTOVER_DELAY_MS) now then (r, None)
       else confirm_pending_peer_session r n (\<not> ap_current_k_bit p) now jitter)"

definition node_cutover :: "instant \<Rightarrow> int \<Rightarrow> ('s, 'p, 'k) node \<Rightarrow> node_addr \<Rightarrow> ('s, 'p, 'k) node" where
  "node_cutover now jitter s n = (case cutover_due_fmp_rekey (rn_reg s) n now jitter of
     (r, None) \<Rightarrow> s\<lparr>rn_reg := r\<rparr>
   | (r, Some retired) \<Rightarrow>
       let s = free_retired_peer_session_indices (s\<lparr>rn_reg := r\<rparr>) retired
       in s\<lparr>rn_reg := fst (ensure_current_session_index_registered (rn_reg s) n)\<rparr>)"

definition complete_due_fmp_rekey_drain ::
  "('s, 'p, 'k) registry \<Rightarrow> node_addr \<Rightarrow> instant \<Rightarrow> ('s, 'p, 'k) registry \<times> (transport_id option \<times> session_index) option" where
  "complete_due_fmp_rekey_drain r n now = (case get_peer r n of
     None \<Rightarrow> (r, None)
   | Some p \<Rightarrow>
       if \<not> is_draining p \<or> \<not> drain_expired p FMP_DRAIN_WINDOW_SECS now then (r, None)
       else
         let transport = (case ap_previous_transport_id p of Some t \<Rightarrow> Some t | None \<Rightarrow> ap_transport_id p) in
         (case complete_drain p of
            (p', None) \<Rightarrow> (put_peer r n p', None)
          | (p', Some i) \<Rightarrow> (put_peer r n p', Some (transport, i))))"

text \<open>The tick frees a drained index only when a transport is known for it.\<close>

definition node_drain :: "instant \<Rightarrow> ('s, 'p, 'k) node \<Rightarrow> node_addr \<Rightarrow> ('s, 'p, 'k) node" where
  "node_drain now s n = (case complete_due_fmp_rekey_drain (rn_reg s) n now of
     (r, None) \<Rightarrow> s\<lparr>rn_reg := r\<rparr>
   | (r, Some (transport, i)) \<Rightarrow>
       let s = s\<lparr>rn_reg := r\<rparr> in
       (case transport of
          Some tid \<Rightarrow> free_index (deregister_session_index s (tid, as_u32 i)) i
        | None \<Rightarrow> s))"

definition check_rekey ::
  "('s, 'p) curve \<Rightarrow> 'k aead \<Rightarrow> (node_addr \<Rightarrow> initiation_env) \<Rightarrow> (node_addr \<Rightarrow> int) \<Rightarrow> instant
     \<Rightarrow> ('s, 'p, 'k) node \<Rightarrow> ('s, 'p, 'k) node" where
  "check_rekey C A env jitter now s =
     (let s = expire_unconfirmed_fmp_rekeys s now in
      case plan_fmp_rekey_tick (rn_reg s) (rn_after_secs s) (rn_after_messages s) now of
        (cutover, drain, initiate) \<Rightarrow>
          let s = foldl (\<lambda>s n. node_cutover now (jitter n) s n) s cutover;
              s = foldl (node_drain now) s drain
          in if \<not> rn_rekey_enabled s then s
             else foldl (\<lambda>s n. fst (initiate_rekey C A (env n) s n)) s initiate)"

section \<open>Retransmission\<close>

definition msg1_resend_due :: "('s, 'p, 'k) peer \<Rightarrow> u64 \<Rightarrow> bool" where
  "msg1_resend_due p now_ms \<longleftrightarrow> ap_rekey_in_progress p \<and> ap_rekey_msg1 p \<noteq> None \<and> needs_msg1_resend p now_ms"

definition exhaust_msg1 :: "('s, 'p, 'k) node \<Rightarrow> node_addr \<Rightarrow> ('s, 'p, 'k) node" where
  "exhaust_msg1 s n = (case node_get s n of
     None \<Rightarrow> s
   | Some p \<Rightarrow>
       (case abandon_rekey p of
          (p', None) \<Rightarrow> node_put s n p'
        | (p', Some i) \<Rightarrow>
            let s = node_put s n p';
                s = (case ap_transport_id p of
                       Some tid \<Rightarrow> deregister_session_index (forget_outbound s (tid, as_u32 i)) (tid, as_u32 i)
                     | None \<Rightarrow> s)
            in free_index s i))"

text \<open>\<open>delay\<close> is the backoff of the \<open>count\<close>-th retransmission, a floating-point power cast to an integer.\<close>

definition record_scheduled_fmp_rekey_msg1_resend ::
  "(u32 \<Rightarrow> u64) \<Rightarrow> ('s, 'p, 'k) node \<Rightarrow> node_addr \<Rightarrow> u64 \<Rightarrow> ('s, 'p, 'k) node" where
  "record_scheduled_fmp_rekey_msg1_resend delay s n now_ms = (case node_get s n of
     None \<Rightarrow> s
   | Some p \<Rightarrow> node_put s n (record_rekey_msg1_resend p (now_ms + delay (ap_rekey_msg1_resend_count p + 1))))"

definition resend_pending_rekeys :: "(u32 \<Rightarrow> u64) \<Rightarrow> u64 \<Rightarrow> ('s, 'p, 'k) node \<Rightarrow> ('s, 'p, 'k) node \<times> (transport_id \<times> transport_addr \<times> bytes) list" where
  "resend_pending_rekeys delay now_ms s =
     (if \<not> rn_rekey_enabled s then (s, [])
      else
        let exhausted = map fst (filter (\<lambda>(_, p). msg1_resend_due p now_ms \<and> ap_rekey_msg1_resend_count p \<ge> rn_max_resends s)
              (pr_peers (rn_reg s)));
            s = foldl exhaust_msg1 s exhausted;
            due = filter (\<lambda>(_, p). msg1_resend_due p now_ms \<and> ap_rekey_msg1_resend_count p < rn_max_resends s)
              (pr_peers (rn_reg s));
            resends = List.map_filter (\<lambda>(n, p). case (ap_transport_id p, ap_current_addr p, ap_rekey_msg1 p) of
                (Some tid, Some addr, Some msg1) \<Rightarrow> Some (n, tid, addr, msg1) | _ \<Rightarrow> None) due
        in (foldl (\<lambda>s (n, _). record_scheduled_fmp_rekey_msg1_resend delay s n now_ms) s resends, map snd resends))"

section \<open>The second message\<close>

definition rekey_peer_for :: "('s, 'p, 'k) node \<Rightarrow> session_index \<Rightarrow> node_addr option" where
  "rekey_peer_for s i = map_option fst
     (find (\<lambda>(_, p). ap_rekey_in_progress p \<and> ap_rekey_our_index p = Some i) (pr_peers (rn_reg s)))"

definition abandon_with_index :: "('s, 'p, 'k) node \<Rightarrow> node_addr \<Rightarrow> ('s, 'p, 'k) node" where
  "abandon_with_index s n = (case node_get s n of
     None \<Rightarrow> s
   | Some p \<Rightarrow>
       (case abandon_rekey p of
          (p', None) \<Rightarrow> node_put s n p'
        | (p', Some i) \<Rightarrow>
            let s = node_put s n p';
                s = (case ap_transport_id p of Some tid \<Rightarrow> deregister_session_index s (tid, as_u32 i) | None \<Rightarrow> s)
            in free_index s i))"

definition handle_rekey_msg2 ::
  "('s, 'p) curve \<Rightarrow> 'k aead \<Rightarrow> ('s, 'p, 'k) node \<Rightarrow> index_key \<Rightarrow> session_index \<Rightarrow> session_index \<Rightarrow> bytes \<Rightarrow> instant
     \<Rightarrow> (noise_error, ('s, 'p, 'k) node) outcome" where
  "handle_rekey_msg2 C A s ik receiver_idx sender_idx noise_msg2 now =
     (case rekey_peer_for s receiver_idx of
        None \<Rightarrow> Ok (forget_outbound s ik)
      | Some n \<Rightarrow> (case node_get s n of
          None \<Rightarrow> Ok (forget_outbound s ik)
        | Some p \<Rightarrow>
            (case complete_rekey_msg2 C A p noise_msg2 of
               (p, Panic) \<Rightarrow> Panic
             | (p, Err e) \<Rightarrow>
                 if has_rekey_handshake p then Ok (node_put s n p)
                 else Ok (forget_outbound (abandon_with_index (node_put s n p) n) ik)
             | (p, Ok (session, epoch)) \<Rightarrow>
                 let our = (case ap_rekey_our_index p of Some i \<Rightarrow> i | None \<Rightarrow> receiver_idx);
                     s = node_put s n p
                 in (case install_pending_rekey_session_and_index (rn_reg s) n session our sender_idx True epoch now of
                       (r, Some _) \<Rightarrow> Ok (forget_outbound (s\<lparr>rn_reg := r\<rparr>) ik)
                     | (r, None) \<Rightarrow> Ok (forget_outbound (abandon_with_index (s\<lparr>rn_reg := r\<rparr>) n) ik)))))"

section \<open>The first message of the other side\<close>

record 'k msg1_env =
  me_sender_idx :: session_index
  me_established_rekey :: bool
  me_session :: "'k noise_session option"
  me_msg2_response :: bytes
  me_draws :: "nat \<Rightarrow> u32"
  me_route_ready :: bool
  me_epoch_ready :: bool
  me_send_ok :: bool
  me_now :: instant
  me_now_ms :: u64

datatype msg1_result = ResentMsg2 bytes | NotARekey | Dropped | Responded bytes | Failed

text \<open>The responder installs the new session and its index before it answers, and takes both back when the
  data plane cannot stage them or the answer cannot be sent.\<close>

definition install_responder_rekey ::
  "('s, 'p, 'k) node \<Rightarrow> node_addr \<Rightarrow> 'k msg1_env \<Rightarrow> ('s, 'p, 'k) node \<times> msg1_result" where
  "install_responder_rekey s n e = (case allocate (me_draws e) (rn_alloc s) of
     (alloc, Ok i) \<Rightarrow>
       let s = s\<lparr>rn_alloc := alloc\<rparr> in
       (case me_session e of
          None \<Rightarrow> (free_index s i, Failed)
        | Some session \<Rightarrow>
            let wire_msg2 = build_msg2 i (me_sender_idx e) (me_msg2_response e) in
            (case install_pending_rekey_session_and_index (rn_reg s) n session i (me_sender_idx e) False None (me_now e) of
               (r, None) \<Rightarrow> (free_index (s\<lparr>rn_reg := r\<rparr>) i, Failed)
             | (r, Some _) \<Rightarrow>
                 let s = s\<lparr>rn_reg := r\<rparr>;
                     s = (case node_get s n of Some p \<Rightarrow> node_put s n (set_handshake_msg2 p wire_msg2 (me_now_ms e)) | None \<Rightarrow> s)
                 in if \<not> (me_route_ready e \<and> me_epoch_ready e) then (fst (abandon_fmp_rekey_for_peer s n), Failed)
                    else if \<not> me_send_ok e then (fst (abandon_fmp_rekey_for_peer s n), Failed)
                    else (s, Responded wire_msg2)))
   | (alloc, _) \<Rightarrow> (s\<lparr>rn_alloc := alloc\<rparr>, Failed))"

definition abandon_losing_rekey :: "('s, 'p, 'k) node \<Rightarrow> node_addr \<Rightarrow> ('s, 'p, 'k) node" where
  "abandon_losing_rekey s n = (case node_get s n of
     None \<Rightarrow> s
   | Some p \<Rightarrow>
       (case abandon_rekey p of
          (p', None) \<Rightarrow> node_put s n p'
        | (p', Some i) \<Rightarrow>
            let s = node_put s n p';
                s = (case ap_transport_id p of
                       Some tid \<Rightarrow> forget_outbound (deregister_session_index s (tid, as_u32 i)) (tid, as_u32 i)
                     | None \<Rightarrow> s)
            in free_index s i))"

definition duplicate_rekey_msg2 :: "('s, 'p, 'k) peer \<Rightarrow> session_index \<Rightarrow> bytes option" where
  "duplicate_rekey_msg2 p sender_idx =
     (if ap_pending_their_index p = Some sender_idx \<or> (is_draining p \<and> ap_their_index p = Some sender_idx)
      then map_option fst (ap_handshake_msg2 p) else None)"

definition respond_rekey_msg1 ::
  "('s, 'p, 'k) node \<Rightarrow> node_addr \<Rightarrow> 'k msg1_env \<Rightarrow> ('s, 'p, 'k) node \<times> msg1_result" where
  "respond_rekey_msg1 s n e = (case node_get s n of
     None \<Rightarrow> (s, NotARekey)
   | Some p \<Rightarrow> (case duplicate_rekey_msg2 p (me_sender_idx e) of
       Some msg2 \<Rightarrow> (s, ResentMsg2 msg2)
     | None \<Rightarrow>
         if \<not> me_established_rekey e then (s, NotARekey)
         else if ap_pending_new_session p \<noteq> None \<and> ap_pending_rekey_initiator p then (s, Dropped)
         else
           let local_rekey_in_progress = ap_rekey_in_progress p;
               s = (if ap_pending_new_session p \<noteq> None then fst (abandon_fmp_rekey_for_peer s n) else s)
           in if local_rekey_in_progress \<and> rn_node_addr s < n then (s, Dropped)
              else install_responder_rekey (if local_rekey_in_progress then abandon_losing_rekey s n else s) n e))"

section \<open>Cutover by the responder, replacement, removal\<close>

definition promote_authenticated_pending_epoch ::
  "('s, 'p, 'k) node \<Rightarrow> node_addr \<Rightarrow> bool \<Rightarrow> bool \<Rightarrow> instant \<Rightarrow> int \<Rightarrow> ('s, 'p, 'k) node \<times> bool" where
  "promote_authenticated_pending_epoch s n confirmed received_k_bit now jitter =
     (if (case node_get s n of None \<Rightarrow> True | Some p \<Rightarrow> ap_pending_new_session p = None) \<or> \<not> confirmed then (s, False)
      else (case confirm_pending_peer_session (rn_reg s) n received_k_bit now jitter of
          (r, None) \<Rightarrow> (s\<lparr>rn_reg := r\<rparr>, False)
        | (r, Some retired) \<Rightarrow>
            let s = free_retired_peer_session_indices (s\<lparr>rn_reg := r\<rparr>) retired
            in (s\<lparr>rn_reg := fst (ensure_current_session_index_registered (rn_reg s) n)\<rparr>, True)))"

definition replace_peer_session ::
  "('s, 'p, 'k) node \<Rightarrow> node_addr \<Rightarrow> 'k session_replacement \<Rightarrow> instant \<Rightarrow> int \<Rightarrow> ('s, 'p, 'k) node" where
  "replace_peer_session s n x now jitter = (case replace_current_session_and_path (rn_reg s) n x now jitter of
     (r, None) \<Rightarrow> s\<lparr>rn_reg := r\<rparr>
   | (r, Some replaced) \<Rightarrow> free_retired_peer_session_indices (s\<lparr>rn_reg := r\<rparr>) (rs_retired_session_indices replaced))"

definition release_removed :: "('s, 'p, 'k) node \<Rightarrow> peer_session_index \<Rightarrow> ('s, 'p, 'k) node" where
  "release_removed s x =
     (let s = (if psi_kind x = Rekey then forget_outbound s (psi_key x) else s)
      in free_index (deregister_session_index s (psi_key x)) (psi_index x))"

definition remove_active_peer :: "('s, 'p, 'k) node \<Rightarrow> node_addr \<Rightarrow> ('s, 'p, 'k) node" where
  "remove_active_peer s n = (case remove_with_session_indices (rn_reg s) n of
     (r, None) \<Rightarrow> s\<lparr>rn_reg := r\<rparr>
   | (r, Some (_, removed)) \<Rightarrow> foldl release_removed (s\<lparr>rn_reg := r\<rparr>) removed)"

definition node_remove_peer :: "('s, 'p, 'k) node \<Rightarrow> node_addr \<Rightarrow> ('s, 'p, 'k) node \<times> ('s, 'p, 'k) peer option" where
  "node_remove_peer s n = (case registry_remove (rn_reg s) n of (r, p) \<Rightarrow> (s\<lparr>rn_reg := r\<rparr>, p))"

section \<open>Promotion of an authenticated connection\<close>

text \<open>What the promotion takes from the connection, and three answers of other components: whether this
  connection wins the arbitration against an existing peer, whether the roster has room for a new
  one, and whether the data plane takes over the connection's pending state.\<close>

record ('p, 'k) promotion =
  pm_pubkey :: 'p
  pm_link_id :: link_id
  pm_session :: "'k active_peer_session"
  pm_preferred_send_addr :: "transport_addr option"
  pm_announce_min_interval_ms :: u64
  pm_wins :: bool
  pm_admitted :: bool
  pm_transferred :: bool
  pm_now_ms :: u64
  pm_now :: instant
  pm_jitter :: int

datatype promotion_result =
    Promoted node_addr
  | CrossConnectionLost link_id
  | CrossConnectionWon link_id node_addr

datatype promotion_error = PromotionFailed | MaxPeersExceeded

definition promoted_peer :: "node_addr \<Rightarrow> ('p, 'k) promotion \<Rightarrow> ('s, 'p, 'k) peer" where
  "promoted_peer n m =
     (let p = peer_with_session n (pm_pubkey m) (pm_link_id m) (pm_now_ms m) (pm_session m) (pm_now m) (pm_jitter m);
          p = (case pm_preferred_send_addr m of Some a \<Rightarrow> fst (set_preferred_send_addr p a) | None \<Rightarrow> p)
      in set_tree_announce_min_interval_ms p (pm_announce_min_interval_ms m))"

text \<open>The transfer of the connection's counters and time origin touches no index and is left out.\<close>

definition sync_promoted_handshake ::
  "('s, 'p, 'k) node \<Rightarrow> node_addr \<Rightarrow> ('p, 'k) promotion \<Rightarrow> promotion_result
     \<Rightarrow> ('s, 'p, 'k) node \<times> (promotion_error, promotion_result) outcome" where
  "sync_promoted_handshake s n m result =
     (if pm_transferred m then (s, Ok result) else (remove_active_peer s n, Err PromotionFailed))"

definition insert_promoted :: "('s, 'p, 'k) node \<Rightarrow> node_addr \<Rightarrow> ('p, 'k) promotion \<Rightarrow> ('s, 'p, 'k) node" where
  "insert_promoted s n m = s\<lparr>rn_reg := fst (insert_with_current_session_index (rn_reg s) n (promoted_peer n m))\<rparr>"

definition remote_epoch_changed :: "bytes option \<Rightarrow> bytes option \<Rightarrow> bool" where
  "remote_epoch_changed existing fresh = (case (existing, fresh) of (Some e, Some e') \<Rightarrow> e \<noteq> e' | _ \<Rightarrow> False)"

text \<open>A restarted peer: the old peer is dropped and of its indices only the current one is given back.\<close>

definition replace_restarted_peer ::
  "('s, 'p, 'k) node \<Rightarrow> node_addr \<Rightarrow> ('s, 'p, 'k) peer \<Rightarrow> ('p, 'k) promotion \<Rightarrow> ('s, 'p, 'k) node" where
  "replace_restarted_peer s n old m =
     (let s = fst (node_remove_peer s n);
          s = (case (ap_transport_id old, ap_our_index old) of
                 (Some tid, Some i) \<Rightarrow> free_index (deregister_session_index s (tid, as_u32 i)) i
               | _ \<Rightarrow> s)
      in insert_promoted s n m)"

definition promotion_replacement :: "('p, 'k) promotion \<Rightarrow> 'k session_replacement" where
  "promotion_replacement m =
     (let x = pm_session m in
      \<lparr>sr_session = aps_session x, sr_our_index = aps_our_index x, sr_their_index = aps_their_index x,
       sr_link_id = pm_link_id m, sr_transport_id = aps_transport_id x, sr_addr = aps_current_addr x,
       sr_is_initiator = aps_is_initiator x, sr_remote_epoch_update = aps_remote_epoch x,
       sr_connected_at_ms = pm_now_ms m\<rparr>)"

definition promote_connection ::
  "('s, 'p, 'k) node \<Rightarrow> node_addr \<Rightarrow> ('p, 'k) promotion
     \<Rightarrow> ('s, 'p, 'k) node \<times> (promotion_error, promotion_result) outcome" where
  "promote_connection s n m = (case node_get s n of
     Some old \<Rightarrow>
       if remote_epoch_changed (ap_remote_epoch old) (aps_remote_epoch (pm_session m)) then
         sync_promoted_handshake (replace_restarted_peer s n old m) n m (CrossConnectionWon (ap_link_id old) n)
       else if pm_wins m then
         let s = replace_peer_session s n (promotion_replacement m) (pm_now m) (pm_jitter m);
             s = (case (pm_preferred_send_addr m, node_get s n) of
                    (Some a, Some p) \<Rightarrow> node_put s n (fst (set_preferred_send_addr p a))
                  | _ \<Rightarrow> s)
         in sync_promoted_handshake s n m (CrossConnectionWon (ap_link_id old) n)
       else (free_index s (aps_our_index (pm_session m)), Ok (CrossConnectionLost (ap_link_id old)))
   | None \<Rightarrow>
       if \<not> pm_admitted m then (free_index s (aps_our_index (pm_session m)), Err MaxPeersExceeded)
       else sync_promoted_handshake (insert_promoted s n m) n m (Promoted n))"

datatype decrypt_failure_action = NoAction | StartRecoveryRekey u32 | AwaitRecovery u32 | RemovePeer u32

definition decrypt_failure_action_for :: "bool \<Rightarrow> ('s, 'p, 'k) peer \<Rightarrow> u32 \<Rightarrow> decrypt_failure_action" where
  "decrypt_failure_action_for rekey_enabled p n =
     (if n < DECRYPT_FAILURE_THRESHOLD then NoAction
      else if rekey_enabled \<and> has_session p then
        (if \<not> ap_rekey_in_progress p \<and> ap_pending_new_session p = None then StartRecoveryRekey n else AwaitRecovery n)
      else RemovePeer n)"

definition handle_decrypt_failure ::
  "('s, 'p) curve \<Rightarrow> 'k aead \<Rightarrow> initiation_env \<Rightarrow> ('s, 'p, 'k) node \<Rightarrow> node_addr \<Rightarrow> ('s, 'p, 'k) node" where
  "handle_decrypt_failure C A env s n = (case node_get s n of
     None \<Rightarrow> s
   | Some p \<Rightarrow>
       (case increment_decrypt_failures p of (p, n') \<Rightarrow>
          let s = node_put s n p in
          (case decrypt_failure_action_for (rn_rekey_enabled s) p n' of
             StartRecoveryRekey _ \<Rightarrow>
               (case initiate_rekey C A env s n of
                  (s, True) \<Rightarrow> (case node_get s n of Some p \<Rightarrow> node_put s n (reset_decrypt_failures p) | None \<Rightarrow> s)
                | (s, False) \<Rightarrow> remove_active_peer s n)
           | RemovePeer _ \<Rightarrow> remove_active_peer s n
           | _ \<Rightarrow> s)))"

definition receive_authenticated ::
  "('s, 'p, 'k) node \<Rightarrow> node_addr \<Rightarrow> transport_id \<Rightarrow> transport_addr \<Rightarrow> nat \<Rightarrow> u64 \<Rightarrow> bool \<Rightarrow> bool \<Rightarrow> ('s, 'p, 'k) node" where
  "receive_authenticated s n tid addr len timestamp_ms liveness path =
     s\<lparr>rn_reg := fst (record_authenticated_fmp_receive (rn_reg s) n tid addr len timestamp_ms liveness path)\<rparr>"

end
