(* ===== verification/Rekey_Accounting.thy ===== *)
theory Rekey_Accounting
  imports Peer_Rekey
begin

text \<open>
  Accounting of session indices across rekeys. An index the allocator has handed out is owned by a
  handshake in progress or sits in exactly one slot of exactly one peer (current, rekey, pending,
  draining). Every handler keeps the books: what leaves a slot moves to another slot or is freed.
\<close>

section \<open>Slots of the registry\<close>

abbreviation node_peers :: "('s, 'p, 'k) node \<Rightarrow> (node_addr, ('s, 'p, 'k) peer) hmap" where
  "node_peers s \<equiv> pr_peers (rn_reg s)"

abbreviation used :: "('s, 'p, 'k) node \<Rightarrow> u32 list" where
  "used s \<equiv> ia_in_use (rn_alloc s)"

definition keys_match :: "peer_session_index list \<Rightarrow> bool" where
  "keys_match acc \<longleftrightarrow> (\<forall>x \<in> set acc. snd (psi_key x) = as_u32 (psi_index x))"

lemma push_index_appends:
  assumes "keys_match acc" "set (opt_list i) \<inter> psi_index ` set acc = {}"
  shows "keys_match (push_index kind tid i acc) \<and> map psi_index (push_index kind tid i acc) = map psi_index acc @ opt_list i"
proof (cases i)
  case (Some j)
  have "(tid, as_u32 j) \<notin> psi_key ` set acc"
  proof
    assume "(tid, as_u32 j) \<in> psi_key ` set acc"
    then obtain x where "x \<in> set acc" "psi_key x = (tid, as_u32 j)" by (metis imageE)
    then have "as_u32 (psi_index x) = as_u32 j" using assms(1) by (metis keys_match_def snd_conv)
    then have "psi_index x = j" by (rule session_index.expand)
    then show False using assms(2) Some \<open>x \<in> set acc\<close> by auto
  qed
  then show ?thesis using assms(1) Some by (auto simp: push_index_def keys_match_def)
qed (simp add: push_index_def assms(1))

lemma session_indices_held:
  assumes "peer_ok p" "distinct (held_indices p)"
  shows "map psi_index (active_peer_session_indices p) = held_indices p"
proof -
  obtain tid i where p: "ap_transport_id p = Some tid" "ap_our_index p = Some i"
    using assms(1) by (auto simp: peer_ok_def)
  define a0 where "a0 = opt_list (active_peer_current_session_index p)"
  have a0: "keys_match a0 \<and> map psi_index a0 = [i]"
    by (simp add: a0_def active_peer_current_session_index_def p keys_match_def)
  define a1 where "a1 = push_index Rekey tid (ap_rekey_our_index p) a0"
  have a1: "keys_match a1 \<and> map psi_index a1 = [i] @ opt_list (ap_rekey_our_index p)"
    using push_index_appends [of a0 "ap_rekey_our_index p" Rekey tid] a0 assms(2)
    by (auto simp: a1_def held_indices_def p simp flip: set_map)
  define a2 where "a2 = push_index Pending tid (ap_pending_our_index p) a1"
  have a2: "keys_match a2 \<and> map psi_index a2 = ([i] @ opt_list (ap_rekey_our_index p)) @ opt_list (ap_pending_our_index p)"
    using push_index_appends [of a1 "ap_pending_our_index p" Pending tid] a1 assms(2)
    by (auto simp: a2_def held_indices_def p simp flip: set_map)
  have "map psi_index (push_index Previous t (ap_previous_our_index p) a2) =
      (([i] @ opt_list (ap_rekey_our_index p)) @ opt_list (ap_pending_our_index p)) @ opt_list (ap_previous_our_index p)" for t
    using push_index_appends [of a2 "ap_previous_our_index p" Previous t] a2 assms(2)
    by (auto simp: held_indices_def p simp flip: set_map)
  then show ?thesis
    by (simp add: active_peer_session_indices_def p held_indices_def a0_def a1_def a2_def)
qed

lemma retire_index_peers [simp]: "pr_peers (fst (retire_index n retained rs old)) = pr_peers (fst rs)"
  by (auto simp: retire_index_def remove_session_index_with_owner_state_def Let_def split: prod.splits option.splits)

lemma retire_peers [simp]:
  fixes r :: "('a, 'b, 'c) registry"
  shows "pr_peers (fst (retire_superseded_session_indices r n old retained)) = pr_peers r"
proof -
  have "pr_peers (fst (foldl (retire_index n retained) rs old)) = pr_peers (fst rs)" for rs :: "('a, 'b, 'c) registry \<times> _"
    by (induction old arbitrary: rs) simp_all
  from this [of "(r, [])"] show ?thesis by (simp add: retire_superseded_session_indices_def)
qed

lemma retire_indices:
  assumes "distinct (map psi_index old)"
  shows "map psi_index (snd (retire_superseded_session_indices r n old retained)) =
    filter (\<lambda>i. i \<notin> psi_index ` set retained) (map psi_index old)"
  using assms unfolding retire_superseded_session_indices_def
proof (induction old rule: rev_induct)
  case (snoc x old)
  obtain r' ret where f: "foldl (retire_index n retained) (r, []) old = (r', ret)" by fastforce
  have ret: "map psi_index ret = filter (\<lambda>i. i \<notin> psi_index ` set retained) (map psi_index old)"
    using snoc f by simp
  then have "psi_index ` set ret \<subseteq> psi_index ` set old"
    by (metis filter_is_subset set_map)
  then have "psi_index x \<notin> psi_index ` set ret" using snoc.prems by auto
  then have "map psi_index (snd (retire_index n retained (r', ret) x)) =
      filter (\<lambda>i. i \<notin> psi_index ` set retained) (map psi_index (old @ [x]))"
    using ret by (simp add: retire_index_def)
  then show ?case using f by simp
qed simp

section \<open>The books\<close>

definition slots :: "(node_addr, ('s, 'p, 'k) peer) hmap \<Rightarrow> u32 multiset" where
  "slots ps = (\<Sum>e \<in># mset ps. image_mset as_u32 (mset (held_indices (snd e))))"

definition books :: "u32 multiset \<Rightarrow> (node_addr, ('s, 'p, 'k) peer) hmap \<Rightarrow> u32 list \<Rightarrow> bool" where
  "books G ps us \<longleftrightarrow> hm_inv ps \<and> (\<forall>n p. map_of ps n = Some p \<longrightarrow> peer_ok p) \<and> distinct us \<and> mset us = G + slots ps"

definition accounted :: "u32 multiset \<Rightarrow> ('s, 'p, 'k) node \<Rightarrow> bool" where
  "accounted G s \<longleftrightarrow> books G (node_peers s) (used s)"

definition free_all :: "session_index list \<Rightarrow> u32 list \<Rightarrow> u32 list" where
  "free_all xs us = foldl (\<lambda>us i. remove1 (as_u32 i) us) us xs"

lemma free_all_simps [simp]: "free_all [] us = us" "free_all (i # xs) us = free_all xs (remove1 (as_u32 i) us)"
  by (simp_all add: free_all_def)

lemma mset_free_all:
  "distinct us \<Longrightarrow> mset us = B + image_mset as_u32 (mset xs) \<Longrightarrow> distinct (free_all xs us) \<and> mset (free_all xs us) = B"
proof (induction xs arbitrary: us)
  case (Cons i xs)
  have "mset (remove1 (as_u32 i) us) = B + image_mset as_u32 (mset xs)" using Cons.prems(2) by simp
  then show ?case using Cons by simp
qed simp

lemma slots_split: "hm_inv ps \<Longrightarrow> map_of ps n = Some p \<Longrightarrow>
    slots ps = image_mset as_u32 (mset (held_indices p)) + slots (hm_remove n ps)"
  by (simp add: slots_def mset_hm_remove)

lemma slots_insert: "hm_inv ps \<Longrightarrow>
    slots (hm_insert n p ps) = image_mset as_u32 (mset (held_indices p)) + slots (hm_remove n ps)"
  by (simp add: slots_def mset_hm_insert)

lemma hm_remove_absent: "map_of ps n = None \<Longrightarrow> hm_remove n ps = ps"
  by (simp add: hm_remove_def delete_id map_of_eq_None_iff)

text \<open>The one rule behind every handler: the slots of one peer change, the indices that left are freed and
  those that arrived were owned outside.\<close>

lemma books_update:
  assumes "books G ps us" "map_of ps n = Some p" "peer_ok p'"
    and "G + image_mset as_u32 (mset (held_indices p)) =
      G' + image_mset as_u32 (mset xs) + image_mset as_u32 (mset (held_indices p'))"
  shows "books G' (hm_insert n p' ps) (free_all xs us)"
proof -
  have inv: "hm_inv ps" using assms(1) by (simp add: books_def)
  have "mset us = (G' + slots (hm_insert n p' ps)) + image_mset as_u32 (mset xs)"
    using assms(1,4) slots_split [OF inv assms(2)] slots_insert [OF inv, of n p']
    by (simp add: books_def ac_simps)
  from mset_free_all [OF _ this] show ?thesis
    using assms(1,3) inv by (auto simp: books_def hm_simps)
qed

lemma books_keep:
  assumes "books G ps us" "map_of ps n = Some p" "peer_ok p'" "mset (held_indices p') = mset (held_indices p)"
  shows "books G (hm_insert n p' ps) us"
  using books_update [OF assms(1-3), of G "[]"] assms(4) by simp

text \<open>A peer leaves the table: what is not freed stays allocated and is owned by nobody.\<close>

lemma books_drop:
  assumes "books G ps us" "map_of ps n = Some p" "mset (held_indices p) = mset xs + mset ys"
  shows "books (G + image_mset as_u32 (mset ys)) (hm_remove n ps) (free_all xs us)"
proof -
  have inv: "hm_inv ps" using assms(1) by (simp add: books_def)
  have "mset us = (G + image_mset as_u32 (mset ys) + slots (hm_remove n ps)) + image_mset as_u32 (mset xs)"
    using assms(1,3) slots_split [OF inv assms(2)] by (simp add: books_def ac_simps)
  from mset_free_all [OF _ this] show ?thesis
    using assms(1) inv by (auto simp: books_def hm_simps)
qed

lemma books_remove:
  "books G ps us \<Longrightarrow> map_of ps n = Some p \<Longrightarrow> books G (hm_remove n ps) (free_all (held_indices p) us)"
  using books_drop [of G ps us n p "held_indices p" "[]"] by simp

lemma books_new:
  assumes "books (G + image_mset as_u32 (mset (held_indices p))) ps us" "map_of ps n = None" "peer_ok p"
  shows "books G (hm_insert n p ps) us"
proof -
  have inv: "hm_inv ps" using assms(1) by (simp add: books_def)
  show ?thesis
    using assms slots_insert [OF inv, of n p] hm_remove_absent [OF assms(2)] inv
    by (auto simp: books_def hm_simps ac_simps)
qed

lemma books_allocate: "books G ps us \<Longrightarrow> c \<notin> set us \<Longrightarrow> books (add_mset c G) ps (List.insert c us)"
  by (simp add: books_def)

lemma books_free: "books (add_mset c G) ps us \<Longrightarrow> books G ps (remove1 c us)"
  by (simp add: books_def)

lemma books_distinct:
  assumes "books G ps us" "map_of ps n = Some p"
  shows "distinct (held_indices p)" "peer_ok p"
    "i \<in> set (held_indices p) \<Longrightarrow> as_u32 i \<notin># G"
proof -
  have inv: "hm_inv ps" using assms(1) by (simp add: books_def)
  have m: "mset us = G + image_mset as_u32 (mset (held_indices p)) + slots (hm_remove n ps)"
    using assms(1) slots_split [OF inv assms(2)] by (simp add: books_def ac_simps)
  obtain gs rest where gs: "mset gs = G" "mset rest = slots (hm_remove n ps)" by (metis ex_mset)
  have "mset us = mset (gs @ map as_u32 (held_indices p) @ rest)" using m gs by simp
  moreover have "distinct us" using assms(1) by (simp add: books_def)
  ultimately have d: "distinct (gs @ map as_u32 (held_indices p) @ rest)"
    using mset_eq_imp_distinct_iff by blast
  then show "distinct (held_indices p)" by (simp add: distinct_map)
  show "peer_ok p" using assms by (simp add: books_def)
  assume "i \<in> set (held_indices p)"
  then have "as_u32 i \<notin> set gs" using d by auto
  then show "as_u32 i \<notin># G" using gs(1) by (simp flip: set_mset_mset)
qed

section \<open>What each step does to peers and allocator\<close>

lemma node_get_eq: "node_get s n = map_of (node_peers s) n"
  by (simp add: node_get_def get_peer_def)

lemma put_peers [simp]: "pr_peers (put_peer r n p) = hm_insert n p (pr_peers r)"
  by (simp add: put_peer_def)

lemma insert_session_index_peers [simp]: "pr_peers (fst (insert_session_index r ik n)) = pr_peers r"
  by (simp add: insert_session_index_def)

lemma remove_session_index_peers [simp]: "pr_peers (fst (remove_session_index_with_owner_state r ik)) = pr_peers r"
  by (simp add: remove_session_index_with_owner_state_def Let_def split: option.splits)

lemma ensure_registered_peers [simp]: "pr_peers (fst (ensure_current_session_index_registered r n)) = pr_peers r"
  by (auto simp: ensure_current_session_index_registered_def insert_session_index_def Let_def split: option.splits)

lemma node_put_view [simp]: "node_peers (node_put s n p) = hm_insert n p (node_peers s)" "used (node_put s n p) = used s"
  by (simp_all add: node_put_def)

lemma free_index_view [simp]: "node_peers (free_index s i) = node_peers s" "used (free_index s i) = remove1 (as_u32 i) (used s)"
  by (simp_all add: free_index_def free_def remove1_idem)

lemma deregister_view [simp]: "node_peers (deregister_session_index s ik) = node_peers s" "used (deregister_session_index s ik) = used s"
  by (simp_all add: deregister_session_index_def)

lemma forget_outbound_view [simp]: "node_peers (forget_outbound s ik) = node_peers s" "used (forget_outbound s ik) = used s"
  by (simp_all add: forget_outbound_def)

lemma free_retired_view [simp]:
  "node_peers (free_retired_peer_session_indices s xs) = node_peers s"
  "used (free_retired_peer_session_indices s xs) = free_all (map psi_index xs) (used s)"
  unfolding free_retired_peer_session_indices_def by (induction xs arbitrary: s) simp_all

definition abandons :: "(('s, 'p, 'k) node \<Rightarrow> node_addr \<Rightarrow> ('s, 'p, 'k) node) \<Rightarrow> bool" where
  "abandons f \<longleftrightarrow> (\<forall>s n. (node_get s n = None \<longrightarrow> f s n = s) \<and>
     (\<forall>p. node_get s n = Some p \<longrightarrow> (\<exists>q. (q = p \<or> q = clear_handshake_msg2 p) \<and>
        node_peers (f s n) = hm_insert n (fst (abandon_rekey q)) (node_peers s) \<and>
        used (f s n) = free_all (opt_list (snd (abandon_rekey q))) (used s))))"

lemma abandonsI:
  assumes "\<And>s n. node_get s n = None \<Longrightarrow> f s n = s"
    and "\<And>s n p. node_get s n = Some p \<Longrightarrow>
      node_peers (f s n) = hm_insert n (fst (abandon_rekey (g p))) (node_peers s) \<and>
      used (f s n) = free_all (opt_list (snd (abandon_rekey (g p)))) (used s)"
    and "\<And>p. g p = p \<or> g p = clear_handshake_msg2 p"
  shows "abandons f"
  using assms unfolding abandons_def by metis

lemma abandons_intros:
  "abandons (\<lambda>s n. fst (abandon_fmp_rekey_for_peer s n))" "abandons exhaust_msg1" "abandons abandon_with_index"
  "abandons abandon_losing_rekey"
  by (rule abandonsI [where g = clear_handshake_msg2],
      simp_all add: abandon_fmp_rekey_for_peer_def Let_def split: prod.splits option.splits)
     (rule abandonsI [where g = "\<lambda>p. p"],
      simp_all add: exhaust_msg1_def abandon_with_index_def abandon_losing_rekey_def Let_def split: prod.splits option.splits)+

lemma clear_handshake_msg2_ok [simp]:
  "peer_ok (clear_handshake_msg2 p) = peer_ok p" "held_indices (clear_handshake_msg2 p) = held_indices p"
  by (simp_all add: clear_handshake_msg2_def peer_ok_def held_indices_def)

lemma abandons_accounted:
  assumes "abandons f" "accounted G s"
  shows "accounted G (f s n)"
proof (cases "node_get s n")
  case None
  then have "f s n = s" using assms(1) unfolding abandons_def by blast
  then show ?thesis using assms(2) by simp
next
  case (Some p)
  have b: "books G (node_peers s) (used s)" using assms(2) by (simp add: accounted_def)
  have p: "map_of (node_peers s) n = Some p" using Some by (simp add: node_get_eq)
  obtain q where q: "q = p \<or> q = clear_handshake_msg2 p"
    "node_peers (f s n) = hm_insert n (fst (abandon_rekey q)) (node_peers s)"
    "used (f s n) = free_all (opt_list (snd (abandon_rekey q))) (used s)"
    using assms(1) Some unfolding abandons_def by blast
  have "peer_ok q" "held_indices q = held_indices p"
    using q(1) books_distinct(2) [OF b p] by auto
  then have "peer_ok (fst (abandon_rekey q))" "mset (held_indices p) = mset (opt_list (snd (abandon_rekey q))) +
      mset (held_indices (fst (abandon_rekey q)))"
    using abandon_rekey_indices [of q] by simp_all
  then have "books G (hm_insert n (fst (abandon_rekey q)) (node_peers s)) (free_all (opt_list (snd (abandon_rekey q))) (used s))"
    by (intro books_update [OF b p]) (simp_all add: ac_simps)
  then show ?thesis using q by (simp add: accounted_def)
qed

lemma foldl_invariant:
  assumes "\<And>s x. P s \<Longrightarrow> P (f s x)" "P s"
  shows "P (foldl f s xs)"
  using assms(2) by (induction xs arbitrary: s) (simp_all add: assms(1))

lemma expire_accounted: "accounted G s \<Longrightarrow> accounted G (expire_unconfirmed_fmp_rekeys s now)"
  unfolding expire_unconfirmed_fmp_rekeys_def Let_def
  by (rule foldl_invariant [where P = "accounted G"]) (rule abandons_accounted [OF abandons_intros(1)])

lemma drain_books:
  assumes "books G ps us" "map_of ps n = Some p"
  shows "books G (hm_insert n (fst (complete_drain p)) ps) (free_all (opt_list (snd (complete_drain p))) us)"
  using complete_drain_indices [OF books_distinct(2) [OF assms]]
  by (intro books_update [OF assms]) (simp_all add: ac_simps)

lemma retire_drain_accounted: "accounted G s \<Longrightarrow> accounted G (fst (retire_fmp_rekey_drain_for_dead_path s n))"
proof (cases "node_get s n")
  case (Some p)
  assume "accounted G s"
  then have "books G (hm_insert n (fst (complete_drain p)) (node_peers s)) (free_all (opt_list (snd (complete_drain p))) (used s))"
    using Some by (intro drain_books) (simp_all add: accounted_def node_get_eq)
  then show ?thesis
    using Some by (auto simp: accounted_def retire_fmp_rekey_drain_for_dead_path_def Let_def split: prod.splits option.splits)
qed (simp add: retire_fmp_rekey_drain_for_dead_path_def)

lemma node_drain_accounted: "accounted G s \<Longrightarrow> accounted G (node_drain now s n)"
proof (cases "get_peer (rn_reg s) n")
  case (Some p)
  assume a: "accounted G s"
  then have b: "books G (node_peers s) (used s)" and p: "map_of (node_peers s) n = Some p"
    using Some by (simp_all add: accounted_def get_peer_def)
  have "ap_transport_id p \<noteq> None" using books_distinct(2) [OF b p] by (simp add: peer_ok_def)
  then show ?thesis
    using a Some drain_books [OF b p]
    by (auto simp: accounted_def node_drain_def complete_due_fmp_rekey_drain_def Let_def split: prod.splits option.splits)
qed (simp add: node_drain_def complete_due_fmp_rekey_drain_def)

section \<open>Cutover\<close>

lemma confirm_view:
  assumes b: "books G (pr_peers r) us" and p: "get_peer r n = Some p" and pend: "ap_pending_new_session p \<noteq> None"
  obtains r' retired where "confirm_pending_peer_session r n k now j = (r', Some retired)"
    "pr_peers r' = hm_insert n (fst (confirm_pending_session p k now j)) (pr_peers r)"
    "map psi_index retired = opt_list (ap_previous_our_index p)"
proof -
  have p': "map_of (pr_peers r) n = Some p" using p by (simp add: get_peer_def)
  note ok = books_distinct(1,2) [OF b p']
  define q where "q = fst (confirm_pending_session p k now j)"
  obtain o' where q: "confirm_pending_session p k now j = (q, Some o')"
    using confirm_pending_indices [OF ok(2) pend, of k now j] q_def by (metis option.exhaust prod.collapse)
  obtain i x where ix: "ap_our_index p = Some i" "ap_pending_our_index p = Some x" "ap_rekey_our_index p = None"
    using ok(2) pend by (auto simp: peer_ok_def)
  have hp: "held_indices p = i # x # opt_list (ap_previous_our_index p)" by (simp add: held_indices_def ix)
  have hq: "held_indices q = [x, i]"
    using pend ix by (auto simp: q_def confirm_pending_session_def held_indices_def)
  have d: "distinct (held_indices q)" "peer_ok q"
    using hp hq ok(1) confirm_pending_indices [OF ok(2) pend, of k now j] by (auto simp: q_def)
  obtain r' retired where ret: "retire_superseded_session_indices (put_peer r n q) n (active_peer_session_indices p)
      (active_peer_session_indices q) = (r', retired)" by fastforce
  have "map psi_index retired = filter (\<lambda>i. i \<notin> set (held_indices q)) (held_indices p)"
    using retire_indices [of "active_peer_session_indices p" "put_peer r n q" n "active_peer_session_indices q"] ret
      session_indices_held [OF ok(2,1)] session_indices_held [OF d(2,1)] ok(1) by (metis set_map snd_conv)
  also have "\<dots> = opt_list (ap_previous_our_index p)"
    using ok(1) hp hq by (cases "ap_previous_our_index p") auto
  finally have "map psi_index retired = opt_list (ap_previous_our_index p)" .
  moreover have "pr_peers r' = hm_insert n q (pr_peers r)"
    using retire_peers [of "put_peer r n q" n "active_peer_session_indices p" "active_peer_session_indices q"] ret by simp
  moreover have "confirm_pending_peer_session r n k now j = (r', Some retired)"
    by (simp add: confirm_pending_peer_session_def p q ret)
  ultimately show ?thesis using that q_def by blast
qed

lemma confirm_books:
  assumes "books G ps us" "map_of ps n = Some p" "ap_pending_new_session p \<noteq> None"
  shows "books G (hm_insert n (fst (confirm_pending_session p k now j)) ps) (free_all (opt_list (ap_previous_our_index p)) us)"
  using confirm_pending_indices [OF books_distinct(2) [OF assms(1,2)] assms(3), of k now j]
  by (intro books_update [OF assms(1,2)]) (simp_all add: ac_simps)

lemma promote_accounted: "accounted G s \<Longrightarrow> accounted G (fst (promote_authenticated_pending_epoch s n c k now j))"
proof (cases "node_get s n")
  case (Some p)
  assume "accounted G s"
  then have b: "books G (node_peers s) (used s)" by (simp add: accounted_def)
  have p: "get_peer (rn_reg s) n = Some p" using Some by (simp add: node_get_def)
  show ?thesis
  proof (cases "ap_pending_new_session p = None \<or> \<not> c")
    case True
    then show ?thesis using Some \<open>accounted G s\<close> by (auto simp: promote_authenticated_pending_epoch_def)
  next
    case False
    then obtain r' retired where r: "confirm_pending_peer_session (rn_reg s) n k now j = (r', Some retired)"
      "pr_peers r' = hm_insert n (fst (confirm_pending_session p k now j)) (node_peers s)"
      "map psi_index retired = opt_list (ap_previous_our_index p)"
      using confirm_view [OF b p] by metis
    then show ?thesis
      using Some False confirm_books [OF b, of n p k now j] p
      by (auto simp: promote_authenticated_pending_epoch_def accounted_def get_peer_def Let_def)
  qed
qed (simp add: promote_authenticated_pending_epoch_def)

lemma node_cutover_accounted: "accounted G s \<Longrightarrow> accounted G (node_cutover now j s n)"
proof (cases "get_peer (rn_reg s) n")
  case (Some p)
  assume a: "accounted G s"
  then have b: "books G (node_peers s) (used s)" by (simp add: accounted_def)
  show ?thesis
  proof (cases "ap_pending_new_session p = None \<or> ap_rekey_in_progress p
      \<or> \<not> pending_rekey_cutover_due p (from_millis FMP_CUTOVER_DELAY_MS) now")
    case True
    then show ?thesis using Some a by (simp add: node_cutover_def cutover_due_fmp_rekey_def)
  next
    case False
    then obtain r' retired where r: "confirm_pending_peer_session (rn_reg s) n (\<not> ap_current_k_bit p) now j = (r', Some retired)"
      "pr_peers r' = hm_insert n (fst (confirm_pending_session p (\<not> ap_current_k_bit p) now j)) (node_peers s)"
      "map psi_index retired = opt_list (ap_previous_our_index p)"
      using confirm_view [OF b Some] by metis
    then show ?thesis
      using Some False confirm_books [OF b, of n p "\<not> ap_current_k_bit p" now j]
      by (auto simp: node_cutover_def cutover_due_fmp_rekey_def accounted_def get_peer_def Let_def)
  qed
qed (simp add: node_cutover_def cutover_due_fmp_rekey_def)

section \<open>Initiation and response\<close>

lemma allocate_view:
  "allocate draws a = (a', Ok i) \<Longrightarrow> as_u32 i \<notin> set (ia_in_use a) \<and> ia_in_use a' = List.insert (as_u32 i) (ia_in_use a)"
  "allocate draws a = (a', Err e) \<Longrightarrow> a' = a" "allocate draws a \<noteq> (a', Panic)"
  using allocate_loop_Some [of draws "ia_in_use a" 0 "ia_max_attempts a"]
  by (auto simp: allocate_def split: option.splits)

definition idle :: "('s, 'p, 'k) node \<Rightarrow> node_addr \<Rightarrow> bool" where
  "idle s n \<longleftrightarrow> (case node_get s n of Some p \<Rightarrow> \<not> ap_rekey_in_progress p \<and> ap_pending_new_session p = None | None \<Rightarrow> True)"

lemma initiate_accounted:
  assumes a: "accounted G s" and idle: "idle s n"
  shows "accounted G (fst (initiate_rekey C A env s n))"
proof (cases "node_get s n")
  case (Some p)
  have b: "books G (node_peers s) (used s)" using a by (simp add: accounted_def)
  have p: "map_of (node_peers s) n = Some p" using Some by (simp add: node_get_eq)
  have staged: "accounted G s'" if "books (add_mset (as_u32 i) G) (node_peers s) (used s')"
    "node_peers s' = hm_insert n (set_rekey_state p hs i m t) (node_peers s)" for s' i hs m t
    using books_update [OF that(1) p, of "set_rekey_state p hs i m t" G "[]"]
      set_rekey_state_indices [OF books_distinct(2) [OF b p], of hs i m t] idle Some that(2)
    by (simp add: accounted_def idle_def)
  show ?thesis
  proof (cases "ap_transport_id p = None \<or> ap_current_addr p = None \<or> ie_connecting env")
    case True
    then show ?thesis using Some a by (auto simp: initiate_rekey_def split: option.splits)
  next
    case False
    then obtain tid addr where t: "ap_transport_id p = Some tid" "ap_current_addr p = Some addr" "\<not> ie_connecting env" by auto
    obtain al res where al: "allocate (ie_draws env) (rn_alloc s) = (al, res)" by fastforce
    show ?thesis
    proof (cases res)
      case (Ok i)
      have b': "books (add_mset (as_u32 i) G) (node_peers s) (ia_in_use al)"
        using allocate_view(1) [of "ie_draws env" "rn_alloc s" al i] al Ok books_allocate [OF b] by simp
      have freed: "accounted G (free_index (s\<lparr>rn_alloc := al\<rparr>) i)"
        using books_free [OF b'] by (simp add: accounted_def)
      show ?thesis
        using Some t al Ok b' freed
        by (auto simp: initiate_rekey_def Let_def intro!: abandons_accounted [OF abandons_intros(1)] staged
            split: prod.splits outcome.splits)
    next
      case (Err e)
      then show ?thesis using Some t al a allocate_view(2) [of "ie_draws env" "rn_alloc s" al e]
        by (simp add: initiate_rekey_def)
    next
      case Panic
      then show ?thesis using al allocate_view(3) by blast
    qed
  qed
qed (use a in \<open>simp add: initiate_rekey_def\<close>)

lemma set_remote_epoch_ok [simp]:
  "peer_ok (set_remote_epoch p e) = peer_ok p" "held_indices (set_remote_epoch p e) = held_indices p"
  "ap_rekey_our_index (set_remote_epoch p e) = ap_rekey_our_index p"
  "ap_pending_our_index (set_remote_epoch p e) = ap_pending_our_index p"
  by (simp_all add: set_remote_epoch_def peer_ok_def held_indices_def)

lemma record_peer_rekey_ok [simp]:
  "peer_ok (record_peer_rekey p t) = peer_ok p" "held_indices (record_peer_rekey p t) = held_indices p"
  by (simp_all add: record_peer_rekey_def peer_ok_def held_indices_def)

lemma set_handshake_msg2_ok [simp]:
  "peer_ok (set_handshake_msg2 p m t) = peer_ok p" "held_indices (set_handshake_msg2 p m t) = held_indices p"
  by (simp_all add: set_handshake_msg2_def peer_ok_def held_indices_def)

lemma reset_decrypt_failures_ok [simp]:
  "peer_ok (reset_decrypt_failures p) = peer_ok p" "held_indices (reset_decrypt_failures p) = held_indices p"
  by (simp_all add: reset_decrypt_failures_def peer_ok_def held_indices_def)

lemma install_view:
  assumes "get_peer r n = Some p" "ap_transport_id p \<noteq> None"
  obtains r' x q where "install_pending_rekey_session_and_index r n session our their local epoch now = (r', Some x)"
    "pr_peers r' = hm_insert n q (pr_peers r)"
    "peer_ok p \<Longrightarrow> ap_rekey_our_index p = Some our \<Longrightarrow> peer_ok q \<and> mset (held_indices q) = mset (held_indices p)"
    "peer_ok p \<Longrightarrow> ap_rekey_our_index p = None \<Longrightarrow> ap_pending_our_index p = None \<Longrightarrow>
      peer_ok q \<and> mset (held_indices q) = add_mset our (mset (held_indices p))"
proof -
  obtain tid where tid: "ap_transport_id p = Some tid" using assms(2) by auto
  define e where "e = (if epoch \<noteq> None then set_remote_epoch p epoch else p)"
  define q where "q = (let q = set_pending_session e session our their local now in
    if \<not> local then record_peer_rekey q now else q)"
  have e: "peer_ok e = peer_ok p" "held_indices e = held_indices p" "ap_rekey_our_index e = ap_rekey_our_index p"
    "ap_pending_our_index e = ap_pending_our_index p" by (simp_all add: e_def)
  have "\<exists>r' x. install_pending_rekey_session_and_index r n session our their local epoch now = (r', Some x) \<and>
      pr_peers r' = hm_insert n q (pr_peers r)"
    by (simp add: install_pending_rekey_session_and_index_def assms(1) tid insert_session_index_def e_def q_def Let_def)
  then obtain r' x where rx: "install_pending_rekey_session_and_index r n session our their local epoch now = (r', Some x)"
    "pr_peers r' = hm_insert n q (pr_peers r)" by blast
  have ini: "peer_ok q \<and> mset (held_indices q) = mset (held_indices p)"
    if "peer_ok p" "ap_rekey_our_index p = Some our"
    using set_pending_initiator_indices [of e our session their local now] e that by (cases local) (simp_all add: q_def Let_def)
  have resp: "peer_ok q \<and> mset (held_indices q) = add_mset our (mset (held_indices p))"
    if "peer_ok p" "ap_rekey_our_index p = None" "ap_pending_our_index p = None"
    using set_pending_responder_indices [of e session our their local now] e that by (cases local) (simp_all add: q_def Let_def)
  show ?thesis by (rule that [OF rx ini resp])
qed

lemma accounted_ok: "accounted G s \<Longrightarrow> node_get s n = Some p \<Longrightarrow> peer_ok p"
  using books_distinct(2) by (simp add: accounted_def node_get_eq)

lemma accounted_put:
  assumes "accounted G s" "node_get s n = Some p" "peer_ok p'" "mset (held_indices p') = mset (held_indices p)"
  shows "accounted G (node_put s n p')"
  using books_keep [of G "node_peers s" "used s" n p p'] assms by (simp add: accounted_def node_get_eq)

lemma accounted_forget [simp]: "accounted G (forget_outbound s ik) = accounted G s"
  by (simp add: accounted_def)

lemma node_get_put [simp]: "node_get (node_put s n p) m = (if m = n then Some p else node_get s m)"
  by (simp add: node_get_eq hm_simps)

lemma rekey_peer_for_Some:
  assumes "accounted G s" "rekey_peer_for s i = Some n"
  shows "\<exists>p. node_get s n = Some p \<and> ap_rekey_our_index p = Some i"
proof -
  obtain p where f: "find (\<lambda>(_, p). ap_rekey_in_progress p \<and> ap_rekey_our_index p = Some i) (node_peers s) = Some (n, p)"
    using assms(2) by (auto simp: rekey_peer_for_def)
  then have "(n, p) \<in> set (node_peers s)" "ap_rekey_our_index p = Some i"
    by (auto simp: find_Some_iff) (metis nth_mem)
  then show ?thesis
    using assms(1) hm_mem_iff [of "node_peers s" n] by (auto simp: accounted_def books_def node_get_eq)
qed

lemma handle_rekey_msg2_accounted:
  assumes a: "accounted G s" and res: "handle_rekey_msg2 C A s ik ri si m now = Ok s'"
  shows "accounted G s'"
proof (cases "rekey_peer_for s ri")
  case None
  then show ?thesis using res a by (auto simp: handle_rekey_msg2_def)
next
  case (Some n)
  show ?thesis
  proof (cases "node_get s n")
    case None
    then show ?thesis using res a Some by (auto simp: handle_rekey_msg2_def)
  next
    case p: (Some p)
    have ok: "peer_ok p" by (rule accounted_ok [OF a p])
    obtain q out where q: "complete_rekey_msg2 C A p m = (q, out)" by fastforce
    have q_ok: "peer_ok q" "held_indices q = held_indices p" "ap_transport_id q = ap_transport_id p"
      "ap_rekey_our_index q = ap_rekey_our_index p"
      using complete_rekey_msg2_indices [OF ok, of C A m] q by simp_all
    have put: "accounted G (node_put s n q)"
      using accounted_put [OF a p q_ok(1)] q_ok(2) by simp
    have ri: "ap_rekey_our_index q = Some ri" using q_ok(4) rekey_peer_for_Some [OF a Some] p by simp
    have "ap_transport_id q \<noteq> None" using q_ok(1) by (simp add: peer_ok_def)
    then show ?thesis
    proof (cases out)
      case (Ok x)
      obtain session epoch where x: "x = (session, epoch)" by fastforce
      have g: "get_peer (rn_reg (node_put s n q)) n = Some q" by (simp flip: node_get_def)
      obtain r' y z where r: "install_pending_rekey_session_and_index (rn_reg (node_put s n q)) n session ri si True epoch now = (r', Some y)"
        "pr_peers r' = hm_insert n z (node_peers (node_put s n q))" "peer_ok z" "mset (held_indices z) = mset (held_indices q)"
        using install_view [OF g \<open>ap_transport_id q \<noteq> None\<close>] q_ok(1) ri by metis
      then have "s' = forget_outbound ((node_put s n q)\<lparr>rn_reg := r'\<rparr>) ik"
        using res Some p q Ok x ri by (simp add: handle_rekey_msg2_def Let_def)
      moreover have "accounted G (node_put (node_put s n q) n z)"
        using accounted_put [OF put, of n q z] r(3,4) by simp
      ultimately show ?thesis using r(2) by (simp add: accounted_def)
    next
      case (Err e)
      then show ?thesis
        using res Some p q put abandons_accounted [OF abandons_intros(3) put, of n]
        by (auto simp: handle_rekey_msg2_def split: if_splits)
    next
      case Panic
      then show ?thesis using res Some p q by (simp add: handle_rekey_msg2_def)
    qed
  qed
qed

lemma install_responder_accounted:
  assumes a: "accounted G s" and idle: "idle s n"
  shows "accounted G (fst (install_responder_rekey s n e))"
proof -
  obtain al res where al: "allocate (me_draws e) (rn_alloc s) = (al, res)" by fastforce
  have b: "books G (node_peers s) (used s)" using a by (simp add: accounted_def)
  show ?thesis
  proof (cases res)
    case (Ok i)
    have b': "books (add_mset (as_u32 i) G) (node_peers s) (ia_in_use al)"
      using allocate_view(1) [of "me_draws e" "rn_alloc s" al i] al Ok books_allocate [OF b] by simp
    have freed: "accounted G (free_index (s\<lparr>rn_alloc := al\<rparr>) i)"
      using books_free [OF b'] by (simp add: accounted_def)
    show ?thesis
    proof (cases "node_get s n")
      case None
      then have "install_pending_rekey_session_and_index (rn_reg s) n x i y False None t = (rn_reg s, None)" for x y t
        by (simp add: install_pending_rekey_session_and_index_def flip: node_get_def)
      then show ?thesis using al Ok freed by (auto simp: install_responder_rekey_def Let_def split: option.splits)
    next
      case (Some p)
      have g: "get_peer (rn_reg s) n = Some p" "map_of (node_peers s) n = Some p"
        using Some by (simp_all add: node_get_def get_peer_def)
      have ok: "peer_ok p" by (rule books_distinct(2) [OF b g(2)])
      then have p: "ap_transport_id p \<noteq> None" "ap_rekey_our_index p = None" "ap_pending_our_index p = None"
        using idle Some by (auto simp: peer_ok_def idle_def)
      show ?thesis
      proof (cases "me_session e")
        case None
        then show ?thesis using al Ok freed by (simp add: install_responder_rekey_def Let_def)
      next
        case session: (Some session)
        obtain r' y q where r: "install_pending_rekey_session_and_index (rn_reg s) n session i (me_sender_idx e) False None (me_now e) = (r', Some y)"
          "pr_peers r' = hm_insert n q (node_peers s)" "peer_ok q" "mset (held_indices q) = add_mset i (mset (held_indices p))"
          using install_view [OF g(1) p(1)] ok p(2,3) by metis
        have "books G (hm_insert n q (node_peers s)) (ia_in_use al)"
          using books_update [OF b' g(2) r(3), of G "[]"] r(4) by simp
        then have "accounted G (node_put (s\<lparr>rn_alloc := al, rn_reg := r'\<rparr>) n (set_handshake_msg2 q m t))" for m t
          using r(2,3) by (intro accounted_put [where p = q]) (simp_all add: accounted_def node_get_eq hm_simps)
        then show ?thesis
          using al Ok session r by (auto simp: install_responder_rekey_def Let_def node_get_eq hm_simps
              intro!: abandons_accounted [OF abandons_intros(1)])
      qed
    qed
  next
    case (Err x)
    then show ?thesis using al a allocate_view(2) [of "me_draws e" "rn_alloc s" al x] by (simp add: install_responder_rekey_def)
  next
    case Panic
    then show ?thesis using al allocate_view(3) by blast
  qed
qed

lemma abandons_idle:
  assumes "abandons f"
  shows "idle (f s n) n"
proof (cases "node_get s n")
  case None
  then have "f s n = s" using assms unfolding abandons_def by blast
  then show ?thesis using None by (simp add: idle_def)
next
  case (Some p)
  then obtain q where "node_peers (f s n) = hm_insert n (fst (abandon_rekey q)) (node_peers s)"
    using assms unfolding abandons_def by blast
  then show ?thesis by (simp add: idle_def node_get_eq hm_simps abandon_rekey_def)
qed

lemma respond_accounted:
  assumes a: "accounted G s"
  shows "accounted G (fst (respond_rekey_msg1 s n e))"
proof (cases "node_get s n")
  case (Some p)
  define s1 where "s1 = (if ap_pending_new_session p \<noteq> None then fst (abandon_fmp_rekey_for_peer s n) else s)"
  define s2 where "s2 = (if ap_rekey_in_progress p then abandon_losing_rekey s1 n else s1)"
  have s1: "accounted G s1" using a abandons_accounted [OF abandons_intros(1) a, of n] by (simp add: s1_def)
  have s2: "accounted G s2" using s1 abandons_accounted [OF abandons_intros(4) s1, of n] by (simp add: s2_def)
  have "idle s2 n"
    using Some abandons_idle [OF abandons_intros(1), of s n] abandons_idle [OF abandons_intros(4), of s1 n]
    by (auto simp: s1_def s2_def idle_def)
  then have "accounted G (fst (install_responder_rekey s2 n e))"
    by (rule install_responder_accounted [OF s2])
  then show ?thesis
    using a s1 Some unfolding respond_rekey_msg1_def s2_def s1_def by (auto simp: Let_def split: option.splits)
qed (use a in \<open>simp add: respond_rekey_msg1_def\<close>)

section \<open>Replacement, removal and receipt\<close>

lemma adopt_session_indices:
  assumes "peer_ok p" "sr_our_index x \<notin> set (held_indices p)"
  shows "peer_ok (adopt_session p x now j) \<and> held_indices (adopt_session p x now j) = sr_our_index x # opt_list (ap_our_index p)"
proof -
  define q where "q = fst (replace_session p (sr_session x) (sr_our_index x) (sr_their_index x) now j)"
  have "peer_ok q" "held_indices q = sr_our_index x # opt_list (ap_our_index p)"
    using replace_session_indices [OF assms, of "sr_session x" "sr_their_index x" now j] by (simp_all add: q_def)
  then show ?thesis
    unfolding adopt_session_def q_def [symmetric] Let_def
    by (auto simp: peer_ok_def held_indices_def set_link_id_def set_current_addr_def clear_preferred_send_addr_def
        set_remote_epoch_def mark_connected_def)
qed

lemma replace_accounted:
  assumes a: "accounted (add_mset (as_u32 (sr_our_index x)) G) s" and p: "node_get s n = Some p"
  shows "accounted G (replace_peer_session s n x now j)"
proof -
  have b: "books (add_mset (as_u32 (sr_our_index x)) G) (node_peers s) (used s)" using a by (simp add: accounted_def)
  have p': "map_of (node_peers s) n = Some p" "get_peer (rn_reg s) n = Some p" using p by (simp_all add: node_get_def get_peer_def)
  note ok = books_distinct(1,2) [OF b p'(1)]
  have new: "sr_our_index x \<notin> set (held_indices p)" using books_distinct(3) [OF b p'(1)] by force
  obtain o' where our: "ap_our_index p = Some o'" using ok(2) by (auto simp: peer_ok_def)
  define q where "q = adopt_session p x now j"
  have q: "peer_ok q" "held_indices q = [sr_our_index x, o']"
    using adopt_session_indices [OF ok(2) new, of now j] our by (simp_all add: q_def)
  have hp: "held_indices p = o' # tl (held_indices p)" by (simp add: held_indices_def our)
  then have dq: "distinct (held_indices q)" using q(2) new by (metis distinct_length_2_or_more distinct_singleton list.set_intros(1))
  obtain r' retired where ret: "retire_superseded_session_indices (put_peer (rn_reg s) n q) n (active_peer_session_indices p)
      (active_peer_session_indices q) = (r', retired)" by fastforce
  have "map psi_index retired = filter (\<lambda>i. i \<notin> set (held_indices q)) (held_indices p)"
    using retire_indices [of "active_peer_session_indices p" "put_peer (rn_reg s) n q" n "active_peer_session_indices q"] ret
      session_indices_held [OF ok(2,1)] session_indices_held [OF q(1) dq] ok(1) by (metis set_map snd_conv)
  also have "\<dots> = tl (held_indices p)"
    using ok(1) new unfolding q(2) by (subst hp, subst (asm) (1 2) hp) (auto simp: filter_id_conv)
  finally have rt: "map psi_index retired = tl (held_indices p)" .
  have "books G (hm_insert n q (node_peers s)) (free_all (map psi_index retired) (used s))"
    by (rule books_update [OF b p'(1) q(1)], subst hp) (simp add: rt q(2) ac_simps)
  moreover have "pr_peers r' = hm_insert n q (node_peers s)"
    using retire_peers [of "put_peer (rn_reg s) n q" n "active_peer_session_indices p" "active_peer_session_indices q"] ret by simp
  ultimately show ?thesis
    by (simp add: accounted_def replace_peer_session_def replace_current_session_and_path_def p'(2) ret
        insert_session_index_def Let_def flip: q_def)
qed

lemma release_removed_view [simp]:
  "node_peers (foldl release_removed s xs) = node_peers s"
  "used (foldl release_removed s xs) = free_all (map psi_index xs) (used s)"
  by (induction xs arbitrary: s) (simp_all add: release_removed_def Let_def)

lemma remove_accounted:
  assumes a: "accounted G s"
  shows "accounted G (remove_active_peer s n)"
proof (cases "get_peer (rn_reg s) n")
  case (Some p)
  have b: "books G (node_peers s) (used s)" and p: "map_of (node_peers s) n = Some p"
    using a Some by (simp_all add: accounted_def get_peer_def)
  show ?thesis
    using books_remove [OF b p] session_indices_held [OF books_distinct(2,1) [OF b p]]
    by (simp add: remove_active_peer_def remove_with_session_indices_def Some accounted_def)
qed (use a in \<open>simp add: remove_active_peer_def remove_with_session_indices_def\<close>)

lemma set_current_addr_ok [simp]:
  "peer_ok p \<Longrightarrow> peer_ok (fst (set_current_addr p tid addr))"
  "held_indices (fst (set_current_addr p tid addr)) = held_indices p"
  by (simp_all add: set_current_addr_def peer_ok_def held_indices_def)

lemma touch_ok [simp]: "peer_ok (touch p t) = peer_ok p" "held_indices (touch p t) = held_indices p"
  by (simp_all add: touch_def peer_ok_def held_indices_def Let_def)

lemma link_stats_ok [simp]: "peer_ok (p\<lparr>ap_link_stats := x\<rparr>) = peer_ok p" "held_indices (p\<lparr>ap_link_stats := x\<rparr>) = held_indices p"
  by (simp_all add: peer_ok_def held_indices_def)

lemma receive_accounted:
  assumes a: "accounted G s"
  shows "accounted G (receive_authenticated s n tid addr len t l pa)"
proof (cases "node_get s n")
  case (Some p)
  have ok: "peer_ok p" by (rule accounted_ok [OF a Some])
  define p1 where "p1 = (if pa then fst (set_current_addr (reset_decrypt_failures p) tid addr) else reset_decrypt_failures p)"
  define q where "q = (if l then touch (p1\<lparr>ap_link_stats := stats_record_recv (ap_link_stats p1) len t\<rparr>) t else p1)"
  have "peer_ok p1 \<and> held_indices p1 = held_indices p"
    using ok by (simp add: p1_def)
  then have "peer_ok q \<and> held_indices q = held_indices p"
    by (simp add: q_def)
  moreover have "receive_authenticated s n tid addr len t l pa = node_put s n q"
    using Some by (simp add: receive_authenticated_def record_authenticated_fmp_receive_def node_put_def node_get_def
        p1_def q_def Let_def case_prod_unfold)
  ultimately show ?thesis using accounted_put [OF a Some, of q] by simp
qed (use a in \<open>simp add: receive_authenticated_def record_authenticated_fmp_receive_def node_get_def\<close>)

lemma record_resend_accounted: "accounted G s \<Longrightarrow> accounted G (record_scheduled_fmp_rekey_msg1_resend d s n t)"
proof (cases "node_get s n")
  case (Some p)
  assume a: "accounted G s"
  then have "peer_ok p" using accounted_ok Some by blast
  then show ?thesis
    using accounted_put [OF a Some, of "record_rekey_msg1_resend p u" for u] Some
    by (simp add: record_scheduled_fmp_rekey_msg1_resend_def record_rekey_msg1_resend_def peer_ok_def held_indices_def)
qed (simp add: record_scheduled_fmp_rekey_msg1_resend_def)

lemma resend_accounted:
  assumes "accounted G s"
  shows "accounted G (fst (resend_pending_rekeys d t s))"
proof -
  have ex: "accounted G (foldl exhaust_msg1 s xs)" for xs
    by (rule foldl_invariant [where P = "accounted G", OF _ assms]) (rule abandons_accounted [OF abandons_intros(2)])
  have "accounted G (foldl (\<lambda>s (n, _). record_scheduled_fmp_rekey_msg1_resend d s n t) (foldl exhaust_msg1 s xs) ys)"
    for xs and ys :: "(node_addr \<times> transport_id \<times> transport_addr \<times> bytes) list"
    by (rule foldl_invariant [where P = "accounted G", OF _ ex]) (auto simp: record_resend_accounted)
  then show ?thesis using assms by (simp add: resend_pending_rekeys_def Let_def)
qed

lemma decrypt_failure_accounted:
  assumes a: "accounted G s"
  shows "accounted G (handle_decrypt_failure C A env s n)"
proof (cases "node_get s n")
  case (Some p)
  obtain q c where q: "increment_decrypt_failures p = (q, c)" by fastforce
  have ok: "peer_ok p" by (rule accounted_ok [OF a Some])
  then have qk: "peer_ok q" "held_indices q = held_indices p"
    using q by (auto simp: increment_decrypt_failures_def peer_ok_def held_indices_def)
  have put: "accounted G (node_put s n q)" using accounted_put [OF a Some qk(1)] qk(2) by simp
  obtain s' ok' where i: "initiate_rekey C A env (node_put s n q) n = (s', ok')" by fastforce
  have s': "accounted G s'" if "\<not> ap_rekey_in_progress q" "ap_pending_new_session q = None"
    using initiate_accounted [OF put, of n C A env] i that by (simp add: idle_def)
  have "accounted G (node_put s' n (reset_decrypt_failures z))" if "accounted G s'" "node_get s' n = Some z" for z
    using accounted_put [OF that, of "reset_decrypt_failures z"] accounted_ok [OF that] by simp
  then show ?thesis
    using Some q i put s' remove_accounted
    by (auto simp: handle_decrypt_failure_def decrypt_failure_action_for_def Let_def split: option.splits bool.splits)
qed (use a in \<open>simp add: handle_decrypt_failure_def\<close>)

section \<open>The tick\<close>

text \<open>A step for one peer leaves every other peer alone.\<close>

definition only_at :: "node_addr \<Rightarrow> ('s, 'p, 'k) node \<Rightarrow> ('s, 'p, 'k) node \<Rightarrow> bool" where
  "only_at n s s' \<longleftrightarrow> (\<forall>m. m \<noteq> n \<longrightarrow> node_get s' m = node_get s m)"

lemma only_atI: "node_peers s' = node_peers s \<or> (\<exists>q. node_peers s' = hm_insert n q (node_peers s)) \<Longrightarrow> only_at n s s'"
  by (auto simp: only_at_def node_get_eq hm_simps)

lemma abandons_only_at: "abandons f \<Longrightarrow> only_at n s (f s n)"
proof (cases "node_get s n")
  case (Some p)
  assume "abandons f"
  then obtain q where "node_peers (f s n) = hm_insert n q (node_peers s)"
    using Some unfolding abandons_def by blast
  then show ?thesis by (intro only_atI) blast
qed (simp add: abandons_def only_at_def)

lemma confirm_peers:
  "pr_peers (fst (confirm_pending_peer_session r n k now j)) = pr_peers r \<or>
   (\<exists>q. pr_peers (fst (confirm_pending_peer_session r n k now j)) = hm_insert n q (pr_peers r))"
proof (cases "get_peer r n")
  case (Some p)
  obtain q x where q: "confirm_pending_session p k now j = (q, x)" by fastforce
  have "pr_peers (fst (confirm_pending_peer_session r n k now j)) = hm_insert n q (pr_peers r)"
    by (cases x) (simp_all add: confirm_pending_peer_session_def Some q case_prod_unfold)
  then show ?thesis by blast
qed (simp add: confirm_pending_peer_session_def)

lemma node_cutover_only_at: "only_at n s (node_cutover now j s n)"
proof (rule only_atI)
  have "node_peers (node_cutover now j s n) = pr_peers (fst (cutover_due_fmp_rekey (rn_reg s) n now j))"
    by (simp add: node_cutover_def Let_def split: prod.splits option.splits)
  then show "node_peers (node_cutover now j s n) = node_peers s \<or> (\<exists>q. node_peers (node_cutover now j s n) = hm_insert n q (node_peers s))"
    using confirm_peers [of "rn_reg s" n _ now j] by (simp add: cutover_due_fmp_rekey_def split: option.splits)
qed

lemma node_drain_only_at: "only_at n s (node_drain now s n)"
proof (rule only_atI)
  have "node_peers (node_drain now s n) = pr_peers (fst (complete_due_fmp_rekey_drain (rn_reg s) n now))"
    by (simp add: node_drain_def Let_def split: prod.splits option.splits)
  then show "node_peers (node_drain now s n) = node_peers s \<or> (\<exists>q. node_peers (node_drain now s n) = hm_insert n q (node_peers s))"
    by (auto simp: complete_due_fmp_rekey_drain_def Let_def split: prod.splits option.splits)
qed

lemma abandon_other:
  "m \<noteq> n \<Longrightarrow> map_of (node_peers (fst (abandon_fmp_rekey_for_peer s n))) m = map_of (node_peers s) m"
  using abandons_only_at [OF abandons_intros(1), of n s] by (simp add: only_at_def node_get_eq)

lemma initiate_only_at: "only_at n s (fst (initiate_rekey C A env s n))"
  unfolding only_at_def node_get_eq
  by (auto simp: initiate_rekey_def Let_def abandon_other hm_simps split: prod.splits outcome.splits option.splits)

lemma foldl_only_at:
  assumes "\<And>s n. only_at n s (f s n)" "m \<notin> set ns"
  shows "node_get (foldl f s ns) m = node_get s m"
  using assms(2) by (induction ns arbitrary: s) (use assms(1) in \<open>auto simp: only_at_def\<close>)

lemma initiate_all_accounted:
  assumes "accounted G s" "distinct ns" "\<forall>n \<in> set ns. idle s n"
  shows "accounted G (foldl (\<lambda>s n. fst (initiate_rekey C A (env n) s n)) s ns)"
  using assms
proof (induction ns arbitrary: s)
  case (Cons n ns)
  have "idle (fst (initiate_rekey C A (env n) s n)) m" if "m \<in> set ns" for m
    using initiate_only_at [of n s C A "env n"] Cons.prems(2,3) that by (auto simp: idle_def only_at_def)
  then show ?case using Cons initiate_accounted [OF Cons.prems(1), of n C A "env n"] by simp
qed simp

lemma plan_initiate:
  assumes "plan_fmp_rekey_tick r a b now = (cutover, drain, initiate)" "hm_inv (pr_peers r)"
  shows "distinct initiate"
    and "n \<in> set initiate \<Longrightarrow> n \<notin> set cutover \<and> n \<notin> set drain \<and>
      (\<exists>p. get_peer r n = Some p \<and> \<not> ap_rekey_in_progress p \<and> ap_pending_new_session p = None)"
proof -
  have d: "distinct (map fst (pr_peers r))" using assms(2) by (simp add: hm_inv_def)
  have c: "cutover = map fst (filter (\<lambda>(_, p). plan_peer a b now p = Cutover) (pr_peers r))"
    and dr: "drain = map fst (filter (\<lambda>(_, p). case plan_peer a b now p of Plan x _ \<Rightarrow> x | Cutover \<Rightarrow> False) (pr_peers r))"
    and i: "initiate = map fst (filter (\<lambda>(_, p). case plan_peer a b now p of Plan _ x \<Rightarrow> x | Cutover \<Rightarrow> False) (pr_peers r))"
    using assms(1) by (auto simp: plan_fmp_rekey_tick_def Let_def filter_map comp_def case_prod_unfold)
  show "distinct initiate" using d by (simp add: i distinct_map_filter)
  assume "n \<in> set initiate"
  then obtain p where p: "(n, p) \<in> set (pr_peers r)" "case plan_peer a b now p of Plan _ x \<Rightarrow> x | Cutover \<Rightarrow> False"
    by (auto simp: i)
  have uniq: "p' = p" if "(n, p') \<in> set (pr_peers r)" for p'
    using that p(1) d eq_key_imp_eq_value by metis
  have "\<not> ap_rekey_in_progress p \<and> ap_pending_new_session p = None \<and> plan_peer a b now p = Plan False True"
    using p(2) by (auto simp: plan_peer_def Let_def split: if_splits)
  moreover have "get_peer r n = Some p" using p(1) hm_mem_iff [OF assms(2)] by (simp add: get_peer_def)
  ultimately show "n \<notin> set cutover \<and> n \<notin> set drain \<and>
      (\<exists>p. get_peer r n = Some p \<and> \<not> ap_rekey_in_progress p \<and> ap_pending_new_session p = None)"
    using uniq by (auto simp: c dr)
qed

lemma check_rekey_accounted:
  assumes a: "accounted G s"
  shows "accounted G (check_rekey C A env jitter now s)"
proof -
  define s1 where "s1 = expire_unconfirmed_fmp_rekeys s now"
  have s1: "accounted G s1" unfolding s1_def by (rule expire_accounted [OF a])
  obtain cutover drain initiate where plan:
    "plan_fmp_rekey_tick (rn_reg s1) (rn_after_secs s1) (rn_after_messages s1) now = (cutover, drain, initiate)"
    by (metis prod.exhaust)
  define s2 where "s2 = foldl (\<lambda>s n. node_cutover now (jitter n) s n) s1 cutover"
  define s3 where "s3 = foldl (node_drain now) s2 drain"
  have s2: "accounted G s2"
    unfolding s2_def by (rule foldl_invariant [where P = "accounted G", OF _ s1]) (rule node_cutover_accounted)
  have s3: "accounted G s3"
    unfolding s3_def by (rule foldl_invariant [where P = "accounted G", OF _ s2]) (rule node_drain_accounted)
  have inv: "hm_inv (pr_peers (rn_reg s1))" using s1 by (simp add: accounted_def books_def)
  have "idle s3 n" if n: "n \<in> set initiate" for n
  proof -
    note pl = plan_initiate(2) [OF plan inv n]
    have "node_get s3 n = node_get s1 n"
      unfolding s3_def s2_def
      using pl by (simp add: foldl_only_at [of "node_drain now"] node_drain_only_at
          foldl_only_at [of "\<lambda>s n. node_cutover now (jitter n) s n"] node_cutover_only_at)
    then show ?thesis using pl by (auto simp: idle_def node_get_def)
  qed
  then have "accounted G (foldl (\<lambda>s n. fst (initiate_rekey C A (env n) s n)) s3 initiate)"
    by (intro initiate_all_accounted [OF s3 plan_initiate(1) [OF plan inv]]) blast
  then show ?thesis
    using s3 plan by (simp add: check_rekey_def Let_def flip: s1_def s2_def s3_def)
qed

section \<open>Promotion\<close>

text \<open>The indices of an existing peer that a promotion leaves behind: none, unless the promotion finds that the
  peer has restarted, when the slots of a rekey are dropped with the peer.\<close>

definition rekey_slots :: "('s, 'p, 'k) peer \<Rightarrow> session_index list" where
  "rekey_slots p = opt_list (ap_rekey_our_index p) @ opt_list (ap_pending_our_index p) @ opt_list (ap_previous_our_index p)"

definition left_behind :: "('s, 'p, 'k) node \<Rightarrow> node_addr \<Rightarrow> ('p, 'k) promotion \<Rightarrow> u32 multiset" where
  "left_behind s n m = (case node_get s n of
     Some old \<Rightarrow> if remote_epoch_changed (ap_remote_epoch old) (aps_remote_epoch (pm_session m))
                 then mset (map as_u32 (rekey_slots old)) else {#}
   | None \<Rightarrow> {#})"

lemma set_preferred_send_addr_ok [simp]:
  "peer_ok (fst (set_preferred_send_addr p a)) = peer_ok p"
  "held_indices (fst (set_preferred_send_addr p a)) = held_indices p"
  by (simp_all add: set_preferred_send_addr_def peer_ok_def held_indices_def)

lemma set_tree_announce_min_interval_ok [simp]:
  "peer_ok (set_tree_announce_min_interval_ms p t) = peer_ok p"
  "held_indices (set_tree_announce_min_interval_ms p t) = held_indices p"
  by (simp_all add: set_tree_announce_min_interval_ms_def peer_ok_def held_indices_def)

lemma promoted_peer_ok [simp]:
  "peer_ok (promoted_peer n m)" "held_indices (promoted_peer n m) = [aps_our_index (pm_session m)]"
  by (simp_all add: promoted_peer_def Let_def split: option.split)

lemma insert_with_current_peers: "pr_peers (fst (insert_with_current_session_index r n p)) = hm_insert n p (pr_peers r)"
  by (simp add: insert_with_current_session_index_def insert_session_index_def Let_def split: option.splits)

lemma insert_promoted_accounted:
  "accounted (add_mset (as_u32 (aps_our_index (pm_session m))) G) s \<Longrightarrow> node_get s n = None \<Longrightarrow>
     accounted G (insert_promoted s n m)"
  using books_new [of G "promoted_peer n m" "node_peers s" "used s" n]
  by (simp add: accounted_def insert_promoted_def insert_with_current_peers node_get_eq)

lemma node_remove_peer_view [simp]:
  "node_peers (fst (node_remove_peer s n)) = hm_remove n (node_peers s)"
  "used (fst (node_remove_peer s n)) = used s" "snd (node_remove_peer s n) = node_get s n"
  by (simp_all add: node_remove_peer_def registry_remove_def node_get_def)

lemma remove_peer_accounted:
  "accounted G s \<Longrightarrow> node_get s n = Some p \<Longrightarrow>
     accounted (G + mset (map as_u32 (held_indices p))) (fst (node_remove_peer s n))"
  using books_drop [of G "node_peers s" "used s" n p "[]" "held_indices p"] by (simp add: accounted_def node_get_eq)

lemma sync_promoted_accounted: "accounted G s \<Longrightarrow> accounted G (fst (sync_promoted_handshake s n m r))"
  by (simp add: sync_promoted_handshake_def remove_accounted)

lemma replace_restarted_accounted:
  assumes a: "accounted (add_mset (as_u32 (aps_our_index (pm_session m))) G) s" and p: "node_get s n = Some old"
  shows "accounted (G + mset (map as_u32 (rekey_slots old))) (replace_restarted_peer s n old m)"
proof -
  have b: "books (add_mset (as_u32 (aps_our_index (pm_session m))) G) (node_peers s) (used s)"
    and p': "map_of (node_peers s) n = Some old" using a p by (simp_all add: accounted_def node_get_eq)
  obtain tid i where i: "ap_transport_id old = Some tid" "ap_our_index old = Some i"
    using books_distinct(2) [OF b p'] by (auto simp: peer_ok_def)
  define s1 where "s1 = free_index (deregister_session_index (fst (node_remove_peer s n)) (tid, as_u32 i)) i"
  have "mset (held_indices old) = mset [i] + mset (rekey_slots old)"
    by (simp add: held_indices_def rekey_slots_def i)
  from books_drop [OF b p' this]
  have "accounted (add_mset (as_u32 (aps_our_index (pm_session m))) (G + mset (map as_u32 (rekey_slots old)))) s1"
    by (simp add: accounted_def s1_def)
  moreover have "node_get s1 n = None" by (simp add: s1_def node_get_eq hm_simps)
  ultimately show ?thesis
    using insert_promoted_accounted [of m "G + mset (map as_u32 (rekey_slots old))" s1 n]
    by (simp add: replace_restarted_peer_def i Let_def flip: s1_def)
qed

lemma promote_connection_accounted:
  assumes a: "accounted (add_mset (as_u32 (aps_our_index (pm_session m))) G) s"
  shows "accounted (G + left_behind s n m) (fst (promote_connection s n m))"
proof -
  have freed: "accounted G (free_index s (aps_our_index (pm_session m)))"
    using a books_free by (simp add: accounted_def)
  show ?thesis
  proof (cases "node_get s n")
    case None
    then show ?thesis
      using insert_promoted_accounted [OF a None] freed
      by (simp add: promote_connection_def left_behind_def sync_promoted_accounted)
  next
    case (Some old)
    define s1 where "s1 = replace_peer_session s n (promotion_replacement m) (pm_now m) (pm_jitter m)"
    have "sr_our_index (promotion_replacement m) = aps_our_index (pm_session m)"
      by (simp add: promotion_replacement_def Let_def)
    then have s1: "accounted G s1" unfolding s1_def using replace_accounted [of "promotion_replacement m"] a Some by metis
    have "accounted G (case (pm_preferred_send_addr m, node_get s1 n) of
        (Some a, Some p) \<Rightarrow> node_put s1 n (fst (set_preferred_send_addr p a)) | _ \<Rightarrow> s1)"
      using s1 accounted_put [OF s1, of n] accounted_ok [OF s1, of n] by (auto split: option.split)
    then show ?thesis
      using Some freed replace_restarted_accounted [OF a Some]
      by (simp add: promote_connection_def left_behind_def sync_promoted_accounted Let_def flip: s1_def)
  qed
qed

section \<open>All histories\<close>

text \<open>
  The state pairs the node with the indices that handshakes outside the peer table own. A handshake may
  take an index from the allocator, give it back (once more without effect, as the error path of a promotion does),
  or hand it over when its connection is promoted or replaces the session of a known peer. Recovery starts a
  rekey only for a peer without one, as its callers check.
\<close>

inductive index_step ::
  "('s, 'p) curve \<Rightarrow> 'k aead \<Rightarrow> u32 multiset \<times> ('s, 'p, 'k) node \<Rightarrow> u32 multiset \<times> ('s, 'p, 'k) node \<Rightarrow> bool"
  for C :: "('s, 'p) curve" and A :: "'k aead" where
  handshake_allocates: "allocate draws (rn_alloc s) = (al, Ok i) \<Longrightarrow>
    index_step C A (G, s) (add_mset (as_u32 i) G, s\<lparr>rn_alloc := al\<rparr>)"
| handshake_frees: "index_step C A (add_mset (as_u32 i) G, s) (G, free_index s i)"
| freed_again: "as_u32 i \<notin> set (ia_in_use (rn_alloc s)) \<Longrightarrow> index_step C A (G, s) (G, free_index s i)"
| promoted: "left_behind s n m = {#} \<Longrightarrow>
    index_step C A (add_mset (as_u32 (aps_our_index (pm_session m))) G, s) (G, fst (promote_connection s n m))"
| replaced: "node_get s n \<noteq> None \<Longrightarrow>
    index_step C A (add_mset (as_u32 (sr_our_index x)) G, s) (G, replace_peer_session s n x now j)"
| removed: "index_step C A (G, s) (G, remove_active_peer s n)"
| ticked: "index_step C A (G, s) (G, check_rekey C A env jitter now s)"
| recovered: "idle s n \<Longrightarrow> index_step C A (G, s) (G, fst (initiate_rekey C A e s n))"
| resent: "index_step C A (G, s) (G, fst (resend_pending_rekeys delay now_ms s))"
| answered: "handle_rekey_msg2 C A s ik ri si m now = Ok s' \<Longrightarrow> index_step C A (G, s) (G, s')"
| requested: "index_step C A (G, s) (G, fst (respond_rekey_msg1 s n env1))"
| confirmed: "index_step C A (G, s) (G, fst (promote_authenticated_pending_epoch s n c k now j))"
| abandoned: "index_step C A (G, s) (G, fst (abandon_fmp_rekey_for_peer s n))"
| retired: "index_step C A (G, s) (G, fst (retire_fmp_rekey_drain_for_dead_path s n))"
| undecryptable: "index_step C A (G, s) (G, handle_decrypt_failure C A e s n)"
| received: "index_step C A (G, s) (G, receive_authenticated s n tid addr len t l pa)"

text \<open>Two operations lose indices: the promotion that replaces a restarted peer, and the removal of a peer
  through the public accessor, which frees nothing. The lost indices are the second component.\<close>

inductive ownership_step ::
  "('s, 'p) curve \<Rightarrow> 'k aead \<Rightarrow> u32 multiset \<times> u32 multiset \<times> ('s, 'p, 'k) node
     \<Rightarrow> u32 multiset \<times> u32 multiset \<times> ('s, 'p, 'k) node \<Rightarrow> bool"
  for C :: "('s, 'p) curve" and A :: "'k aead" where
  kept: "index_step C A (G, s) (G', s') \<Longrightarrow> ownership_step C A (G, L, s) (G', L, s')"
| restarted: "ownership_step C A (add_mset (as_u32 (aps_our_index (pm_session m))) G, L, s)
    (G, L + left_behind s n m, fst (promote_connection s n m))"
| taken_out: "node_remove_peer s n = (s', Some p) \<Longrightarrow>
    ownership_step C A (G, L, s) (G, L + mset (map as_u32 (held_indices p)), s')"

lemma index_step_accounted: "index_step C A x y \<Longrightarrow> accounted (fst x + L) (snd x) \<Longrightarrow> accounted (fst y + L) (snd y)"
proof (induction rule: index_step.induct)
  case (handshake_allocates draws s al i G)
  then show ?case
    using allocate_view(1) [OF handshake_allocates(1)] books_allocate [of "G + L" "node_peers s" "used s" "as_u32 i"]
    by (simp add: accounted_def)
next
  case (handshake_frees i G s)
  then show ?case using books_free [of "as_u32 i" "G + L"] by (simp add: accounted_def)
next
  case (freed_again i s G)
  then show ?case by (simp add: accounted_def remove1_idem)
next
  case (promoted s n m G)
  then show ?case using promote_connection_accounted [of m "G + L" s n] by simp
next
  case (replaced s n x G now j)
  then show ?case using replace_accounted by fastforce
qed (simp_all add: remove_accounted check_rekey_accounted initiate_accounted resend_accounted handle_rekey_msg2_accounted
    respond_accounted promote_accounted abandons_accounted [OF abandons_intros(1)] retire_drain_accounted
    decrypt_failure_accounted receive_accounted)

lemma ownership_step_accounted:
  "ownership_step C A x y \<Longrightarrow> accounted (fst x + fst (snd x)) (snd (snd x)) \<Longrightarrow>
     accounted (fst y + fst (snd y)) (snd (snd y)) \<and> fst (snd x) \<subseteq># fst (snd y)"
proof (induction rule: ownership_step.induct)
  case (kept G s G' s' L)
  then show ?case using index_step_accounted [OF kept(1), of L] by simp
next
  case (restarted m G L s n)
  then show ?case using promote_connection_accounted [of m "G + L" s n] by (simp add: ac_simps)
next
  case (taken_out s n s' p G L)
  then have "node_get s n = Some p" "s' = fst (node_remove_peer s n)" using node_remove_peer_view(3) [of s n] by simp_all
  then show ?case using remove_peer_accounted [of "G + L" s n p] taken_out by (simp add: ac_simps)
qed

lemma ownership_run_accounted:
  assumes "(ownership_step C A)\<^sup>*\<^sup>* x y" "accounted (fst x + fst (snd x)) (snd (snd x))"
  shows "accounted (fst y + fst (snd y)) (snd (snd y)) \<and> fst (snd x) \<subseteq># fst (snd y)"
  using assms
proof (induction rule: rtranclp_induct)
  case (step y z)
  have y: "accounted (fst y + fst (snd y)) (snd (snd y))" "fst (snd x) \<subseteq># fst (snd y)"
    using step.IH [OF step.prems] by blast+
  show ?case
    using ownership_step_accounted [OF step.hyps(2) y(1)] subset_mset.order_trans [OF y(2)] by blast
qed simp

lemma index_run_kept: "(index_step C A)\<^sup>*\<^sup>* x y \<Longrightarrow> (ownership_step C A)\<^sup>*\<^sup>* (fst x, L, snd x) (fst y, L, snd y)"
proof (induction rule: rtranclp_induct)
  case (step y z)
  then show ?case using ownership_step.kept [of C A "fst y" "snd y" "fst z" "snd z" L] by (simp add: rtranclp.rtrancl_into_rtrancl)
qed simp

text \<open>C3: Session indices are accounted for. After any history of first handshakes, promotions of every kind,
  replacements, removals, ticks, retransmissions, rekey messages of both roles, cutovers, failures to decrypt and
  roaming, the indices the allocator has handed out are, each exactly once, those taken by a first handshake and not yet handed
  over or given back, those in the four slots of the peers, and those lost. Two operations lose indices: a promotion that finds
  the peer restarted drops it and gives back only its current index, so that those of a rekey in progress, of a pending and of a
  draining session are lost, and the public accessor that takes a peer out of the table gives back none. A lost index is
  never available again. In a state that can be reached without such a loss nothing is lost: rekeying itself neither leaks
  an index nor frees one in use. No peer has both a rekey in progress and a completed one waiting, which is what lets a rekey
  be abandoned by freeing a single index.\<close>

theorem rekey_indices_accounted:
  assumes "(ownership_step C A)\<^sup>*\<^sup>* ({#}, {#}, s0) (G, L, s)" "pr_peers (rn_reg s0) = []" "ia_in_use (rn_alloc s0) = []"
  shows "distinct (ia_in_use (rn_alloc s))
    \<and> mset (ia_in_use (rn_alloc s)) = G + L + mset (map as_u32 (concat (map (held_indices \<circ> snd) (pr_peers (rn_reg s)))))
    \<and> ((index_step C A)\<^sup>*\<^sup>* ({#}, s0) (G, s) \<longrightarrow> L = {#})
    \<and> (\<forall>G' L' s'. (ownership_step C A)\<^sup>*\<^sup>* (G, L, s) (G', L', s') \<longrightarrow> set_mset L \<subseteq> set (ia_in_use (rn_alloc s')))
    \<and> (\<forall>n p. node_get s n = Some p \<longrightarrow> ap_rekey_our_index p = None \<or> ap_pending_our_index p = None)"
proof -
  have "accounted {#} s0" using assms(2,3) by (simp add: accounted_def books_def slots_def)
  then have run: "accounted (G' + L') s'" if "(ownership_step C A)\<^sup>*\<^sup>* ({#}, {#}, s0) (G', L', s')" for G' L' s'
    using ownership_run_accounted [OF that] by simp
  note a = run [OF assms(1)]
  have "L = {#}" if "(index_step C A)\<^sup>*\<^sup>* ({#}, s0) (G, s)"
    using run [of G "{#}" s] index_run_kept [OF that, of "{#}"] a by (simp add: accounted_def books_def)
  moreover have "set_mset L \<subseteq> set (used s')" if "(ownership_step C A)\<^sup>*\<^sup>* (G, L, s) (G', L', s')" for G' L' s'
    using ownership_run_accounted [OF that] a set_mset_mono [of L L'] set_mset_mset [of "used s'"]
    by (auto simp: accounted_def books_def)
  moreover have "slots ps = mset (map as_u32 (concat (map (held_indices \<circ> snd) ps)))" for ps :: "(node_addr, ('a, 'b, 'c) peer) hmap"
    by (induction ps) (simp_all add: slots_def)
  moreover have "ap_rekey_our_index p = None \<or> ap_pending_our_index p = None" if "node_get s n = Some p" for n p
    using accounted_ok [OF a that] by (auto simp: peer_ok_def)
  ultimately show ?thesis using a by (simp add: accounted_def books_def)
qed

definition demo_session :: "unit noise_session" where
  "demo_session = from_handshake Initiator cipher_empty cipher_empty [] [] []"

definition demo_node :: "(u8, u8 \<times> bool, unit) node" where
  "demo_node = \<lparr>rn_reg = registry_new, rn_alloc = allocator_new, rn_pending_outbound = [], rn_node_addr = NodeAddr 9,
     rn_static = 5, rn_startup_epoch = [], rn_rekey_enabled = True, rn_after_secs = 120, rn_after_messages = 1000,
     rn_handshake_timeout_secs = 30, rn_resend_interval_ms = 1000, rn_max_resends = 5\<rparr>"

definition with_allocated :: "u32 \<Rightarrow> (u8, u8 \<times> bool, unit) node \<Rightarrow> (u8, u8 \<times> bool, unit) node" where
  "with_allocated i s = s\<lparr>rn_alloc := fst (allocate (\<lambda>_. i) (rn_alloc s))\<rparr>"

definition demo_promotion :: "u32 \<Rightarrow> bytes \<Rightarrow> (u8 \<times> bool, unit) promotion" where
  "demo_promotion i epoch = \<lparr>pm_pubkey = (7, True), pm_link_id = LinkId 3,
     pm_session = \<lparr>aps_session = demo_session, aps_our_index = SessionIndex i, aps_their_index = SessionIndex 77,
       aps_transport_id = TransportId 1, aps_current_addr = [1, 2], aps_link_stats = link_stats_new,
       aps_is_initiator = True, aps_remote_epoch = Some epoch\<rparr>,
     pm_preferred_send_addr = None, pm_announce_min_interval_ms = 500, pm_wins = False, pm_admitted = True,
     pm_transferred = True, pm_now_ms = 1000, pm_now = 0, pm_jitter = 0\<rparr>"

definition demo_promoted :: "(u8, u8 \<times> bool, unit) node" where
  "demo_promoted = fst (promote_connection (with_allocated 5 demo_node) (NodeAddr 1) (demo_promotion 5 [1]))"

definition demo_msg1 :: "unit msg1_env" where
  "demo_msg1 = \<lparr>me_sender_idx = SessionIndex 78, me_established_rekey = True, me_session = Some demo_session,
     me_msg2_response = [], me_draws = (\<lambda>_. 6), me_route_ready = True, me_epoch_ready = True, me_send_ok = True,
     me_now = 10, me_now_ms = 1\<rparr>"

definition demo_responded :: "(u8, u8 \<times> bool, unit) node" where
  "demo_responded = fst (respond_rekey_msg1 demo_promoted (NodeAddr 1) demo_msg1)"

definition demo_restarted :: "(u8, u8 \<times> bool, unit) node" where
  "demo_restarted = fst (promote_connection (with_allocated 7 demo_responded) (NodeAddr 1) (demo_promotion 7 [2]))"

lemma allocate_first:
  "0 < ia_max_attempts a \<Longrightarrow> draws 0 \<notin> set (ia_in_use a) \<Longrightarrow>
     allocate draws a = (a\<lparr>ia_in_use := List.insert (draws 0) (ia_in_use a)\<rparr>, Ok (SessionIndex (draws 0)))"
  by (cases "ia_max_attempts a") (simp_all add: allocate_def)

lemmas demo_eval = respond_rekey_msg1_def duplicate_rekey_msg2_def install_responder_rekey_def node_get_def get_peer_def
  install_pending_rekey_session_and_index_def insert_with_current_session_index_def insert_session_index_def
  active_peer_current_session_index_def peer_with_session_def peer_new_def is_draining_def registry_new_def
  allocator_new_def with_max_attempts_def allocate_first hm_insert_def Let_def with_allocated_def
  promote_connection_def sync_promoted_handshake_def insert_promoted_def promoted_peer_def set_tree_announce_min_interval_ms_def

lemma with_allocated_step:
  assumes "0 < ia_max_attempts (rn_alloc s)" "i \<notin> set (ia_in_use (rn_alloc s))"
  shows "ownership_step C A (G, L, s) (add_mset i G, L, with_allocated i s)"
proof -
  have "allocate (\<lambda>_. i) (rn_alloc s) = (fst (allocate (\<lambda>_. i) (rn_alloc s)), Ok (SessionIndex i))"
    using assms by (simp add: allocate_first)
  from ownership_step.kept [OF index_step.handshake_allocates [OF this]] show ?thesis
    by (simp add: with_allocated_def)
qed

lemma promotion_step:
  "ownership_step C A (add_mset i G, L, s) (G, L + left_behind s n (demo_promotion i e), fst (promote_connection s n (demo_promotion i e)))"
  using ownership_step.restarted [of C A "demo_promotion i e" G L s n] by (simp add: demo_promotion_def)

lemma demo_promoted_view:
  "rn_alloc demo_promoted = allocator_new\<lparr>ia_in_use := [5]\<rparr>"
  "left_behind (with_allocated 5 demo_node) (NodeAddr 1) (demo_promotion 5 [1]) = {#}"
  by (simp_all add: demo_promoted_def demo_node_def demo_promotion_def left_behind_def demo_eval)

lemma node_put_alloc [simp]: "rn_alloc (node_put s n p) = rn_alloc s"
  by (simp add: node_put_def)

lemma demo_responded_view:
  "rn_alloc demo_responded = allocator_new\<lparr>ia_in_use := [6, 5]\<rparr>"
  "\<exists>p. node_get demo_responded (NodeAddr 1) = Some p \<and> ap_remote_epoch p = Some [1] \<and> ap_rekey_our_index p = None
     \<and> ap_pending_our_index p = Some (SessionIndex 6) \<and> ap_previous_our_index p = None"
  by (simp_all add: demo_responded_def demo_promoted_def demo_node_def demo_promotion_def demo_msg1_def demo_eval
      set_pending_session_def record_peer_rekey_def set_handshake_msg2_def)

lemma demo_left_behind: "left_behind (with_allocated 7 demo_responded) (NodeAddr 1) (demo_promotion 7 [2]) = {#6#}"
  using demo_responded_view(2)
  by (auto simp: left_behind_def demo_promotion_def rekey_slots_def remote_epoch_changed_def with_allocated_def node_get_def)

lemma demo_history: "(ownership_step mini_curve tag_aead)\<^sup>*\<^sup>* ({#}, {#}, demo_node) ({#}, {#6#}, demo_restarted)"
proof -
  have "ownership_step mini_curve tag_aead ({#}, {#}, demo_node) ({#5#}, {#}, with_allocated 5 demo_node)"
    by (rule with_allocated_step) (simp_all add: demo_node_def allocator_new_def with_max_attempts_def)
  moreover have "ownership_step mini_curve tag_aead ({#5#}, {#}, with_allocated 5 demo_node) ({#}, {#}, demo_promoted)"
    using promotion_step [of mini_curve tag_aead 5 "{#}" "{#}" "with_allocated 5 demo_node" "NodeAddr 1" "[1]"]
    by (simp add: demo_promoted_view(2) flip: demo_promoted_def)
  moreover have "ownership_step mini_curve tag_aead ({#}, {#}, demo_promoted) ({#}, {#}, demo_responded)"
    unfolding demo_responded_def by (intro ownership_step.kept index_step.requested)
  moreover have "ownership_step mini_curve tag_aead ({#}, {#}, demo_responded) ({#7#}, {#}, with_allocated 7 demo_responded)"
    by (rule with_allocated_step) (simp_all add: demo_responded_view(1) allocator_new_def with_max_attempts_def)
  moreover have "ownership_step mini_curve tag_aead ({#7#}, {#}, with_allocated 7 demo_responded) ({#}, {#6#}, demo_restarted)"
    using promotion_step [of mini_curve tag_aead 7 "{#}" "{#}" "with_allocated 7 demo_responded" "NodeAddr 1" "[2]"]
    by (simp add: demo_left_behind flip: demo_restarted_def)
  ultimately show ?thesis by (meson converse_rtranclp_into_rtranclp rtranclp.rtrancl_refl)
qed

text \<open>The history of the witness ends with the promotion of a restarted peer that had a pending session: its
  index 6 is still allocated and in nobody's hands.\<close>

theorem rekey_indices_accounted_witness:
  "mset (ia_in_use (rn_alloc demo_restarted)) =
     {#} + {#6#} + mset (map as_u32 (concat (map (held_indices \<circ> snd) (pr_peers (rn_reg demo_restarted)))))"
  using rekey_indices_accounted [OF demo_history]
  by (simp add: demo_node_def registry_new_def allocator_new_def with_max_attempts_def)

end
