(* ===== verification/Spec2Isabelle.thy ===== *)
theory Spec2Isabelle
  imports Noise_Session Greedy_Routing Wire_Control Wire_Discovery Wire_Report Wire_Tree Wire_Filter Bloom_State
    Noise_Handshake Rate_Limit Session_Index Coord_Cache Learned_Routes Lookup_Limits Lookup_State
    Tcp_Mss Icmpv6 Ipv6_Shim Stream_Framing Ble_Framing Mmp_State Error_Emission Address_Pool Rekey_Accounting F64_Average
begin

text \<open>
  Verification of the protocol core of FIPS, a self-organising mesh network: nodes are identified by keys,
  authenticate each other hop by hop with Noise, arrange themselves in a spanning tree, route greedily on tree
  coordinates and carry IPv6 end to end. The sources are Rust; file names below are relative to
  \<^verbatim>\<open>src/crates/fips-core/src\<close> unless another crate is named.

  \<^bold>\<open>Conventions.\<close> A struct is a record, an enum a datatype, an operation a function that returns the state it
  leaves behind. Integers are words of their width and wrap as in the release profile (\<open>u8\<close> to \<open>u64\<close>); \<open>usize\<close> is a
  natural number; bytes are lists. An operation that can fail returns an \<open>outcome\<close>: \<open>Ok\<close>, \<open>Err\<close>, or \<open>Panic\<close> for a
  panic of the code (a slice out of range, an \<^verbatim>\<open>expect\<close>, crossed bounds of \<^verbatim>\<open>clamp\<close>). Hash maps are association lists in
  an arbitrary iteration order, ordered sets are sorted lists. Clocks, random draws, the answers of the network
  and of other components are arguments. Third-party cryptography is a parameter (records \<open>aead\<close> and \<open>curve\<close>,
  functions \<open>sha256\<close>, \<open>sig_ok\<close>); what a property needs of it is a hypothesis, and its witness instantiates it.

  \<^bold>\<open>Library.\<close> \<open>Fips_Prelude\<close> has the words, buffers, codecs and the locales \<open>invariant_machine\<close>, \<open>bounded_machine\<close>, \<open>wire_codec\<close> and
  \<open>choice\<close>; \<open>Hash_Map\<close> the maps; \<open>Limiter\<close> and \<open>Metering\<close> the contracts of interval limiters and token
  buckets; \<open>F64\<close> and \<open>F64_Average\<close> binary64 with its rounding; \<open>Inet_Checksum\<close> the one's-complement sum. Every locale is
  interpreted on the definitions of the components that provide it, and the properties use the interpreted facts.

  \<^bold>\<open>Identity and Noise.\<close> \<open>Identity\<close> (crate \<^verbatim>\<open>fips-identity\<close>) has node addresses and the challenge. \<open>Replay_Window\<close>
  (\<^verbatim>\<open>noise/replay.rs\<close>) is refined to the set of accepted counters. \<open>Noise_Session\<close> (\<^verbatim>\<open>noise/mod.rs\<close>, \<^verbatim>\<open>noise/session.rs\<close>) shows
  that nonces are never reused, that what is sealed opens, and that between resets of the window a counter is delivered
  once by the transport-phase entry points. \<open>Noise_Handshake\<close> (\<^verbatim>\<open>noise/handshake.rs\<close>) runs IK and XK between both roles to
  agreement, shows that a rejected message leaves the handshake as it was, and that the transcript hash is not
  authenticated.

  \<^bold>\<open>Peers and rekeying.\<close> \<open>Session_Index\<close> (\<^verbatim>\<open>utils/index.rs\<close>) allocates the indices that name sessions on the wire.
  \<open>Active_Peer\<close> (\<^verbatim>\<open>peer/active.rs\<close>, \<^verbatim>\<open>peer/active/rekey.rs\<close>), \<open>Peer_Registry\<close> (\<^verbatim>\<open>node/peer_lifecycle.rs\<close>,
  \<^verbatim>\<open>node/peer_runtime.rs\<close>) and \<open>Peer_Rekey\<close> (\<^verbatim>\<open>node/handlers/rekey.rs\<close>, the rekey branches of the handshake handlers,
  \<^verbatim>\<open>node/handlers/handshake/promotion.rs\<close>) model an authenticated peer, the table of peers and every handler that moves an
  index. \<open>Rekey_Accounting\<close> composes them: \<open>index_step\<close> is the relation of the operations that keep the books,
  \<open>ownership_step\<close> adds the two that lose indices, and each index the allocator has handed out is owned exactly once or
  lost by one of these two.

  \<^bold>\<open>Tree and routing.\<close> \<open>Tree_Coordinate\<close> and \<open>Tree_State\<close> (\<^verbatim>\<open>proto/stp\<close>) have coordinates with their metric, parent
  selection, root election and flap dampening; \<open>Wire_Tree\<close> the announcement and its validation. \<open>Greedy_Routing\<close> is a network
  of such nodes: forwarding never loops, and on a quiescent tree it delivers within the tree distance. \<open>Bloom_Filter\<close>,
  \<open>Bloom_State\<close> and \<open>Wire_Filter\<close> (\<^verbatim>\<open>proto/bloom\<close>, \<^verbatim>\<open>proto/protocol/filter.rs\<close>) have the reachability filters: no false
  negatives, exact deadlines, and a one-pass fan-out equal to merging peer by peer. \<open>Coord_Cache\<close> (\<^verbatim>\<open>cache\<close>),
  \<open>Learned_Routes\<close> (\<^verbatim>\<open>proto/routing.rs\<close>), \<open>Lookup_State\<close> and \<open>Lookup_Limits\<close> (\<^verbatim>\<open>proto/lookup_state.rs\<close>, \<^verbatim>\<open>proto/lookup.rs\<close>,
  \<^verbatim>\<open>proto/lookup_limits.rs\<close>) have the state of discovery with its bounds.

  \<^bold>\<open>Wire formats.\<close> \<open>Wire_Link\<close>, \<open>Wire_Session\<close>, \<open>Wire_Control\<close>, \<open>Wire_Discovery\<close>, \<open>Wire_Report\<close> (\<^verbatim>\<open>proto/protocol\<close>,
  \<^verbatim>\<open>proto/mmp/report.rs\<close>) and \<open>Fmp_Wire\<close> (\<^verbatim>\<open>node/wire.rs\<close>, \<^verbatim>\<open>dataplane/wire.rs\<close>): encoders and decoders with round
  trips, and decoding without panic on every input. \<open>Stream_Framing\<close>, \<open>Ble_Framing\<close> and \<open>Packet_Buffer\<close> (\<^verbatim>\<open>transport\<close>) recover
  packets from byte streams and edit them in place; the loop of the BLE decoder is a \<open>while_option\<close> shown to end.

  \<^bold>\<open>Measurement and limits.\<close> \<open>Mmp_Algorithms\<close>, \<open>Mmp_Endpoints\<close>, \<open>Mmp_Metrics\<close>, \<open>Mmp_State\<close>, \<open>Mmp_Path_Mtu\<close> and \<open>Mmp_Link\<close>
  (\<^verbatim>\<open>proto/mmp\<close>): estimators, both ends, derived metrics within their ranges, and a lossless link that measures as lossless.
  \<open>Rate_Limit\<close> and \<open>Error_Emission\<close> (\<^verbatim>\<open>proto/rate_limit.rs\<close>, \<^verbatim>\<open>upper/icmp_rate_limit.rs\<close>,
  \<^verbatim>\<open>node/peer_error_budget.rs\<close>, the gate of \<^verbatim>\<open>node/handlers/forwarding.rs\<close>) bound the errors a peer can induce.

  \<^bold>\<open>IPv6 edge.\<close> \<open>Ipv6_Shim\<close>, \<open>Tcp_Mss\<close>, \<open>Icmpv6\<close> (\<^verbatim>\<open>upper\<close>) transform packets; \<open>Address_Pool\<close> (\<^verbatim>\<open>gateway/pool.rs\<close>) hands out
  virtual addresses, neither losing nor doubling one.

  \<^bold>\<open>Bounds and fuel.\<close> Loops are structural recursion, functions with a termination proof or \<open>while_option\<close>. The index
  allocator tries as often as its \<open>ia_max_attempts\<close> says, as the code does. The path of greedy forwarding has the number of hops
  followed as fuel: loop freedom holds for every amount, and delivery with the tree distance as fuel, which is shown to be
  enough. Counting properties state the bound below which a \<open>u64\<close> counter does not wrap.

  \<^bold>\<open>Findings.\<close> Theorems that state a defect of the code: \<open>flap_dampening_engages_once\<close>, \<open>ik_transcript_not_authenticated\<close>,
  \<open>overlong_payload_length_panics\<close>, \<open>path_mtu_recovery_stuck\<close>, and the lost indices of \<open>rekey_indices_accounted\<close>; also
  \<open>merge_drops_lower_hash_count\<close> and \<open>long_burst_reported_empty\<close>.

  \<^bold>\<open>Not modelled.\<close> The packet dataplane (\<^verbatim>\<open>dataplane\<close>: worker threads, lock-free queues, batched sockets) is about memory
  ordering and scheduling, which a sequential model does not show; only its codecs are here. The event loop and the lifecycle of
  connections (\<^verbatim>\<open>node/handlers/rx_loop.rs\<close>, \<^verbatim>\<open>node/lifecycle\<close>, \<^verbatim>\<open>node/retry.rs\<close>) are asynchronous glue over sockets and timers; in
  \<open>Peer_Rekey\<close> the arbitration between two connections of one peer, which reads transports and the data plane, is an argument.
  End-to-end session management (\<^verbatim>\<open>node/session.rs\<close>) is driven by both; its parts are modelled. Discovery over Nostr and mDNS,
  the transports' sockets, the gateway's firewall rules, the tunnel device, DNS, configuration, the control socket, the embedding endpoint,
  performance counters, host integration, command-line programs and the simulator are input and output or platform calls. The parsers of
  CIDR and conntrack text in \<^verbatim>\<open>gateway/pool.rs\<close> are left out, their results are arguments. The paid forwarding service
  (\<^verbatim>\<open>crates/fips-relay\<close>) and the vendored packages are outside the protocol core. Atomics and locks inside modelled components
  are left out: an operation is one step.
\<close>

end
